(* ===== verification/Prelude.thy ===== *)
theory Prelude
  imports Main "HOL-Library.Sublist" "HOL-Library.Word"
begin

text \<open>
  Shared vocabulary of the development: the JavaScript values that cross component
  boundaries (JSON, HTTP requests, effects of a handler), the string and array
  operations of the JavaScript standard library that the sources call, and the generic
  lemmas about them. A string is a list of 8-bit characters: the model is exact for the
  strings of the ASCII range, which all literals, identifiers and protocol words of the
  sources are in.
\<close>

named_theorems js_simps \<open>evaluation of the JavaScript library operations\<close>

section \<open>JSON values, requests and effects\<close>

text \<open>
  The value a JSON text denotes. A handler that sends \<open>JSON.stringify(v)\<close> is modelled as
  sending the value \<open>v\<close>.
\<close>

datatype json =
    JNull
  | JBool bool
  | JNum int
  | JStr string
  | JArr "json list"
  | JObj "(string \<times> json) list"

text \<open>
  A stored or transferred text, seen through \<open>JSON.parse\<close>: the text of a value, or a text that
  does not parse. \<open>JSON.stringify(v)\<close> is \<open>Parses v\<close>.
\<close>

datatype json_text = Parses json | Unparsable string

text \<open>Reading a key (\<open>None\<close> is \<open>undefined\<close>), the truth value, and \<open>a || b\<close>.\<close>

fun jget :: "json \<Rightarrow> string \<Rightarrow> json option" where
  "jget (JObj kvs) k = map_of kvs k"
| "jget _ k = None"

fun truthy :: "json \<Rightarrow> bool" where
  "truthy JNull = False"
| "truthy (JBool b) = b"
| "truthy (JNum n) = (n \<noteq> 0)"
| "truthy (JStr s) = (s \<noteq> [])"
| "truthy (JArr _) = True"
| "truthy (JObj _) = True"

fun otruthy :: "json option \<Rightarrow> bool" where
  "otruthy None = False"
| "otruthy (Some j) = truthy j"

definition js_or :: "json option \<Rightarrow> json option \<Rightarrow> json option" where
  "js_or a b = (if otruthy a then a else b)"

fun jset :: "string \<Rightarrow> json \<Rightarrow> (string \<times> json) list \<Rightarrow> (string \<times> json) list" where
  "jset k v [] = [(k, v)]"
| "jset k v ((a, b) # kvs) = (if a = k then (k, v) # kvs else (a, b) # jset k v kvs)"

lemma map_of_jset [simp]: "map_of (jset k v kvs) = (map_of kvs)(k \<mapsto> v)"
  by (induction kvs) auto

text \<open>\<open>a || b\<close> on strings.\<close>

definition str_or :: "string \<Rightarrow> string \<Rightarrow> string" where
  "str_or a b = (if a = [] then b else a)"

datatype body = NoBody | JsonBody json | FormBody "(string \<times> string) list"

record request =
  req_url :: string
  req_method :: string
  req_body :: body

abbreviation post_json :: "string \<Rightarrow> json \<Rightarrow> request" where
  "post_json u j \<equiv> \<lparr>req_url = u, req_method = ''POST'', req_body = JsonBody j\<rparr>"

abbreviation post_empty :: "string \<Rightarrow> request" where
  "post_empty u \<equiv> \<lparr>req_url = u, req_method = ''POST'', req_body = NoBody\<rparr>"

abbreviation post_form :: "string \<Rightarrow> (string \<times> string) list \<Rightarrow> request" where
  "post_form u f \<equiv> \<lparr>req_url = u, req_method = ''POST'', req_body = FormBody f\<rparr>"

abbreviation http_get :: "string \<Rightarrow> request" where
  "http_get u \<equiv> \<lparr>req_url = u, req_method = ''GET'', req_body = NoBody\<rparr>"

text \<open>What a handler does besides changing the state of its component, in order.\<close>

datatype effect =
    Fetch request
  | Notify string string bool
  | ConsoleError string
  | ConsoleWarn string
  | ConsoleLog string
  | Reload
  | Navigate string
  | ConfirmDialog string
  | PreventDefault
  | StopPropagation
  | StopImmediatePropagation
  | StartTimer nat
  | CancelTimer nat
  | DispatchEvent string json
  | RemoveSelf
  | DomCall string "string list"

text \<open>What a response carries: its status and, when its body parses as JSON, the value.\<close>

record response =
  status :: int
  payload :: "json option"

definition resp_ok :: "response \<Rightarrow> bool" where
  "resp_ok r \<longleftrightarrow> 200 \<le> status r \<and> status r \<le> 299"

section \<open>Strings\<close>

text \<open>\<open>s.includes(t)\<close>\<close>

fun str_includes :: "'a list \<Rightarrow> 'a list \<Rightarrow> bool" where
  "str_includes [] t \<longleftrightarrow> t = []"
| "str_includes (c # s) t \<longleftrightarrow> prefix t (c # s) \<or> str_includes s t"

lemma str_includes_iff_sublist: "str_includes s t \<longleftrightarrow> sublist t s"
  by (induction s) (auto simp: sublist_Cons_right)

lemma str_includes_append [js_simps]: "str_includes (a @ t @ b) t"
  by (simp add: str_includes_iff_sublist)

text \<open>\<open>s.startsWith(t)\<close>\<close>

definition starts_with :: "string \<Rightarrow> string \<Rightarrow> bool" where
  "starts_with s t \<longleftrightarrow> take (length t) s = t"

lemma starts_with_prefix: "starts_with s t \<longleftrightarrow> prefix t s"
  by (auto simp: starts_with_def prefix_def) (metis append_take_drop_id)

text \<open>\<open>s.toLowerCase()\<close> on the ASCII range.\<close>

definition lower_char :: "char \<Rightarrow> char" where
  "lower_char c = (if 65 \<le> (of_char c :: nat) \<and> (of_char c :: nat) \<le> 90
                   then char_of ((of_char c :: nat) + 32) else c)"

definition to_lower :: "string \<Rightarrow> string" where
  "to_lower = map lower_char"

lemma length_to_lower [simp]: "length (to_lower s) = length s"
  by (simp add: to_lower_def)

lemma to_lower_append: "to_lower (s @ t) = to_lower s @ to_lower t"
  by (simp add: to_lower_def)

lemma lower_char_idem [simp]: "lower_char (lower_char c) = lower_char c"
  by (simp add: lower_char_def)

lemma to_lower_idem [simp]: "to_lower (to_lower s) = to_lower s"
  by (simp add: to_lower_def)

text \<open>
  \<open>s.slice(a, b)\<close> and \<open>s.slice(a)\<close>: a negative index counts from the end, an index past
  the end stops there.
\<close>

definition slice_index :: "nat \<Rightarrow> int \<Rightarrow> nat" where
  "slice_index n i = (if i < 0 then nat (int n + i) else min n (nat i))"

definition js_slice :: "'a list \<Rightarrow> int \<Rightarrow> int \<Rightarrow> 'a list" where
  "js_slice s a b =
     (let i = slice_index (length s) a; j = slice_index (length s) b
      in take (j - i) (drop i s))"

definition js_slice_from :: "'a list \<Rightarrow> int \<Rightarrow> 'a list" where
  "js_slice_from s a = drop (slice_index (length s) a) s"

lemma js_slice_drop_suffix:
  "length e = k \<Longrightarrow> js_slice (s @ e) 0 (- int k) = (if k = 0 then [] else s)"
  by (cases "k = 0") (auto simp: js_slice_def slice_index_def Let_def)

lemma js_slice_prefix: "js_slice s 0 (int n) = take n s"
  by (simp add: js_slice_def slice_index_def Let_def min_def)

text \<open>\<open>s.split(sep)\<close> for a one-character separator, and \<open>a.join(sep)\<close>.\<close>

fun split_on :: "char \<Rightarrow> string \<Rightarrow> string list" where
  "split_on d [] = [[]]"
| "split_on d (c # s) =
     (if c = d then [] # split_on d s
      else case split_on d s of [] \<Rightarrow> [[c]] | w # ws \<Rightarrow> (c # w) # ws)"

fun join_with :: "string \<Rightarrow> string list \<Rightarrow> string" where
  "join_with d [] = []"
| "join_with d [w] = w"
| "join_with d (w # v # ws) = w @ d @ join_with d (v # ws)"

lemma split_on_neq_Nil [simp]: "split_on d s \<noteq> []"
  by (induction s) (auto split: list.splits)

lemma join_split: "join_with [d] (split_on d s) = s"
proof (induction s)
  case Nil
  then show ?case by simp
next
  case (Cons c s)
  obtain w ws where "split_on d s = w # ws"
    by (cases "split_on d s") auto
  with Cons show ?case by (cases ws) auto
qed

lemma split_on_no_sep: "w \<in> set (split_on d s) \<Longrightarrow> d \<notin> set w"
  by (induction s arbitrary: w) (auto split: if_splits list.splits)

text \<open>\<open>s.trim()\<close>: the white space of the ASCII range is stripped on both sides.\<close>

definition is_space :: "char \<Rightarrow> bool" where
  "is_space c \<longleftrightarrow> (of_char c :: nat) \<in> {9, 10, 11, 12, 13, 32}"

definition js_trim :: "string \<Rightarrow> string" where
  "js_trim s = rev (dropWhile is_space (rev (dropWhile is_space s)))"

section \<open>Numbers and strings\<close>

text \<open>\<open>n.toString()\<close> for integers.\<close>

definition digit_char :: "nat \<Rightarrow> char" where
  "digit_char d = char_of (48 + d)"

fun show_nat :: "nat \<Rightarrow> string" where
  "show_nat n = (if n < 10 then [digit_char n] else show_nat (n div 10) @ [digit_char (n mod 10)])"

declare show_nat.simps [simp del]

definition show_int :: "int \<Rightarrow> string" where
  "show_int i = (if i < 0 then ''-'' @ show_nat (nat (- i)) else show_nat (nat i))"

text \<open>\<open>JSON.stringify(v)\<close>, with the escapes of the ASCII range.\<close>

definition hex_digit :: "nat \<Rightarrow> char" where
  "hex_digit d = (if d < 10 then char_of (48 + d) else char_of (87 + d))"

definition json_char :: "char \<Rightarrow> string" where
  "json_char c =
     (let n = (of_char c :: nat); bs = char_of (92 :: nat)
      in if n = 34 \<or> n = 92 then [bs, c]
         else if n = 8 then [bs, CHR ''b''] else if n = 9 then [bs, CHR ''t'']
         else if n = 10 then [bs, CHR ''n''] else if n = 12 then [bs, CHR ''f'']
         else if n = 13 then [bs, CHR ''r'']
         else if n < 32 then [bs, CHR ''u'', CHR ''0'', CHR ''0'', hex_digit (n div 16), hex_digit (n mod 16)]
         else [c])"

definition json_quote :: "string \<Rightarrow> string" where
  "json_quote s = [char_of (34 :: nat)] @ concat (map json_char s) @ [char_of (34 :: nat)]"

fun show_json :: "json \<Rightarrow> string" where
  "show_json JNull = ''null''"
| "show_json (JBool b) = (if b then ''true'' else ''false'')"
| "show_json (JNum n) = show_int n"
| "show_json (JStr s) = json_quote s"
| "show_json (JArr js) = ''['' @ join_with '','' (map show_json js) @ '']''"
| "show_json (JObj kvs) = ''{'' @ join_with '','' (map (\<lambda>(k, v). json_quote k @ '':'' @ show_json v) kvs) @ ''}''"

text \<open>
  \<open>parseInt(s)\<close>: leading white space, an optional sign, an optional \<open>0x\<close> prefix, then the
  longest run of digits; no digit at all is NaN (\<open>None\<close>).
\<close>

definition digit_value :: "nat \<Rightarrow> char \<Rightarrow> nat option" where
  "digit_value radix c =
     (let n = (of_char c :: nat);
          d = (if 48 \<le> n \<and> n \<le> 57 then n - 48
               else if 97 \<le> n \<and> n \<le> 122 then n - 87
               else if 65 \<le> n \<and> n \<le> 90 then n - 55 else 99)
      in if d < radix then Some d else None)"

fun parse_digits :: "nat \<Rightarrow> nat \<Rightarrow> string \<Rightarrow> nat" where
  "parse_digits radix acc [] = acc"
| "parse_digits radix acc (c # s) =
     (case digit_value radix c of
        None \<Rightarrow> acc
      | Some d \<Rightarrow> parse_digits radix (radix * acc + d) s)"

definition parse_unsigned :: "nat \<Rightarrow> string \<Rightarrow> nat option" where
  "parse_unsigned radix s =
     (case s of [] \<Rightarrow> None
      | c # _ \<Rightarrow> (case digit_value radix c of None \<Rightarrow> None | Some _ \<Rightarrow> Some (parse_digits radix 0 s)))"

definition parse_int :: "string \<Rightarrow> int option" where
  "parse_int s0 =
     (let s1 = dropWhile is_space s0;
          neg = starts_with s1 ''-'';
          s2 = (if neg \<or> starts_with s1 ''+'' then drop 1 s1 else s1);
          hex = starts_with s2 ''0x'' \<or> starts_with s2 ''0X'';
          r = (if hex then parse_unsigned 16 (drop 2 s2) else parse_unsigned 10 s2)
      in map_option (\<lambda>n. if neg then - int n else int n) r)"

lemma of_char_digit_char: "d < 10 \<Longrightarrow> (of_char (digit_char d) :: nat) = 48 + d"
  by (simp add: digit_char_def of_char_of)

lemma digit_value_digit_char: "d < 10 \<Longrightarrow> digit_value 10 (digit_char d) = Some d"
  by (simp add: digit_value_def of_char_digit_char Let_def)

lemma parse_digits_append:
  assumes "\<forall>c \<in> set s. digit_value radix c \<noteq> None"
  shows "parse_digits radix acc (s @ t) = parse_digits radix (parse_digits radix acc s) t"
  using assms by (induction s arbitrary: acc) auto

lemma show_nat_digits: "c \<in> set (show_nat n) \<Longrightarrow> \<exists>d<10. c = digit_char d"
proof (induction n rule: show_nat.induct)
  case (1 n)
  show ?case
  proof (cases "n < 10")
    case True
    with "1.prems" show ?thesis by (auto simp: show_nat.simps [of n])
  next
    case False
    with "1.prems" have "c \<in> set (show_nat (n div 10)) \<or> c = digit_char (n mod 10)"
      by (auto simp: show_nat.simps [of n])
    moreover have "n mod 10 < 10" by simp
    ultimately show ?thesis using False "1.IH" by blast
  qed
qed

lemma show_nat_not_Nil [simp]: "show_nat n \<noteq> []"
  by (subst show_nat.simps) simp

lemma parse_digits_show_nat: "parse_digits 10 0 (show_nat n) = n"
proof (induction n rule: show_nat.induct)
  case (1 n)
  show ?case
  proof (cases "n < 10")
    case True
    then show ?thesis by (simp add: show_nat.simps [of n] digit_value_digit_char)
  next
    case False
    have "\<forall>c \<in> set (show_nat (n div 10)). digit_value 10 c \<noteq> None"
      using show_nat_digits digit_value_digit_char by fastforce
    with False "1.IH" show ?thesis
      by (simp add: show_nat.simps [of n] parse_digits_append digit_value_digit_char)
  qed
qed

lemma digit_char_range:
  assumes "d < 10"
  shows "\<not> is_space (digit_char d)" and "digit_char d \<noteq> CHR ''-''"
    and "digit_char d \<noteq> CHR ''+''" and "digit_char d \<noteq> CHR ''x''" and "digit_char d \<noteq> CHR ''X''"
proof -
  have o: "(of_char (digit_char d) :: nat) = 48 + d" using assms by (rule of_char_digit_char)
  then show "\<not> is_space (digit_char d)" by (auto simp: is_space_def)
  have "c \<noteq> digit_char d" if "(of_char c :: nat) < 48 \<or> (of_char c :: nat) > 57" for c
    using that o assms by auto
  from this [of "CHR ''-''"] this [of "CHR ''+''"] this [of "CHR ''x''"] this [of "CHR ''X''"]
  show "digit_char d \<noteq> CHR ''-''" "digit_char d \<noteq> CHR ''+''"
    "digit_char d \<noteq> CHR ''x''" "digit_char d \<noteq> CHR ''X''"
    by (auto simp: of_char_def)
qed

lemma parse_int_show_nat [js_simps]: "parse_int (show_nat n) = Some (int n)"
proof -
  obtain c s where cs: "show_nat n = c # s" by (cases "show_nat n") auto
  have dig: "\<forall>x \<in> set (c # s). \<exists>d<10. x = digit_char d"
    using show_nat_digits [of _ n] cs by auto
  then obtain d where d: "d < 10" "c = digit_char d" by auto
  have nox: "\<not> (\<exists>y ys. s = y # ys \<and> (y = CHR ''x'' \<or> y = CHR ''X''))"
    using dig digit_char_range(4,5) by fastforce
  then have hex: "\<not> starts_with (c # s) ''0x''" "\<not> starts_with (c # s) ''0X''"
    by (cases s; auto simp: starts_with_def)+
  have "dropWhile is_space (c # s) = c # s"
    using digit_char_range(1) d by simp
  moreover have "\<not> starts_with (c # s) ''-''" "\<not> starts_with (c # s) ''+''"
    using digit_char_range(2,3) d by (auto simp: starts_with_def)
  moreover have "parse_unsigned 10 (c # s) = Some n"
    using d parse_digits_show_nat [of n] cs
    by (simp add: parse_unsigned_def digit_value_digit_char)
  ultimately show ?thesis using hex cs by (simp add: parse_int_def Let_def)
qed

text \<open>
  \<open>URLSearchParams\<close>: the form encoding of the ASCII range, and the query string.
\<close>

definition form_char :: "char \<Rightarrow> string" where
  "form_char c =
     (let n = (of_char c :: nat)
      in if 48 \<le> n \<and> n \<le> 57 \<or> 65 \<le> n \<and> n \<le> 90 \<or> 97 \<le> n \<and> n \<le> 122 \<or> n \<in> {42, 45, 46, 95} then [c]
         else if n = 32 then ''+''
         else let h = (\<lambda>d. if d < 10 then char_of (48 + d) else char_of (55 + d))
              in [CHR ''%'', h (n div 16), h (n mod 16)])"

definition form_encode :: "string \<Rightarrow> string" where
  "form_encode s = concat (map form_char s)"

definition query_string :: "(string \<times> string) list \<Rightarrow> string" where
  "query_string ps = join_with ''&'' (map (\<lambda>(k, v). form_encode k @ ''='' @ form_encode v) ps)"

section \<open>Arrays\<close>

text \<open>\<open>xs.indexOf(x)\<close> and \<open>xs.findIndex(p)\<close>: \<open>-1\<close> when there is none.\<close>

fun find_index :: "('a \<Rightarrow> bool) \<Rightarrow> 'a list \<Rightarrow> int" where
  "find_index p [] = -1"
| "find_index p (x # xs) =
     (if p x then 0 else let i = find_index p xs in if i < 0 then -1 else i + 1)"

lemma find_index_neg: "find_index p xs < 0 \<longleftrightarrow> (\<forall>x \<in> set xs. \<not> p x)"
  by (induction xs) (auto simp: Let_def)

lemma find_index_nth:
  "0 \<le> find_index p xs \<Longrightarrow>
     nat (find_index p xs) < length xs \<and> p (xs ! nat (find_index p xs))"
  by (induction xs) (auto simp: Let_def nat_add_distrib split: if_splits)

lemma find_index_bound: "find_index p xs < int (length xs)"
  by (induction xs) (auto simp: Let_def)

lemma map_update_if:
  "(\<And>x. x \<in> set xs \<Longrightarrow> g (if p x then f x else x) = g x) \<Longrightarrow>
     map g (map (\<lambda>x. if p x then f x else x) xs) = map g xs"
  by (induction xs) auto

end
