(* ===== verification/Dom.thy ===== *)
theory Dom
  imports Prelude "HOL-Library.Multiset"
begin

text \<open>
  The part of the DOM that the view machine of \<open>webc/datacell.js\<close> uses. Every node has an
  identity (its number), so a variable that holds a node is modelled by that number. The
  document is a forest: its roots are the shadow root, document fragments, and nodes that
  are not attached anywhere. The operations are those of the DOM standard that the source
  calls: \<open>createElement\<close>, \<open>appendChild\<close>, \<open>replaceWith\<close>, \<open>remove\<close>, \<open>setAttribute\<close>,
  \<open>getElementById\<close>, \<open>firstChild\<close>, \<open>nextSibling\<close>, \<open>parentElement\<close>.
\<close>

section \<open>Nodes and forests\<close>

datatype node_kind =
    KElem bool string "(string \<times> string) list"
  | KText string
  | KFragment
  | KShadow

datatype dnode = Node nat node_kind "dnode list"

primrec nid :: "dnode \<Rightarrow> nat" where
  "nid (Node i k cs) = i"

primrec nkind :: "dnode \<Rightarrow> node_kind" where
  "nkind (Node i k cs) = k"

primrec kids :: "dnode \<Rightarrow> dnode list" where
  "kids (Node i k cs) = cs"

fun is_elem :: "node_kind \<Rightarrow> bool" where
  "is_elem (KElem _ _ _) = True"
| "is_elem _ = False"

lemma forest_induct [case_names Nil Cons]:
  assumes "P []"
    and "\<And>i k cs ns. P cs \<Longrightarrow> P ns \<Longrightarrow> P (Node i k cs # ns)"
  shows "P ns"
proof (induction ns rule: measure_induct_rule [where f = "size_list size"])
  case (less ns)
  show ?case
  proof (cases ns)
    case Nil
    with assms(1) show ?thesis by simp
  next
    case (Cons n ms)
    obtain i k cs where n: "n = Node i k cs" by (cases n)
    have "P cs" and "P ms" using less Cons n by simp_all
    with assms(2) Cons n show ?thesis by simp
  qed
qed

section \<open>Traversals\<close>

text \<open>Identities, in document order.\<close>

function ids :: "dnode list \<Rightarrow> nat list" where
  "ids [] = []"
| "ids (Node i k cs # ns) = i # ids cs @ ids ns"
  by pat_completeness auto
termination by (relation "measure (size_list size)") auto

function find_node :: "nat \<Rightarrow> dnode list \<Rightarrow> dnode option" where
  "find_node x [] = None"
| "find_node x (Node i k cs # ns) =
     (if i = x then Some (Node i k cs)
      else case find_node x cs of Some m \<Rightarrow> Some m | None \<Rightarrow> find_node x ns)"
  by pat_completeness auto
termination by (relation "measure (size_list size \<circ> snd)") auto

text \<open>The node that has \<open>x\<close> among its children.\<close>

function parent_of :: "nat \<Rightarrow> dnode list \<Rightarrow> dnode option" where
  "parent_of x [] = None"
| "parent_of x (Node i k cs # ns) =
     (if x \<in> set (map nid cs) then Some (Node i k cs)
      else case parent_of x cs of Some m \<Rightarrow> Some m | None \<Rightarrow> parent_of x ns)"
  by pat_completeness auto
termination by (relation "measure (size_list size \<circ> snd)") auto

text \<open>Apply \<open>f\<close> to the node with identity \<open>x\<close>.\<close>

function modify :: "nat \<Rightarrow> (dnode \<Rightarrow> dnode) \<Rightarrow> dnode list \<Rightarrow> dnode list" where
  "modify x f [] = []"
| "modify x f (Node i k cs # ns) =
     (if i = x then f (Node i k cs) # ns
      else Node i k (modify x f cs) # modify x f ns)"
  by pat_completeness auto
termination by (relation "measure (size_list size \<circ> snd \<circ> snd)") auto

text \<open>Take the node with identity \<open>x\<close>, and its subtree, out of the forest.\<close>

function detach :: "nat \<Rightarrow> dnode list \<Rightarrow> dnode list" where
  "detach x [] = []"
| "detach x (Node i k cs # ns) =
     (if i = x then ns else Node i k (detach x cs) # detach x ns)"
  by pat_completeness auto
termination by (relation "measure (size_list size \<circ> snd)") auto

text \<open>\<open>getElementById\<close>: the first element, in document order, whose \<open>id\<close> is \<open>s\<close>.\<close>

fun dom_id :: "node_kind \<Rightarrow> string option" where
  "dom_id (KElem svg tag as) = map_of as ''id''"
| "dom_id _ = None"

function find_dom_id :: "string \<Rightarrow> dnode list \<Rightarrow> nat option" where
  "find_dom_id s [] = None"
| "find_dom_id s (Node i k cs # ns) =
     (if dom_id k = Some s then Some i
      else case find_dom_id s cs of Some m \<Rightarrow> Some m | None \<Rightarrow> find_dom_id s ns)"
  by pat_completeness auto
termination by (relation "measure (size_list size \<circ> snd)") auto

definition get_element_by_id :: "nat \<Rightarrow> string \<Rightarrow> dnode list \<Rightarrow> nat option" where
  "get_element_by_id root s d =
     (if s = [] then None
      else case find_node root d of None \<Rightarrow> None | Some r \<Rightarrow> find_dom_id s (kids r))"

fun sibling_after :: "nat \<Rightarrow> dnode list \<Rightarrow> nat option" where
  "sibling_after x [] = None"
| "sibling_after x (n # ns) =
     (if nid n = x then (case ns of [] \<Rightarrow> None | m # _ \<Rightarrow> Some (nid m)) else sibling_after x ns)"

definition next_sibling :: "nat \<Rightarrow> dnode list \<Rightarrow> nat option" where
  "next_sibling x d =
     (case parent_of x d of None \<Rightarrow> None | Some p \<Rightarrow> sibling_after x (kids p))"

definition first_child :: "nat \<Rightarrow> dnode list \<Rightarrow> nat option" where
  "first_child x d =
     (case find_node x d of
        Some n \<Rightarrow> (case kids n of [] \<Rightarrow> None | c # _ \<Rightarrow> Some (nid c))
      | None \<Rightarrow> None)"

text \<open>\<open>parentElement\<close> is null when the parent is not an element (a fragment, a shadow root).\<close>

definition parent_element :: "nat \<Rightarrow> dnode list \<Rightarrow> nat option" where
  "parent_element x d =
     (case parent_of x d of
        Some p \<Rightarrow> (if is_elem (nkind p) then Some (nid p) else None)
      | None \<Rightarrow> None)"

section \<open>Operations\<close>

datatype dom_error = HierarchyRequest | NullReference

fun attr_set :: "string \<Rightarrow> string \<Rightarrow> (string \<times> string) list \<Rightarrow> (string \<times> string) list" where
  "attr_set k v [] = [(k, v)]"
| "attr_set k v ((a, b) # as) = (if a = k then (k, v) # as else (a, b) # attr_set k v as)"

fun set_attribute :: "string \<Rightarrow> string \<Rightarrow> dnode \<Rightarrow> dnode" where
  "set_attribute a v (Node i (KElem svg tag as) cs) = Node i (KElem svg tag (attr_set a v as)) cs"
| "set_attribute a v n = n"

fun add_kids :: "dnode list \<Rightarrow> dnode \<Rightarrow> dnode" where
  "add_kids ts (Node i k cs) = Node i k (cs @ ts)"

fun set_kids :: "dnode list \<Rightarrow> dnode \<Rightarrow> dnode" where
  "set_kids ts (Node i k cs) = Node i k ts"

abbreviation append_kids :: "nat \<Rightarrow> dnode list \<Rightarrow> dnode list \<Rightarrow> dnode list" where
  "append_kids a ts d \<equiv> modify a (add_kids ts) d"

text \<open>
  \<open>parent.appendChild(n)\<close>: a fragment hands over its children, any other node is moved from
  where it is. Appending to a text node, or a node below itself, is an error.
\<close>

definition append_child :: "nat \<Rightarrow> nat \<Rightarrow> dnode list \<Rightarrow> dom_error + dnode list" where
  "append_child a n d =
     (case find_node n d of
        None \<Rightarrow> Inl NullReference
      | Some m \<Rightarrow>
          (let frag = nkind m = KFragment;
               ts = (if frag then kids m else [m]);
               d1 = (if frag then modify n (set_kids []) d else detach n d)
           in case find_node a d1 of
                None \<Rightarrow> Inl HierarchyRequest
              | Some p \<Rightarrow>
                  (case nkind p of
                     KText _ \<Rightarrow> Inl HierarchyRequest
                   | _ \<Rightarrow> if a = n then Inl HierarchyRequest else Inr (append_kids a ts d1))))"

text \<open>
  \<open>x.replaceWith(n)\<close> for a node \<open>n\<close> that is not a fragment: nothing happens when \<open>x\<close> has no
  parent; otherwise \<open>n\<close> takes the place of \<open>x\<close>, which stays as a node that is not attached.
\<close>

definition swap_kid :: "nat \<Rightarrow> dnode \<Rightarrow> dnode \<Rightarrow> dnode" where
  "swap_kid x m q = set_kids (map (\<lambda>c. if nid c = x then m else c) (kids q)) q"

definition replace_with :: "nat \<Rightarrow> nat \<Rightarrow> dnode list \<Rightarrow> dom_error + dnode list" where
  "replace_with x n d =
     (case (parent_of x d, find_node n d) of
        (None, _) \<Rightarrow> Inr d
      | (Some p, Some m) \<Rightarrow>
          (if x = n then Inr d
           else let d1 = detach n d in
             case (find_node (nid p) d1, find_node x d1) of
               (Some q, Some old) \<Rightarrow> Inr (modify (nid p) (swap_kid x m) d1 @ [old])
             | _ \<Rightarrow> Inl HierarchyRequest)
      | _ \<Rightarrow> Inl NullReference)"

text \<open>\<open>n.remove()\<close>\<close>

definition remove_node :: "nat \<Rightarrow> dnode list \<Rightarrow> dnode list" where
  "remove_node x d =
     (case (parent_of x d, find_node x d) of
        (Some _, Some m) \<Rightarrow> detach x d @ [m]
      | _ \<Rightarrow> d)"

section \<open>Laws\<close>

lemma ids_append [simp]: "ids (a @ b) = ids a @ ids b"
  by (induction a rule: forest_induct) auto

lemma find_node_append:
  "find_node x (a @ b) = (case find_node x a of Some m \<Rightarrow> Some m | None \<Rightarrow> find_node x b)"
  by (induction a rule: forest_induct) (auto split: option.splits)

lemma find_node_None_iff: "find_node x d = None \<longleftrightarrow> x \<notin> set (ids d)"
  by (induction d rule: forest_induct) (auto split: option.splits)

lemma find_node_notin [simp]: "x \<notin> set (ids d) \<Longrightarrow> find_node x d = None"
  by (simp add: find_node_None_iff)

lemma find_node_nid: "find_node x d = Some m \<Longrightarrow> nid m = x"
  by (induction d rule: forest_induct) (auto split: option.splits if_splits)

lemma find_node_in [elim]: "find_node x d = Some m \<Longrightarrow> x \<in> set (ids d)"
  by (metis find_node_None_iff option.distinct(1))

lemma modify_notin [simp]: "x \<notin> set (ids d) \<Longrightarrow> modify x f d = d"
  by (induction d rule: forest_induct) auto

lemma detach_notin [simp]: "x \<notin> set (ids d) \<Longrightarrow> detach x d = d"
  by (induction d rule: forest_induct) auto

lemma detach_append_notin:
  "x \<notin> set (ids a) \<Longrightarrow> detach x (a @ b) = a @ detach x b"
  by (induction a rule: forest_induct) auto

lemma nid_in_ids: "n \<in> set d \<Longrightarrow> nid n \<in> set (ids d)"
  by (induction d rule: forest_induct) auto

lemma parent_of_notin [simp]: "x \<notin> set (ids d) \<Longrightarrow> parent_of x d = None"
proof (induction d rule: forest_induct)
  case Nil
  then show ?case by simp
next
  case (Cons i k cs ns)
  then have "x \<notin> set (map nid cs)" using nid_in_ids by fastforce
  with Cons show ?case by simp
qed

lemma parent_of_kid: "parent_of x d = Some p \<Longrightarrow> x \<in> set (map nid (kids p))"
  by (induction d rule: forest_induct) (auto split: option.splits if_splits)

text \<open>Modifying a node that was just put below \<open>a\<close> modifies what was put there.\<close>

lemma modify_fresh_kid:
  assumes "f \<notin> set (ids d)" and "a \<noteq> f"
  shows "modify f g (append_kids a [Node f k cs] d) = append_kids a [g (Node f k cs)] d"
  using assms
proof (induction d rule: forest_induct)
  case Nil
  then show ?case by simp
next
  case (Cons i k' cs' ns)
  have "modify f g (cs' @ [Node f k cs]) = cs' @ [g (Node f k cs)]" if "f \<notin> set (ids cs')"
    using that by (induction cs' rule: forest_induct) auto
  with Cons show ?case by auto
qed

lemma ids_append_kids_fresh:
  "set (ids (append_kids a ts d)) =
     (if a \<in> set (ids d) then set (ids d) \<union> set (ids ts) else set (ids d))"
  by (induction d rule: forest_induct) auto

lemma find_append_kids_fresh:
  assumes "f \<notin> set (ids d)" and "a \<in> set (ids d)" and "a \<noteq> f"
  shows "find_node f (append_kids a [Node f k cs] d) = Some (Node f k cs)"
  using assms
proof (induction d rule: forest_induct)
  case Nil
  then show ?case by simp
next
  case (Cons i k' cs' ns)
  show ?case
  proof (cases "i = a")
    case True
    with Cons.prems show ?thesis by (auto simp: find_node_append)
  next
    case False
    show ?thesis
    proof (cases "a \<in> set (ids cs')")
      case True
      with Cons False show ?thesis by auto
    next
      case notin: False
      with Cons False show ?thesis by auto
    qed
  qed
qed

lemma find_append_kids_self:
  assumes "find_node a d = Some (Node a k cs)"
  shows "find_node a (append_kids a ts d) = Some (Node a k (cs @ ts))"
  using assms
proof (induction d rule: forest_induct)
  case Nil
  then show ?case by simp
next
  case (Cons i k' cs' ns)
  show ?case
  proof (cases "i = a \<or> a \<in> set (ids cs')")
    case True
    with Cons show ?thesis
      by (cases "find_node a cs'") (auto simp: find_node_None_iff)
  next
    case False
    with Cons show ?thesis by auto
  qed
qed

lemma sibling_after_last:
  "x \<notin> nid ` set cs \<Longrightarrow> sibling_after x (cs @ [Node x k ts]) = None"
  by (induction cs) auto

lemma parent_of_fresh_kid:
  assumes "f \<notin> set (ids d)" and "find_node a d = Some (Node a k cs)" and "distinct (ids d)"
  shows "parent_of f (append_kids a [Node f k' ts] d) = Some (Node a k (cs @ [Node f k' ts]))"
  using assms
proof (induction d rule: forest_induct)
  case Nil
  then show ?case by simp
next
  case (Cons i k'' cs' ns)
  have nk: "f \<notin> nid ` set xs" if "set (ids xs) \<subseteq> set (ids (Node i k'' cs' # ns))" for xs
    using that Cons.prems(1) nid_in_ids by fastforce
  show ?case
  proof (cases "i = a")
    case True
    with Cons.prems show ?thesis by auto
  next
    case False
    show ?thesis
    proof (cases "a \<in> set (ids cs')")
      case True
      have same: "map nid (append_kids a [Node f k' ts] xs) = map nid xs" for xs
        by (induction xs rule: forest_induct) auto
      have "find_node a cs' = Some (Node a k cs)"
        using Cons.prems(2) False True by (auto split: option.splits simp: find_node_None_iff)
      with Cons False True nk [of cs'] show ?thesis
        by (auto simp: same simp flip: set_map)
    next
      case notin: False
      with Cons.prems False have "find_node a ns = Some (Node a k cs)" by simp
      with Cons False notin nk [of cs'] show ?thesis by auto
    qed
  qed
qed

text \<open>Taking a subtree out and putting a subtree in keeps the identities, as a multiset.\<close>

lemma mset_ids_detach:
  assumes "find_node x d = Some m" and "distinct (ids d)"
  shows "mset (ids (detach x d)) + mset (ids [m]) = mset (ids d)"
  using assms
proof (induction d rule: forest_induct)
  case Nil
  then show ?case by simp
next
  case (Cons i k cs ns)
  show ?case
  proof (cases "i = x")
    case True
    with Cons.prems show ?thesis by auto
  next
    case False
    show ?thesis
    proof (cases "x \<in> set (ids cs)")
      case True
      then obtain m' where "find_node x cs = Some m'"
        by (metis find_node_None_iff not_None_eq)
      with Cons False True have "mset (ids (detach x cs)) + mset (ids [m]) = mset (ids cs)"
        and "x \<notin> set (ids ns)" by auto
      with False show ?thesis by (auto simp: ac_simps)
    next
      case notin: False
      with Cons False have "mset (ids (detach x ns)) + mset (ids [m]) = mset (ids ns)"
        by auto
      with False notin show ?thesis by (auto simp: ac_simps)
    qed
  qed
qed

lemma mset_ids_append_kids:
  assumes "a \<in> set (ids d)" and "distinct (ids d)"
  shows "mset (ids (append_kids a ts d)) = mset (ids d) + mset (ids ts)"
  using assms
proof (induction d rule: forest_induct)
  case Nil
  then show ?case by simp
next
  case (Cons i k cs ns)
  show ?case
  proof (cases "i = a")
    case True
    with Cons.prems show ?thesis by (auto simp: ac_simps)
  next
    case False
    show ?thesis
    proof (cases "a \<in> set (ids cs)")
      case True
      with Cons.prems have "a \<notin> set (ids ns)" by auto
      with Cons False True show ?thesis by (simp add: ac_simps)
    next
      case notin: False
      with Cons False show ?thesis by (simp add: ac_simps)
    qed
  qed
qed

lemma top_ids_detach: "y \<in> nid ` set cs \<Longrightarrow> y \<noteq> x \<Longrightarrow> y \<in> nid ` set (detach x cs)"
  by (induction cs rule: forest_induct) auto

lemma ids_detach_subset: "set (ids (detach x d)) \<subseteq> set (ids d)"
  by (induction d rule: forest_induct) auto

text \<open>Detaching \<open>n\<close> leaves every other child of a node where it is.\<close>

lemma detach_keeps_kid:
  assumes "find_node p d = Some q" and "find_node p (detach n d) = Some q'"
    and "y \<in> nid ` set (kids q)" and "y \<noteq> n" and "distinct (ids d)"
  shows "y \<in> nid ` set (kids q')"
  using assms
proof (induction d rule: forest_induct)
  case (Cons i k cs ns)
  show ?case
  proof (cases "i = n")
    case True
    show ?thesis
    proof (cases "find_node p (Node i k cs # []) = None")
      case notroot: True
      with Cons.prems True show ?thesis by (auto split: option.splits if_splits)
    next
      case False
      then have "p \<in> set (ids [Node i k cs])" by (metis find_node_None_iff)
      moreover have "p \<in> set (ids ns)" using Cons.prems(2) True by auto
      ultimately show ?thesis using Cons.prems(5) by auto
    qed
  next
    case False
    show ?thesis
    proof (cases "i = p")
      case True
      with Cons.prems False show ?thesis using top_ids_detach by auto
    next
      case np: False
      show ?thesis
      proof (cases "p \<in> set (ids cs)")
        case True
        then have "p \<notin> set (ids ns)" using Cons.prems(5) by auto
        moreover have "set (ids (detach n ns)) \<subseteq> set (ids ns)" by (rule ids_detach_subset)
        ultimately have "find_node p (detach n ns) = None" by (meson find_node_notin subsetD)
        with Cons True False np \<open>p \<notin> set (ids ns)\<close> show ?thesis
          by (auto split: option.splits)
      next
        case notin: False
        moreover have "set (ids (detach n cs)) \<subseteq> set (ids cs)" by (rule ids_detach_subset)
        ultimately have "find_node p (detach n cs) = None" by (meson find_node_notin subsetD)
        with Cons notin False np show ?thesis by (auto split: option.splits)
      qed
    qed
  qed
qed simp

lemma mset_ids_Cons: "mset (ids (n # ms)) = mset (ids [n]) + mset (ids ms)"
  by (metis append_Cons append_Nil ids_append mset_append)

lemma distinct_submset: "mset xs \<subseteq># mset ys \<Longrightarrow> distinct ys \<Longrightarrow> distinct xs"
proof -
  assume sub: "mset xs \<subseteq># mset ys" and "distinct ys"
  then obtain zs where "mset ys = mset (xs @ zs)"
    by (metis ex_mset mset_append mset_subset_eq_exists_conv)
  with \<open>distinct ys\<close> show "distinct xs"
    by (metis distinct_append mset_eq_imp_distinct_iff)
qed

lemma mset_ids_modify:
  assumes "find_node p d = Some q" and "distinct (ids d)"
  shows "mset (ids (modify p f d)) + mset (ids [q]) = mset (ids d) + mset (ids [f q])"
  using assms
proof (induction d rule: forest_induct)
  case Nil
  then show ?case by simp
next
  case (Cons i k cs ns)
  show ?case
  proof (cases "i = p")
    case True
    with Cons.prems have q: "Node i k cs = q" by simp
    moreover have "modify p f (Node i k cs # ns) = f (Node i k cs) # ns" using True by simp
    ultimately show ?thesis
      by (simp only: mset_ids_Cons [of "f q" ns] mset_ids_Cons [of q ns] ac_simps)
  next
    case False
    show ?thesis
    proof (cases "p \<in> set (ids cs)")
      case True
      with Cons.prems False have "find_node p cs = Some q" and "p \<notin> set (ids ns)"
        by (auto split: option.splits simp: find_node_None_iff)
      with Cons False have "mset (ids (modify p f cs)) + mset (ids [q]) = mset (ids cs) + mset (ids [f q])"
        by auto
      with False \<open>p \<notin> set (ids ns)\<close> show ?thesis by (simp add: ac_simps)
    next
      case notin: False
      with Cons False have "mset (ids (modify p f ns)) + mset (ids [q]) = mset (ids ns) + mset (ids [f q])"
        by auto
      with False notin show ?thesis by (simp add: ac_simps)
    qed
  qed
qed

lemma ids_subtree: "find_node x d = Some m \<Longrightarrow> mset (ids [m]) \<subseteq># mset (ids d)"
proof (induction d rule: forest_induct)
  case (Cons i k cs ns)
  show ?case
  proof (cases "i = x")
    case True
    with Cons.prems show ?thesis by auto
  next
    case False
    with Cons.prems have "find_node x cs = Some m \<or> find_node x ns = Some m"
      by (auto split: option.splits)
    then have "mset (ids [m]) \<subseteq># mset (ids cs) + mset (ids ns)"
      using Cons.IH by (metis add.commute mset_subset_eq_add_left subset_mset.order_trans)
    then show ?thesis
      by simp (metis add_mset_add_single mset_subset_eq_add_left subset_mset.order_trans)
  qed
qed simp

text \<open>A node is found below its parent, and the parent is the one that has it as a child.\<close>

lemma find_node_kid:
  assumes "find_node p d = Some q" and "c \<in> set (kids q)" and "distinct (ids d)"
  shows "find_node (nid c) d = Some c"
proof -
  have top: "find_node (nid c) xs = Some c" if "c \<in> set xs" "distinct (ids xs)" for xs c
    using that
  proof (induction xs rule: forest_induct)
    case (Cons i k cs ns)
    then show ?case using nid_in_ids by (fastforce split: option.splits)
  qed simp
  show ?thesis using assms
  proof (induction d rule: forest_induct)
    case (Cons i k cs ns)
    show ?case
    proof (cases "i = p")
      case True
      with Cons.prems have q: "q = Node i k cs" by simp
      with Cons.prems(2) have "c \<in> set cs" by simp
      with top [of c cs] nid_in_ids [of c cs] Cons.prems(3) show ?thesis by auto
    next
      case False
      show ?thesis
      proof (cases "find_node p cs")
        case (Some r)
        with Cons False have f: "find_node (nid c) cs = Some c" by simp
        then have "nid c \<in> set (ids cs)" by auto
        with f Cons.prems(3) show ?thesis by auto
      next
        case None
        with Cons False have f: "find_node (nid c) ns = Some c" by simp
        then have "nid c \<in> set (ids ns)" by auto
        moreover from this have "nid c \<notin> set (ids cs)" using Cons.prems(3) by auto
        ultimately show ?thesis using f Cons.prems(3) by auto
      qed
    qed
  qed simp
qed

lemma parent_of_found:
  assumes "find_node p d = Some q" and "c \<in> set (kids q)" and "distinct (ids d)"
  shows "parent_of (nid c) d = Some q"
  using assms
proof (induction d rule: forest_induct)
  case (Cons i k cs ns)
  show ?case
  proof (cases "i = p")
    case True
    with Cons.prems show ?thesis by auto
  next
    case False
    have sub: "nid c \<in> set (ids xs)" if "find_node p xs = Some q" "distinct (ids xs)" for xs
      using find_node_kid [OF that(1) Cons.prems(2) that(2)] by auto
    have kid_top: False if at_top: "nid c \<in> nid ` set cs" and f: "find_node p cs = Some q"
    proof -
      have dc: "distinct (ids cs)" using Cons.prems(3) by simp
      have split: "mset (ids (detach p cs)) + mset (ids [q]) = mset (ids cs)"
        by (rule mset_ids_detach [OF f dc])
      have q: "nid q = p" and inq: "nid c \<in> set (ids (kids q))"
        using f find_node_nid Cons.prems(2) nid_in_ids by auto
      have dq: "distinct (ids [q])" and disj: "set (ids (detach p cs)) \<inter> set (ids [q]) = {}"
        using split dc by (metis distinct_append mset_append mset_eq_imp_distinct_iff)+
      with q inq have "nid c \<noteq> p" by (cases q) auto
      with at_top have "nid c \<in> nid ` set (detach p cs)" by (rule top_ids_detach)
      then have "nid c \<in> set (ids (detach p cs))" using nid_in_ids by auto
      moreover have "nid c \<in> set (ids [q])" using inq by (cases q) auto
      ultimately show False using disj by auto
    qed
    show ?thesis
    proof (cases "find_node p cs")
      case (Some r)
      with Cons False kid_top show ?thesis by auto
    next
      case None
      with Cons.prems False have f: "find_node p ns = Some q" by simp
      then have "nid c \<in> set (ids ns)" using sub Cons.prems(3) by auto
      then have "nid c \<notin> set (ids cs)" using Cons.prems(3) by auto
      then have "nid c \<notin> nid ` set cs" and "parent_of (nid c) cs = None" using nid_in_ids by auto
      with Cons False f show ?thesis by auto
    qed
  qed
qed simp

lemma kid_of_parent:
  assumes "parent_of x d = Some p" and "distinct (ids d)"
  shows "find_node (nid p) d = Some p"
  using assms
proof (induction d rule: forest_induct)
  case (Cons i k cs ns)
  show ?case
  proof (cases "x \<in> nid ` set cs")
    case True
    with Cons.prems show ?thesis by auto
  next
    case False
    with Cons.prems have "parent_of x cs = Some p \<or> parent_of x cs = None \<and> parent_of x ns = Some p"
      by (auto split: option.splits)
    then show ?thesis
    proof
      assume "parent_of x cs = Some p"
      with Cons have f: "find_node (nid p) cs = Some p" by simp
      then have "nid p \<in> set (ids cs)" by auto
      with f Cons.prems(2) show ?thesis by auto
    next
      assume "parent_of x cs = None \<and> parent_of x ns = Some p"
      with Cons have f: "find_node (nid p) ns = Some p" by simp
      then have "nid p \<in> set (ids ns)" by auto
      then have "nid p \<notin> set (ids cs)" using Cons.prems(2) by auto
      with f \<open>nid p \<in> set (ids ns)\<close> Cons.prems(2) show ?thesis by auto
    qed
  qed
qed simp

lemma swap_kid_ids:
  assumes "old \<in> set (kids q)" and "distinct (ids (kids q))"
  shows "mset (ids [swap_kid (nid old) m q]) + mset (ids [old]) = mset (ids [q]) + mset (ids [m])"
proof -
  have "mset (ids (map (\<lambda>c. if nid c = nid old then m else c) xs)) + mset (ids [old])
      = mset (ids xs) + mset (ids [m])" if "old \<in> set xs" "distinct (ids xs)" for xs
    using that
  proof (induction xs)
    case (Cons n xs)
    have dn: "distinct (ids [n] @ ids xs)" using Cons.prems(2) by (cases n) auto
    have nin: "nid n \<in> set (ids [n])" by (cases n) auto
    show ?case
    proof (cases "nid n = nid old")
      case True
      with nin dn have "nid old \<notin> set (ids xs)" by auto
      then have off: "\<forall>c \<in> set xs. nid c \<noteq> nid old" using nid_in_ids by metis
      then have "map (\<lambda>c. if nid c = nid old then m else c) xs = xs"
        by (induction xs) auto
      moreover have "n = old" using Cons.prems(1) off by auto
      moreover have "map (\<lambda>c. if nid c = nid old then m else c) (n # xs) = m # xs"
        using True calculation by simp
      ultimately show ?thesis by (simp only: mset_ids_Cons [of m xs] mset_ids_Cons [of old xs] ac_simps)
    next
      case False
      with Cons dn have "mset (ids (map (\<lambda>c. if nid c = nid old then m else c) xs)) + mset (ids [old])
          = mset (ids xs) + mset (ids [m])" by auto
      with False show ?thesis
        by (simp add: mset_ids_Cons [of n xs]
              mset_ids_Cons [of n "map (\<lambda>c. if nid c = nid old then m else c) xs"] ac_simps)
    qed
  qed simp
  from this [OF assms] show ?thesis by (cases q) (simp add: swap_kid_def ac_simps)
qed

subsection \<open>Conservation: no operation loses or duplicates a node\<close>

lemma append_child_conserves:
  assumes "append_child a n d = Inr d'" and "distinct (ids d)"
  shows "mset (ids d') = mset (ids d)"
proof -
  obtain m where m: "find_node n d = Some m"
    using assms(1) by (auto simp: append_child_def split: option.splits)
  have nm: "nid m = n" using m by (rule find_node_nid)
  define ts where "ts = (if nkind m = KFragment then kids m else [m])"
  define d1 where "d1 = (if nkind m = KFragment then modify n (set_kids []) d else detach n d)"
  have rest: "mset (ids d1) + mset (ids ts) = mset (ids d)"
  proof (cases "nkind m = KFragment")
    case True
    with mset_ids_modify [OF m assms(2), of "set_kids []"] nm show ?thesis
      by (cases m) (auto simp: ts_def d1_def ac_simps)
  next
    case False
    with mset_ids_detach [OF m assms(2)] show ?thesis by (simp add: ts_def d1_def)
  qed
  from assms(1) m obtain p where p: "find_node a d1 = Some p" and d': "d' = append_kids a ts d1"
    by (auto simp: append_child_def Let_def ts_def d1_def split: option.splits node_kind.splits if_splits)
  have "distinct (ids d1)" using rest assms(2)
    by (metis distinct_append mset_append mset_eq_imp_distinct_iff)
  with p have "mset (ids d') = mset (ids d1) + mset (ids ts)"
    unfolding d' by (intro mset_ids_append_kids) auto
  with rest show ?thesis by simp
qed

lemma replace_with_conserves:
  assumes "replace_with x n d = Inr d'" and "distinct (ids d)"
  shows "mset (ids d') = mset (ids d)"
proof (cases "parent_of x d = None \<or> x = n")
  case True
  with assms(1) show ?thesis by (auto simp: replace_with_def split: option.splits)
next
  case False
  with assms(1) obtain p m q old where p: "parent_of x d = Some p" and m: "find_node n d = Some m"
    and q: "find_node (nid p) (detach n d) = Some q" and old: "find_node x (detach n d) = Some old"
    and d': "d' = modify (nid p) (swap_kid x m) (detach n d) @ [old]"
    by (auto simp: replace_with_def Let_def split: option.splits)
  have split: "mset (ids (detach n d)) + mset (ids [m]) = mset (ids d)"
    by (rule mset_ids_detach [OF m assms(2)])
  then have dd: "distinct (ids (detach n d))" using assms(2)
    by (metis distinct_append mset_append mset_eq_imp_distinct_iff)
  have "x \<in> nid ` set (kids q)"
    using detach_keeps_kid [OF kid_of_parent [OF p assms(2)] q _ _ assms(2)] parent_of_kid [OF p] False by auto
  then obtain c where c: "c \<in> set (kids q)" "nid c = x" by auto
  have co: "c = old" using find_node_kid [OF q c(1) dd] c(2) old by simp
  have "distinct (ids [q])" by (rule distinct_submset [OF ids_subtree [OF q] dd])
  then have "distinct (ids (kids q))" by (cases q) auto
  with c co have "mset (ids [swap_kid x m q]) + mset (ids [old]) = mset (ids [q]) + mset (ids [m])"
    using swap_kid_ids by blast
  moreover note mset_ids_modify [OF q dd, of "swap_kid x m"]
  ultimately have "mset (ids (modify (nid p) (swap_kid x m) (detach n d))) + mset (ids [old]) + mset (ids [q])
      = mset (ids (detach n d)) + mset (ids [m]) + mset (ids [q])"
    by (metis add.assoc add.commute)
  then show ?thesis by (simp only: d' ids_append mset_append split add_right_cancel)
qed

lemma remove_node_conserves:
  assumes "distinct (ids d)"
  shows "mset (ids (remove_node x d)) = mset (ids d)"
  using mset_ids_detach [OF _ assms, of x]
  by (auto simp: remove_node_def ac_simps split: option.splits)

lemma ids_Cons: "ids (n # ms) = ids [n] @ ids ms"
  by (metis append_Cons append_Nil ids_append)

lemma modify_keeps_ids:
  assumes "\<And>n. ids [f n] = ids [n]"
  shows "ids (modify x f d) = ids d"
proof (induction d rule: forest_induct)
  case (Cons i k cs ns)
  have "ids (f (Node i k cs) # ns) = ids [Node i k cs] @ ids ns"
    by (subst ids_Cons) (simp only: assms)
  with Cons show ?case by (cases "i = x") auto
qed simp

lemma ids_set_attribute [simp]: "ids [set_attribute a v n] = ids [n]"
  by (cases "(a, v, n)" rule: set_attribute.cases) auto

subsection \<open>Appending roots and detaching a child\<close>

lemma modify_append: "modify x f (a @ b) = (if x \<in> nid ` set a then modify x f a @ b
    else modify x f a @ modify x f b)"
  by (induction a rule: forest_induct) auto

lemma detach_append_left:
  "x \<notin> set (ids b) \<Longrightarrow> detach x (a @ b) = detach x a @ b"
  by (induction a rule: forest_induct) auto

lemma ids_of_found:
  assumes "find_node p d = Some (Node p k cs)"
  shows "set (ids cs) \<subseteq> set (ids d)"
  using mset_subset_eqD [OF ids_subtree [OF assms]] by auto

lemma find_detach_below:
  assumes "find_node p d = Some (Node p k cs)" and "x \<in> set (ids cs)" and "distinct (ids d)"
  shows "find_node p (detach x d) = Some (Node p k (detach x cs))"
  using assms
proof (induction d rule: forest_induct)
  case (Cons i k' cs' ns)
  have ix: "i \<noteq> x"
  proof
    assume ix: "i = x"
    show False
    proof (cases "i = p")
      case True
      with Cons.prems ix show False by simp
    next
      case False
      with Cons.prems(1) have "find_node p cs' = Some (Node p k cs) \<or> find_node p ns = Some (Node p k cs)"
        by (auto split: option.splits)
      then have "x \<in> set (ids cs') \<union> set (ids ns)" using ids_of_found Cons.prems(2) by blast
      with Cons.prems(3) ix show False by auto
    qed
  qed
  show ?case
  proof (cases "i = p")
    case True
    with ix Cons.prems show ?thesis by auto
  next
    case False
    show ?thesis
    proof (cases "find_node p cs'")
      case None
      then have "find_node p (detach x cs') = None"
        using ids_detach_subset by (metis find_node_None_iff subsetD)
      with None Cons ix False show ?thesis by simp
    next
      case (Some m)
      with Cons ix False show ?thesis by simp
    qed
  qed
qed simp

lemma find_detach_apart:
  assumes "find_node p d = Some (Node p k cs)" and "find_node x d = Some m" and "x \<notin> set (ids cs)" and "p \<notin> set (ids [m])"
    and "distinct (ids d)"
  shows "find_node p (detach x d) = Some (Node p k cs)"
  using assms
proof (induction d rule: forest_induct)
  case (Cons i k' cs' ns)
  have m: "nid m = x" using find_node_nid [OF Cons.prems(2)] .
  show ?case
  proof (cases "i = x")
    case True
    with Cons.prems(1,2,4) show ?thesis by (auto split: option.splits simp: find_node_None_iff)
  next
    case ix: False
    show ?thesis
    proof (cases "i = p")
      case True
      with Cons.prems ix show ?thesis by simp
    next
      case ip: False
      show ?thesis
      proof (cases "find_node p cs'")
        case None
        then have np: "find_node p (detach x cs') = None" using ids_detach_subset by (metis find_node_None_iff subsetD)
        have f: "find_node p ns = Some (Node p k cs)" using Cons.prems(1) ip None by simp
        show ?thesis
        proof (cases "find_node x ns")
          case (Some m')
          then have "x \<notin> set (ids cs')" using Cons.prems(5) by auto
          then have "find_node x ns = Some m" using Cons.prems(2) ix by simp
          then show ?thesis using Cons.IH(2) [OF f _ Cons.prems(3,4)] Cons.prems(5) np ix ip by simp
        next
          case None
          then have "x \<notin> set (ids ns)" by (simp add: find_node_None_iff)
          then show ?thesis using np ix ip f by simp
        qed
      next
        case (Some r)
        then have f: "find_node p cs' = Some (Node p k cs)" using Cons.prems(1) ip by simp
        show ?thesis
        proof (cases "find_node x cs'")
          case (Some m')
          then have "find_node x cs' = Some m" using Cons.prems(2) ix by simp
          then show ?thesis using Cons.IH(1) [OF f _ Cons.prems(3,4)] Cons.prems(5) ix ip by simp
        next
          case None
          then have "x \<notin> set (ids cs')" by (simp add: find_node_None_iff)
          then show ?thesis using f ix ip by simp
        qed
      qed
    qed
  qed
qed simp

lemma sibling_after_split:
  "nid l \<notin> nid ` set ss \<Longrightarrow>
     sibling_after (nid l) (ss @ l # r) = (case r of [] \<Rightarrow> None | m # _ \<Rightarrow> Some (nid m))"
  by (induction ss) (auto split: list.splits)

text \<open>A node that was removed has no next sibling.\<close>

lemma next_sibling_removed:
  assumes "parent_of x d = Some p" and "distinct (ids d)"
  shows "next_sibling x (remove_node x d) = None"
proof -
  obtain c where c: "c \<in> set (kids p)" "nid c = x" using parent_of_kid [OF assms(1)] by auto
  then have f: "find_node x d = Some c"
    using find_node_kid [OF kid_of_parent [OF assms] c(1) assms(2)] by simp
  have split: "mset (ids (detach x d)) + mset (ids [c]) = mset (ids d)"
    by (rule mset_ids_detach [OF f assms(2)])
  have "distinct (ids (detach x d) @ ids [c])"
    using split assms(2) by (metis mset_append mset_eq_imp_distinct_iff)
  then have "x \<notin> set (ids (detach x d))" "x \<notin> set (ids (kids c))"
    using c(2) by (cases c; auto)+
  moreover have "parent_of x (a @ b) = parent_of x b" if "x \<notin> set (ids a)" for a b
    using that
  proof (induction a rule: forest_induct)
    case (Cons i k cs ns)
    then have "x \<notin> nid ` set cs" using nid_in_ids by fastforce
    with Cons show ?case by simp
  qed simp
  moreover have "parent_of x [c] = None"
  proof (cases c)
    case (Node i k cs)
    then have "x \<notin> nid ` set cs" using calculation(2) nid_in_ids by fastforce
    with Node calculation(2) show ?thesis by simp
  qed
  ultimately have "parent_of x (detach x d @ [c]) = None" by simp
  with assms(1) f show ?thesis by (simp add: next_sibling_def remove_node_def)
qed

end
