(* ===== verification/Xas.thy ===== *)
theory Xas
  imports Dom
begin

text \<open>
  The view machine of \<open>webc/datacell.js\<close> (\<open>DataCell.buildView\<close>): it interprets the
  instructions the rendering engine sends (the XAS format: one opcode byte, then strings
  with a two-byte big-endian length) and builds the new view in a document fragment, which
  the terminating instruction swaps into the shadow root of the cell.
\<close>

section \<open>Instructions\<close>

text \<open>\<open>rx/optype_abi.js\<close>: the opcodes, by number.\<close>

datatype optype = OpTerm | OpCreateElement | OpSetClass | OpSetID | OpSetAttr | OpAddText
  | OpReuse | OpReID | OpNext

fun optype_code :: "optype \<Rightarrow> nat" where
  "optype_code OpTerm = 0"
| "optype_code OpCreateElement = 1"
| "optype_code OpSetClass = 2"
| "optype_code OpSetID = 3"
| "optype_code OpSetAttr = 4"
| "optype_code OpAddText = 5"
| "optype_code OpReuse = 6"
| "optype_code OpReID = 7"
| "optype_code OpNext = 8"

definition optypes :: "optype list" where
  "optypes = [OpTerm, OpCreateElement, OpSetClass, OpSetID, OpSetAttr, OpAddText, OpReuse,
     OpReID, OpNext]"

definition optype_of :: "nat \<Rightarrow> optype option" where
  "optype_of n = (if n < length optypes then Some (optypes ! n) else None)"

lemma optype_of_code [simp]: "optype_of (optype_code c) = Some c"
  by (cases c) (simp_all add: optype_of_def optypes_def)

instantiation optype :: linorder
begin

definition less_eq_optype :: "optype \<Rightarrow> optype \<Rightarrow> bool" where
  "a \<le> b \<longleftrightarrow> optype_code a \<le> optype_code b"

definition less_optype :: "optype \<Rightarrow> optype \<Rightarrow> bool" where
  "a < b \<longleftrightarrow> optype_code a < optype_code b"

instance
proof
  fix a b :: optype
  assume "a \<le> b" and "b \<le> a"
  then have "optype_code a = optype_code b" by (simp add: less_eq_optype_def)
  then have "optype_of (optype_code a) = optype_of (optype_code b)" by simp
  then show "a = b" by simp
qed (auto simp: less_eq_optype_def less_optype_def)

end

datatype instr =
    ITerm
  | ICreateElement string
  | ISetClass string
  | ISetID string
  | ISetAttr string string
  | IAddText string
  | IReuse string
  | IReID string string
  | INext
  | IUnknown

type_synonym byte = "8 word"

text \<open>\<open>DataView.getUint16\<close> without a flag reads big-endian.\<close>

definition be16 :: "byte \<Rightarrow> byte \<Rightarrow> nat" where
  "be16 hi lo = unat hi * 256 + unat lo"

datatype vm_error =
    TypeError
  | RangeError
  | HierarchyRequestError
  | InvalidCharacterError
  | ReuseNotFound string
  | NoTermInstruction

text \<open>
  \<open>loadString\<close>: the length, then that many bytes; reading past the program is a
  \<open>RangeError\<close>. The bytes are the UTF-8 text itself (the strings of this model).
\<close>

definition load_string :: "byte list \<Rightarrow> nat \<Rightarrow> vm_error + string \<times> nat" where
  "load_string prog ip =
     (if length prog < ip + 2 then Inl RangeError
      else let len = be16 (prog ! ip) (prog ! (ip + 1)); ip1 = ip + 2
        in if length prog < ip1 + len then Inl RangeError
           else Inr (map (\<lambda>b. char_of (unat b)) (take len (drop ip1 prog)), ip1 + len))"

definition load_one :: "byte list \<Rightarrow> nat \<Rightarrow> (string \<Rightarrow> instr) \<Rightarrow> vm_error + instr \<times> nat" where
  "load_one prog ip f =
     (case load_string prog ip of Inl e \<Rightarrow> Inl e | Inr (s, ip1) \<Rightarrow> Inr (f s, ip1))"

definition load_two :: "byte list \<Rightarrow> nat \<Rightarrow> (string \<Rightarrow> string \<Rightarrow> instr) \<Rightarrow> vm_error + instr \<times> nat" where
  "load_two prog ip f =
     (case load_string prog ip of
        Inl e \<Rightarrow> Inl e
      | Inr (s, ip1) \<Rightarrow> load_one prog ip1 (f s))"

text \<open>
  The opcode and its operands. Each case of the source's switch loads all its operands
  before it touches the document, so fetching and executing separate.
\<close>

definition fetch :: "byte list \<Rightarrow> nat \<Rightarrow> vm_error + instr \<times> nat" where
  "fetch prog ip =
     (let ip1 = ip + 1 in
      case optype_of (unat (prog ! ip)) of
        Some OpTerm \<Rightarrow> Inr (ITerm, ip1)
      | Some OpCreateElement \<Rightarrow> load_one prog ip1 ICreateElement
      | Some OpSetClass \<Rightarrow> load_one prog ip1 ISetClass
      | Some OpSetID \<Rightarrow> load_one prog ip1 ISetID
      | Some OpSetAttr \<Rightarrow> load_two prog ip1 ISetAttr
      | Some OpAddText \<Rightarrow> load_one prog ip1 IAddText
      | Some OpReuse \<Rightarrow> load_one prog ip1 IReuse
      | Some OpReID \<Rightarrow> load_two prog ip1 IReID
      | Some OpNext \<Rightarrow> Inr (INext, ip1)
      | None \<Rightarrow> Inr (IUnknown, ip1))"

lemma load_string_advances: "load_string prog ip = Inr (s, ip1) \<Longrightarrow> ip < ip1"
  by (auto simp: load_string_def Let_def split: if_splits)

lemma load_one_advances: "load_one prog ip f = Inr (i, ip1) \<Longrightarrow> ip < ip1"
  by (auto simp: load_one_def split: sum.splits dest: load_string_advances)

lemma load_two_advances: "load_two prog ip f = Inr (i, ip1) \<Longrightarrow> ip < ip1"
  by (fastforce simp: load_two_def split: sum.splits dest: load_string_advances load_one_advances)

lemma fetch_advances: "fetch prog ip = Inr (i, ip1) \<Longrightarrow> ip < ip1"
  by (auto simp: fetch_def Let_def split: option.splits optype.splits
      dest!: load_one_advances load_two_advances)

section \<open>The machine\<close>

text \<open>
  \<open>shadow\<close>, \<open>end_style\<close>, \<open>gen\<close> and the document are the cell's; \<open>ndoc\<close>, \<open>anchor\<close> and
  \<open>next_node\<close> are the local variables of one \<open>buildView\<close> call. A node variable is \<open>None\<close>
  when it is null.
\<close>

record vm =
  doc :: "dnode list"
  fresh :: nat
  shadow :: nat
  end_style :: "nat option"
  gen :: int
  ndoc :: nat
  anchor :: "nat option"
  next_node :: "nat option"

datatype outcome = Running vm | Returned vm | Threw vm_error vm

text \<open>
  The names \<open>createElement\<close> and \<open>setAttribute\<close> accept: the ASCII part of the XML name
  production, and every byte of a non-ASCII character.
\<close>

definition name_start :: "char \<Rightarrow> bool" where
  "name_start c \<longleftrightarrow> (let n = (of_char c :: nat) in
     65 \<le> n \<and> n \<le> 90 \<or> 97 \<le> n \<and> n \<le> 122 \<or> n = 95 \<or> n = 58 \<or> 128 \<le> n)"

definition name_char :: "char \<Rightarrow> bool" where
  "name_char c \<longleftrightarrow> name_start c \<or> (let n = (of_char c :: nat) in
     48 \<le> n \<and> n \<le> 57 \<or> n = 45 \<or> n = 46)"

fun valid_name :: "string \<Rightarrow> bool" where
  "valid_name [] = False"
| "valid_name (c # s) \<longleftrightarrow> name_start c \<and> list_all name_char s"

definition dom_error_of :: "dom_error \<Rightarrow> vm_error" where
  "dom_error_of e = (case e of HierarchyRequest \<Rightarrow> HierarchyRequestError | NullReference \<Rightarrow> TypeError)"

text \<open>\<open>if (next) next.replaceWith(n) else anchor.appendChild(n)\<close>\<close>

definition place :: "nat \<Rightarrow> vm \<Rightarrow> vm_error + vm" where
  "place n s =
     (case next_node s of
        Some x \<Rightarrow> (case replace_with x n (doc s) of
                     Inl e \<Rightarrow> Inl (dom_error_of e) | Inr d \<Rightarrow> Inr (s\<lparr>doc := d\<rparr>))
      | None \<Rightarrow> (case anchor s of
                   None \<Rightarrow> Inl TypeError
                 | Some a \<Rightarrow> (case append_child a n (doc s) of
                                Inl e \<Rightarrow> Inl (dom_error_of e) | Inr d \<Rightarrow> Inr (s\<lparr>doc := d\<rparr>))))"

definition new_node :: "node_kind \<Rightarrow> vm \<Rightarrow> nat \<times> vm" where
  "new_node k s = (fresh s, s\<lparr>doc := doc s @ [Node (fresh s) k []], fresh := Suc (fresh s)\<rparr>)"

definition op_create_element :: "string \<Rightarrow> vm \<Rightarrow> outcome" where
  "op_create_element tag s =
     (let svg = tag = ''svg'' \<or> tag = ''path'' in
      if \<not> svg \<and> \<not> valid_name tag then Threw InvalidCharacterError s
      else let (n, s1) = new_node (KElem svg (if svg then tag else to_lower tag) []) s
        in case place n s1 of
             Inl e \<Rightarrow> Threw e s1
           | Inr s2 \<Rightarrow> Running (s2\<lparr>next_node := first_child n (doc s2), anchor := Some n\<rparr>))"

text \<open>
  \<open>OpReuse\<close>: the node is looked up in the shadow root. With a \<open>next\<close> cursor and no such
  node, \<open>replaceWith(null)\<close> puts the text \<open>null\<close> there and \<open>n.nextSibling\<close> then fails.
\<close>

definition op_reuse :: "string \<Rightarrow> vm \<Rightarrow> outcome" where
  "op_reuse ntt s =
     (case get_element_by_id (shadow s) ntt (doc s) of
        Some n \<Rightarrow>
          (case place n s of
             Inl e \<Rightarrow> Threw e s
           | Inr s1 \<Rightarrow> Running (s1\<lparr>next_node := next_sibling n (doc s1)\<rparr>))
      | None \<Rightarrow>
          (case next_node s of
             Some x \<Rightarrow> (let (t, s1) = new_node (KText ''null'') s in
                        case place t s1 of Inl e \<Rightarrow> Threw e s1 | Inr s2 \<Rightarrow> Threw TypeError s2)
           | None \<Rightarrow> Threw (ReuseNotFound ntt) s))"

text \<open>
  Setting an attribute of the anchor: the name of an HTML element's attribute is lowered.
  A document fragment has no \<open>setAttribute\<close>.
\<close>

definition set_anchor_attribute :: "string \<Rightarrow> string \<Rightarrow> vm \<Rightarrow> outcome" where
  "set_anchor_attribute a v s =
     (case anchor s of
        None \<Rightarrow> Threw TypeError s
      | Some x \<Rightarrow>
          (case find_node x (doc s) of
             Some (Node i (KElem svg tag as) cs) \<Rightarrow>
               (if valid_name a
                then Running (s\<lparr>doc := modify x (set_attribute (if svg then a else to_lower a) v) (doc s)\<rparr>)
                else Threw InvalidCharacterError s)
           | _ \<Rightarrow> Threw TypeError s))"

text \<open>\<open>anchor.id = ntt\<close>: on a fragment this is a plain property without effect on the document.\<close>

definition op_set_id :: "string \<Rightarrow> vm \<Rightarrow> outcome" where
  "op_set_id ntt s =
     (case anchor s of
        None \<Rightarrow> Threw TypeError s
      | Some x \<Rightarrow> Running (s\<lparr>doc := modify x (set_attribute ''id'' ntt) (doc s)\<rparr>))"

definition op_re_id :: "string \<Rightarrow> string \<Rightarrow> vm \<Rightarrow> outcome" where
  "op_re_id from_id to_id s =
     (case get_element_by_id (ndoc s) from_id (doc s) of
        None \<Rightarrow> Threw TypeError s
      | Some n \<Rightarrow> Running (s\<lparr>doc := modify n (set_attribute ''id'' to_id) (doc s)\<rparr>))"

text \<open>\<open>OpAddText\<close> leaves both cursors where they are.\<close>

definition op_add_text :: "string \<Rightarrow> vm \<Rightarrow> outcome" where
  "op_add_text txt s =
     (let (t, s1) = new_node (KText txt) s in
      case place t s1 of Inl e \<Rightarrow> Threw e s1 | Inr s2 \<Rightarrow> Running s2)"

definition op_next :: "vm \<Rightarrow> outcome" where
  "op_next s =
     (case anchor s of
        None \<Rightarrow> Threw TypeError s
      | Some a \<Rightarrow> Running (s\<lparr>next_node := next_sibling a (doc s), anchor := parent_element a (doc s)\<rparr>))"

text \<open>
  The loop of \<open>OpTerm\<close>: \<open>p.remove()\<close> comes before \<open>p = p.nextSibling\<close>, and a node that was
  removed has no next sibling, so the loop body runs at most once.
\<close>

definition clear_after :: "nat \<Rightarrow> dnode list \<Rightarrow> dnode list" where
  "clear_after e d =
     (case next_sibling e d of
        None \<Rightarrow> d
      | Some p \<Rightarrow> (let d1 = remove_node p d in
                   case next_sibling p d1 of None \<Rightarrow> d1 | Some q \<Rightarrow> remove_node q d1))"

definition op_term :: "vm \<Rightarrow> outcome" where
  "op_term s =
     (case end_style s of
        None \<Rightarrow> Threw TypeError s
      | Some e \<Rightarrow>
          (let s1 = s\<lparr>doc := clear_after e (doc s)\<rparr> in
           case append_child (shadow s1) (ndoc s1) (doc s1) of
             Inl err \<Rightarrow> Threw (dom_error_of err) s1
           | Inr d \<Rightarrow> Returned (s1\<lparr>doc := d, gen := gen s1 + 1\<rparr>)))"

fun exec_instr :: "instr \<Rightarrow> vm \<Rightarrow> outcome" where
  "exec_instr ITerm s = op_term s"
| "exec_instr (ICreateElement tag) s = op_create_element tag s"
| "exec_instr (ISetClass c) s = set_anchor_attribute ''class'' c s"
| "exec_instr (ISetID i) s = op_set_id i s"
| "exec_instr (ISetAttr a v) s = set_anchor_attribute a v s"
| "exec_instr (IAddText t) s = op_add_text t s"
| "exec_instr (IReuse i) s = op_reuse i s"
| "exec_instr (IReID a b) s = op_re_id a b s"
| "exec_instr INext s = op_next s"
| "exec_instr IUnknown s = Running s"

text \<open>The \<open>while\<close> loop: it ends because every fetch advances the instruction pointer.\<close>

function run :: "byte list \<Rightarrow> nat \<Rightarrow> vm \<Rightarrow> outcome" where
  "run prog ip s =
     (if ip < length prog
      then (case fetch prog ip of
              Inl e \<Rightarrow> Threw e s
            | Inr (i, ip1) \<Rightarrow> (case exec_instr i s of Running s1 \<Rightarrow> run prog ip1 s1 | out \<Rightarrow> out))
      else Threw NoTermInstruction s)"
  by pat_completeness auto
termination
  by (relation "measure (\<lambda>(prog, ip, s). length prog - ip)") (auto dest: fetch_advances)

declare run.simps [simp del]

definition enter_view :: "vm \<Rightarrow> vm" where
  "enter_view s =
     (let (n, s1) = new_node KFragment s
      in s1\<lparr>ndoc := n, anchor := Some n, next_node := first_child n (doc s1)\<rparr>)"

definition build_view :: "byte list \<Rightarrow> vm \<Rightarrow> outcome" where
  "build_view prog s = run prog 0 (enter_view s)"


section \<open>Programs: encoding and the tree they build\<close>

text \<open>
  The engine sends a view as a tree: the element, its class, its id, its attributes, its text,
  its children, and an \<open>OpNext\<close> that closes the element (the serialiser that \<open>buildView\<close>
  is written for). \<open>emit\<close> is that order, \<open>encode\<close> the bytes.
\<close>

datatype view = View string string "string option" "(string \<times> string) list" string "view list"

fun emit_head :: "view \<Rightarrow> instr list" where
  "emit_head (View tag cls i ats tx vs) =
     (if cls = [] then [] else [ISetClass cls])
     @ (case i of None \<Rightarrow> [] | Some s \<Rightarrow> [ISetID s])
     @ map (\<lambda>(a, v). ISetAttr a v) ats"

fun view_text :: "view \<Rightarrow> string" where
  "view_text (View tag cls i ats tx vs) = tx"

fun view_tag :: "view \<Rightarrow> string" where
  "view_tag (View tag cls i ats tx vs) = tag"

fun view_kids :: "view \<Rightarrow> view list" where
  "view_kids (View tag cls i ats tx vs) = vs"

function emit_list :: "view list \<Rightarrow> instr list" where
  "emit_list [] = []"
| "emit_list (View tag cls i ats tx vs # ws) =
     [ICreateElement tag] @ emit_head (View tag cls i ats tx vs)
     @ (if tx = [] then [] else [IAddText tx]) @ emit_list vs @ [INext] @ emit_list ws"
  by pat_completeness auto
termination by (relation "measure (size_list size)") auto

definition be_bytes :: "nat \<Rightarrow> byte list" where
  "be_bytes n = [word_of_nat (n div 256), word_of_nat n]"

definition put_string :: "string \<Rightarrow> byte list" where
  "put_string s = be_bytes (length s) @ map (\<lambda>c. word_of_nat (of_char c)) s"

fun encode_instr :: "instr \<Rightarrow> byte list" where
  "encode_instr ITerm = [0]"
| "encode_instr (ICreateElement s) = 1 # put_string s"
| "encode_instr (ISetClass s) = 2 # put_string s"
| "encode_instr (ISetID s) = 3 # put_string s"
| "encode_instr (ISetAttr a v) = 4 # put_string a @ put_string v"
| "encode_instr (IAddText s) = 5 # put_string s"
| "encode_instr (IReuse s) = 6 # put_string s"
| "encode_instr (IReID a b) = 7 # put_string a @ put_string b"
| "encode_instr INext = [8]"
| "encode_instr IUnknown = [9]"

fun instr_fits :: "instr \<Rightarrow> bool" where
  "instr_fits (ICreateElement s) \<longleftrightarrow> length s < 65536"
| "instr_fits (ISetClass s) \<longleftrightarrow> length s < 65536"
| "instr_fits (ISetID s) \<longleftrightarrow> length s < 65536"
| "instr_fits (ISetAttr a v) \<longleftrightarrow> length a < 65536 \<and> length v < 65536"
| "instr_fits (IAddText s) \<longleftrightarrow> length s < 65536"
| "instr_fits (IReuse s) \<longleftrightarrow> length s < 65536"
| "instr_fits (IReID a b) \<longleftrightarrow> length a < 65536 \<and> length b < 65536"
| "instr_fits _ = True"

definition encode :: "instr list \<Rightarrow> byte list" where
  "encode is = concat (map encode_instr is)"

lemma be16_be_bytes: "n < 65536 \<Longrightarrow> be16 (word_of_nat (n div 256)) (word_of_nat n) = n"
  by (simp add: be16_def unat_of_nat div_mult_mod_eq)

lemma char_of_byte: "char_of (unat (word_of_nat (of_char c) :: byte)) = c"
  by (simp add: unat_of_nat)

lemma load_string_put:
  assumes "length s < 65536" and "ip = length pre"
  shows "load_string (pre @ put_string s @ post) ip = Inr (s, ip + 2 + length s)"
  using assms
  by (simp add: load_string_def put_string_def be_bytes_def nth_append be16_be_bytes Let_def
      char_of_byte comp_def)

lemma fetch_encode:
  assumes "instr_fits i" and "ip = length pre"
  shows "fetch (pre @ encode_instr i @ post) ip = Inr (i, ip + length (encode_instr i))"
proof -
  have one: "load_one (pre @ (b # put_string s) @ post) (Suc (length pre)) f
      = Inr (f s, length pre + length (b # put_string s))" if "length s < 65536" for b s f
    using load_string_put [OF that, of "Suc (length pre)" "pre @ [b]" post]
    by (simp add: load_one_def put_string_def be_bytes_def)
  have two: "load_two (pre @ (b # put_string s @ put_string t) @ post) (Suc (length pre)) f
      = Inr (f s t, length pre + length (b # put_string s @ put_string t))"
    if "length s < 65536" and "length t < 65536" for b s t f
    using load_string_put [OF that(1), of "Suc (length pre)" "pre @ [b]" "put_string t @ post"]
      load_string_put [OF that(2), of _ "pre @ [b] @ put_string s" post]
    by (simp add: load_two_def load_one_def put_string_def be_bytes_def)
  show ?thesis
    using assms one two
    by (cases i) (simp_all add: fetch_def nth_append optype_of_def optypes_def Let_def)
qed

text \<open>Running the bytes is running the instructions.\<close>

fun exec_list :: "instr list \<Rightarrow> vm \<Rightarrow> outcome" where
  "exec_list [] s = Running s"
| "exec_list (i # is) s = (case exec_instr i s of Running s1 \<Rightarrow> exec_list is s1 | out \<Rightarrow> out)"

definition finish :: "outcome \<Rightarrow> outcome" where
  "finish out = (case out of Running s \<Rightarrow> Threw NoTermInstruction s | _ \<Rightarrow> out)"

lemma exec_list_append:
  "exec_list (is @ js) s = (case exec_list is s of Running s1 \<Rightarrow> exec_list js s1 | out \<Rightarrow> out)"
  by (induction "is" arbitrary: s) (auto split: outcome.splits)

lemma encode_instr_nonempty: "0 < length (encode_instr i)"
  by (cases i) auto

lemma run_encode_from:
  assumes "list_all instr_fits is"
  shows "run (pre @ encode is) (length pre) s = finish (exec_list is s)"
  using assms
proof (induction "is" arbitrary: pre s)
  case Nil
  then show ?case by (simp add: encode_def finish_def run.simps)
next
  case (Cons i js)
  have e: "encode (i # js) = encode_instr i @ encode js" by (simp add: encode_def)
  have f: "fetch (pre @ encode_instr i @ encode js) (length pre)
      = Inr (i, length (pre @ encode_instr i))"
    using Cons.prems fetch_encode [of i "length pre" pre "encode js"] by simp
  have "run (pre @ encode (i # js)) (length pre) s
      = (case exec_instr i s of
           Running s1 \<Rightarrow> run ((pre @ encode_instr i) @ encode js) (length (pre @ encode_instr i)) s1
         | out \<Rightarrow> out)"
    using f encode_instr_nonempty [of i] by (subst run.simps) (simp add: e split: outcome.split)
  also have "\<dots> = finish (exec_list (i # js) s)"
    using Cons.IH [of "pre @ encode_instr i"] Cons.prems
    by (auto simp: finish_def split: outcome.splits)
  finally show ?case .
qed

lemma run_encode: "list_all instr_fits is \<Longrightarrow> run (encode is) 0 s = finish (exec_list is s)"
  using run_encode_from [of "is" "[]"] by simp

section \<open>What a program builds\<close>

fun start_kind :: "string \<Rightarrow> node_kind" where
  "start_kind tag = (let svg = tag = ''svg'' \<or> tag = ''path'' in KElem svg (if svg then tag else to_lower tag) [])"

fun kind_set :: "string \<Rightarrow> string \<Rightarrow> node_kind \<Rightarrow> node_kind" where
  "kind_set a v (KElem svg tag as) = KElem svg tag (attr_set (if svg then a else to_lower a) v as)"
| "kind_set a v k = k"

fun view_kind :: "view \<Rightarrow> node_kind" where
  "view_kind (View tag cls i ats tx vs) =
     fold (\<lambda>(a, v). kind_set a v) ats
       ((case i of None \<Rightarrow> id | Some s \<Rightarrow> kind_set ''id'' s)
         ((if cls = [] then id else kind_set ''class'' cls) (start_kind tag)))"

text \<open>The nodes of a list of views, numbered in the order the machine creates them.\<close>

function inst_list :: "nat \<Rightarrow> view list \<Rightarrow> dnode list \<times> nat" where
  "inst_list n [] = ([], n)"
| "inst_list n (View tag cls i ats tx vs # ws) =
     (let (tn, n1) = (if tx = [] then ([], Suc n) else ([Node (Suc n) (KText tx) []], Suc (Suc n)));
          (kn, n2) = inst_list n1 vs;
          (rn, n3) = inst_list n2 ws
      in (Node n (view_kind (View tag cls i ats tx vs)) (tn @ kn) # rn, n3))"
  by pat_completeness auto
termination by (relation "measure (size_list size \<circ> snd)") auto

definition view_valid_here :: "view \<Rightarrow> bool" where
  "view_valid_here v \<longleftrightarrow>
     (case v of View tag cls i ats tx vs \<Rightarrow>
        (tag = ''svg'' \<or> tag = ''path'' \<or> valid_name tag) \<and> list_all (\<lambda>(a, v). valid_name a) ats)"

function view_valid :: "view list \<Rightarrow> bool" where
  "view_valid [] \<longleftrightarrow> True"
| "view_valid (View tag cls i ats tx vs # ws) \<longleftrightarrow>
     view_valid_here (View tag cls i ats tx vs) \<and> view_valid vs \<and> view_valid ws"
  by pat_completeness auto
termination by (relation "measure (size_list size)") auto

text \<open>
  A state in which the machine fills node \<open>a\<close>: it is the anchor, nothing follows the cursor,
  and the identities are distinct and used up to \<open>fresh\<close>.
\<close>

definition vm_wf :: "vm \<Rightarrow> bool" where
  "vm_wf s \<longleftrightarrow> distinct (ids (doc s)) \<and> list_all (\<lambda>i. i < fresh s) (ids (doc s))"

definition filling :: "nat \<Rightarrow> node_kind \<Rightarrow> vm \<Rightarrow> bool" where
  "filling a k s \<longleftrightarrow> vm_wf s \<and> anchor s = Some a \<and> next_node s = None
     \<and> (\<exists>cs. find_node a (doc s) = Some (Node a k cs)) \<and> (\<forall>t. k \<noteq> KText t)"

lemma vm_wf_fresh: "vm_wf s \<Longrightarrow> fresh s \<notin> set (ids (doc s))"
  by (auto simp: vm_wf_def list_all_iff)

lemma append_child_new:
  assumes "n \<notin> set (ids d)" and "find_node a d = Some (Node a k cs)" and "\<forall>t. k \<noteq> KText t"
    and "k' \<noteq> KFragment"
  shows "append_child a n (d @ [Node n k' []]) = Inr (append_kids a [Node n k' []] d)"
proof -
  have "a \<noteq> n" using assms(1,2) by auto
  with assms show ?thesis
    by (auto simp: append_child_def find_node_append detach_append_notin Let_def split: node_kind.splits)
qed

lemma append_kids_twice:
  "append_kids a ts (append_kids a us d) = append_kids a (us @ ts) d"
proof (induction d rule: forest_induct)
  case (Cons i k cs ns)
  then show ?case by (cases "i = a") auto
qed simp

lemma filling_append:
  assumes "filling a k s" and "set (ids ts) = {fresh s..<n}" and "distinct (ids ts)" and "fresh s \<le> n"
  shows "filling a k (s\<lparr>doc := append_kids a ts (doc s), fresh := n\<rparr>)"
proof -
  obtain cs where f: "find_node a (doc s) = Some (Node a k cs)"
    using assms(1) by (auto simp: filling_def)
  have wf: "vm_wf s" using assms(1) by (simp add: filling_def)
  have a: "a \<in> set (ids (doc s))" using f by auto
  have m: "mset (ids (append_kids a ts (doc s))) = mset (ids (doc s) @ ids ts)"
    using mset_ids_append_kids [OF a] wf by (simp add: vm_wf_def)
  have "distinct (ids (doc s) @ ids ts)"
    using assms(2,3) wf by (auto simp: vm_wf_def list_all_iff)
  then have "distinct (ids (append_kids a ts (doc s)))"
    using m by (metis mset_eq_imp_distinct_iff)
  moreover have "\<forall>i \<in> set (ids (append_kids a ts (doc s))). i < n"
    using m assms(2,4) wf mset_eq_setD [OF m] by (auto simp: vm_wf_def list_all_iff)
  ultimately show ?thesis
    using assms(1) find_append_kids_self [OF f]
    by (auto simp: filling_def vm_wf_def list_all_iff)
qed

lemma inst_list_ids:
  "inst_list n vs = (ts, m) \<Longrightarrow> n \<le> m \<and> set (ids ts) = {n..<m} \<and> distinct (ids ts)"
proof (induction n vs arbitrary: ts m rule: inst_list.induct)
  case (1 n)
  then show ?case by simp
next
  case (2 n tag cls i ats tx vs ws)
  define n1 where "n1 = (if tx = [] then Suc n else Suc (Suc n))"
  define tn where "tn = (if tx = [] then [] else [Node (Suc n) (KText tx) []])"
  have c: "(if tx = [] then ([], Suc n) else ([Node (Suc n) (KText tx) []], Suc (Suc n))) = (tn, n1)"
    by (simp add: n1_def tn_def)
  obtain kn n2 where k: "inst_list n1 vs = (kn, n2)" by fastforce
  obtain rn n3 where r: "inst_list n2 ws = (rn, n3)" by fastforce
  have ik: "n1 \<le> n2 \<and> set (ids kn) = {n1..<n2} \<and> distinct (ids kn)"
    using "2.IH"(1) [OF c [symmetric] refl k] .
  have ir: "n2 \<le> n3 \<and> set (ids rn) = {n2..<n3} \<and> distinct (ids rn)"
    using "2.IH"(2) [OF c [symmetric] refl k [symmetric] refl r] .
  have out: "ts = Node n (view_kind (View tag cls i ats tx vs)) (tn @ kn) # rn" "m = n3"
    using "2.prems" by (simp_all only: inst_list.simps c k r Let_def prod.case prod.inject)
  have t: "set (ids tn) = {Suc n..<n1}" "distinct (ids tn)" "Suc n \<le> n1"
    by (auto simp: tn_def n1_def)
  show ?case using t ik ir by (auto simp: out)
qed

text \<open>
  One element: its opening, its attributes, its text, its close. \<open>inside\<close> is the state in an
  element just opened below \<open>a\<close> in the state \<open>s\<close>, with \<open>m\<close> identities used.
\<close>

abbreviation inside :: "nat \<Rightarrow> node_kind \<Rightarrow> dnode list \<Rightarrow> nat \<Rightarrow> vm \<Rightarrow> vm" where
  "inside a k ts m s \<equiv>
     s\<lparr>doc := append_kids a [Node (fresh s) k ts] (doc s), fresh := m, anchor := Some (fresh s)\<rparr>"

abbreviation opened :: "nat \<Rightarrow> node_kind \<Rightarrow> dnode list \<Rightarrow> vm \<Rightarrow> vm" where
  "opened a k ts s \<equiv> inside a k ts (Suc (fresh s)) s"

lemma start_kind_elem: "is_elem (start_kind tag)" "start_kind tag \<noteq> KFragment"
  by (simp_all add: Let_def)

lemma is_elem_kind_set [simp]: "is_elem (kind_set a v k) = is_elem k"
  by (cases "(a, v, k)" rule: kind_set.cases) auto

lemma is_elem_neq: "is_elem k \<Longrightarrow> k \<noteq> KText t \<and> k \<noteq> KFragment"
  by (cases k) auto

lemma exec_create:
  assumes "filling a k s" and "tag = ''svg'' \<or> tag = ''path'' \<or> valid_name tag"
  shows "exec_instr (ICreateElement tag) s = Running (opened a (start_kind tag) [] s)"
    and "filling (fresh s) (start_kind tag) (opened a (start_kind tag) [] s)"
proof -
  obtain cs where f: "find_node a (doc s) = Some (Node a k cs)"
    using assms(1) by (auto simp: filling_def)
  have new: "fresh s \<notin> set (ids (doc s))"
    using assms(1) by (simp add: filling_def vm_wf_fresh)
  have a: "a \<in> set (ids (doc s))" and ne: "a \<noteq> fresh s" using f new by auto
  note app = append_child_new [OF new f _ start_kind_elem(2) [of tag]]
  have fk: "find_node (fresh s) (append_kids a [Node (fresh s) (start_kind tag) []] (doc s))
      = Some (Node (fresh s) (start_kind tag) [])"
    by (rule find_append_kids_fresh [OF new a ne])
  show "exec_instr (ICreateElement tag) s = Running (opened a (start_kind tag) [] s)"
    using assms f app fk
    by (auto simp: op_create_element_def new_node_def place_def filling_def first_child_def Let_def)
  have "filling a k (s\<lparr>doc := append_kids a [Node (fresh s) (start_kind tag) []] (doc s),
      fresh := Suc (fresh s)\<rparr>)"
    by (rule filling_append [OF assms(1)]) auto
  then show "filling (fresh s) (start_kind tag) (opened a (start_kind tag) [] s)"
    using fk start_kind_elem by (auto simp: filling_def vm_wf_def Let_def)
qed

lemma filling_inside:
  assumes "filling a k0 s" and "set (ids ts) = {Suc (fresh s)..<m}" and "distinct (ids ts)"
    and "Suc (fresh s) \<le> m" and "is_elem k"
  shows "filling (fresh s) k (inside a k ts m s)"
proof -
  obtain cs where f: "find_node a (doc s) = Some (Node a k0 cs)"
    using assms(1) by (auto simp: filling_def)
  have new: "fresh s \<notin> set (ids (doc s))"
    using assms(1) by (simp add: filling_def vm_wf_fresh)
  have a: "a \<in> set (ids (doc s))" and ne: "a \<noteq> fresh s" using f new by auto
  have "filling a k0 (s\<lparr>doc := append_kids a [Node (fresh s) k ts] (doc s), fresh := m\<rparr>)"
    by (rule filling_append [OF assms(1)]) (use assms in auto)
  moreover have "find_node (fresh s) (append_kids a [Node (fresh s) k ts] (doc s))
      = Some (Node (fresh s) k ts)"
    by (rule find_append_kids_fresh [OF new a ne])
  ultimately show ?thesis
    using is_elem_neq [OF assms(5)] by (auto simp: filling_def vm_wf_def)
qed

lemma exec_set_attribute:
  assumes "filling a k0 s" and "is_elem k" and "valid_name x"
  shows "set_anchor_attribute x v (opened a k [] s) = Running (opened a (kind_set x v k) [] s)"
proof -
  obtain cs where f: "find_node a (doc s) = Some (Node a k0 cs)"
    using assms(1) by (auto simp: filling_def)
  have new: "fresh s \<notin> set (ids (doc s))"
    using assms(1) by (simp add: filling_def vm_wf_fresh)
  have a: "a \<in> set (ids (doc s))" and ne: "a \<noteq> fresh s" using f new by auto
  obtain svg tag ats where k: "k = KElem svg tag ats" using assms(2) by (cases k) auto
  show ?thesis
    using assms(3) find_append_kids_fresh [OF new a ne] modify_fresh_kid [OF new ne]
    by (auto simp: set_anchor_attribute_def k)
qed

lemma exec_set_id:
  assumes "filling a k0 s" and "is_elem k"
  shows "op_set_id v (opened a k [] s) = Running (opened a (kind_set ''id'' v k) [] s)"
proof -
  obtain cs where f: "find_node a (doc s) = Some (Node a k0 cs)"
    using assms(1) by (auto simp: filling_def)
  have new: "fresh s \<notin> set (ids (doc s))"
    using assms(1) by (simp add: filling_def vm_wf_fresh)
  have ne: "a \<noteq> fresh s" using f new by auto
  obtain svg tag ats where k: "k = KElem svg tag ats" using assms(2) by (cases k) auto
  have "to_lower ''id'' = ''id''" by (simp add: to_lower_def lower_char_def)
  then show ?thesis
    using modify_fresh_kid [OF new ne] by (auto simp: op_set_id_def k)
qed

lemma valid_name_class: "valid_name ''class''"
  by (simp add: name_char_def name_start_def Let_def)

lemma exec_attrs:
  assumes "filling a k0 s" and "is_elem k" and "list_all (\<lambda>(x, v). valid_name x) ats"
  shows "exec_list (map (\<lambda>(x, v). ISetAttr x v) ats) (opened a k [] s)
    = Running (opened a (fold (\<lambda>(x, v). kind_set x v) ats k) [] s)"
  using assms
proof (induction ats arbitrary: k)
  case (Cons p ats)
  obtain x v where p: "p = (x, v)" by fastforce
  with Cons show ?case by (simp add: exec_set_attribute)
qed simp

lemma is_elem_view_kind: "is_elem (view_kind v)"
proof -
  have fold: "is_elem (fold (\<lambda>(x, v). kind_set x v) ats k) = is_elem k" for ats k
  proof (induction ats arbitrary: k)
    case (Cons p ats)
    then show ?case by (cases p) (simp only: fold_Cons comp_apply prod.case is_elem_kind_set)
  qed (simp only: fold_Nil id_apply)
  obtain tag cls i ats tx vs where v: "v = View tag cls i ats tx vs" by (cases v)
  show ?thesis
    unfolding v view_kind.simps fold
    by (cases i; cases "cls = []") (simp_all only: id_apply option.case if_True if_False
        is_elem_kind_set start_kind_elem simp_thms)
qed

lemma exec_head:
  assumes "filling a k0 s" and "view_valid_here v"
  shows "exec_list (emit_head v) (opened a (start_kind (view_tag v)) [] s)
    = Running (opened a (view_kind v) [] s)"
proof -
  obtain tag cls i ats tx vs where v: "v = View tag cls i ats tx vs" by (cases v)
  define k1 where "k1 = (if cls = [] then id else kind_set ''class'' cls) (start_kind tag)"
  define k2 where "k2 = (case i of None \<Rightarrow> id | Some n \<Rightarrow> kind_set ''id'' n) k1"
  have e1: "is_elem k1" using start_kind_elem by (simp add: k1_def del: start_kind.simps)
  have e2: "is_elem k2" using e1 by (auto simp: k2_def split: option.splits)
  have s1: "exec_list (if cls = [] then [] else [ISetClass cls]) (opened a (start_kind tag) [] s)
      = Running (opened a k1 [] s)"
    using exec_set_attribute [OF assms(1) start_kind_elem(1) valid_name_class]
    by (simp add: k1_def del: start_kind.simps valid_name.simps)
  have s2: "exec_list (case i of None \<Rightarrow> [] | Some n \<Rightarrow> [ISetID n]) (opened a k1 [] s)
      = Running (opened a k2 [] s)"
    using exec_set_id [OF assms(1) e1] by (cases i) (simp_all add: k2_def)
  have s3: "exec_list (map (\<lambda>(x, v). ISetAttr x v) ats) (opened a k2 [] s)
      = Running (opened a (view_kind v) [] s)"
    using exec_attrs [OF assms(1) e2, of ats] assms(2)
    by (simp add: v view_valid_here_def k1_def k2_def)
  show ?thesis by (simp add: v exec_list_append s1 s2 s3 [unfolded v] del: start_kind.simps view_kind.simps)
qed

lemma exec_text:
  assumes "filling a k0 s" and "is_elem k" and "tx \<noteq> []"
  shows "exec_instr (IAddText tx) (opened a k [] s)
    = Running (inside a k [Node (Suc (fresh s)) (KText tx) []] (Suc (Suc (fresh s))) s)"
proof -
  let ?s1 = "opened a k [] s"
  have fl: "filling (fresh s) k ?s1"
    using filling_inside [OF assms(1), of "[]" "Suc (fresh s)" k] assms(2) by simp
  then obtain cs where f: "find_node (fresh s) (doc ?s1) = Some (Node (fresh s) k cs)"
    by (auto simp: filling_def)
  have new: "fresh ?s1 \<notin> set (ids (doc ?s1))"
    using fl vm_wf_fresh unfolding filling_def by blast
  obtain cs0 where f0: "find_node a (doc s) = Some (Node a k0 cs0)"
    using assms(1) by (auto simp: filling_def)
  have new0: "fresh s \<notin> set (ids (doc s))"
    using assms(1) by (simp add: filling_def vm_wf_fresh)
  then have ne: "a \<noteq> fresh s" using f0 by auto
  have "append_child (fresh s) (fresh ?s1) (doc ?s1 @ [Node (fresh ?s1) (KText tx) []])
      = Inr (append_kids (fresh s) [Node (fresh ?s1) (KText tx) []] (doc ?s1))"
    by (rule append_child_new [OF new f]) (use is_elem_neq [OF assms(2)] in auto)
  then show ?thesis
    using assms(1) modify_fresh_kid [OF new0 ne]
    by (simp add: op_add_text_def new_node_def place_def filling_def)
qed

lemma exec_next:
  assumes "filling a k0 s" and "is_elem k"
  shows "exec_instr INext (inside a k ts m s)
    = Running (s\<lparr>doc := append_kids a [Node (fresh s) k ts] (doc s), fresh := m,
                anchor := if is_elem k0 then Some a else None\<rparr>)"
proof -
  obtain cs where f: "find_node a (doc s) = Some (Node a k0 cs)"
    using assms(1) by (auto simp: filling_def)
  have new: "fresh s \<notin> set (ids (doc s))" and d: "distinct (ids (doc s))"
    using assms(1) by (auto simp: filling_def vm_wf_fresh vm_wf_def)
  have p: "parent_of (fresh s) (append_kids a [Node (fresh s) k ts] (doc s))
      = Some (Node a k0 (cs @ [Node (fresh s) k ts]))"
    by (rule parent_of_fresh_kid [OF new f d])
  have "set (ids cs) \<subseteq> set (ids (doc s))"
    using ids_subtree [OF f] by (metis ids.simps(2) append_Nil2 ids.simps(1) mset_subset_eqD set_mset_mset set_subset_Cons subset_iff)
  then have "fresh s \<notin> nid ` set cs" using new nid_in_ids by fastforce
  then have "sibling_after (fresh s) (cs @ [Node (fresh s) k ts]) = None"
    by (rule sibling_after_last)
  then show ?thesis
    using assms(1) p by (simp add: op_next_def next_sibling_def parent_element_def filling_def)
qed

definition builds :: "view list \<Rightarrow> bool" where
  "builds vs \<longleftrightarrow> (\<forall>a k s. filling a k s \<longrightarrow> is_elem k \<longrightarrow>
     exec_list (emit_list vs) s
       = Running (s\<lparr>doc := append_kids a (fst (inst_list (fresh s) vs)) (doc s),
                   fresh := snd (inst_list (fresh s) vs)\<rparr>))"

lemma inst_list_Cons:
  "inst_list n (v # ws) =
     (let (ts, n2) = inst_list n [v]; (rn, n3) = inst_list n2 ws in (ts @ rn, n3))"
  by (cases v) (simp add: Let_def split: prod.splits)

text \<open>An element whose children are built is built; a fragment leaves no anchor behind.\<close>

lemma exec_element:
  assumes "filling a k s" and "view_valid_here (View tag cls i ats tx vs)" and "builds vs"
  shows "exec_list (emit_list [View tag cls i ats tx vs]) s
    = Running (s\<lparr>doc := append_kids a (fst (inst_list (fresh s) [View tag cls i ats tx vs])) (doc s),
                fresh := snd (inst_list (fresh s) [View tag cls i ats tx vs]),
                anchor := if is_elem k then Some a else None\<rparr>)"
proof -
  define v where "v = View tag cls i ats tx vs"
  have ok: "view_valid_here v" and tag: "tag = ''svg'' \<or> tag = ''path'' \<or> valid_name tag"
    using assms(2) by (auto simp: v_def view_valid_here_def)
  define n1 where "n1 = (if tx = [] then Suc (fresh s) else Suc (Suc (fresh s)))"
  define tn where "tn = (if tx = [] then [] else [Node (Suc (fresh s)) (KText tx) []])"
  have c: "(if tx = [] then ([], Suc (fresh s))
      else ([Node (Suc (fresh s)) (KText tx) []], Suc (Suc (fresh s)))) = (tn, n1)"
    by (simp add: n1_def tn_def)
  obtain kn n2 where kn: "inst_list n1 vs = (kn, n2)" by fastforce
  have el: "is_elem (view_kind v)" by (rule is_elem_view_kind)
  have open_ok: "exec_list (ICreateElement tag # emit_head v) s = Running (opened a (view_kind v) [] s)"
    using exec_create(1) [OF assms(1) tag] exec_head [OF assms(1) ok]
    by (simp add: v_def del: emit_head.simps start_kind.simps view_kind.simps exec_instr.simps)
  have text_ok: "exec_list (if tx = [] then [] else [IAddText tx]) (opened a (view_kind v) [] s)
      = Running (inside a (view_kind v) tn n1 s)"
    using exec_text [OF assms(1) el, of tx]
    by (simp add: tn_def n1_def del: exec_instr.simps)
  have tn_ids: "set (ids tn) = {Suc (fresh s)..<n1}" "distinct (ids tn)" "Suc (fresh s) \<le> n1"
    by (auto simp: tn_def n1_def)
  have fl: "filling (fresh s) (view_kind v) (inside a (view_kind v) tn n1 s)"
    by (rule filling_inside [OF assms(1) tn_ids el])
  have new: "fresh s \<notin> set (ids (doc s))" and ne: "a \<noteq> fresh s"
    using assms(1) by (auto simp: filling_def vm_wf_fresh dest!: find_node_in dest: vm_wf_fresh)
  have kids_ok: "exec_list (emit_list vs) (inside a (view_kind v) tn n1 s)
      = Running (inside a (view_kind v) (tn @ kn) n2 s)"
    using assms(3) fl el kn modify_fresh_kid [OF new ne] by (simp add: builds_def)
  have close: "exec_list [INext] (inside a (view_kind v) (tn @ kn) n2 s)
      = Running (s\<lparr>doc := append_kids a [Node (fresh s) (view_kind v) (tn @ kn)] (doc s), fresh := n2,
                  anchor := if is_elem k then Some a else None\<rparr>)"
    by (simp only: exec_list.simps exec_next [OF assms(1) el] outcome.case)
  have e: "emit_list [v] = (ICreateElement tag # emit_head v)
      @ (if tx = [] then [] else [IAddText tx]) @ emit_list vs @ [INext]"
    by (simp add: v_def del: emit_head.simps)
  have out: "inst_list (fresh s) [v] = ([Node (fresh s) (view_kind v) (tn @ kn)], n2)"
    by (simp only: v_def inst_list.simps c kn Let_def prod.case)
  show ?thesis
    unfolding v_def [symmetric] e out exec_list_append open_ok text_ok outcome.case kids_ok
      close fst_conv snd_conv ..
qed

lemma builds_valid: "view_valid vs \<Longrightarrow> builds vs"
proof (induction vs rule: emit_list.induct)
  case 1
  have "append_kids a [] d = d" for a d
    by (induction d rule: forest_induct) auto
  then show ?case by (simp add: builds_def)
next
  case (2 tag cls i ats tx vs ws)
  define v where "v = View tag cls i ats tx vs"
  have ok: "view_valid_here v" and kids: "builds vs" and rest: "builds ws"
    using 2 by (auto simp: v_def)
  show ?case
    unfolding builds_def
  proof (intro allI impI)
    fix a k s
    assume fl: "filling a k s" and el: "is_elem k"
    obtain ts n2 where v: "inst_list (fresh s) [v] = (ts, n2)" by fastforce
    obtain rn n3 where w: "inst_list n2 ws = (rn, n3)" by fastforce
    let ?s1 = "s\<lparr>doc := append_kids a ts (doc s), fresh := n2\<rparr>"
    have anchor: "s\<lparr>doc := d, fresh := m, anchor := Some a\<rparr> = s\<lparr>doc := d, fresh := m\<rparr>" for d m
      using fl by (simp add: filling_def)
    have one: "exec_list (emit_list [v]) s = Running ?s1"
      using exec_element [OF fl ok [unfolded v_def] kids] v el anchor by (simp add: v_def)
    have "filling a k ?s1"
      using filling_append [OF fl] inst_list_ids [OF v] by blast
    then have two: "exec_list (emit_list ws) ?s1
        = Running (s\<lparr>doc := append_kids a (ts @ rn) (doc s), fresh := n3\<rparr>)"
      using rest el w by (simp add: builds_def append_kids_twice)
    have e: "emit_list (v # ws) = emit_list [v] @ emit_list ws"
      by (simp add: v_def)
    show "exec_list (emit_list (View tag cls i ats tx vs # ws)) s
        = Running (s\<lparr>doc := append_kids a (fst (inst_list (fresh s) (View tag cls i ats tx vs # ws))) (doc s),
                    fresh := snd (inst_list (fresh s) (View tag cls i ats tx vs # ws))\<rparr>)"
      unfolding v_def [symmetric] e exec_list_append one outcome.case two
      by (simp only: inst_list_Cons [of _ v ws] v w Let_def prod.case fst_conv snd_conv)
  qed
qed

section \<open>The view that replaces the one before\<close>

text \<open>
  A cell shows \<open>old\<close> after its style sheets: the shadow root has the style sheets and then at
  most one view.
\<close>

definition shows_view :: "dnode list \<Rightarrow> dnode list \<Rightarrow> vm \<Rightarrow> bool" where
  "shows_view styles old s \<longleftrightarrow> vm_wf s \<and> styles \<noteq> [] \<and> length old \<le> 1
     \<and> find_node (shadow s) (doc s) = Some (Node (shadow s) KShadow (styles @ old))
     \<and> end_style s = Some (nid (last styles))"

lemma clear_after_view:
  assumes "shows_view styles old s" and "distinct (ids (doc s @ X))"
  shows "clear_after (nid (last styles)) (doc s @ X)
    = (case old of [] \<Rightarrow> doc s @ X | n # _ \<Rightarrow> detach (nid n) (doc s) @ X @ [n])"
proof -
  let ?sh = "Node (shadow s) KShadow (styles @ old)"
  have f: "find_node (shadow s) (doc s) = Some ?sh" and ne: "styles \<noteq> []" and len: "length old \<le> 1"
    using assms(1) by (auto simp: shows_view_def)
  have fX: "find_node (shadow s) (doc s @ X) = Some ?sh"
    using f by (simp add: find_node_append)
  obtain ss l where st: "styles = ss @ [l]" by (metis ne rev_exhaust)
  have dk: "distinct (ids (styles @ old))"
    using distinct_submset [OF ids_subtree [OF fX] assms(2)] by auto
  have "nid l \<notin> nid ` set ss"
    using dk nid_in_ids by (cases l) (fastforce simp: st)
  then have sib: "sibling_after (nid l) (styles @ old) = (case old of [] \<Rightarrow> None | m # _ \<Rightarrow> Some (nid m))"
    using sibling_after_split [of l ss old] by (simp add: st)
  have par: "parent_of (nid l) (doc s @ X) = Some ?sh"
    by (rule parent_of_found [OF fX _ assms(2)]) (simp add: st)
  show ?thesis
  proof (cases old)
    case Nil
    with sib par st show ?thesis by (simp add: clear_after_def next_sibling_def)
  next
    case (Cons n r)
    then have r: "r = []" using len by simp
    have parn: "parent_of (nid n) (doc s @ X) = Some ?sh"
      by (rule parent_of_found [OF fX _ assms(2)]) (simp add: Cons)
    have fn: "find_node (nid n) (doc s @ X) = Some n"
      by (rule find_node_kid [OF fX _ assms(2)]) (simp add: Cons)
    have "nid n \<in> set (ids (doc s))"
      using ids_of_found [OF f] nid_in_ids [of n "styles @ old"] Cons by auto
    then have "nid n \<notin> set (ids X)" using assms(2) by auto
    then have "remove_node (nid n) (doc s @ X) = detach (nid n) (doc s) @ X @ [n]"
      using parn fn by (simp add: remove_node_def detach_append_left)
    moreover have "next_sibling (nid n) (remove_node (nid n) (doc s @ X)) = None"
      by (rule next_sibling_removed [OF parn assms(2)])
    ultimately show ?thesis
      using sib par st Cons by (simp add: clear_after_def next_sibling_def Let_def)
  qed
qed

lemma op_term_replaces:
  assumes "shows_view styles old s" and "doc s' = doc s @ [Node f KFragment ts]"
    and "shadow s' = shadow s" and "end_style s' = end_style s" and "ndoc s' = f" and "vm_wf s'"
  obtains s2 where "op_term s' = Returned s2" and "gen s2 = gen s' + 1"
    and "find_node (shadow s) (doc s2) = Some (Node (shadow s) KShadow (styles @ ts))"
    and "shadow s2 = shadow s'" and "end_style s2 = end_style s'" and "fresh s2 = fresh s'"
proof -
  let ?X = "[Node f KFragment ts]"
  have d: "distinct (ids (doc s @ ?X))" using assms(2,6) by (simp add: vm_wf_def)
  have f: "find_node (shadow s) (doc s) = Some (Node (shadow s) KShadow (styles @ old))"
    and es: "end_style s' = Some (nid (last styles))" and len: "length old \<le> 1"
    and wf: "distinct (ids (doc s))"
    using assms(1,4) by (auto simp: shows_view_def vm_wf_def)
  define A where "A = (case old of [] \<Rightarrow> doc s | n # _ \<Rightarrow> detach (nid n) (doc s))"
  have cleared: "clear_after (nid (last styles)) (doc s') = A @ ?X @ old"
    using clear_after_view [OF assms(1) d] assms(2) len
    by (cases old) (auto simp: A_def)
  have fA: "find_node (shadow s) A = Some (Node (shadow s) KShadow styles)"
  proof (cases old)
    case Nil
    with f show ?thesis by (simp add: A_def)
  next
    case (Cons n r)
    then have r: "old = [n]" using len by simp
    have "distinct (ids (styles @ [n]))"
      using distinct_submset [OF ids_subtree [OF f] wf] by (simp add: r)
    then have ns: "nid n \<notin> set (ids styles)" by (cases n) auto
    have "find_node (shadow s) (detach (nid n) (doc s))
        = Some (Node (shadow s) KShadow (detach (nid n) (styles @ [n])))"
      by (rule find_detach_below [OF f [unfolded r] _ wf]) (cases n; simp)
    moreover have "detach (nid n) (styles @ [n]) = styles"
      using ns by (cases n) (simp add: detach_append_notin)
    ultimately show ?thesis by (simp add: A_def r)
  qed
  have fd: "f \<notin> set (ids (doc s))" using d by auto
  have "set (ids A) \<subseteq> set (ids (doc s))"
    using ids_detach_subset by (auto simp: A_def split: list.splits)
  then have nA: "f \<notin> set (ids A)" using fd by auto
  then have nA': "f \<notin> nid ` set A" using nid_in_ids by fastforce
  have ne: "shadow s \<noteq> f" using fA nA by auto
  have app: "append_child (shadow s) f (A @ ?X @ old)
      = Inr (append_kids (shadow s) ts (A @ [Node f KFragment []] @ old))"
    using fA nA nA' ne
    by (simp add: append_child_def find_node_append modify_append Let_def)
  have "find_node (shadow s) (A @ [Node f KFragment []] @ old) = Some (Node (shadow s) KShadow styles)"
    using fA by (simp add: find_node_append)
  then have "find_node (shadow s) (append_kids (shadow s) ts (A @ [Node f KFragment []] @ old))
      = Some (Node (shadow s) KShadow (styles @ ts))"
    by (rule find_append_kids_self)
  with that cleared app es assms(3,5) show thesis
    by (auto simp: op_term_def Let_def)
qed


definition view_program :: "view \<Rightarrow> instr list" where
  "view_program v = emit_list [v] @ [ITerm]"

text \<open>The cell after its view was replaced by \<open>ts\<close>.\<close>

definition view_replaced :: "dnode list \<Rightarrow> dnode list \<Rightarrow> vm \<Rightarrow> outcome \<Rightarrow> bool" where
  "view_replaced styles ts s out \<longleftrightarrow>
     (case out of
        Returned s' \<Rightarrow> gen s' = gen s + 1 \<and> shadow s' = shadow s \<and> end_style s' = end_style s
          \<and> find_node (shadow s) (doc s') = Some (Node (shadow s) KShadow (styles @ ts))
      | _ \<Rightarrow> False)"

lemma filling_enter:
  assumes "vm_wf s"
  shows "filling (fresh s) KFragment (enter_view s)"
    and "enter_view s = s\<lparr>doc := doc s @ [Node (fresh s) KFragment []], fresh := Suc (fresh s),
      ndoc := fresh s, anchor := Some (fresh s), next_node := None\<rparr>"
proof -
  have new: "fresh s \<notin> set (ids (doc s))" using assms by (rule vm_wf_fresh)
  then have f: "find_node (fresh s) (doc s @ [Node (fresh s) KFragment []]) = Some (Node (fresh s) KFragment [])"
    by (simp add: find_node_append)
  then show e: "enter_view s = s\<lparr>doc := doc s @ [Node (fresh s) KFragment []], fresh := Suc (fresh s),
      ndoc := fresh s, anchor := Some (fresh s), next_node := None\<rparr>"
    by (simp add: enter_view_def new_node_def first_child_def)
  show "filling (fresh s) KFragment (enter_view s)"
    unfolding e using assms f by (auto simp: filling_def vm_wf_def list_all_iff)
qed

lemma exec_view_program:
  assumes "shows_view styles old s" and "view_valid [v]"
  shows "view_replaced styles (fst (inst_list (Suc (fresh s)) [v])) s
    (exec_list (view_program v) (enter_view s))"
proof -
  obtain tag cls i ats tx vs where v: "v = View tag cls i ats tx vs" by (cases v)
  have wf: "vm_wf s" using assms(1) by (simp add: shows_view_def)
  let ?e = "enter_view s"
  have fl: "filling (fresh s) KFragment ?e" by (rule filling_enter(1) [OF wf])
  have valid: "view_valid_here v" "builds vs" using assms(2) by (auto simp: v builds_valid)
  obtain ts m where ts: "inst_list (Suc (fresh s)) [v] = (ts, m)" by fastforce
  have fe: "fresh ?e = Suc (fresh s)" by (simp add: filling_enter(2) [OF wf])
  define s1 where "s1 = ?e\<lparr>doc := append_kids (fresh s) ts (doc ?e), fresh := m\<rparr>"
  have run: "exec_list (emit_list [v]) ?e = Running (s1\<lparr>anchor := None\<rparr>)"
    using exec_element [OF fl valid(1) [unfolded v] valid(2)] ts fe by (simp add: v s1_def)
  have "filling (fresh s) KFragment s1"
    unfolding s1_def using filling_append [OF fl] inst_list_ids [OF ts] fe by simp
  then have wf1: "vm_wf (s1\<lparr>anchor := None\<rparr>)" by (simp add: filling_def vm_wf_def)
  have new: "fresh s \<notin> set (ids (doc s))" using wf by (rule vm_wf_fresh)
  then have "fresh s \<notin> nid ` set (doc s)" using nid_in_ids by fastforce
  then have doc1: "doc (s1\<lparr>anchor := None\<rparr>) = doc s @ [Node (fresh s) KFragment ts]"
    using new by (simp add: s1_def filling_enter(2) [OF wf] modify_append)
  obtain s2 where "op_term (s1\<lparr>anchor := None\<rparr>) = Returned s2" and "gen s2 = gen s + 1"
    and "find_node (shadow s) (doc s2) = Some (Node (shadow s) KShadow (styles @ ts))"
    and "shadow s2 = shadow s" and "end_style s2 = end_style s"
    using op_term_replaces [OF assms(1) doc1 _ _ _ wf1]
    by (auto simp: s1_def filling_enter(2) [OF wf])
  with run ts show ?thesis
    by (simp add: view_program_def exec_list_append view_replaced_def)
qed

subsection \<open>Conservation\<close>

definition conserves :: "vm \<Rightarrow> vm \<Rightarrow> bool" where
  "conserves s s' \<longleftrightarrow> fresh s \<le> fresh s' \<and>
     mset (ids (doc s')) = mset (ids (doc s)) + mset [fresh s..<fresh s']"

definition outcome_state :: "outcome \<Rightarrow> vm" where
  "outcome_state out = (case out of Running s \<Rightarrow> s | Returned s \<Rightarrow> s | Threw e s \<Rightarrow> s)"

lemma outcome_state_simps [simp]:
  "outcome_state (Running s) = s" "outcome_state (Returned s) = s" "outcome_state (Threw e s) = s"
  by (simp_all add: outcome_state_def)

lemma conserves_refl [simp]: "conserves s s"
  by (simp add: conserves_def)

lemma conserves_cong: "doc s' = doc t \<Longrightarrow> fresh s' = fresh t \<Longrightarrow> conserves s t \<Longrightarrow> conserves s s'"
  by (simp add: conserves_def)

lemma conserves_trans:
  assumes "conserves s t" and "conserves t u"
  shows "conserves s u"
proof -
  have "mset [fresh s..<fresh u] = mset [fresh s..<fresh t] + mset [fresh t..<fresh u]"
    using assms le_Suc_ex upt_add_eq_append [of "fresh s" "fresh t"]
    by (metis conserves_def mset_append)
  with assms show ?thesis by (simp add: conserves_def)
qed

lemma conserves_wf: "conserves s t \<Longrightarrow> vm_wf s \<Longrightarrow> vm_wf t"
proof -
  assume c: "conserves s t" and wf: "vm_wf s"
  have m: "mset (ids (doc t)) = mset (ids (doc s) @ [fresh s..<fresh t])"
    using c by (simp add: conserves_def)
  have "distinct (ids (doc s) @ [fresh s..<fresh t])"
    using wf by (auto simp: vm_wf_def list_all_iff)
  then have "distinct (ids (doc t))" using m by (metis mset_eq_imp_distinct_iff)
  with c wf mset_eq_setD [OF m] show "vm_wf t"
    by (auto simp: vm_wf_def list_all_iff conserves_def)
qed

lemma conserves_new_node: "new_node k s = (n, s1) \<Longrightarrow> conserves s s1"
  by (auto simp: new_node_def conserves_def)

lemma conserves_place:
  assumes "place n s = Inr s1" and "vm_wf s"
  shows "conserves s s1"
  using assms append_child_conserves replace_with_conserves
  by (fastforce simp: place_def conserves_def vm_wf_def split: option.splits sum.splits)

lemma conserves_modify:
  "(\<And>n. ids [f n] = ids [n]) \<Longrightarrow> conserves s (s\<lparr>doc := modify x f (doc s)\<rparr>)"
  by (simp add: conserves_def modify_keeps_ids)

lemma clear_after_conserves:
  assumes "distinct (ids d)"
  shows "mset (ids (clear_after e d)) = mset (ids d)"
proof (cases "next_sibling e d")
  case (Some p)
  let ?d1 = "remove_node p d"
  have m: "mset (ids ?d1) = mset (ids d)" by (rule remove_node_conserves [OF assms])
  then have "distinct (ids ?d1)" using assms by (metis mset_eq_imp_distinct_iff)
  then have "mset (ids (remove_node q ?d1)) = mset (ids d)" for q
    using remove_node_conserves m by simp
  with Some m show ?thesis by (auto simp: clear_after_def Let_def split: option.splits)
qed (simp add: clear_after_def)

lemma conserves_exec:
  assumes "vm_wf s"
  shows "conserves s (outcome_state (exec_instr i s))"
proof -
  have place_new: "conserves s s2" if "new_node k s = (n, s1)" "place m s1 = Inr s2" for k n s1 s2 m
    using that conserves_new_node conserves_place conserves_wf conserves_trans assms by metis
  have attr: "conserves s (outcome_state (set_anchor_attribute a v s))" for a v
    by (auto simp: set_anchor_attribute_def conserves_modify split: option.splits dnode.splits node_kind.splits)
  show ?thesis
  proof (cases i)
    case ITerm
    have d: "distinct (ids (doc s))" using assms by (simp add: vm_wf_def)
    have m: "mset (ids (clear_after e (doc s))) = mset (ids (doc s))" for e
      by (rule clear_after_conserves [OF d])
    then have "distinct (ids (clear_after e (doc s)))" for e
      using d by (metis mset_eq_imp_distinct_iff)
    with m ITerm show ?thesis using append_child_conserves
      by (fastforce simp: op_term_def conserves_def Let_def split: option.splits sum.splits)
  next
    case (ICreateElement tag)
    define kd where "kd = (if tag = ''svg'' \<or> tag = ''path'' then KElem True tag []
      else KElem False (to_lower tag) [])"
    obtain n s1 where n: "new_node kd s = (n, s1)" by fastforce
    have eq: "op_create_element tag s =
        (if \<not> (tag = ''svg'' \<or> tag = ''path'') \<and> \<not> valid_name tag then Threw InvalidCharacterError s
         else case place n s1 of Inl e \<Rightarrow> Threw e s1
              | Inr s2 \<Rightarrow> Running (s2\<lparr>next_node := first_child n (doc s2), anchor := Some n\<rparr>))"
      using n by (cases "tag = ''svg'' \<or> tag = ''path''")
        (simp_all add: op_create_element_def kd_def del: valid_name.simps)
    have "conserves s (outcome_state (op_create_element tag s))"
    proof (cases "place n s1")
      case (Inl e)
      with conserves_new_node [OF n] show ?thesis by (simp add: eq del: valid_name.simps)
    next
      case (Inr s2)
      with place_new [OF n Inr] show ?thesis by (simp add: eq conserves_def del: valid_name.simps)
    qed
    then show ?thesis by (simp add: ICreateElement)
  next
    case (IAddText t)
    obtain n s1 where n: "new_node (KText t) s = (n, s1)" by fastforce
    show ?thesis
    proof (cases "place n s1")
      case (Inl e)
      then show ?thesis using n conserves_new_node [OF n] by (simp add: op_add_text_def IAddText)
    next
      case (Inr s2)
      then show ?thesis using n place_new [OF n Inr] by (simp add: op_add_text_def IAddText)
    qed
  next
    case (IReuse t)
    show ?thesis
    proof (cases "get_element_by_id (shadow s) t (doc s)")
      case None
      obtain n s1 where n: "new_node (KText ''null'') s = (n, s1)" by fastforce
      with None IReuse show ?thesis using conserves_new_node [OF n] place_new [OF n]
        by (auto simp: op_reuse_def split: sum.splits option.splits)
    next
      case (Some n)
      with IReuse show ?thesis using conserves_place [OF _ assms]
        by (auto simp: op_reuse_def conserves_def split: sum.splits)
    qed
  next
    case INext
    then show ?thesis by (auto simp: op_next_def conserves_def split: option.splits)
  qed (auto simp: attr op_set_id_def op_re_id_def conserves_modify split: option.splits)
qed

lemma conserves_run: "vm_wf s \<Longrightarrow> conserves s (outcome_state (run prog ip s))"
proof (induction prog ip s rule: run.induct)
  case (1 prog ip s)
  show ?case
  proof (cases "ip < length prog")
    case False
    then show ?thesis by (subst run.simps) simp
  next
    case len: True
    show ?thesis
    proof (cases "fetch prog ip")
      case (Inl e)
      with len show ?thesis by (subst run.simps) simp
    next
      case (Inr r)
      then obtain i ip1 where f: "fetch prog ip = Inr (i, ip1)" by (cases r) auto
      have c: "conserves s (outcome_state (exec_instr i s))" by (rule conserves_exec [OF "1.prems"])
      show ?thesis
      proof (cases "exec_instr i s")
        case (Running s1)
        with c have "conserves s s1" by simp
        moreover have "conserves s1 (outcome_state (run prog ip1 s1))"
          using "1.IH" len f Running conserves_wf [OF \<open>conserves s s1\<close> "1.prems"] by blast
        ultimately have "conserves s (outcome_state (run prog ip1 s1))" by (rule conserves_trans)
        with len f Running show ?thesis by (subst run.simps) simp
      qed (use len f c in \<open>subst run.simps, simp\<close>)+
    qed
  qed
qed

section \<open>Outcomes\<close>

lemma exec_gen:
  "case exec_instr i s of
     Running s1 \<Rightarrow> gen s1 = gen s \<and> shadow s1 = shadow s \<and> end_style s1 = end_style s
   | Returned s1 \<Rightarrow> gen s1 = gen s + 1 \<and> shadow s1 = shadow s \<and> end_style s1 = end_style s
   | Threw e s1 \<Rightarrow> gen s1 = gen s \<and> shadow s1 = shadow s \<and> end_style s1 = end_style s"
proof -
  have p: "gen s1 = gen t \<and> shadow s1 = shadow t \<and> end_style s1 = end_style t"
    if "place n t = Inr s1" for n t s1
    using that by (auto simp: place_def split: option.splits sum.splits)
  have n: "gen s1 = gen t \<and> shadow s1 = shadow t \<and> end_style s1 = end_style t"
    if "new_node k t = (m, s1)" for k t m s1
    using that by (auto simp: new_node_def)
  show ?thesis
  proof (cases i)
    case (ICreateElement tag)
    have "case (case new_node kd s of (n, s1) \<Rightarrow>
             case place n s1 of Inl e \<Rightarrow> Threw e s1
             | Inr s2 \<Rightarrow> Running (s2\<lparr>next_node := first_child n (doc s2), anchor := Some n\<rparr>)) of
         Running s1 \<Rightarrow> gen s1 = gen s \<and> shadow s1 = shadow s \<and> end_style s1 = end_style s
       | Returned s1 \<Rightarrow> gen s1 = gen s + 1 \<and> shadow s1 = shadow s \<and> end_style s1 = end_style s
       | Threw e s1 \<Rightarrow> gen s1 = gen s \<and> shadow s1 = shadow s \<and> end_style s1 = end_style s" for kd
      using p n by (fastforce split: prod.splits sum.splits)
    then show ?thesis
      by (simp add: ICreateElement op_create_element_def Let_def del: valid_name.simps)
  next
    case (IAddText t)
    then show ?thesis using p n
      by (fastforce simp: op_add_text_def split: prod.splits sum.splits)
  next
    case (IReuse t)
    then show ?thesis using p n
      by (fastforce simp: op_reuse_def split: prod.splits sum.splits option.splits)
  qed (auto simp: op_term_def set_anchor_attribute_def op_set_id_def op_re_id_def op_next_def Let_def
      split: option.splits sum.splits dnode.splits node_kind.splits)
qed

lemma run_gen:
  "case run prog ip s of
     Running s1 \<Rightarrow> False
   | Returned s1 \<Rightarrow> gen s1 = gen s + 1 \<and> shadow s1 = shadow s \<and> end_style s1 = end_style s
   | Threw e s1 \<Rightarrow> gen s1 = gen s \<and> shadow s1 = shadow s \<and> end_style s1 = end_style s"
proof (induction prog ip s rule: run.induct)
  case (1 prog ip s)
  show ?case
  proof (cases "ip < length prog")
    case False
    then show ?thesis by (subst run.simps) simp
  next
    case len: True
    show ?thesis
    proof (cases "fetch prog ip")
      case (Inl e)
      with len show ?thesis by (subst run.simps) simp
    next
      case (Inr r)
      then obtain i ip1 where f: "fetch prog ip = Inr (i, ip1)" by (cases r) auto
      show ?thesis
      proof (cases "exec_instr i s")
        case (Running s1)
        have "gen s1 = gen s \<and> shadow s1 = shadow s \<and> end_style s1 = end_style s"
          using exec_gen [where i = i and s = s] Running by simp
        moreover have "run prog ip s = run prog ip1 s1"
          using len f Running by (subst run.simps) simp
        ultimately show ?thesis using "1.IH" [OF len f refl Running]
          by (auto split: outcome.splits)
      next
        case (Returned s1)
        then have "run prog ip s = Returned s1" using len f by (subst run.simps) simp
        with Returned exec_gen [where i = i and s = s] show ?thesis by simp
      next
        case (Threw e s1)
        then have "run prog ip s = Threw e s1" using len f by (subst run.simps) simp
        with Threw exec_gen [where i = i and s = s] show ?thesis by simp
      qed
    qed
  qed
qed

lemma enter_view_keeps:
  "gen (enter_view s) = gen s" "shadow (enter_view s) = shadow s" "end_style (enter_view s) = end_style s"
  by (simp_all add: enter_view_def new_node_def Let_def)

lemma build_view_gen:
  "case build_view prog s of
     Running s1 \<Rightarrow> False
   | Returned s1 \<Rightarrow> gen s1 = gen s + 1
   | Threw e s1 \<Rightarrow> gen s1 = gen s"
  using run_gen [where prog = prog and ip = 0 and s = "enter_view s"]
  by (auto simp: build_view_def enter_view_keeps split: outcome.splits)

text \<open>
  Everything after a first root fails: the close of the root leaves the parent element of a
  child of the fragment, which is null, as the anchor.
\<close>

lemma exec_second_root:
  assumes "vm_wf s" and "view_valid [v]" and "view_valid_here w"
  shows "\<exists>s'. exec_list (emit_list (v # w # ws) @ is) (enter_view s) = Threw TypeError s'"
proof -
  obtain tag cls i ats tx vs where v: "v = View tag cls i ats tx vs" by (cases v)
  obtain tag' cls' i' ats' tx' vs' where w: "w = View tag' cls' i' ats' tx' vs'" by (cases w)
  have fl: "filling (fresh s) KFragment (enter_view s)" by (rule filling_enter(1) [OF assms(1)])
  have valid: "view_valid_here v" "builds vs" using assms(2) by (auto simp: v builds_valid)
  obtain s1 where one: "exec_list (emit_list [v]) (enter_view s) = Running s1"
    and nul: "anchor s1 = None" "next_node s1 = None"
    using exec_element [OF fl valid(1) [unfolded v] valid(2)] fl by (simp add: v filling_def)
  have tag': "tag' = ''svg'' \<or> tag' = ''path'' \<or> valid_name tag'"
    using assms(3) by (simp add: w view_valid_here_def)
  have two: "\<exists>s2. exec_instr (ICreateElement tag') s1 = Threw TypeError s2"
    using nul tag' by (cases "tag' = ''svg'' \<or> tag' = ''path''")
      (auto simp: op_create_element_def new_node_def place_def simp del: valid_name.simps)
  have e: "emit_list (v # w # ws) @ is = emit_list [v] @ ICreateElement tag' # tl (emit_list (w # ws)) @ is"
    by (simp add: v w)
  show ?thesis
    unfolding e exec_list_append one outcome.case exec_list.simps using two by (auto simp del: exec_instr.simps)
qed

section \<open>Properties\<close>

text \<open>
  C1: Executing the bytes of a serialised view replaces the view of the cell: \<open>buildView\<close>
  returns, the shadow root then holds its style sheets followed by exactly the tree the view
  describes (elements, classes, ids, attributes, text, children, in order), and the
  generation is one higher.
\<close>

theorem build_view_replaces:
  assumes "shows_view styles old s" and "view_valid [v]" and "list_all instr_fits (view_program v)"
  shows "view_replaced styles (fst (inst_list (Suc (fresh s)) [v])) s
    (build_view (encode (view_program v)) s)"
  using exec_view_program [OF assms(1,2)] run_encode [OF assms(3)]
  by (auto simp: build_view_def finish_def view_replaced_def split: outcome.splits)

definition example_cell :: vm where
  "example_cell =
     \<lparr>doc = [Node 0 KShadow [Node 1 (KElem False ''link'' []) [], Node 2 (KElem False ''div'' []) []]],
      fresh = 3, shadow = 0, end_style = Some 1, gen = 7, ndoc = 0, anchor = None, next_node = None\<rparr>"

definition example_view :: view where
  "example_view = View ''div'' ''row'' (Some ''12'') [(''title'', ''t'')] ''hello''
     [View ''svg'' [] None [] [] [], View ''span'' [] (Some ''13'') [] ''x'' []]"

theorem build_view_replaces_witness:
  "view_replaced [Node 1 (KElem False ''link'' []) []] (fst (inst_list 4 [example_view])) example_cell
     (build_view (encode (view_program example_view)) example_cell)"
proof -
  have "shows_view [Node 1 (KElem False ''link'' []) []] [Node 2 (KElem False ''div'' []) []] example_cell"
    by (simp add: shows_view_def example_cell_def vm_wf_def)
  moreover have "view_valid [example_view]"
    by (simp add: example_view_def view_valid_here_def name_start_def name_char_def Let_def)
  moreover have "list_all instr_fits (view_program example_view)"
    by (simp add: view_program_def example_view_def)
  ultimately show ?thesis
    using build_view_replaces [of _ _ example_cell example_view] by (simp add: example_cell_def)
qed

text \<open>
  Whatever the bytes, \<open>buildView\<close> neither loses nor duplicates a node: the document it leaves, also when
  it throws half way, has the nodes there were plus those it made, each once.
\<close>

theorem build_view_conserves:
  assumes "vm_wf s"
  shows "conserves s (outcome_state (build_view prog s))"
proof -
  have c: "conserves s (enter_view s)"
    by (simp add: filling_enter(2) [OF assms] conserves_def)
  have "conserves (enter_view s) (outcome_state (build_view prog s))"
    unfolding build_view_def by (rule conserves_run [OF conserves_wf [OF c assms]])
  with c show ?thesis by (rule conserves_trans)
qed

text \<open>
  C2: Reusing moves an element and copies nothing: where no node is at the cursor, \<open>OpReuse\<close> takes the element
  with that id out of the shadow root, with its attributes and all that is below it, and makes it the last child of the
  node that is being built; the nodes of the document are the same, each once, and the cursors stay.
\<close>

theorem reuse_moves_the_element:
  assumes "vm_wf s" and "get_element_by_id (shadow s) e (doc s) = Some n"
    and "find_node n (doc s) = Some (Node n (KElem svg tag as) cs)"
    and "next_node s = None" and "anchor s = Some a" and "find_node a (doc s) = Some (Node a k bs)"
    and "is_elem k \<or> k = KFragment" and "n \<notin> set (ids bs)" and "a \<notin> set (n # ids cs)"
  shows "\<exists>s1. exec_instr (IReuse e) s = Running s1
    \<and> find_node a (doc s1) = Some (Node a k (bs @ [Node n (KElem svg tag as) cs]))
    \<and> mset (ids (doc s1)) = mset (ids (doc s)) \<and> distinct (ids (doc s1))
    \<and> fresh s1 = fresh s \<and> anchor s1 = Some a \<and> next_node s1 = None"
proof -
  let ?m = "Node n (KElem svg tag as) cs"
  have d: "distinct (ids (doc s))" using assms(1) by (simp add: vm_wf_def)
  have p: "find_node a (detach n (doc s)) = Some (Node a k bs)"
    by (rule find_detach_apart [OF assms(6,3,8) _ d]) (use assms(9) in auto)
  have app: "append_child a n (doc s) = Inr (append_kids a [?m] (detach n (doc s)))"
    using p assms(3,7,9) by (cases k) (auto simp: append_child_def)
  define s1 where "s1 = s\<lparr>doc := append_kids a [?m] (detach n (doc s))\<rparr>"
  have pl: "place n s = Inr s1" using assms(4,5) app by (simp add: place_def s1_def)
  have c: "conserves s s1" by (rule conserves_place [OF pl assms(1)])
  have f: "find_node a (doc s1) = Some (Node a k (bs @ [?m]))"
    using find_append_kids_self [OF p] by (simp add: s1_def)
  have d1: "distinct (ids (doc s1))" using conserves_wf [OF c assms(1)] by (simp add: vm_wf_def)
  have "next_sibling n (doc s1) = None"
    using parent_of_found [OF f _ d1, of ?m] sibling_after_last [of n bs] assms(8) nid_in_ids [of _ bs]
    by (fastforce simp: next_sibling_def)
  then have "exec_instr (IReuse e) s = Running (s1\<lparr>next_node := None\<rparr>)" using assms(2) pl by (simp add: op_reuse_def)
  moreover have "fresh s1 = fresh s" by (simp add: s1_def)
  ultimately show ?thesis using f c d1 assms(5) by (auto simp: conserves_def s1_def)
qed

theorem reuse_moves_the_element_witness:
  "\<exists>s1. exec_instr (IReuse ''7'') \<lparr>doc = [Node 0 KShadow [Node 1 (KElem False ''link'' []) [],
        Node 2 (KElem False ''div'' [(''id'', ''7'')]) [Node 3 (KText ''t'') []]], Node 4 KFragment []],
      fresh = 5, shadow = 0, end_style = Some 1, gen = 0, ndoc = 4, anchor = Some 4, next_node = None\<rparr> = Running s1
    \<and> find_node 4 (doc s1) = Some (Node 4 KFragment [Node 2 (KElem False ''div'' [(''id'', ''7'')]) [Node 3 (KText ''t'') []]])"
  using reuse_moves_the_element [of "\<lparr>doc = [Node 0 KShadow [Node 1 (KElem False ''link'' []) [],
        Node 2 (KElem False ''div'' [(''id'', ''7'')]) [Node 3 (KText ''t'') []]], Node 4 KFragment []],
      fresh = 5, shadow = 0, end_style = Some 1, gen = 0, ndoc = 4, anchor = Some 4, next_node = None\<rparr>" "''7''" 2 False
      "''div''" "[(''id'', ''7'')]" "[Node 3 (KText ''t'') []]" 4 KFragment "[]"]
  by (simp add: vm_wf_def get_element_by_id_def) blast

text \<open>
  C3: Decoding what was encoded is the identity, for whole programs: running the bytes of a
  list of instructions with operands below 64 KiB executes exactly these instructions, and
  running off the end is the error \<open>invalid XAS code, no term instructions\<close>.
\<close>

theorem build_view_decodes:
  assumes "list_all instr_fits is"
  shows "build_view (encode is) s
    = (case exec_list is (enter_view s) of
         Running s' \<Rightarrow> Threw NoTermInstruction s'
       | out \<Rightarrow> out)"
  using run_encode [OF assms] by (simp add: build_view_def finish_def split: outcome.split)

theorem build_view_decodes_witness:
  "build_view (encode [ICreateElement ''p'', INext]) example_cell
    = (case exec_list [ICreateElement ''p'', INext] (enter_view example_cell) of
         Running s' \<Rightarrow> Threw NoTermInstruction s'
       | out \<Rightarrow> out)"
  by (rule build_view_decodes) simp

text \<open>
  The generation counts the views that were put up: it grows by one when \<open>buildView\<close>
  returns and stays when it throws; no byte sequence makes it stop without either.
\<close>

theorem build_view_counts:
  "case build_view prog s of
     Running s' \<Rightarrow> False
   | Returned s' \<Rightarrow> gen s' = gen s + 1 \<and> shadow s' = shadow s \<and> end_style s' = end_style s
   | Threw e s' \<Rightarrow> gen s' = gen s \<and> shadow s' = shadow s \<and> end_style s' = end_style s"
  using run_gen [where prog = prog and ip = 0 and s = "enter_view s"] by (auto simp: build_view_def enter_view_keeps split: outcome.splits)

text \<open>
  A program with a second root after the first one fails with a \<open>TypeError\<close>: a view has
  one root.
\<close>

theorem build_view_second_root:
  assumes "vm_wf s" and "view_valid [v]" and "view_valid_here w"
    and "list_all instr_fits (emit_list (v # w # ws) @ is)"
  shows "\<exists>s'. build_view (encode (emit_list (v # w # ws) @ is)) s = Threw TypeError s'"
  using exec_second_root [OF assms(1-3), of ws "is"] run_encode [OF assms(4)]
  by (auto simp: build_view_def finish_def)

theorem build_view_second_root_witness:
  "\<exists>s'. build_view (encode (emit_list [example_view, View ''p'' [] None [] [] []] @ [ITerm])) example_cell
     = Threw TypeError s'"
proof -
  have "vm_wf example_cell" by (simp add: vm_wf_def example_cell_def)
  moreover have "view_valid [example_view]"
    by (simp add: example_view_def view_valid_here_def name_start_def name_char_def Let_def)
  moreover have "view_valid_here (View ''p'' [] None [] [] [])"
    by (simp add: view_valid_here_def name_start_def Let_def)
  ultimately show ?thesis
    by (rule build_view_second_root) (simp add: example_view_def)
qed

text \<open>
  C4: The clearing loop of \<open>OpTerm\<close> (\<open>p.remove(); p = p.nextSibling\<close>) takes out the first
  node after the style sheets and nothing else: of several nodes the others stay.
\<close>

theorem clear_after_first_only:
  assumes "find_node sh d = Some (Node sh KShadow (ss @ l # n # rest))" and "distinct (ids d)"
  shows "find_node sh (clear_after (nid l) d) = Some (Node sh KShadow (ss @ l # rest))"
proof -
  let ?cs = "ss @ l # n # rest"
  have dk: "distinct (ids ?cs)"
    using distinct_submset [OF ids_subtree [OF assms(1)] assms(2)] by simp
  have nl: "nid l \<notin> nid ` set ss" and nn: "nid n \<notin> set (ids (ss @ [l]))"
    using dk nid_in_ids [of _ ss] by (cases l; cases n; fastforce)+
  have par: "parent_of (nid c) d = Some (Node sh KShadow ?cs)" if "c \<in> set ?cs" for c
    by (rule parent_of_found [OF assms(1) _ assms(2)]) (use that in simp)
  have fn: "find_node (nid n) d = Some n"
    by (rule find_node_kid [OF assms(1) _ assms(2)]) simp
  have sib: "next_sibling (nid l) d = Some (nid n)"
    using par [of l] sibling_after_split [OF nl, of "n # rest"] by (simp add: next_sibling_def)
  have rem: "remove_node (nid n) d = detach (nid n) d @ [n]"
    using par [of n] fn by (simp add: remove_node_def)
  have "detach (nid n) ?cs = ss @ l # rest"
    using nn detach_append_notin [of "nid n" "ss @ [l]" "n # rest"] by (cases n) simp
  moreover have "nid n \<in> set (ids ?cs)" by (rule nid_in_ids) simp
  ultimately have "find_node sh (detach (nid n) d) = Some (Node sh KShadow (ss @ l # rest))"
    using find_detach_below [OF assms(1) _ assms(2), of "nid n"] by simp
  moreover have "next_sibling (nid n) (remove_node (nid n) d) = None"
    by (rule next_sibling_removed [OF par [of n] assms(2)]) simp
  ultimately show ?thesis
    by (simp add: clear_after_def sib rem find_node_append Let_def)
qed

theorem clear_after_first_only_witness:
  "find_node 0 (clear_after 1 [Node 0 KShadow [Node 1 (KElem False ''link'' []) [], Node 2 (KText ''a'') [],
       Node 3 (KText ''b'') []]])
     = Some (Node 0 KShadow [Node 1 (KElem False ''link'' []) [], Node 3 (KText ''b'') []])"
  using clear_after_first_only [of 0 _ "[]" "Node 1 (KElem False ''link'' []) []" "Node 2 (KText ''a'') []"
      "[Node 3 (KText ''b'') []]"] by simp

end
