(* ===== verification/Positioning.thy ===== *)
theory Positioning
  imports Complex_Main Prelude
begin

text \<open>
  \<open>webc/positioning.js\<close> (where floating blocks go, and how far a point is from a box) and
  \<open>webc/coordinates.js\<close> (which entity the pointer is on). Coordinates are real numbers: the
  rounding of the machine's floating-point numbers is not modelled. The viewport
  (\<open>document.documentElement\<close>'s client size) is an argument. The visual debuggers, which only
  draw, are left out.
\<close>

section \<open>Points, boxes and the viewport\<close>

type_synonym point = "real \<times> real"

text \<open>\<open>DOMRect\<close>: the corner, the width and the height; the sides are derived.\<close>

record rect =
  rx :: real
  ry :: real
  width :: real
  height :: real

definition rect_left :: "rect \<Rightarrow> real" where
  "rect_left r = min (rx r) (rx r + width r)"

definition rect_right :: "rect \<Rightarrow> real" where
  "rect_right r = max (rx r) (rx r + width r)"

definition rect_top :: "rect \<Rightarrow> real" where
  "rect_top r = min (ry r) (ry r + height r)"

definition rect_bottom :: "rect \<Rightarrow> real" where
  "rect_bottom r = max (ry r) (ry r + height r)"

fun dist_pt :: "point \<Rightarrow> point \<Rightarrow> real" where
  "dist_pt (x1, y1) (x2, y2) =
     (let dx = \<bar>x1 - x2\<bar>; dy = \<bar>y1 - y2\<bar> in sqrt (dx * dx + dy * dy))"

lemma dist_pt_sqrt: "dist_pt (x1, y1) (x2, y2) = sqrt ((x1 - x2)\<^sup>2 + (y1 - y2)\<^sup>2)"
  by (simp add: Let_def power2_eq_square abs_mult_self_eq)

lemma dist_pt_nonneg: "0 \<le> dist_pt p q"
  by (cases p; cases q) (simp add: Let_def)

lemma dist_pt_mono:
  assumes "\<bar>x - a\<bar> \<le> \<bar>x - b\<bar>" and "\<bar>y - c\<bar> \<le> \<bar>y - d\<bar>"
  shows "dist_pt (x, y) (a, c) \<le> dist_pt (x, y) (b, d)"
  unfolding dist_pt_sqrt
  by (intro real_sqrt_le_mono add_mono) (use assms in \<open>simp_all add: abs_le_square_iff\<close>)

section \<open>Quadrants\<close>

datatype horiz = HLeft | HRight
datatype vert = VTop | VBottom
datatype vert_pos = Above | Below

definition get_point_quadrant :: "real \<times> real \<Rightarrow> real \<Rightarrow> real \<Rightarrow> horiz \<times> vert" where
  "get_point_quadrant vp px py =
     (let (vw, vh) = vp
      in (if px < vw / 2 then HLeft else HRight, if py < vh / 2 then VTop else VBottom))"

text \<open>\<open>isRtl\<close> is the constant \<open>true\<close>, so the second half of the source's conditional is dead.\<close>

definition best_relative_quadrant ::
  "real \<times> real \<Rightarrow> real \<Rightarrow> real \<Rightarrow> real \<Rightarrow> real \<Rightarrow> horiz \<times> vert_pos" where
  "best_relative_quadrant vp x y bw bh =
     (let margin = 5 / 100;
          (vw, vh) = vp;
          min_top = margin * vh;
          max_right = vw * (1 - margin);
          max_bottom = vh * (1 - margin);
          block_right = x + bw;
          block_bottom = y + bh;
          block_top = y - bh;
          horiz = (if block_right < max_right then HRight else HLeft);
          is_rtl = True;
          phoriz = fst (get_point_quadrant vp x y);
          vert = (if is_rtl
                  then (if phoriz = HRight then (if block_top > min_top then Above else Below)
                        else (if block_bottom < max_bottom then Below else Above))
                  else (if phoriz = HRight then (if block_bottom < max_bottom then Below else Above)
                        else (if block_top > min_top then Above else Below)))
      in (horiz, vert))"

text \<open>The returned object has some of the four keys: an absent key is \<open>None\<close>.\<close>

record placement =
  p_left :: "real option"
  p_right :: "real option"
  p_top :: "real option"
  p_bottom :: "real option"

definition no_placement :: placement where
  "no_placement = \<lparr>p_left = None, p_right = None, p_top = None, p_bottom = None\<rparr>"

definition best_relative_position ::
  "real \<times> real \<Rightarrow> real \<Rightarrow> real \<Rightarrow> real \<Rightarrow> real \<Rightarrow> real \<Rightarrow> placement" where
  "best_relative_position vp px py bw bh offset =
     (let (vw, vh) = vp in
      case best_relative_quadrant vp px py bw bh of
        (HLeft, Above) \<Rightarrow> no_placement\<lparr>p_right := Some (vw - px - offset), p_bottom := Some (vh - py - offset)\<rparr>
      | (HLeft, Below) \<Rightarrow> no_placement\<lparr>p_right := Some (vw - px - offset), p_top := Some (py + offset)\<rparr>
      | (HRight, Above) \<Rightarrow> no_placement\<lparr>p_left := Some (px + offset), p_bottom := Some (vh - py - offset)\<rparr>
      | (HRight, Below) \<Rightarrow> no_placement\<lparr>p_left := Some (px + offset), p_top := Some (py - offset)\<rparr>)"

text \<open>The last argument of the call in the source is the assignment \<open>offset = 0\<close>.\<close>

definition position_relative_to_click ::
  "real \<times> real \<Rightarrow> real \<Rightarrow> real \<Rightarrow> real \<Rightarrow> real \<Rightarrow> real \<Rightarrow> placement" where
  "position_relative_to_click vp cx cy w h offset =
     (let offset = 0 in best_relative_position vp cx cy w h offset)"

text \<open>\<open>if (pos.bottom)\<close>: an absent key and the number 0 are both falsy.\<close>

definition position_relative_to_selection ::
  "real \<times> real \<Rightarrow> real \<Rightarrow> real \<Rightarrow> real \<Rightarrow> real \<Rightarrow> rect \<Rightarrow> real \<Rightarrow> placement" where
  "position_relative_to_selection vp cx cy bw bh sel offset =
     (let (vw, vh) = vp;
          pos = best_relative_position vp cx cy bw bh offset
      in if p_bottom pos \<noteq> None \<and> p_bottom pos \<noteq> Some 0
         then pos\<lparr>p_bottom := Some (vh - rect_top sel)\<rparr>
         else pos\<lparr>p_top := Some (rect_bottom sel)\<rparr>)"

section \<open>A free place near an obstacle\<close>

text \<open>
  The caller's options may have any of the keys. The object literal of the source spreads
  them first and the defaults second, so a default replaces what the caller gave.
\<close>

record display_opts =
  o_offset :: "(real \<times> real) option"
  o_margin :: "real option"

definition default_options :: display_opts where
  "default_options = \<lparr>o_offset = Some (0, 8), o_margin = Some 4\<rparr>"

fun or_else :: "'a option \<Rightarrow> 'a option \<Rightarrow> 'a option" where
  "or_else (Some x) _ = Some x"
| "or_else None y = y"

definition spread_opts :: "display_opts \<Rightarrow> display_opts \<Rightarrow> display_opts" where
  "spread_opts first second =
     \<lparr>o_offset = or_else (o_offset second) (o_offset first),
      o_margin = or_else (o_margin second) (o_margin first)\<rparr>"

definition find_display_space ::
  "real \<times> real \<Rightarrow> point \<Rightarrow> rect \<Rightarrow> rect \<Rightarrow> display_opts \<Rightarrow> rect" where
  "find_display_space vp p flt obs opts =
     (let x = fst p;
          defopts = spread_opts opts default_options;
          (off_x, off_y) = the (o_offset defopts);
          margin = the (o_margin defopts);
          (vw, vh) = vp;
          left = (if x - margin < width flt / 2 then margin + off_x
                  else if vw - margin - x < width flt / 2 then vw - margin - off_x - width flt
                  else x - width flt / 2)
      in if rect_top obs - off_y - height flt < 0
         then \<lparr>rx = left, ry = rect_bottom obs + off_y, width = width flt, height = height flt\<rparr>
         else \<lparr>rx = left, ry = rect_top obs - off_y - height flt, width = width flt, height = height flt\<rparr>)"

section \<open>Distance to a box\<close>

definition project_to_rect_side :: "point \<Rightarrow> point \<times> point \<Rightarrow> point" where
  "project_to_rect_side p s =
     (let (px, py) = p; ((l1x, l1y), (l2x, l2y)) = s;
          vert = \<bar>l1x - l2x\<bar> < 10 / 10000;
          horiz = \<bar>l1y - l2y\<bar> < 10 / 10000
      in if vert then
           (let x = l1x; by = min l1y l2y; ty = max l1y l2y
            in if py > ty then (x, ty) else if py < by then (x, by) else (x, py))
         else if horiz then
           (let y = l1y; lx = min l1x l2x; rx = max l1x l2x
            in if px < lx then (lx, y) else if px > rx then (rx, y) else (px, y))
         else ((l1x + l2x) / 2, (l1y + l2y) / 2))"

definition rect_segments :: "rect \<Rightarrow> (point \<times> point) list" where
  "rect_segments r =
     (let bl = (rect_left r, rect_bottom r); br = (rect_right r, rect_bottom r);
          tr = (rect_right r, rect_top r); tl = (rect_left r, rect_top r)
      in [(bl, br), (br, tr), (tr, tl), (tl, bl)])"

definition min_list :: "real list \<Rightarrow> real" where
  "min_list ds = foldr min (tl ds) (hd ds)"

definition distance_to_rect_bounds :: "point \<Rightarrow> rect \<Rightarrow> real" where
  "distance_to_rect_bounds p r =
     min_list (map (\<lambda>s. dist_pt p (project_to_rect_side p s)) (rect_segments r))"

section \<open>The entity under the pointer\<close>

text \<open>
  A node of \<open>elementsFromPoint\<close>: its identity, its \<open>id\<close>, its \<open>data-offset\<close> when it has one,
  whether it has \<open>data-record\<close>, and the boxes it is drawn with. \<open>selectable\<close> are the
  descendants with \<open>data-offset\<close>, in document order.
\<close>

record leaf =
  l_node :: nat
  l_offset :: string
  l_rects :: "rect list"

record hit =
  h_node :: nat
  h_id :: string
  h_offset :: "string option"
  h_record :: bool
  h_selectable :: "leaf list"

datatype locate_error = NoClosestElement | NoOffset

fun closest_rect :: "(real \<times> leaf option) \<Rightarrow> point \<Rightarrow> leaf \<Rightarrow> rect list \<Rightarrow> real \<times> leaf option" where
  "closest_rect best p e [] = best"
| "closest_rect best p e (r # rs) =
     (let d = distance_to_rect_bounds p r
      in closest_rect (case best of
             (m, None) \<Rightarrow> (d, Some e)
           | (m, Some c) \<Rightarrow> if d < m then (d, Some e) else (m, Some c)) p e rs)"

text \<open>
  The running minimum starts at infinity: the first box is always below it. It is paired
  here with the element, which is null exactly as long as it is infinite.
\<close>

definition find_closest_element :: "leaf list \<Rightarrow> point \<Rightarrow> locate_error + leaf" where
  "find_closest_element es p =
     (case fold (\<lambda>e best. closest_rect best p e (l_rects e)) es (0, None) of
        (_, None) \<Rightarrow> Inl NoClosestElement
      | (_, Some e) \<Rightarrow> Inr e)"

text \<open>
  The result is null, or a node with a position in the text: \<open>-1\<close> for an entity outside of
  it, \<open>None\<close> where \<open>parseInt\<close> gives NaN.
\<close>

definition not_in_lioli :: int where
  "not_in_lioli = -1"

definition at_offset :: "nat \<Rightarrow> string \<Rightarrow> locate_error + (nat \<times> int option) option" where
  "at_offset n off = (if off = [] then Inl NoOffset else Inr (Some (n, parse_int off)))"

fun locate_entity :: "point \<Rightarrow> hit list \<Rightarrow> locate_error + (nat \<times> int option) option" where
  "locate_entity p [] = Inr None"
| "locate_entity p (n # ns) =
     (case h_offset n of
        Some off \<Rightarrow> at_offset (h_node n) off
      | None \<Rightarrow>
          (if h_record n then
             (if h_selectable n = [] then Inr None
              else case find_closest_element (h_selectable n) p of
                     Inl e \<Rightarrow> Inl e
                   | Inr e \<Rightarrow> at_offset (l_node e) (l_offset e))
           else if h_id n \<noteq> [] then Inr (Some (h_node n, Some not_in_lioli))
           else locate_entity p ns))"

section \<open>Facts about sides and boxes\<close>

lemma rect_sides: "rect_left r \<le> rect_right r" "rect_top r \<le> rect_bottom r"
  by (simp_all add: rect_left_def rect_right_def rect_top_def rect_bottom_def)

text \<open>
  A horizontal or vertical side, seen as the set of its points. A box thinner than the
  tolerance of \<open>projectToRectSide\<close> but not flat has sides the routine takes for points.
\<close>

definition on_side :: "point \<times> point \<Rightarrow> point \<Rightarrow> bool" where
  "on_side s q \<longleftrightarrow>
     (let ((l1x, l1y), (l2x, l2y)) = s; (x, y) = q
      in min l1x l2x \<le> x \<and> x \<le> max l1x l2x \<and> min l1y l2y \<le> y \<and> y \<le> max l1y l2y)"

definition proper_side :: "point \<times> point \<Rightarrow> bool" where
  "proper_side s \<longleftrightarrow>
     (let ((l1x, l1y), (l2x, l2y)) = s
      in l1x = l2x \<or> (l1y = l2y \<and> 10 / 10000 \<le> \<bar>l1x - l2x\<bar>))"

lemma project_on_side:
  assumes "proper_side s"
  shows "on_side s (project_to_rect_side p s)"
proof -
  obtain px py l1x l1y l2x l2y where p: "p = (px, py)" and s: "s = ((l1x, l1y), (l2x, l2y))"
    by (cases p; cases s) auto
  show ?thesis
    using assms unfolding p s on_side_def proper_side_def project_to_rect_side_def Let_def
    by (auto simp: min_def max_def)
qed

lemma project_nearest:
  assumes "proper_side s" and "on_side s q"
  shows "dist_pt p (project_to_rect_side p s) \<le> dist_pt p q"
proof -
  obtain px py l1x l1y l2x l2y qx qy where p: "p = (px, py)"
    and s: "s = ((l1x, l1y), (l2x, l2y))" and q: "q = (qx, qy)"
    by (cases p; cases s; cases q) auto
  obtain x y where xy: "project_to_rect_side p s = (x, y)" by fastforce
  have "\<bar>px - x\<bar> \<le> \<bar>px - qx\<bar> \<and> \<bar>py - y\<bar> \<le> \<bar>py - qy\<bar>"
    using assms xy unfolding p s q on_side_def proper_side_def project_to_rect_side_def Let_def
    by (auto simp: min_def max_def split: if_splits)
  then have "dist_pt (px, py) (x, y) \<le> dist_pt (px, py) (qx, qy)" by (intro dist_pt_mono) auto
  then show ?thesis using xy unfolding q p by (simp only:)
qed

lemma min_list_le: "d \<in> set ds \<Longrightarrow> min_list ds \<le> d"
proof -
  have "foldr min xs a \<le> a \<and> (\<forall>x \<in> set xs. foldr min xs a \<le> x)" for xs and a :: real
    by (induction xs) (auto simp: min_def)
  then show "d \<in> set ds \<Longrightarrow> min_list ds \<le> d"
    by (cases ds) (auto simp: min_list_def)
qed

lemma min_list_in: "ds \<noteq> [] \<Longrightarrow> min_list ds \<in> set ds"
proof -
  have "foldr min xs a = a \<or> foldr min xs a \<in> set xs" for xs and a :: real
    by (induction xs) (auto simp: min_def)
  then show "ds \<noteq> [] \<Longrightarrow> min_list ds \<in> set ds"
    by (cases ds) (auto simp: min_list_def)
qed

definition on_boundary :: "rect \<Rightarrow> point \<Rightarrow> bool" where
  "on_boundary r q \<longleftrightarrow> list_ex (\<lambda>s. on_side s q) (rect_segments r)"

definition proper_rect :: "rect \<Rightarrow> bool" where
  "proper_rect r \<longleftrightarrow> width r = 0 \<or> 10 / 10000 \<le> \<bar>width r\<bar>"

lemma proper_rect_sides: "proper_rect r \<Longrightarrow> s \<in> set (rect_segments r) \<Longrightarrow> proper_side s"
  by (auto simp: proper_rect_def rect_segments_def proper_side_def rect_left_def rect_right_def
      min_def max_def abs_real_def Let_def split: if_splits)

text \<open>
  The search for the closest element: what the running best has seen, and that it is one of
  the boxes seen.
\<close>

definition best_ok :: "point \<Rightarrow> (leaf \<times> rect) list \<Rightarrow> real \<times> leaf option \<Rightarrow> bool" where
  "best_ok p seen best \<longleftrightarrow>
     (case best of
        (m, None) \<Rightarrow> seen = []
      | (m, Some e) \<Rightarrow> list_ex (\<lambda>(c, r). c = e \<and> distance_to_rect_bounds p r = m) seen
          \<and> list_all (\<lambda>(c, r). m \<le> distance_to_rect_bounds p r) seen)"

lemma best_ok_rects:
  "best_ok p seen best \<Longrightarrow> best_ok p (seen @ map (Pair e) rs) (closest_rect best p e rs)"
proof (induction rs arbitrary: seen best)
  case Nil
  then show ?case by simp
next
  case (Cons r rs)
  define best1 where "best1 = (case best of (m, None) \<Rightarrow> (distance_to_rect_bounds p r, Some e)
    | (m, Some c) \<Rightarrow> if distance_to_rect_bounds p r < m then (distance_to_rect_bounds p r, Some e)
        else (m, Some c))"
  have "best_ok p (seen @ [(e, r)]) best1"
    using Cons.prems
    by (cases best) (fastforce simp: best1_def best_ok_def list_all_iff split: option.splits)
  from Cons.IH [OF this] show ?case
    by (simp add: best1_def Let_def)
qed

lemma best_ok_elements:
  "best_ok p seen best \<Longrightarrow>
     best_ok p (seen @ concat (map (\<lambda>e. map (Pair e) (l_rects e)) es))
       (fold (\<lambda>e best. closest_rect best p e (l_rects e)) es best)"
proof (induction es arbitrary: seen best)
  case Nil
  then show ?case by simp
next
  case (Cons e es)
  from Cons.IH [OF best_ok_rects [OF Cons.prems, of e "l_rects e"]] show ?case by simp
qed

definition all_boxes :: "leaf list \<Rightarrow> (leaf \<times> rect) list" where
  "all_boxes es = concat (map (\<lambda>e. map (Pair e) (l_rects e)) es)"

lemma find_closest_ok:
  "case find_closest_element es p of
     Inl _ \<Rightarrow> all_boxes es = []
   | Inr e \<Rightarrow> list_ex (\<lambda>(c, r). c = e \<and>
       list_all (\<lambda>(_, r'). distance_to_rect_bounds p r \<le> distance_to_rect_bounds p r') (all_boxes es)) (all_boxes es)"
proof -
  let ?b = "fold (\<lambda>e best. closest_rect best p e (l_rects e)) es (0, None)"
  have "best_ok p [] (0, None)" by (simp add: best_ok_def)
  from best_ok_elements [OF this, of es] have "best_ok p (all_boxes es) ?b"
    by (simp add: all_boxes_def)
  then show ?thesis
    by (cases ?b) (fastforce simp: find_closest_element_def best_ok_def list_ex_iff list_all_iff
        split: option.splits)
qed

text \<open>A placed block inside the viewport, by the side that was given on each axis.\<close>

definition inside_viewport :: "real \<times> real \<Rightarrow> real \<Rightarrow> real \<Rightarrow> placement \<Rightarrow> bool" where
  "inside_viewport vp bw bh pos \<longleftrightarrow>
     (let (vw, vh) = vp in
      (case (p_left pos, p_right pos) of
         (Some l, None) \<Rightarrow> 0 \<le> l \<and> l + bw \<le> vw
       | (None, Some r) \<Rightarrow> 0 \<le> r \<and> r + bw \<le> vw
       | _ \<Rightarrow> False) \<and>
      (case (p_top pos, p_bottom pos) of
         (Some t, None) \<Rightarrow> 0 \<le> t \<and> t + bh \<le> vh
       | (None, Some b) \<Rightarrow> 0 \<le> b \<and> b + bh \<le> vh
       | _ \<Rightarrow> False))"

section \<open>Properties\<close>

text \<open>
  C35: \<open>distanceToRectBounds\<close> is the distance to the nearest point of the outline of the box, for
  boxes whose width is 0 or at least a thousandth of a pixel: some point of the outline is that far
  and none is closer.
\<close>

theorem distance_is_to_nearest_boundary_point:
  assumes "proper_rect r"
  shows "(\<exists>q. on_boundary r q \<and> dist_pt p q = distance_to_rect_bounds p r)
    \<and> (\<forall>q. on_boundary r q \<longrightarrow> distance_to_rect_bounds p r \<le> dist_pt p q)"
proof
  let ?ds = "map (\<lambda>s. dist_pt p (project_to_rect_side p s)) (rect_segments r)"
  have "?ds \<noteq> []" by (simp add: rect_segments_def Let_def)
  then have "distance_to_rect_bounds p r \<in> set ?ds"
    unfolding distance_to_rect_bounds_def by (rule min_list_in)
  then obtain s where "s \<in> set (rect_segments r)"
    and "distance_to_rect_bounds p r = dist_pt p (project_to_rect_side p s)" by auto
  then show "\<exists>q. on_boundary r q \<and> dist_pt p q = distance_to_rect_bounds p r"
    using project_on_side [OF proper_rect_sides [OF assms], of s p]
    by (intro exI [of _ "project_to_rect_side p s"]) (auto simp: on_boundary_def list_ex_iff)
  show "\<forall>q. on_boundary r q \<longrightarrow> distance_to_rect_bounds p r \<le> dist_pt p q"
  proof (intro allI impI)
    fix q
    assume "on_boundary r q"
    then obtain s where s: "s \<in> set (rect_segments r)" "on_side s q"
      by (auto simp: on_boundary_def list_ex_iff)
    have "distance_to_rect_bounds p r \<le> dist_pt p (project_to_rect_side p s)"
      unfolding distance_to_rect_bounds_def by (rule min_list_le) (use s in auto)
    also have "\<dots> \<le> dist_pt p q"
      by (rule project_nearest [OF proper_rect_sides [OF assms s(1)] s(2)])
    finally show "distance_to_rect_bounds p r \<le> dist_pt p q" .
  qed
qed

theorem distance_is_to_nearest_boundary_point_witness:
  "\<exists>q. on_boundary \<lparr>rx = 0, ry = 0, width = 10, height = 4\<rparr> q
     \<and> dist_pt (20, 2) q = distance_to_rect_bounds (20, 2) \<lparr>rx = 0, ry = 0, width = 10, height = 4\<rparr>"
  using distance_is_to_nearest_boundary_point [of "\<lparr>rx = 0, ry = 0, width = 10, height = 4\<rparr>" "(20, 2)"]
  by (simp add: proper_rect_def)

text \<open>
  C34: \<open>findClosestElement\<close> fails only when no candidate is drawn at all; otherwise it returns a
  candidate one of whose boxes is at least as close to the pointer as every box of every
  candidate.
\<close>

theorem find_closest_element_minimal:
  "case find_closest_element es p of
     Inl _ \<Rightarrow> all_boxes es = []
   | Inr e \<Rightarrow> \<exists>r. (e, r) \<in> set (all_boxes es)
       \<and> list_all (\<lambda>(_, r'). distance_to_rect_bounds p r \<le> distance_to_rect_bounds p r') (all_boxes es)"
  using find_closest_ok [of es p] by (auto simp: list_ex_iff split: sum.splits)

text \<open>
  A block that is less than half of the viewport in each direction and opens at a click
  inside the viewport lies wholly inside the viewport, with one horizontal and one vertical
  side given.
\<close>

theorem position_relative_to_click_inside:
  assumes "0 \<le> cx" and "cx \<le> vw" and "0 \<le> cy" and "cy \<le> vh"
    and "0 \<le> w" and "w \<le> 47 / 100 * vw" and "0 \<le> h" and "h \<le> 47 / 100 * vh"
  shows "inside_viewport (vw, vh) w h (position_relative_to_click (vw, vh) cx cy w h offset)"
  using assms
  by (auto simp: position_relative_to_click_def best_relative_position_def no_placement_def
      best_relative_quadrant_def get_point_quadrant_def inside_viewport_def Let_def split: if_splits)

theorem position_relative_to_click_inside_witness:
  "inside_viewport (1000, 800) 200 100 (position_relative_to_click (1000, 800) 900 790 200 100 5)"
  by (rule position_relative_to_click_inside) auto

text \<open>
  \<open>positionRelativeToClick\<close> is the position without offset, whatever offset is asked for.
\<close>

theorem position_relative_to_click_ignores_offset:
  "position_relative_to_click vp cx cy w h offset = best_relative_position vp cx cy w h 0"
  by (simp add: position_relative_to_click_def)

text \<open>
  \<open>findDisplaySpace\<close> keeps a block that fits the width of the viewport, with its margins,
  between the left and right margins, keeps its size, and never lets it overlap the
  obstacle: it ends 8 above its top or starts 8 below its bottom, and starts below the top of
  the viewport.
\<close>

theorem find_display_space_free:
  assumes "0 \<le> width flt" and "0 \<le> height flt" and "width flt + 8 \<le> vw" and "0 \<le> rect_bottom obs"
  shows "let pos = find_display_space (vw, vh) p flt obs opts in
     4 \<le> rect_left pos \<and> rect_right pos \<le> vw - 4 \<and> 0 \<le> rect_top pos
     \<and> width pos = width flt \<and> height pos = height flt
     \<and> (rect_bottom pos = rect_top obs - 8 \<or> rect_top pos = rect_bottom obs + 8)"
  using assms
  by (auto simp: find_display_space_def spread_opts_def default_options_def rect_left_def rect_right_def
      rect_top_def rect_bottom_def min_def max_def Let_def)

theorem find_display_space_free_witness:
  "let pos = find_display_space (500, 300) (490, 0) \<lparr>rx = 0, ry = 0, width = 100, height = 50\<rparr>
       \<lparr>rx = 400, ry = 20, width = 80, height = 16\<rparr> \<lparr>o_offset = None, o_margin = Some 20\<rparr>
   in 4 \<le> rect_left pos \<and> rect_right pos \<le> 500 - 4 \<and> 0 \<le> rect_top pos
     \<and> width pos = 100 \<and> height pos = 50
     \<and> (rect_bottom pos = rect_top \<lparr>rx = 400, ry = 20, width = 80, height = 16\<rparr> - 8
        \<or> rect_top pos = rect_bottom \<lparr>rx = 400, ry = 20, width = 80, height = 16\<rparr> + 8)"
  using find_display_space_free [of "\<lparr>rx = 0, ry = 0, width = 100, height = 50\<rparr>" 500
      "\<lparr>rx = 400, ry = 20, width = 80, height = 16\<rparr>" 300 "(490, 0)" "\<lparr>o_offset = None, o_margin = Some 20\<rparr>"]
  by (simp add: rect_bottom_def)

text \<open>
  The options a caller gives to \<open>findDisplaySpace\<close> have no effect: the defaults win.
\<close>

theorem find_display_space_ignores_opts:
  "find_display_space vp p flt obs opts = find_display_space vp p flt obs default_options"
  by (simp add: find_display_space_def spread_opts_def default_options_def)

end
