(* ===== verification/Listeners.thy ===== *)
theory Listeners
  imports Prelude
begin

text \<open>
  Event listeners. A registration is a target, an event type and the identity of the callback;
  \<open>addEventListener\<close> ignores a registration that is there already, \<open>removeEventListener\<close>
  takes out the one with the same identity, so a fresh arrow function never matches. The
  contract is the locale \<open>registry\<close>; a component that registers in \<open>connectedCallback\<close> and
  unregisters in \<open>disconnectedCallback\<close> is an instance of \<open>lifecycle\<close>.
\<close>

record listener =
  on_target :: string
  on_type :: string
  callback :: nat

abbreviation listener_of :: "string \<Rightarrow> string \<Rightarrow> nat \<Rightarrow> listener" where
  "listener_of t e c \<equiv> \<lparr>on_target = t, on_type = e, callback = c\<rparr>"

definition add_listener :: "listener \<Rightarrow> listener list \<Rightarrow> listener list" where
  "add_listener l ls = (if l \<in> set ls then ls else ls @ [l])"

definition remove_listener :: "listener \<Rightarrow> listener list \<Rightarrow> listener list" where
  "remove_listener l ls = filter (\<lambda>m. m \<noteq> l) ls"

definition has_listener :: "listener \<Rightarrow> listener list \<Rightarrow> bool" where
  "has_listener l ls \<longleftrightarrow> l \<in> set ls"

definition add_listeners :: "listener list \<Rightarrow> listener list \<Rightarrow> listener list" where
  "add_listeners ms ls = fold add_listener ms ls"

definition remove_listeners :: "listener list \<Rightarrow> listener list \<Rightarrow> listener list" where
  "remove_listeners ms ls = fold remove_listener ms ls"

locale registry =
  fixes add :: "'l \<Rightarrow> 'r \<Rightarrow> 'r"
    and remove :: "'l \<Rightarrow> 'r \<Rightarrow> 'r"
    and has :: "'l \<Rightarrow> 'r \<Rightarrow> bool"
  assumes has_add: "has l (add m r) \<longleftrightarrow> l = m \<or> has l r"
    and has_remove: "has l (remove m r) \<longleftrightarrow> l \<noteq> m \<and> has l r"
begin

lemma has_fold_add: "has l (fold add ms r) \<longleftrightarrow> l \<in> set ms \<or> has l r"
  by (induction ms arbitrary: r) (auto simp: has_add)

lemma has_fold_remove: "has l (fold remove ms r) \<longleftrightarrow> l \<notin> set ms \<and> has l r"
  by (induction ms arbitrary: r) (auto simp: has_remove)

end

text \<open>
  A component that registers \<open>on\<close> when it is connected and unregisters \<open>off\<close> when it is
  disconnected: when \<open>off\<close> covers \<open>on\<close>, nothing of it is left, however often it was connected.
\<close>

locale lifecycle = registry add remove has
  for add :: "'l \<Rightarrow> 'r \<Rightarrow> 'r" and remove :: "'l \<Rightarrow> 'r \<Rightarrow> 'r" and has :: "'l \<Rightarrow> 'r \<Rightarrow> bool" +
  fixes on :: "'l list" and off :: "'l list"
  assumes off_covers_on: "set on \<subseteq> set off"
begin

lemma disconnected: "l \<in> set on \<Longrightarrow> \<not> has l (fold remove off r)"
  using off_covers_on by (auto simp: has_fold_remove)

lemma connect_disconnect:
  "set off \<subseteq> set on \<Longrightarrow> (\<forall>l \<in> set on. \<not> has l r) \<Longrightarrow>
     has l (fold remove off (fold add on r)) \<longleftrightarrow> has l r"
  using off_covers_on by (auto simp: has_fold_remove has_fold_add)

lemma reconnect: "has l (fold add on (fold add on r)) \<longleftrightarrow> has l (fold add on r)"
  by (auto simp: has_fold_add)

end

interpretation dom_registry: registry add_listener remove_listener has_listener
  by unfold_locales (auto simp: add_listener_def remove_listener_def has_listener_def)

lemma has_add_listeners: "has_listener l (add_listeners ms ls) \<longleftrightarrow> l \<in> set ms \<or> has_listener l ls"
  by (simp add: add_listeners_def dom_registry.has_fold_add)

lemma has_remove_listeners: "has_listener l (remove_listeners ms ls) \<longleftrightarrow> l \<notin> set ms \<and> has_listener l ls"
  by (simp add: remove_listeners_def dom_registry.has_fold_remove)

lemma add_listener_distinct: "distinct ls \<Longrightarrow> distinct (add_listener l ls)"
  by (simp add: add_listener_def)

end
