(* ===== verification/Pivot_Events.thy ===== *)
theory Pivot_Events
  imports Prelude
begin

text \<open>
  \<open>webc/pivot-events.js\<close> and \<open>utils/drop.js\<close>: the data of a drag, the label of a pivot, the drag
  image, and the acceptance of a drop.
\<close>

section \<open>Data transfer\<close>

text \<open>
  The parts of \<open>DataTransfer\<close> that are used: the data by format, the allowed effect, and the
  drag image.
\<close>

record transfer =
  dt_data :: "(string \<times> json_text) list"
  effect_allowed :: string
  drag_image :: "string option"

definition pivot_data_format :: string where
  "pivot_data_format = ''pivotcreation''"

definition dt_types :: "transfer \<Rightarrow> string list" where
  "dt_types t = map fst (dt_data t)"

fun dt_set :: "string \<Rightarrow> json_text \<Rightarrow> (string \<times> json_text) list \<Rightarrow> (string \<times> json_text) list" where
  "dt_set k v [] = [(k, v)]"
| "dt_set k v ((a, b) # kvs) = (if a = k then (k, v) # kvs else (a, b) # dt_set k v kvs)"

lemma map_of_dt_set [simp]: "map_of (dt_set k v kvs) = (map_of kvs)(k \<mapsto> v)"
  by (induction kvs) auto

datatype pivot_error = OnlyInDragStart | BadJson | NotAnObject

text \<open>\<open>pivotLabel\<close>: \<open>p.name || p.value\<close>, which fails on null.\<close>

definition pivot_label :: "json \<Rightarrow> pivot_error + json option" where
  "pivot_label p =
     (if p = JNull then Inl NotAnObject else Inr (js_or (jget p ''name'') (jget p ''value'')))"

text \<open>\<open>getData\<close> of an absent format is the empty string.\<close>

definition get_pivot_drag_data :: "transfer option \<Rightarrow> pivot_error + json option" where
  "get_pivot_drag_data ev =
     (case ev of
        None \<Rightarrow> Inr None
      | Some t \<Rightarrow>
          (case map_of (dt_data t) pivot_data_format of
             None \<Rightarrow> Inr None
           | Some (Unparsable s) \<Rightarrow> if s = [] then Inr None else Inl BadJson
           | Some (Parses j) \<Rightarrow> Inr (Some j)))"

definition has_pivot_data :: "transfer option \<Rightarrow> bool" where
  "has_pivot_data ev =
     (case ev of None \<Rightarrow> False | Some t \<Rightarrow> pivot_data_format \<in> set (dt_types t))"

definition set_pivot_drag_data :: "transfer option \<Rightarrow> json_text \<Rightarrow> pivot_error + transfer" where
  "set_pivot_drag_data ev d =
     (case ev of
        None \<Rightarrow> Inl OnlyInDragStart
      | Some t \<Rightarrow> Inr (t\<lparr>dt_data := dt_set pivot_data_format d [], effect_allowed := ''copy''\<rparr>))"

definition drag_image_class :: string where
  "drag_image_class = ''bg-zinc-50 text-zinc-200 rounded-sm px-1'' @ '' dragImage-'' @ pivot_data_format"

definition short_text :: "string \<Rightarrow> string" where
  "short_text s =
     (let max = 60 in if length s < max then s else js_slice s 0 (int max - 3) @ ''...'')"

text \<open>
  The images put below \<open>document.body\<close>: class and text. A label that is not a string has no
  \<open>length\<close> and \<open>slice\<close>: it fails.
\<close>

type_synonym page = "(string \<times> string) list"

definition set_pivot_drag_image ::
  "transfer option \<Rightarrow> json \<Rightarrow> page \<Rightarrow> pivot_error + transfer \<times> page" where
  "set_pivot_drag_image ev d pg =
     (case ev of
        None \<Rightarrow> Inl OnlyInDragStart
      | Some t \<Rightarrow>
          (case pivot_label d of
             Inl e \<Rightarrow> Inl e
           | Inr (Some (JStr s)) \<Rightarrow>
               Inr (t\<lparr>drag_image := Some (short_text s)\<rparr>, pg @ [(drag_image_class, short_text s)])
           | Inr _ \<Rightarrow> Inl NotAnObject))"

definition is_drag_image :: "string \<Rightarrow> bool" where
  "is_drag_image cls \<longleftrightarrow> ''dragImage-'' @ pivot_data_format \<in> set (split_on (CHR '' '') cls)"

definition remove_pivot_drag_image :: "page \<Rightarrow> page" where
  "remove_pivot_drag_image pg = filter (\<lambda>(c, t). \<not> is_drag_image c) pg"

text \<open>\<open>acceptDrop\<close>: without a predicate every event is accepted.\<close>

definition accept_drop :: "'e \<Rightarrow> ('e \<Rightarrow> bool) option \<Rightarrow> bool \<times> effect list" where
  "accept_drop e pred =
     (if (case pred of None \<Rightarrow> True | Some p \<Rightarrow> p e)
      then (True, [PreventDefault, StopImmediatePropagation]) else (False, []))"

section \<open>Lemmas\<close>

lemma length_short_text: "length (short_text s) \<le> 60"
  by (simp add: short_text_def js_slice_def slice_index_def Let_def)

lemma short_text_prefix: "60 \<le> length s \<Longrightarrow> take 57 (short_text s) = take 57 s"
  by (simp add: short_text_def js_slice_def slice_index_def Let_def)

lemma drag_image_class_is: "is_drag_image drag_image_class"
  by (simp add: is_drag_image_def drag_image_class_def pivot_data_format_def)

lemma set_then_get:
  "set_pivot_drag_data ev (Parses j) = Inr t \<Longrightarrow>
     get_pivot_drag_data (Some t) = Inr (Some j) \<and> has_pivot_data (Some t)"
  by (auto simp: set_pivot_drag_data_def get_pivot_drag_data_def has_pivot_data_def dt_types_def
      split: option.splits)

section \<open>Properties\<close>

text \<open>
  What a drag start puts into the transfer is what the drop reads, the transfer is
  recognised as a pivot, the drag image text is at most 60 characters, and removing the drag
  images afterwards leaves the page as it was.
\<close>

theorem pivot_drag_round_trip:
  assumes "set_pivot_drag_data ev (Parses j) = Inr t"
    and "set_pivot_drag_image (Some t) j pg = Inr (t', pg')"
    and "list_all (\<lambda>(c, x). \<not> is_drag_image c) pg"
  shows "get_pivot_drag_data (Some t') = Inr (Some j) \<and> has_pivot_data (Some t')
    \<and> (\<exists>s. drag_image t' = Some s \<and> length s \<le> 60)
    \<and> remove_pivot_drag_image pg' = pg"
proof -
  obtain s where s: "t' = t\<lparr>drag_image := Some (short_text s)\<rparr>"
    and pg: "pg' = pg @ [(drag_image_class, short_text s)]"
    using assms(2) by (auto simp: set_pivot_drag_image_def split: sum.splits option.splits json.splits)
  have "filter (\<lambda>(c, x). \<not> is_drag_image c) pg = pg"
    using assms(3) by (induction pg) auto
  then have "remove_pivot_drag_image pg' = pg"
    by (simp add: pg remove_pivot_drag_image_def drag_image_class_is)
  moreover have "get_pivot_drag_data (Some t') = get_pivot_drag_data (Some t)"
    "has_pivot_data (Some t') = has_pivot_data (Some t)"
    by (simp_all add: s get_pivot_drag_data_def has_pivot_data_def dt_types_def)
  ultimately show ?thesis
    using set_then_get [OF assms(1)] length_short_text [of s] by (simp add: s)
qed

theorem pivot_drag_round_trip_witness:
  "get_pivot_drag_data (Some \<lparr>dt_data = [(''pivotcreation'', Parses (JObj [(''name'', JStr ''ip'')]))],
       effect_allowed = ''copy'', drag_image = Some ''ip''\<rparr>)
     = Inr (Some (JObj [(''name'', JStr ''ip'')]))"
  using pivot_drag_round_trip [of "Some \<lparr>dt_data = [], effect_allowed = '''', drag_image = None\<rparr>"
      "JObj [(''name'', JStr ''ip'')]" _ "[]"]
  by (simp add: set_pivot_drag_data_def set_pivot_drag_image_def pivot_label_def js_or_def
      short_text_def pivot_data_format_def)

end
