(* ===== verification/Datacell.thy ===== *)
theory Datacell
  imports Xas Positioning Listeners Pivot_Events
begin

text \<open>
  \<open>webc/datacell.js\<close>: the shim between the browser and the rendering engine. It collects
  events, passes at most one at a time to the engine (\<open>mxevent\<close>), and drops an event when the
  view changed since it was raised (\<open>gen\<close>, an optimistic lock). What is asynchronous in the
  source is split at its \<open>await\<close>s: the part of a handler up to an \<open>await\<close> is one definition,
  the part after it another, which takes the awaited result; any other step of the cell may
  come between. The engine's answers, the layout and the document are arguments.
\<close>

section \<open>Events and worlds\<close>

text \<open>\<open>rx/intenttype_abi.js\<close>\<close>

datatype intent = NoIntent | Click | DoubleClick | DragStart | DragOver | DragEnd | DropIntent
  | EscPress | ScrollIntent | FilterIntent | Change | Blur | ChangeView | CellIDChange
  | ShowDebugMenu | Seppuku

fun intent_code :: "intent \<Rightarrow> nat" where
  "intent_code NoIntent = 0"
| "intent_code Click = 1"
| "intent_code DoubleClick = 2"
| "intent_code DragStart = 3"
| "intent_code DragOver = 4"
| "intent_code DragEnd = 5"
| "intent_code DropIntent = 6"
| "intent_code EscPress = 7"
| "intent_code ScrollIntent = 8"
| "intent_code FilterIntent = 9"
| "intent_code Change = 10"
| "intent_code Blur = 11"
| "intent_code ChangeView = 12"
| "intent_code CellIDChange = 13"
| "intent_code ShowDebugMenu = 14"
| "intent_code Seppuku = 15"

text \<open>
  A node an event names: whether it is an HTML or SVG element, its \<open>id\<close>, its \<open>value\<close>, the
  \<open>data-r1\<close> to \<open>data-r4\<close> that \<open>closest\<close> finds, and the \<open>id\<close> of \<open>closest("[id]")\<close>.
\<close>

record node_ref =
  is_element :: bool
  node_id :: string
  node_value :: "string option"
  node_regs :: "string option list"
  closest_id :: "string option"

record world =
  w_point :: "int option option"
  w_registers :: "string list option"
  w_continuation :: bool

definition empty_world :: world where
  "empty_world = \<lparr>w_point = None, w_registers = None, w_continuation = False\<rparr>"

text \<open>The world that goes to the engine. A point that is \<open>None\<close> is NaN.\<close>

record js_world =
  js_point :: "int option"
  js_mouse :: point
  js_registers :: "string list"
  js_modifiers :: "bool list"
  js_continuation :: bool
  js_gen :: int

record ui_event =
  ev_type :: string
  ev_detail :: nat
  client :: point
  ctrl_key :: bool
  meta_key :: bool
  shift_key :: bool
  alt_key :: bool
  key_code :: string
  delta_y :: real
  ev_target :: "node_ref option"
  data_transfer :: "transfer option"

definition is_click :: "ui_event \<Rightarrow> bool" where
  "is_click ev \<longleftrightarrow> ev_type ev = ''click''"

definition is_double_click :: "ui_event \<Rightarrow> bool" where
  "is_double_click ev \<longleftrightarrow> ev_type ev = ''dblclick'' \<or> (is_click ev \<and> ev_detail ev = 2)"

definition is_right_click :: "ui_event \<Rightarrow> bool" where
  "is_right_click ev \<longleftrightarrow> ev_type ev = ''contextmenu''"

definition get_registers :: "node_ref option \<Rightarrow> string list" where
  "get_registers target =
     (case target of
        None \<Rightarrow> replicate 4 []
      | Some n \<Rightarrow> map (\<lambda>i. if i < length (node_regs n)
                          then (case node_regs n ! i of None \<Rightarrow> [] | Some r \<Rightarrow> r) else []) [0..<4])"

definition get_modifiers :: "ui_event option \<Rightarrow> bool list" where
  "get_modifiers ev =
     (case ev of
        None \<Rightarrow> replicate 3 False
      | Some e \<Rightarrow> [ctrl_key e \<or> meta_key e, shift_key e, alt_key e])"

section \<open>The cell\<close>

text \<open>
  An event on its way to the engine: the variables of one \<open>sched\<close> closure. \<open>f_js\<close> is the
  world once \<open>buildJSWorld\<close> has returned.
\<close>

record flight =
  f_gen :: int
  f_code :: intent
  f_entity :: int
  f_world :: world
  f_js :: "js_world option"

text \<open>A call of \<open>updateGo\<close>; \<open>None\<close> is the call without an entity.\<close>

record go_call =
  g_code :: intent
  g_args :: "(int \<times> js_world) option"

record cell =
  view :: vm
  debounce :: bool
  mxevent :: bool
  running :: bool
  modifiers :: "bool list"
  mouse :: point
  bounds :: rect
  flights :: "flight list"
  go_calls :: "go_call list"
  listeners :: "listener list"
  images :: page
  manifest :: string
  restarts :: nat

datatype cell_error =
    NotAnElement
  | NonNumberId string
  | InvalidTarget
  | NoEntityForTarget
  | LocateFailed locate_error
  | PivotFailed pivot_error
  | NullDereference
  | BuildFailed

text \<open>\<open>passEvent\<close>: the synchronous part, up to the first \<open>await\<close> of \<open>sched\<close>.\<close>

definition pass_event ::
  "intent \<Rightarrow> node_ref option \<Rightarrow> world \<Rightarrow> cell \<Rightarrow> cell_error + cell \<times> effect list" where
  "pass_event code node w c =
     (case node of
        None \<Rightarrow> Inl NotAnElement
      | Some n \<Rightarrow>
          (if \<not> is_element n then Inl NotAnElement
           else if node_id n = [] then
             Inr (c, [ConsoleWarn ''entityId received an entityNode without id attribute''])
           else case parse_int (node_id n) of
                  None \<Rightarrow> Inl (NonNumberId (node_id n))
                | Some entity \<Rightarrow>
                    (if get_element_by_id (shadow (view c)) (show_int entity) (doc (view c)) = None
                     then Inr (c, [])
                     else if mxevent c then Inr (c, [])
                     else Inr (c\<lparr>mxevent := True,
                                  flights := flights c @ [\<lparr>f_gen = gen (view c), f_code = code,
                                    f_entity = entity, f_world = w, f_js = None\<rparr>]\<rparr>, []))))"

text \<open>
  \<open>buildJSWorld\<close>: a point of the event is kept; otherwise the one \<open>locateEntity\<close> gives, or 0.
  The generation and the mouse are those at the time it returns, except that keys of the
  event have priority.
\<close>

definition build_js_world :: "cell \<Rightarrow> world \<Rightarrow> (nat \<times> int option) option \<Rightarrow> js_world" where
  "build_js_world c w located =
     \<lparr>js_point = (case w_point w of
         Some p \<Rightarrow> p
       | None \<Rightarrow> (case located of Some (n, p) \<Rightarrow> p | None \<Rightarrow> Some 0)),
      js_mouse = mouse c,
      js_registers = (case w_registers w of Some r \<Rightarrow> r | None \<Rightarrow> get_registers None),
      js_modifiers = modifiers c,
      js_continuation = w_continuation w,
      js_gen = gen (view c)\<rparr>"

definition world_built :: "nat \<Rightarrow> (nat \<times> int option) option \<Rightarrow> cell \<Rightarrow> cell" where
  "world_built i located c =
     (if i < length (flights c)
      then c\<lparr>flights := (flights c)[i := (flights c ! i)\<lparr>f_js :=
               Some (build_js_world c (f_world (flights c ! i)) located)\<rparr>]\<rparr>
      else c)"

definition drop_nth :: "nat \<Rightarrow> 'a list \<Rightarrow> 'a list" where
  "drop_nth i xs = take i xs @ drop (Suc i) xs"

text \<open>The rest of \<open>sched\<close>, once the engine is ready: the generation is compared, then \<open>finally\<close>.\<close>

definition deliver :: "nat \<Rightarrow> cell \<Rightarrow> cell" where
  "deliver i c =
     (if i < length (flights c) then
        (let f = flights c ! i; c1 = c\<lparr>mxevent := False, flights := drop_nth i (flights c)\<rparr>
         in case f_js f of
              None \<Rightarrow> c
            | Some w \<Rightarrow>
                (if f_gen f = gen (view c)
                 then c1\<lparr>go_calls := go_calls c @ [\<lparr>g_code = f_code f, g_args = Some (f_entity f, w)\<rparr>]\<rparr>
                 else c1))
      else c)"

text \<open>An exception of an awaited call goes through \<open>finally\<close> too.\<close>

definition sched_fails :: "nat \<Rightarrow> cell \<Rightarrow> cell" where
  "sched_fails i c =
     (if i < length (flights c) then c\<lparr>mxevent := False, flights := drop_nth i (flights c)\<rparr> else c)"

text \<open>The engine calls \<open>buildView\<close>.\<close>

definition update_view :: "byte list \<Rightarrow> cell \<Rightarrow> cell" where
  "update_view prog c = c\<lparr>view := outcome_state (build_view prog (view c))\<rparr>"

definition update_manifest :: "string \<Rightarrow> cell \<Rightarrow> cell \<times> effect list" where
  "update_manifest m c = (c\<lparr>manifest := m\<rparr>, [DispatchEvent ''manifest-change'' (JStr m)])"

section \<open>Handling events\<close>

text \<open>
  What a handler asks of the document: whether the event went through a text input of the
  cell, the text selection's two offsets, the element at a point with its closest entity, and
  the first entity of the cell.
\<close>

record page_env =
  through_text_input :: bool
  selection :: "(nat \<times> nat) option"
  element_at :: "point \<Rightarrow> node_ref option"
  first_entity :: "node_ref option"

text \<open>A handler ends, fails, or waits: for \<open>locateEntity\<close>, or for the engine's answer.\<close>

datatype waiting =
    Finished
  | Fails cell_error
  | WaitClickLocated ui_event
  | WaitClickAnswer
  | WaitDropLocated json
  | WaitDragAnswer ui_event

type_synonym reply = "cell \<times> effect list \<times> waiting"

definition entity_ref :: "string \<Rightarrow> node_ref" where
  "entity_ref i = \<lparr>is_element = True, node_id = i, node_value = None, node_regs = [], closest_id = Some i\<rparr>"

definition closest_entity :: "node_ref \<Rightarrow> node_ref option" where
  "closest_entity n = map_option entity_ref (closest_id n)"

definition parent_entity :: "node_ref option \<Rightarrow> cell_error + node_ref" where
  "parent_entity target =
     (case target of
        None \<Rightarrow> Inl InvalidTarget
      | Some n \<Rightarrow>
          (if \<not> is_element n then Inl InvalidTarget
           else case closest_entity n of None \<Rightarrow> Inl NoEntityForTarget | Some e \<Rightarrow> Inr e))"

definition passing :: "intent \<Rightarrow> node_ref option \<Rightarrow> world \<Rightarrow> effect list \<Rightarrow> waiting \<Rightarrow> cell \<Rightarrow> reply" where
  "passing code node w effs wt c =
     (case pass_event code node w c of
        Inl e \<Rightarrow> (c, effs, Fails e)
      | Inr (c1, effs1) \<Rightarrow> (c1, effs @ effs1, wt))"

definition mouse_in_cell :: "cell \<Rightarrow> bool" where
  "mouse_in_cell c \<longleftrightarrow>
     fst (mouse c) > rect_left (bounds c) \<and> fst (mouse c) < rect_right (bounds c)
     \<and> snd (mouse c) > rect_top (bounds c) \<and> snd (mouse c) < rect_bottom (bounds c)"

definition registers1 :: "string \<Rightarrow> world" where
  "registers1 r = empty_world\<lparr>w_registers := Some [r, [], [], []]\<rparr>"

text \<open>Clicks: the text inputs and a text selection come first, then the position is located.\<close>

definition handle_click :: "page_env \<Rightarrow> ui_event \<Rightarrow> cell \<Rightarrow> reply" where
  "handle_click env ev c =
     (if through_text_input env then (c, [], Finished)
      else if (case selection env of Some (a, f) \<Rightarrow> a \<noteq> f | None \<Rightarrow> False) then (c, [], Finished)
      else (c, [PreventDefault], WaitClickLocated ev))"

definition click_located ::
  "(nat \<Rightarrow> node_ref option) \<Rightarrow> ui_event \<Rightarrow> (nat \<times> int option) option \<Rightarrow> cell \<Rightarrow> reply" where
  "click_located node_of ev ll c =
     (case ll of
        None \<Rightarrow> (c, [], Finished)
      | Some (target, pt) \<Rightarrow>
          (if \<not> is_double_click ev \<and> \<not> is_click ev \<and> is_right_click ev then (c, [], Finished)
           else let code = (if is_double_click ev then DoubleClick else Click);
                    c1 = c\<lparr>modifiers := get_modifiers (Some ev)\<rparr>
             in case parent_entity (node_of target) of
                  Inl e \<Rightarrow> (c1, [], Fails e)
                | Inr e \<Rightarrow> passing code (Some e)
                    \<lparr>w_point = Some pt, w_registers = None, w_continuation = True\<rparr> [] WaitClickAnswer c1))"

definition click_answered :: "string \<Rightarrow> string \<Rightarrow> effect list" where
  "click_answered act name =
     (if act = ''trigger-download'' then [DomCall ''triggerDownload'' [name]] else [])"

definition handle_change :: "ui_event \<Rightarrow> cell \<Rightarrow> reply" where
  "handle_change ev c =
     (case parent_entity (ev_target ev) of
        Inl e \<Rightarrow> (c, [], Fails e)
      | Inr e \<Rightarrow> passing Change (Some e)
          (registers1 (case ev_target ev of Some n \<Rightarrow> (case node_value n of Some v \<Rightarrow> v | None \<Rightarrow> []) | None \<Rightarrow> []))
          [] Finished c)"

definition handle_focusout :: "ui_event \<Rightarrow> cell \<Rightarrow> reply" where
  "handle_focusout ev c =
     (let val = (case ev_target ev of Some n \<Rightarrow> node_value n | None \<Rightarrow> None)
      in case parent_entity (ev_target ev) of
           Inl e \<Rightarrow> (c, [], Fails e)
         | Inr e \<Rightarrow> passing Blur (Some e) (registers1 (case val of Some v \<Rightarrow> v | None \<Rightarrow> [])) [] Finished c)"

text \<open>
  Keys, only with the pointer in the cell. \<open>elementFromPoint\<close> may give null, whose \<open>closest\<close>
  fails. The case \<open>F10\<close> falls through to the default, which returns.
\<close>

definition handle_key :: "page_env \<Rightarrow> ui_event \<Rightarrow> cell \<Rightarrow> reply" where
  "handle_key env ev c =
     (if \<not> mouse_in_cell c then (c, [], Finished)
      else case element_at env (mouse c) of
             None \<Rightarrow> (c, [], Fails NullDereference)
           | Some n \<Rightarrow>
               (case closest_entity n of
                  None \<Rightarrow> (c, [ConsoleWarn ''no entity found, cannot attach event''], Finished)
                | Some e \<Rightarrow>
                    (if key_code ev = ''Escape'' then passing EscPress (Some e) empty_world [] Finished c
                     else if key_code ev = ''ArrowDown'' then
                       passing ScrollIntent (Some e) (registers1 ''1'') [PreventDefault] Finished c
                     else if key_code ev = ''ArrowUp'' then
                       passing ScrollIntent (Some e) (registers1 ''-1'') [PreventDefault] Finished c
                     else if key_code ev = ''F10'' then
                       (if \<not> ctrl_key ev then (c, [], Finished)
                        else passing ShowDebugMenu (first_entity env) empty_world [PreventDefault] Finished c)
                     else (c, [], Finished))))"

definition debounce_timeout :: nat where
  "debounce_timeout = 60"

definition debounce_ends :: "cell \<Rightarrow> cell" where
  "debounce_ends c = c\<lparr>debounce := False\<rparr>"

definition handle_drag_over :: "ui_event \<Rightarrow> cell \<Rightarrow> reply" where
  "handle_drag_over ev c =
     (let (ok, effs) = accept_drop ev (Some (\<lambda>e. has_pivot_data (data_transfer e)))
      in if \<not> ok then (c, effs, Finished)
         else let c1 = c\<lparr>mouse := client ev\<rparr>
           in if debounce c1 then (c1, effs, Finished)
              else let c2 = c1\<lparr>debounce := True\<rparr>; effs2 = effs @ [StartTimer debounce_timeout]
                in case ev_target ev of
                     None \<Rightarrow> (c2, effs2, Fails NullDereference)
                   | Some n \<Rightarrow>
                       (case closest_entity n of
                          None \<Rightarrow> (c2, effs2, Finished)
                        | Some e \<Rightarrow> passing DragOver (Some e) empty_world effs2 Finished c2))"

definition handle_drag_enter :: "ui_event \<Rightarrow> cell \<Rightarrow> reply" where
  "handle_drag_enter ev c =
     (let (ok, effs) = accept_drop ev (Some (\<lambda>e. has_pivot_data (data_transfer e)))
      in (c, effs, Finished))"

definition handle_drop :: "ui_event \<Rightarrow> cell \<Rightarrow> reply" where
  "handle_drop ev c =
     (let (ok, effs) = accept_drop ev (Some (\<lambda>e. has_pivot_data (data_transfer e)))
      in if \<not> ok then (c, effs, Finished)
         else let c1 = c\<lparr>images := remove_pivot_drag_image (images c)\<rparr>
           in case get_pivot_drag_data (data_transfer ev) of
                Inl e \<Rightarrow> (c1, effs, Fails (PivotFailed e))
              | Inr d \<Rightarrow>
                  (if \<not> otruthy d
                   then (c1, effs @ [ConsoleWarn ''Did not get pivot data, ignore drop''], Finished)
                   else (c1, effs, WaitDropLocated (the d))))"

definition drop_located ::
  "(nat \<Rightarrow> node_ref option) \<Rightarrow> json \<Rightarrow> (nat \<times> int option) option \<Rightarrow> cell \<Rightarrow> reply" where
  "drop_located node_of d ll c =
     (case ll of
        None \<Rightarrow> (c, [], Finished)
      | Some (target, pt) \<Rightarrow>
          (case parent_entity (node_of target) of
             Inl e \<Rightarrow> (c, [], Fails e)
           | Inr e \<Rightarrow> passing DropIntent (Some e)
               \<lparr>w_point = Some pt, w_registers = Some [show_json d, [], [], []], w_continuation = False\<rparr>
               [] Finished c))"

definition handle_drag_end :: "ui_event \<Rightarrow> cell \<Rightarrow> reply" where
  "handle_drag_end ev c =
     (let c1 = c\<lparr>images := remove_pivot_drag_image (images c)\<rparr>
      in case ev_target ev of
           None \<Rightarrow> (c1, [], Finished)
         | Some n \<Rightarrow> passing DragEnd (closest_entity n) empty_world [] Finished c1)"

definition handle_drag_start :: "ui_event \<Rightarrow> cell \<Rightarrow> reply" where
  "handle_drag_start ev c =
     (case ev_target ev of
        None \<Rightarrow> (c, [], Finished)
      | Some n \<Rightarrow> passing DragStart (closest_entity n) (empty_world\<lparr>w_continuation := True\<rparr>) []
          (WaitDragAnswer ev) c)"

definition drag_answered :: "ui_event \<Rightarrow> json_text \<Rightarrow> cell \<Rightarrow> cell_error + transfer \<times> cell" where
  "drag_answered ev q c =
     (case set_pivot_drag_data (data_transfer ev) q of
        Inl e \<Rightarrow> Inl (PivotFailed e)
      | Inr t \<Rightarrow>
          (case q of
             Unparsable _ \<Rightarrow> Inl (PivotFailed BadJson)
           | Parses j \<Rightarrow>
               (case set_pivot_drag_image (Some t) j (images c) of
                  Inl e \<Rightarrow> Inl (PivotFailed e)
                | Inr (t1, pg) \<Rightarrow> Inr (t1, c\<lparr>images := pg\<rparr>))))"

definition handle_wheel :: "page_env \<Rightarrow> ui_event \<Rightarrow> cell \<Rightarrow> reply" where
  "handle_wheel env ev c =
     (if \<not> mouse_in_cell c then (c, [], Finished)
      else let effs = [PreventDefault, StopImmediatePropagation]
        in if debounce c then (c, effs, Finished)
           else let direction = (if delta_y ev > 0 then ''10'' else ''-10'');
                    c1 = c\<lparr>debounce := True\<rparr>; effs1 = effs @ [StartTimer debounce_timeout]
             in case element_at env (client ev) of
                  None \<Rightarrow> (c1, effs1, Fails NullDereference)
                | Some n \<Rightarrow>
                    (case closest_entity n of
                       None \<Rightarrow> (c1, effs1, Finished)
                     | Some e \<Rightarrow> passing ScrollIntent (Some e) (registers1 direction) effs1 Finished c1))"

text \<open>\<open>handleEvent\<close>: the dispatch, in the order of the source.\<close>

definition handle_event :: "page_env \<Rightarrow> ui_event \<Rightarrow> cell \<Rightarrow> reply" where
  "handle_event env ev c =
     (if is_click ev \<or> is_right_click ev \<or> is_double_click ev then handle_click env ev c
      else if ev_type ev = ''change'' then handle_change ev c
      else if ev_type ev = ''focusout'' then handle_focusout ev c
      else if ev_type ev = ''mousemove'' then (c\<lparr>mouse := client ev\<rparr>, [], Finished)
      else if ev_type ev = ''keydown'' then handle_key env ev c
      else if ev_type ev = ''dragover'' then handle_drag_over ev c
      else if ev_type ev = ''dragenter'' then handle_drag_enter ev c
      else if ev_type ev = ''drop'' then handle_drop ev c
      else if ev_type ev = ''dragend'' then handle_drag_end ev c
      else if ev_type ev = ''dragstart'' then handle_drag_start ev c
      else if ev_type ev = ''wheel'' then handle_wheel env ev c
      else (c, [ConsoleLog ''Unknown event''], Finished))"

section \<open>Life cycle\<close>

definition shadow_events :: "string list" where
  "shadow_events = [''click'', ''dblclick'', ''contextmenu'', ''change'', ''focusout'', ''dragover'',
     ''dragenter'', ''drop'', ''dragend'', ''dragstart'', ''request-pprof'', ''debug-grammar'']"

definition document_events :: "string list" where
  "document_events = [''mousemove'', ''keydown'', ''wheel'']"

text \<open>The callback of all of them is the cell itself, with identity \<open>me\<close>.\<close>

definition cell_listeners :: "nat \<Rightarrow> listener list" where
  "cell_listeners me =
     map (\<lambda>e. listener_of ''shadow'' e me) shadow_events
     @ map (\<lambda>e. listener_of ''document'' e me) document_events"

definition cell_document_listeners :: "nat \<Rightarrow> listener list" where
  "cell_document_listeners me = map (\<lambda>e. listener_of ''document'' e me) document_events"

definition connected_callback :: "nat \<Rightarrow> cell \<Rightarrow> cell" where
  "connected_callback me c = c\<lparr>listeners := add_listeners (cell_listeners me) (listeners c)\<rparr>"

definition disconnected_callback :: "nat \<Rightarrow> cell \<Rightarrow> cell" where
  "disconnected_callback me c =
     c\<lparr>running := False, listeners := remove_listeners (cell_document_listeners me) (listeners c)\<rparr>"

text \<open>The asynchronous part of it, once the engine is ready.\<close>

definition seppuku :: "cell \<Rightarrow> cell" where
  "seppuku c = c\<lparr>go_calls := go_calls c @ [\<lparr>g_code = Seppuku, g_args = None\<rparr>]\<rparr>"

text \<open>\<open>attributeChangedCallback\<close>, and its asynchronous part.\<close>

definition attribute_changed :: "string \<Rightarrow> string option \<Rightarrow> string option \<Rightarrow> bool" where
  "attribute_changed name old_v new_v \<longleftrightarrow>
     \<not> (name \<noteq> ''cell'' \<or> (case old_v of Some v \<Rightarrow> v \<noteq> [] | None \<Rightarrow> False)
        \<or> (case new_v of Some v \<Rightarrow> v = [] | None \<Rightarrow> True))"

definition cell_id_changed ::
  "node_ref option \<Rightarrow> node_ref option \<Rightarrow> string \<Rightarrow> cell \<Rightarrow> cell_error + cell \<times> effect list" where
  "cell_id_changed active first new_v c =
     (let entity = (case active of
            Some n \<Rightarrow> (case closest_entity n of Some e \<Rightarrow> Some e | None \<Rightarrow> first)
          | None \<Rightarrow> first)
      in case entity of
           None \<Rightarrow> Inr (seppuku (c\<lparr>running := False\<rparr>), [])
         | Some e \<Rightarrow> pass_event CellIDChange (Some e) (registers1 new_v) c)"

text \<open>
  \<open>loopCell\<close>: the engine is started anew each time it exits, at most 20 times, while the
  cell is running. \<open>alive\<close> says after which starts it still is.
\<close>

fun loop_cell :: "nat \<Rightarrow> (nat \<Rightarrow> bool) \<Rightarrow> nat \<Rightarrow> nat" where
  "loop_cell 0 alive starts = starts"
| "loop_cell (Suc n) alive starts =
     (if alive starts then loop_cell n alive (Suc starts) else starts)"

definition final_count_down :: nat where
  "final_count_down = 20"

definition cell_starts :: "(nat \<Rightarrow> bool) \<Rightarrow> nat" where
  "cell_starts alive = loop_cell final_count_down alive 0"

section \<open>Steps\<close>

text \<open>
  Every step of the cell: an event, the continuation of a handler after an \<open>await\<close>, a stage of
  a scheduled event, a rendering by the engine, a timer, the life cycle. With \<open>strict\<close>, the
  engine's programs always build their view; without, \<open>buildView\<close> may throw half way.
\<close>

inductive cell_step :: "bool \<Rightarrow> cell \<Rightarrow> cell \<Rightarrow> bool" for strict where
  event: "handle_event env ev c = (c', effs, wt) \<Longrightarrow> cell_step strict c c'"
| click_continues: "click_located node_of ev ll c = (c', effs, wt) \<Longrightarrow> cell_step strict c c'"
| drop_continues: "drop_located node_of d ll c = (c', effs, wt) \<Longrightarrow> cell_step strict c c'"
| drag_continues: "drag_answered ev q c = Inr (t, c') \<Longrightarrow> cell_step strict c c'"
| id_changed: "cell_id_changed a f v c = Inr (c', effs) \<Longrightarrow> cell_step strict c c'"
| world: "i < length (flights c) \<Longrightarrow> f_js (flights c ! i) = None \<Longrightarrow>
    cell_step strict c (world_built i located c)"
| delivery: "cell_step strict c (deliver i c)"
| failure: "cell_step strict c (sched_fails i c)"
| view_built: "build_view prog (view c) = Returned v \<Longrightarrow> cell_step strict c (update_view prog c)"
| view_threw: "\<not> strict \<Longrightarrow> build_view prog (view c) = Threw e v \<Longrightarrow> cell_step strict c (update_view prog c)"
| timer: "cell_step strict c (debounce_ends c)"
| connected: "cell_step strict c (connected_callback me c)"
| disconnected: "cell_step strict c (disconnected_callback me c)"
| stopped: "cell_step strict c (seppuku c)"
| manifest_set: "cell_step strict c (fst (update_manifest m c))"

inductive_cases cell_stepE: "cell_step strict c c'"

definition initial_cell :: "cell \<Rightarrow> bool" where
  "initial_cell c \<longleftrightarrow> flights c = [] \<and> \<not> mxevent c"

inductive reachable :: "bool \<Rightarrow> cell \<Rightarrow> bool" for strict where
  start: "initial_cell c \<Longrightarrow> reachable strict c"
| more: "reachable strict c \<Longrightarrow> cell_step strict c c' \<Longrightarrow> reachable strict c'"

section \<open>What a handler can do to the schedule\<close>

definition in_view :: "cell \<Rightarrow> int \<Rightarrow> bool" where
  "in_view c entity \<longleftrightarrow> get_element_by_id (shadow (view c)) (show_int entity) (doc (view c)) \<noteq> None"

definition keeps :: "cell \<Rightarrow> cell \<Rightarrow> bool" where
  "keeps c c' \<longleftrightarrow> view c' = view c \<and> flights c' = flights c \<and> mxevent c' = mxevent c \<and> go_calls c' = go_calls c"

definition starts :: "cell \<Rightarrow> cell \<Rightarrow> bool" where
  "starts c c' \<longleftrightarrow> view c' = view c \<and> go_calls c' = go_calls c \<and> \<not> mxevent c \<and> mxevent c'
     \<and> (\<exists>f. flights c' = flights c @ [f] \<and> f_gen f = gen (view c) \<and> f_js f = None \<and> in_view c (f_entity f))"

abbreviation quiet :: "cell \<Rightarrow> cell \<Rightarrow> bool" where
  "quiet c c' \<equiv> keeps c c' \<or> starts c c'"

lemma keeps_refl [simp]: "keeps c c"
  by (simp add: keeps_def)

lemma pass_event_quiet:
  assumes "pass_event code node w c0 = Inr (c1, effs)" and "keeps c c0"
  shows "quiet c c1"
proof -
  have "keeps c0 c1 \<or> starts c0 c1"
    using assms(1)
    by (auto simp: pass_event_def keeps_def starts_def in_view_def split: option.splits if_splits)
  with assms(2) show ?thesis
    by (auto simp: keeps_def starts_def in_view_def)
qed

lemma passing_quiet:
  "passing code node w effs wt c0 = (c1, effs1, wt1) \<Longrightarrow> keeps c c0 \<Longrightarrow> quiet c c1"
  by (auto simp: passing_def split: sum.splits prod.splits dest: pass_event_quiet)

lemmas handler_defs = handle_click_def handle_change_def handle_focusout_def handle_key_def
  handle_drag_over_def handle_drag_enter_def handle_drop_def handle_drag_end_def
  handle_drag_start_def handle_wheel_def accept_drop_def

lemma handlers_quiet:
  "handle_click env ev c = (c', effs, wt) \<Longrightarrow> quiet c c'"
  "handle_change ev c = (c', effs, wt) \<Longrightarrow> quiet c c'"
  "handle_focusout ev c = (c', effs, wt) \<Longrightarrow> quiet c c'"
  "handle_key env ev c = (c', effs, wt) \<Longrightarrow> quiet c c'"
  "handle_drag_over ev c = (c', effs, wt) \<Longrightarrow> quiet c c'"
  "handle_drag_enter ev c = (c', effs, wt) \<Longrightarrow> quiet c c'"
  "handle_drop ev c = (c', effs, wt) \<Longrightarrow> quiet c c'"
  "handle_drag_end ev c = (c', effs, wt) \<Longrightarrow> quiet c c'"
  "handle_drag_start ev c = (c', effs, wt) \<Longrightarrow> quiet c c'"
  "handle_wheel env ev c = (c', effs, wt) \<Longrightarrow> quiet c c'"
  by (auto simp: handler_defs keeps_def Let_def split: if_splits option.splits sum.splits
      dest!: passing_quiet [where c = c])

lemma handle_event_quiet: "handle_event env ev c = (c', effs, wt) \<Longrightarrow> quiet c c'"
  unfolding handle_event_def
  by (auto simp: keeps_def split: if_splits dest: handlers_quiet)

lemma click_located_quiet: "click_located node_of ev ll c = (c', effs, wt) \<Longrightarrow> quiet c c'"
  by (auto simp: click_located_def keeps_def Let_def split: if_splits option.splits sum.splits
      dest!: passing_quiet [where c = c])

lemma drop_located_quiet: "drop_located node_of d ll c = (c', effs, wt) \<Longrightarrow> quiet c c'"
  by (auto simp: drop_located_def keeps_def split: option.splits sum.splits
      dest!: passing_quiet [where c = c])

lemma drag_answered_keeps: "drag_answered ev q c = Inr (t, c') \<Longrightarrow> keeps c c'"
  by (auto simp: drag_answered_def keeps_def split: sum.splits json_text.splits)

lemma id_changed_quiet:
  assumes "cell_id_changed a f v c = Inr (c', effs)"
  shows "quiet c c' \<or> c' = seppuku (c\<lparr>running := False\<rparr>)"
proof -
  define entity where "entity = (case a of
      Some n \<Rightarrow> (case closest_entity n of Some e \<Rightarrow> Some e | None \<Rightarrow> f)
    | None \<Rightarrow> f)"
  have eq: "cell_id_changed a f v c = (case entity of
      None \<Rightarrow> Inr (seppuku (c\<lparr>running := False\<rparr>), [])
    | Some e \<Rightarrow> pass_event CellIDChange (Some e) (registers1 v) c)"
    by (simp only: cell_id_changed_def entity_def Let_def)
  show ?thesis
  proof (cases entity)
    case None
    with assms eq show ?thesis by simp
  next
    case (Some e)
    with assms eq have "pass_event CellIDChange (Some e) (registers1 v) c = Inr (c', effs)" by simp
    then show ?thesis using pass_event_quiet keeps_refl by blast
  qed
qed

section \<open>Invariants\<close>

definition flight_ok :: "bool \<Rightarrow> cell \<Rightarrow> flight \<Rightarrow> bool" where
  "flight_ok strict c f \<longleftrightarrow>
     f_gen f \<le> gen (view c)
     \<and> (case f_js f of None \<Rightarrow> True | Some w \<Rightarrow> f_gen f \<le> js_gen w \<and> js_gen w \<le> gen (view c))
     \<and> (strict \<longrightarrow> f_gen f = gen (view c) \<longrightarrow> in_view c (f_entity f))"

definition cell_ok :: "bool \<Rightarrow> cell \<Rightarrow> bool" where
  "cell_ok strict c \<longleftrightarrow>
     (mxevent c \<longleftrightarrow> flights c \<noteq> []) \<and> length (flights c) \<le> 1 \<and> list_all (flight_ok strict c) (flights c)"

lemma flight_ok_view: "view c' = view c \<Longrightarrow> flight_ok strict c' = flight_ok strict c"
  unfolding flight_ok_def in_view_def by (intro ext) (simp cong: option.case_cong)

lemma cell_ok_keeps:
  assumes "cell_ok strict c" and "keeps c c'"
  shows "cell_ok strict c'"
proof -
  have "flight_ok strict c' = flight_ok strict c"
    by (rule flight_ok_view) (use assms(2) in \<open>simp add: keeps_def\<close>)
  with assms show ?thesis by (simp add: cell_ok_def keeps_def)
qed

lemma cell_ok_starts:
  assumes "cell_ok strict c" and "starts c c'"
  shows "cell_ok strict c'"
proof -
  obtain f where v: "view c' = view c" and f: "flights c' = flights c @ [f]"
    and ok: "f_gen f = gen (view c)" "f_js f = None" "in_view c (f_entity f)"
    and mx: "\<not> mxevent c" "mxevent c'"
    using assms(2) by (auto simp: starts_def)
  have "flights c = []" using assms(1) mx(1) by (simp add: cell_ok_def)
  moreover have "flight_ok strict c f" using ok by (simp add: flight_ok_def)
  ultimately show ?thesis using f mx flight_ok_view [OF v] by (simp add: cell_ok_def)
qed

lemma cell_ok_drop:
  "cell_ok strict c \<Longrightarrow> i < length (flights c) \<Longrightarrow> drop_nth i (flights c) = []"
  by (cases "flights c") (auto simp: cell_ok_def drop_nth_def)

lemma cell_ok_step:
  assumes "cell_step strict c c'" and "cell_ok strict c"
  shows "cell_ok strict c'"
  using assms
proof (cases rule: cell_step.cases)
  case (event env ev effs wt)
  then show ?thesis using handle_event_quiet cell_ok_keeps cell_ok_starts assms(2) by blast
next
  case (click_continues node_of ev ll effs wt)
  then show ?thesis using click_located_quiet cell_ok_keeps cell_ok_starts assms(2) by blast
next
  case (drop_continues node_of d ll effs wt)
  then show ?thesis using drop_located_quiet cell_ok_keeps cell_ok_starts assms(2) by blast
next
  case (drag_continues ev q t)
  then show ?thesis using drag_answered_keeps cell_ok_keeps assms(2) by blast
next
  case (id_changed a f v effs)
  then have q: "quiet c c' \<or> c' = seppuku (c\<lparr>running := False\<rparr>)"
    by (intro id_changed_quiet)
  have "flight_ok strict (seppuku (c\<lparr>running := False\<rparr>)) = flight_ok strict c"
    by (rule flight_ok_view) (simp add: seppuku_def)
  then have "cell_ok strict (seppuku (c\<lparr>running := False\<rparr>))"
    using assms(2) by (simp add: seppuku_def cell_ok_def)
  then show ?thesis
    using q cell_ok_keeps cell_ok_starts assms(2) by blast
next
  case (world i located)
  then show ?thesis using assms(2)
    by (cases "flights c") (auto simp: cell_ok_def world_built_def flight_ok_def in_view_def build_js_world_def)
next
  case (delivery i)
  then show ?thesis using assms(2) cell_ok_drop [OF assms(2), of i]
    by (auto simp: deliver_def Let_def cell_ok_def flight_ok_def in_view_def list_all_iff split: option.splits)
next
  case (failure i)
  then show ?thesis using assms(2) cell_ok_drop [OF assms(2), of i]
    by (auto simp: sched_fails_def cell_ok_def)
next
  case (view_built prog v)
  then have g: "gen v = gen (view c) + 1" and c': "c' = c\<lparr>view := v\<rparr>"
    using build_view_gen [where prog = prog and s = "view c"] by (auto simp: update_view_def)
  then have "flight_ok strict c f \<Longrightarrow> flight_ok strict c' f" for f
    by (auto simp: flight_ok_def split: option.splits)
  with assms(2) c' show ?thesis by (auto simp: cell_ok_def list_all_iff)
next
  case (view_threw prog e v)
  then have g: "gen v = gen (view c)" and c': "c' = c\<lparr>view := v\<rparr>"
    using build_view_gen [where prog = prog and s = "view c"] by (auto simp: update_view_def)
  then have "flight_ok strict c f \<Longrightarrow> flight_ok strict c' f" for f
    using \<open>\<not> strict\<close> by (auto simp: flight_ok_def split: option.splits)
  with assms(2) c' show ?thesis by (auto simp: cell_ok_def list_all_iff)
next
  case stopped
  have "flight_ok strict c' = flight_ok strict c"
    by (rule flight_ok_view) (simp add: stopped seppuku_def)
  with assms(2) show ?thesis by (simp add: cell_ok_def stopped seppuku_def)
qed (use assms(2) cell_ok_keeps in \<open>auto simp: debounce_ends_def connected_callback_def
    disconnected_callback_def update_manifest_def keeps_def\<close>)

lemma cell_ok_reachable: "reachable strict c \<Longrightarrow> cell_ok strict c"
  by (induction rule: reachable.induct) (auto simp: initial_cell_def cell_ok_def dest: cell_ok_step)

interpretation datacell_lifecycle: lifecycle add_listener remove_listener has_listener
  "cell_document_listeners me" "cell_document_listeners me" for me
  by unfold_locales simp

lemma loop_cell_bound: "loop_cell n alive k \<le> k + n"
proof (induction n arbitrary: k)
  case (Suc n)
  from Suc [of "Suc k"] show ?case by simp
qed simp

lemma loop_cell_all: "(\<And>i. alive i) \<Longrightarrow> loop_cell n alive k = k + n"
  by (induction n arbitrary: k) auto

lemma step_view:
  assumes "cell_step True c c'"
  shows "view c' = view c \<or> gen (view c') = gen (view c) + 1"
  using assms
proof (cases rule: cell_step.cases)
  case (event env ev effs wt)
  then show ?thesis using handle_event_quiet by (fastforce simp: keeps_def starts_def)
next
  case (click_continues node_of ev ll effs wt)
  then show ?thesis using click_located_quiet by (fastforce simp: keeps_def starts_def)
next
  case (drop_continues node_of d ll effs wt)
  then show ?thesis using drop_located_quiet by (fastforce simp: keeps_def starts_def)
next
  case (drag_continues ev q t)
  then show ?thesis using drag_answered_keeps by (simp add: keeps_def)
next
  case (id_changed a f v effs)
  then have "quiet c c' \<or> c' = seppuku (c\<lparr>running := False\<rparr>)" by (intro id_changed_quiet)
  then show ?thesis by (auto simp: keeps_def starts_def seppuku_def)
next
  case (view_built prog v)
  then show ?thesis
    using build_view_gen [where prog = prog and s = "view c"] by (auto simp: update_view_def)
qed (auto simp: world_built_def deliver_def sched_fails_def debounce_ends_def connected_callback_def
    disconnected_callback_def seppuku_def update_manifest_def Let_def split: option.splits)

lemma steps_gen_mono: "(cell_step True)\<^sup>*\<^sup>* c c' \<Longrightarrow> gen (view c) \<le> gen (view c')"
proof (induction rule: rtranclp_induct)
  case (step d e)
  then show ?case using step_view [of d e] by auto
qed simp

section \<open>Properties\<close>

definition example_running :: cell where
  "example_running =
     \<lparr>view = \<lparr>doc = [Node 0 KShadow [Node 1 (KElem False ''link'' []) [],
          Node 2 (KElem False ''div'' [(''id'', ''12'')]) []]],
        fresh = 3, shadow = 0, end_style = Some 1, gen = 7, ndoc = 0, anchor = None, next_node = None\<rparr>,
      debounce = False, mxevent = False, running = True, modifiers = [False, False, False],
      mouse = (0, 0), bounds = \<lparr>rx = 0, ry = 0, width = 100, height = 100\<rparr>,
      flights = [], go_calls = [], listeners = [], images = [], manifest = [], restarts = 0\<rparr>"

definition example_raised :: cell where
  "example_raised = fst (handle_event
     \<lparr>through_text_input = False, selection = None, element_at = (\<lambda>p. None), first_entity = None\<rparr>
     \<lparr>ev_type = ''change'', ev_detail = 0, client = (0, 0), ctrl_key = False, meta_key = False,
      shift_key = False, alt_key = False, key_code = [], delta_y = 0,
      ev_target = Some \<lparr>is_element = True, node_id = ''12'', node_value = Some ''x'', node_regs = [],
        closest_id = Some ''12''\<rparr>, data_transfer = None\<rparr> example_running)"

lemma parse_twelve: "parse_int ''12'' = Some 12" "show_int 12 = ''12''"
  by code_simp+

lemma example_raised_eq:
  "example_raised = example_running\<lparr>mxevent := True,
     flights := [\<lparr>f_gen = 7, f_code = Change, f_entity = 12, f_world = registers1 ''x'', f_js = None\<rparr>]\<rparr>"
  by (simp add: example_raised_def example_running_def handle_event_def is_click_def is_right_click_def
      is_double_click_def handle_change_def parent_entity_def closest_entity_def entity_ref_def passing_def
      pass_event_def parse_twelve get_element_by_id_def)

lemma reachable_running: "reachable strict example_running"
  by (rule reachable.start) (simp add: initial_cell_def example_running_def)

lemma step_handle_event: "cell_step strict c (fst (handle_event env ev c))"
  by (cases "handle_event env ev c") (auto intro: cell_step.event)

lemma reachable_raised: "reachable strict example_raised"
  by (rule reachable.more [OF reachable_running])
    (simp add: example_raised_def step_handle_event)

lemma reachable_built: "reachable strict (world_built 0 None example_raised)"
  by (rule reachable.more [OF reachable_raised], rule cell_step.world)
    (simp_all add: example_raised_eq example_running_def)

text \<open>
  C5: At most one event is on its way to the engine, and \<open>mxevent\<close> is set exactly while one is,
  in every state the cell can reach, also when \<open>buildView\<close> throws and when scheduling fails.
\<close>

theorem single_flight:
  assumes "reachable strict c"
  shows "(mxevent c \<longleftrightarrow> flights c \<noteq> []) \<and> length (flights c) \<le> 1"
  using cell_ok_reachable [OF assms] by (simp add: cell_ok_def)

theorem single_flight_witness:
  "(mxevent example_raised \<longleftrightarrow> flights example_raised \<noteq> []) \<and> length (flights example_raised) \<le> 1"
  by (rule single_flight [OF reachable_raised [of False]])

text \<open>
  C6: As long as no program of the engine makes \<open>buildView\<close> throw (the flag of the reachable states), an
  event that reaches the engine was raised in the view that is shown now: its generation and the
  generation of the world that goes with it are the current one, and its entity is an element of
  the current view; an event of an earlier generation is dropped. Either way the cell accepts
  events again. (After a \<open>buildView\<close> that throws half way this does not hold any more:
  \<open>throwing_view_keeps_generation\<close>.)
\<close>

theorem delivered_events_are_current:
  assumes "reachable True c" and "i < length (flights c)" and "f_js (flights c ! i) = Some w"
  shows "let f = flights c ! i; c' = deliver i c in
     \<not> mxevent c' \<and> flights c' = []
     \<and> (if f_gen f = gen (view c)
        then go_calls c' = go_calls c @ [\<lparr>g_code = f_code f, g_args = Some (f_entity f, w)\<rparr>]
          \<and> js_gen w = gen (view c) \<and> in_view c (f_entity f)
        else go_calls c' = go_calls c)"
proof -
  have ok: "cell_ok True c" by (rule cell_ok_reachable [OF assms(1)])
  then have f: "flight_ok True c (flights c ! i)"
    using assms(2) by (simp add: cell_ok_def list_all_length)
  show ?thesis
    using f assms(2,3) cell_ok_drop [OF ok assms(2)]
    by (auto simp: deliver_def Let_def flight_ok_def)
qed

theorem delivered_events_are_current_witness:
  "go_calls (deliver 0 (world_built 0 None example_raised)) \<noteq> []"
  using delivered_events_are_current [OF reachable_built, of 0]
  by (auto simp: world_built_def example_raised_eq example_running_def build_js_world_def Let_def)

text \<open>
  The optimistic lock: as long as the engine's programs build their view, two states with
  the same generation, one reached from the other, show the same view.
\<close>

theorem generation_identifies_view:
  assumes "(cell_step True)\<^sup>*\<^sup>* c c'" and "gen (view c') = gen (view c)"
  shows "view c' = view c"
  using assms
proof (induction rule: rtranclp_induct)
  case (step d e)
  have "gen (view c) \<le> gen (view d)" by (rule steps_gen_mono [OF step.hyps(1)])
  with step step_view [OF step.hyps(2)] show ?case by auto
qed simp

theorem generation_identifies_view_witness:
  "view (debounce_ends example_running) = view example_running"
  by (rule generation_identifies_view) (auto simp: debounce_ends_def intro!: cell_step.timer [unfolded debounce_ends_def])

text \<open>
  When \<open>buildView\<close> throws half way the lock does not hold: the generation stays although an
  entity has left the view.
\<close>

theorem throwing_view_keeps_generation:
  "\<exists>prog c'. cell_step False example_running c' \<and> c' = update_view prog example_running
     \<and> gen (view c') = gen (view example_running)
     \<and> in_view example_running 12 \<and> \<not> in_view c' 12"
proof -
  let ?prog = "[6, 0, 2, 49, 50, 8, 1, 0, 1, 112, 0] :: byte list"
  have b: "\<exists>e v. build_view ?prog (view example_running) = Threw e v \<and> gen v = 7
      \<and> shadow v = 0 \<and> get_element_by_id 0 ''12'' (doc v) = None"
    by (simp add: build_view_def enter_view_def new_node_def example_running_def first_child_def
        run.simps fetch_def optype_of_def optypes_def load_one_def load_string_def be16_def
        op_reuse_def get_element_by_id_def place_def append_child_def next_sibling_def
        op_next_def parent_element_def op_create_element_def Let_def name_start_def char_of_def bit_0)
  then obtain e v where v: "build_view ?prog (view example_running) = Threw e v" "gen v = 7"
    "shadow v = 0" "get_element_by_id 0 ''12'' (doc v) = None" by blast
  have "cell_step False example_running (update_view ?prog example_running)"
    using v(1) by (rule cell_step.view_threw [rotated]) simp
  moreover have "view (update_view ?prog example_running) = v"
    using v(1) by (simp add: update_view_def)
  moreover have "in_view example_running 12" "gen (view example_running) = 7"
    by (simp_all add: in_view_def example_running_def parse_twelve get_element_by_id_def)
  ultimately show ?thesis
    using v by (intro exI [of _ ?prog] exI [of _ "update_view ?prog example_running"])
      (simp add: in_view_def parse_twelve)
qed

text \<open>
  A disconnected cell has no listener left on the document, however often it was connected,
  and does not run; the engine of a cell is started at most 20 times.
\<close>

theorem cell_life_cycle:
  "(\<forall>l. l \<in> set (cell_document_listeners me) \<longrightarrow> \<not> has_listener l (listeners (disconnected_callback me c)))
   \<and> \<not> running (disconnected_callback me c)
   \<and> cell_starts alive \<le> 20 \<and> ((\<forall>i. alive i) \<longrightarrow> cell_starts alive = 20)"
  using datacell_lifecycle.disconnected loop_cell_bound [of final_count_down alive 0]
    loop_cell_all [of alive final_count_down 0]
  by (auto simp: disconnected_callback_def remove_listeners_def cell_starts_def final_count_down_def)

theorem cell_life_cycle_witness:
  "\<not> has_listener (listener_of ''document'' ''wheel'' 3)
       (listeners (disconnected_callback 3 (connected_callback 3 example_running)))
   \<and> cell_starts (\<lambda>i. True) = 20"
  using cell_life_cycle [of 3 "connected_callback 3 example_running" "\<lambda>i. True"]
  by (simp add: cell_document_listeners_def document_events_def)

end
