(* ===== verification/Wasm_Memory.thy ===== *)
theory Wasm_Memory
  imports Prelude
begin

text \<open>
  The linear memory of the engine as \<open>webc/wasm_exec.mjs\<close> sees it through a \<open>DataView\<close>: bytes,
  and little-endian 32-bit words. An access outside of the memory is a \<open>RangeError\<close> (\<open>None\<close>).
  What the 64-bit and string accessors need of a memory is the locale \<open>word_memory\<close>.
\<close>

type_synonym mem_byte = "8 word"
type_synonym memory = "mem_byte list"

section \<open>Words\<close>

definition le_word :: "mem_byte list \<Rightarrow> 32 word" where
  "le_word bs = word_of_nat (unat (bs ! 0) + 256 * (unat (bs ! 1) + 256 * (unat (bs ! 2) + 256 * unat (bs ! 3))))"

definition le_bytes :: "32 word \<Rightarrow> mem_byte list" where
  "le_bytes w = [word_of_nat (unat w), word_of_nat (unat w div 256),
     word_of_nat (unat w div 65536), word_of_nat (unat w div 16777216)]"

lemma length_le_bytes [simp]: "length (le_bytes w) = 4"
  by (simp add: le_bytes_def)

lemma le_word4: "le_word [a, b, c, d] = word_of_nat (unat a + 256 * (unat b + 256 * (unat c + 256 * unat d)))"
  by (simp add: le_word_def)

lemma unat_byte: "unat (word_of_nat k :: 8 word) = k mod 256"
  by (simp add: unat_of_nat)

lemma le_word_bytes: "le_word (le_bytes w) = w"
proof -
  have lt: "unat w < 4294967296" using unsigned_less [of w, where 'a = nat] by simp
  define n where "n = unat w"
  have "n mod 256 + 256 * (n div 256 mod 256 + 256 * (n div 65536 mod 256 + 256 * (n div 16777216 mod 256))) = n"
  proof -
    have "n div 16777216 mod 256 = n div 16777216" using lt by (simp add: n_def)
    moreover have "n div 65536 mod 256 + 256 * (n div 16777216) = n div 65536"
      using mod_mult_div_eq [of "n div 65536" 256] by (simp add: div_mult2_eq [symmetric])
    moreover have "n div 256 mod 256 + 256 * (n div 65536) = n div 256"
      using mod_mult_div_eq [of "n div 256" 256] by (simp add: div_mult2_eq [symmetric])
    moreover have "n mod 256 + 256 * (n div 256) = n" by (rule mod_mult_div_eq)
    ultimately show ?thesis by simp
  qed
  then have "le_word (le_bytes w) = word_of_nat n"
    by (simp only: le_bytes_def le_word4 unat_byte n_def)
  then show ?thesis by (simp add: n_def)
qed

definition get32 :: "nat \<Rightarrow> memory \<Rightarrow> 32 word option" where
  "get32 a m = (if a + 4 \<le> length m then Some (le_word (take 4 (drop a m))) else None)"

definition put_bytes :: "nat \<Rightarrow> mem_byte list \<Rightarrow> memory \<Rightarrow> memory option" where
  "put_bytes a bs m =
     (if a + length bs \<le> length m then Some (take a m @ bs @ drop (a + length bs) m) else None)"

definition set32 :: "nat \<Rightarrow> 32 word \<Rightarrow> memory \<Rightarrow> memory option" where
  "set32 a w m = put_bytes a (le_bytes w) m"

definition get_bytes :: "nat \<Rightarrow> nat \<Rightarrow> memory \<Rightarrow> mem_byte list option" where
  "get_bytes a n m = (if a + n \<le> length m then Some (take n (drop a m)) else None)"

lemma put_bytes_length: "put_bytes a bs m = Some m' \<Longrightarrow> length m' = length m"
  by (auto simp: put_bytes_def split: if_splits)

lemma get_put_bytes_same: "put_bytes a bs m = Some m' \<Longrightarrow> get_bytes a (length bs) m' = Some bs"
  by (auto simp: put_bytes_def get_bytes_def split: if_splits)

lemma get_put_bytes_other:
  assumes "put_bytes a bs m = Some m'" and "b + n \<le> a \<or> a + length bs \<le> b"
  shows "get_bytes b n m' = get_bytes b n m"
proof (cases "b + n \<le> length m")
  case False
  with put_bytes_length [OF assms(1)] show ?thesis by (simp add: get_bytes_def)
next
  case True
  have m': "m' = take a m @ bs @ drop (a + length bs) m" and fit: "a + length bs \<le> length m"
    using assms(1) by (auto simp: put_bytes_def split: if_splits)
  have "take n (drop b m') = take n (drop b m)"
    using assms(2)
  proof
    assume "b + n \<le> a"
    then show ?thesis using fit by (simp add: m' take_drop)
  next
    assume "a + length bs \<le> b"
    then show ?thesis using fit by (simp add: m' drop_drop)
  qed
  with True put_bytes_length [OF assms(1)] show ?thesis by (simp add: get_bytes_def)
qed

lemma get32_bytes: "get32 a m = map_option le_word (get_bytes a 4 m)"
  by (simp add: get32_def get_bytes_def)

lemma get_set32_same: "set32 a w m = Some m' \<Longrightarrow> get32 a m' = Some w"
  using get_put_bytes_same [of a "le_bytes w" m m'] by (simp add: get32_bytes set32_def le_word_bytes)

lemma get_set32_other:
  "set32 a w m = Some m' \<Longrightarrow> b + 4 \<le> a \<or> a + 4 \<le> b \<Longrightarrow> get32 b m' = get32 b m"
  using get_put_bytes_other [of a "le_bytes w" m m' b 4] by (simp add: get32_bytes set32_def)

section \<open>64-bit integers\<close>

text \<open>
  What the accessors of two words rely on: a word that was written is read back, a write
  leaves the words beside it alone, and writing fails exactly outside of the memory.
\<close>

locale word_memory =
  fixes getw :: "nat \<Rightarrow> 'm \<Rightarrow> 32 word option"
    and setw :: "nat \<Rightarrow> 32 word \<Rightarrow> 'm \<Rightarrow> 'm option"
    and size_of :: "'m \<Rightarrow> nat"
  assumes get_same: "setw a w m = Some m' \<Longrightarrow> getw a m' = Some w"
    and get_other: "setw a w m = Some m' \<Longrightarrow> b + 4 \<le> a \<or> a + 4 \<le> b \<Longrightarrow> getw b m' = getw b m"
    and size_kept: "setw a w m = Some m' \<Longrightarrow> size_of m' = size_of m"
    and set_fits: "(setw a w m \<noteq> None) \<longleftrightarrow> a + 4 \<le> size_of m"
begin

definition set_pair :: "nat \<Rightarrow> 32 word \<Rightarrow> 32 word \<Rightarrow> 'm \<Rightarrow> 'm option" where
  "set_pair a lo hi m = (case setw a lo m of None \<Rightarrow> None | Some m1 \<Rightarrow> setw (a + 4) hi m1)"

lemma set_pair_read:
  assumes "set_pair a lo hi m = Some m'"
  shows "getw a m' = Some lo" and "getw (a + 4) m' = Some hi"
proof -
  obtain m1 where 1: "setw a lo m = Some m1" and 2: "setw (a + 4) hi m1 = Some m'"
    using assms by (auto simp: set_pair_def split: option.splits)
  show "getw (a + 4) m' = Some hi" by (rule get_same [OF 2])
  show "getw a m' = Some lo" using get_other [OF 2, of a] get_same [OF 1] by simp
qed

lemma set_pair_other:
  assumes "set_pair a lo hi m = Some m'" and "b + 4 \<le> a \<or> a + 8 \<le> b"
  shows "getw b m' = getw b m"
proof -
  obtain m1 where 1: "setw a lo m = Some m1" and 2: "setw (a + 4) hi m1 = Some m'"
    using assms(1) by (auto simp: set_pair_def split: option.splits)
  show ?thesis using get_other [OF 2, of b] get_other [OF 1, of b] assms(2) by auto
qed

lemma set_pair_fits: "(set_pair a lo hi m \<noteq> None) \<longleftrightarrow> a + 8 \<le> size_of m"
proof (cases "setw a lo m")
  case None
  with set_fits [of a lo m] show ?thesis by (auto simp: set_pair_def)
next
  case (Some m1)
  with set_fits [of "a + 4" hi m1] size_kept [OF Some] show ?thesis by (simp add: set_pair_def add.assoc)
qed

end

interpretation view_memory: word_memory get32 set32 length
  by unfold_locales
    (auto simp: get_set32_same get_set32_other set32_def put_bytes_length, auto simp: put_bytes_def split: if_splits)

text \<open>
  \<open>setInt64\<close> and \<open>getInt64\<close>. The numbers of the source are doubles; the model's integers are
  exact, which the doubles are up to \<open>2 ^ 53\<close>.
\<close>

definition set_int64 :: "nat \<Rightarrow> int \<Rightarrow> memory \<Rightarrow> memory option" where
  "set_int64 a v m =
     (case set32 a (word_of_int v) m of
        None \<Rightarrow> None
      | Some m1 \<Rightarrow> set32 (a + 4) (word_of_int (v div 4294967296)) m1)"

definition get_int64 :: "nat \<Rightarrow> memory \<Rightarrow> int option" where
  "get_int64 a m =
     (case (get32 a m, get32 (a + 4) m) of
        (Some low, Some high) \<Rightarrow> Some (uint low + sint high * 4294967296)
      | _ \<Rightarrow> None)"

lemma set_int64_pair:
  "set_int64 a v m = view_memory.set_pair a (word_of_int v) (word_of_int (v div 4294967296)) m"
  by (simp add: set_int64_def view_memory.set_pair_def)

lemma sint_word_of_int_self:
  assumes "- (2 ^ 31) \<le> h" and "h < 2 ^ 31"
  shows "sint (word_of_int h :: 32 word) = h"
  using assms by (simp add: int_word_sint)

lemma get_set_int64:
  assumes "set_int64 a v m = Some m'" and "- (2 ^ 63) \<le> v" and "v < 2 ^ 63"
  shows "get_int64 a m' = Some v"
proof -
  have r: "get32 a m' = Some (word_of_int v)" "get32 (a + 4) m' = Some (word_of_int (v div 4294967296))"
    using view_memory.set_pair_read [OF assms(1) [unfolded set_int64_pair]] by simp_all
  have "- 9223372036854775808 \<le> v" "v < 9223372036854775808" using assms(2,3) by simp_all
  then have "- 2147483648 \<le> v div 4294967296" "v div 4294967296 < 2147483648" by linarith+
  then have "sint (word_of_int (v div 4294967296) :: 32 word) = v div 4294967296"
    by (intro sint_word_of_int_self) simp_all
  moreover have "uint (word_of_int v :: 32 word) = v mod 4294967296"
    by (simp add: uint_word_of_int)
  moreover have "v mod 4294967296 + v div 4294967296 * 4294967296 = v"
    by simp
  ultimately show ?thesis using r by (simp add: get_int64_def)
qed

end
