(* ===== verification/Wasm_Refs.thy ===== *)
theory Wasm_Refs
  imports Prelude "HOL-Library.Extended_Nat"
begin

text \<open>
  The values of \<open>webc/wasm_exec.mjs\<close> and its table of references: a value the engine holds has
  an id, \<open>_values\<close> maps ids to values, \<open>_ids\<close> values to ids, \<open>_goRefCounts\<close> counts the
  references, and the ids that were given back wait in \<open>_idPool\<close>.
\<close>

section \<open>Values\<close>

text \<open>
  A number is the two words of its IEEE double, high word first. Objects, functions, symbols
  and errors are identified by a number; object 0 is \<open>globalThis\<close> and object 1 the \<open>Go\<close>
  instance. Byte arrays are \<open>VBytes\<close>: their identity and their length; their bytes are in the
  state of the host.
\<close>

datatype jsval =
    VUndef
  | VNull
  | VBool bool
  | VNum "32 word" "32 word"
  | VStr string
  | VSym nat
  | VObj nat
  | VFun nat
  | VBytes nat nat
  | VError nat string

definition num_is_zero :: "32 word \<Rightarrow> 32 word \<Rightarrow> bool" where
  "num_is_zero hi lo \<longleftrightarrow> unat hi mod 2147483648 = 0 \<and> lo = 0"

definition num_is_nan :: "32 word \<Rightarrow> 32 word \<Rightarrow> bool" where
  "num_is_nan hi lo \<longleftrightarrow>
     (let h = unat hi mod 2147483648 in 2146435072 < h \<or> (h = 2146435072 \<and> lo \<noteq> 0))"

definition nan_head :: nat where
  "nan_head = 2146959360"

definition v_nan :: jsval where
  "v_nan = VNum (word_of_nat nan_head) 0"

definition v_zero :: jsval where
  "v_zero = VNum 0 0"

text \<open>The equality of \<open>Map\<close> (SameValueZero): both zeros are one key, and so are all NaNs.\<close>

fun key_of :: "jsval \<Rightarrow> jsval" where
  "key_of (VNum hi lo) =
     (if num_is_zero hi lo then v_zero else if num_is_nan hi lo then v_nan else VNum hi lo)"
| "key_of v = v"

lemma key_of_idem [simp]: "key_of (key_of v) = key_of v"
  by (cases v) (auto simp: v_zero_def v_nan_def num_is_zero_def num_is_nan_def nan_head_def Let_def unat_of_nat)

text \<open>\<open>typeof\<close>, as the flag \<open>storeValue\<close> writes.\<close>

fun type_flag :: "jsval \<Rightarrow> nat" where
  "type_flag (VObj n) = 1"
| "type_flag (VBytes n l) = 1"
| "type_flag (VError n s) = 1"
| "type_flag (VStr s) = 2"
| "type_flag (VSym n) = 3"
| "type_flag (VFun n) = 4"
| "type_flag _ = 0"

section \<open>Arrays and counts\<close>

text \<open>
  Writing past the end of an array extends it; reading past the end is \<open>undefined\<close>. A count
  of an id that never was counted is \<open>undefined\<close>, whose decrement is NaN.
\<close>

definition arr_set :: "'a \<Rightarrow> 'a list \<Rightarrow> nat \<Rightarrow> 'a \<Rightarrow> 'a list" where
  "arr_set hole xs i v =
     (if i < length xs then xs[i := v] else xs @ replicate (i - length xs) hole @ [v])"

definition arr_get :: "'a \<Rightarrow> 'a list \<Rightarrow> nat \<Rightarrow> 'a" where
  "arr_get hole xs i = (if i < length xs then xs ! i else hole)"

lemma arr_get_set [simp]: "arr_get h (arr_set h xs i v) i = v"
  by (simp add: arr_get_def arr_set_def nth_append)

lemma arr_set_twice [simp]: "arr_set h (arr_set h xs i v) i w = arr_set h xs i w"
proof (cases "i < length xs")
  case False
  then have "xs @ replicate (i - length xs) h @ [v] = (xs @ replicate (i - length xs) h) @ v # []"
    and "length (xs @ replicate (i - length xs) h) = i" by simp_all
  then have "(xs @ replicate (i - length xs) h @ [v])[i := w] = (xs @ replicate (i - length xs) h) @ [w]"
    by (metis list_update_length)
  with False show ?thesis by (simp add: arr_set_def)
qed (simp add: arr_set_def)

datatype count = Infinite | Count int | NaNCount

fun count_plus :: "int \<Rightarrow> count \<Rightarrow> count" where
  "count_plus k Infinite = Infinite"
| "count_plus k (Count n) = Count (n + k)"
| "count_plus k NaNCount = NaNCount"

record refs =
  vals :: "jsval list"
  counts :: "count list"
  id_of :: "jsval \<Rightarrow> nat option"
  pool :: "nat list"

definition initial_refs :: refs where
  "initial_refs =
     \<lparr>vals = [v_nan, v_zero, VNull, VBool True, VBool False, VObj 0, VObj 1],
      counts = replicate 7 Infinite,
      id_of = [v_zero \<mapsto> 1, VNull \<mapsto> 2, VBool True \<mapsto> 3, VBool False \<mapsto> 4, VObj 0 \<mapsto> 5, VObj 1 \<mapsto> 6],
      pool = []\<rparr>"

text \<open>The part of \<open>storeValue\<close> that finds or makes the id of a value, and counts it.\<close>

definition new_id :: "refs \<Rightarrow> nat \<times> nat list" where
  "new_id t = (if pool t = [] then (length (vals t), []) else (last (pool t), butlast (pool t)))"

definition acquire :: "jsval \<Rightarrow> refs \<Rightarrow> nat \<times> refs" where
  "acquire v t =
     (let (i, t1) = (case id_of t (key_of v) of
          Some i \<Rightarrow> (i, t)
        | None \<Rightarrow> (let (i, p) = new_id t in
            (i, t\<lparr>pool := p, vals := arr_set VUndef (vals t) i v,
                  counts := arr_set NaNCount (counts t) i (Count 0),
                  id_of := (id_of t)(key_of v \<mapsto> i)\<rparr>)))
      in (i, t1\<lparr>counts := arr_set NaNCount (counts t1) i
               (count_plus 1 (arr_get NaNCount (counts t1) i))\<rparr>))"

text \<open>\<open>syscall/js.finalizeRef\<close>\<close>

definition release :: "nat \<Rightarrow> refs \<Rightarrow> refs" where
  "release i t =
     (let c = count_plus (-1) (arr_get NaNCount (counts t) i);
          t1 = t\<lparr>counts := arr_set NaNCount (counts t) i c\<rparr>
      in if c = Count 0
         then let v = arr_get VUndef (vals t1) i
           in t1\<lparr>vals := arr_set VUndef (vals t1) i VNull,
                 id_of := (id_of t1)(key_of v := None), pool := pool t1 @ [i]\<rparr>
         else t1)"

definition lookup :: "refs \<Rightarrow> nat \<Rightarrow> jsval" where
  "lookup t i = arr_get VUndef (vals t) i"

section \<open>The invariant\<close>

definition held :: "refs \<Rightarrow> nat \<Rightarrow> enat" where
  "held t i = (case arr_get NaNCount (counts t) i of
     Infinite \<Rightarrow> \<infinity> | Count n \<Rightarrow> enat (nat n) | NaNCount \<Rightarrow> 0)"

definition slot_ok :: "refs \<Rightarrow> nat \<Rightarrow> bool" where
  "slot_ok t i \<longleftrightarrow>
     (if i < 7 then counts t ! i = Infinite \<and> vals t ! i = vals initial_refs ! i
        \<and> (i \<noteq> 0 \<longrightarrow> id_of t (vals t ! i) = Some i)
      else if i \<in> set (pool t) then counts t ! i = Count 0
      else (\<exists>n. counts t ! i = Count n \<and> 0 < n) \<and> id_of t (key_of (vals t ! i)) = Some i)"

definition id_ok :: "refs \<Rightarrow> jsval \<Rightarrow> nat \<Rightarrow> bool" where
  "id_ok t v i \<longleftrightarrow> 0 < i \<and> i < length (vals t) \<and> i \<notin> set (pool t) \<and> key_of (vals t ! i) = v"

definition refs_ok :: "refs \<Rightarrow> bool" where
  "refs_ok t \<longleftrightarrow>
     7 \<le> length (vals t) \<and> length (counts t) = length (vals t)
     \<and> (\<forall>i < length (vals t). slot_ok t i)
     \<and> (\<forall>v i. id_of t v = Some i \<longrightarrow> id_ok t v i)
     \<and> distinct (pool t) \<and> (\<forall>i \<in> set (pool t). 7 \<le> i \<and> i < length (vals t))"

lemma refs_okD:
  assumes "refs_ok t"
  shows "7 \<le> length (vals t)" and "length (counts t) = length (vals t)"
    and "i < length (vals t) \<Longrightarrow> slot_ok t i"
    and "id_of t v = Some i \<Longrightarrow> id_ok t v i"
    and "distinct (pool t)" and "i \<in> set (pool t) \<Longrightarrow> 7 \<le> i \<and> i < length (vals t)"
  using assms by (auto simp: refs_ok_def)

lemma less_seven: "(i < (7::nat)) = (i = 0 \<or> i = 1 \<or> i = 2 \<or> i = 3 \<or> i = 4 \<or> i = 5 \<or> i = 6)"
  by auto

lemma initial_refs_ok: "refs_ok initial_refs"
  by (auto simp: refs_ok_def slot_ok_def id_ok_def initial_refs_def less_seven v_zero_def v_nan_def
      num_is_zero_def split: if_splits)

lemma initial_key: "i < 7 \<Longrightarrow> key_of (vals initial_refs ! i) = vals initial_refs ! i"
  by (auto simp: initial_refs_def less_seven v_zero_def v_nan_def num_is_zero_def num_is_nan_def
      nan_head_def unat_of_nat Let_def)

lemma slot_id:
  assumes "refs_ok t" and "0 < i" and "i < length (vals t)" and "i \<notin> set (pool t)"
  shows "id_of t (key_of (vals t ! i)) = Some i"
  using refs_okD(3) [OF assms(1,3)] assms(2,4) initial_key [of i]
  by (cases "i < 7") (auto simp: slot_ok_def)

text \<open>Adding the value under a fresh id, before it is counted.\<close>

lemma acquire_known:
  assumes "refs_ok t" and "id_of t (key_of v) = Some i"
  shows "acquire v t = (i, t\<lparr>counts := (counts t)[i := count_plus 1 (counts t ! i)]\<rparr>)"
proof -
  have "i < length (vals t)" using refs_okD(4) [OF assms] by (simp add: id_ok_def)
  with refs_okD(2) [OF assms(1)] assms(2) show ?thesis
    by (simp add: acquire_def arr_set_def arr_get_def)
qed

lemma acquire_new:
  assumes "refs_ok t" and "id_of t (key_of v) = None"
  obtains i p where "new_id t = (i, p)"
    and "acquire v t = (i, t\<lparr>counts := arr_set NaNCount (counts t) i (Count 1), pool := p,
      vals := arr_set VUndef (vals t) i v, id_of := (id_of t)(key_of v \<mapsto> i)\<rparr>)"
    and "7 \<le> i" and "i \<le> length (vals t)" and "i < length (vals t) \<Longrightarrow> i \<in> set (pool t)"
    and "set p = set (pool t) - {i}" and "distinct p"
proof -
  obtain i p where n: "new_id t = (i, p)" by fastforce
  note ok = refs_okD [OF assms(1)]
  have i: "7 \<le> i \<and> i \<le> length (vals t) \<and> (i < length (vals t) \<longrightarrow> i \<in> set (pool t))
      \<and> set p = set (pool t) - {i} \<and> distinct p"
  proof (cases "pool t = []")
    case True
    with n have "i = length (vals t)" "p = []" by (simp_all add: new_id_def)
    with True ok(1) show ?thesis by simp
  next
    case False
    then obtain q x where q: "pool t = q @ [x]" by (cases "pool t" rule: rev_cases) auto
    with n have "i = x" "p = q" by (simp_all add: new_id_def)
    moreover have "distinct q" "x \<notin> set q" using ok(5) q by auto
    moreover have "7 \<le> x \<and> x < length (vals t)" using ok(6) [of x] q by simp
    ultimately show ?thesis using q by auto
  qed
  have "acquire v t = (i, t\<lparr>counts := arr_set NaNCount (counts t) i (Count 1), pool := p,
      vals := arr_set VUndef (vals t) i v, id_of := (id_of t)(key_of v \<mapsto> i)\<rparr>)"
    by (simp add: acquire_def assms(2) n arr_set_twice arr_get_set)
  from that [OF n this] i show thesis by simp
qed

lemma arr_set_extend:
  "i \<le> length xs \<Longrightarrow> length (arr_set h xs i v) = max (length xs) (Suc i)
     \<and> (\<forall>j < max (length xs) (Suc i). arr_set h xs i v ! j = (if j = i then v else xs ! j))"
  by (auto simp: arr_set_def nth_append)

text \<open>What storing a value promises, whether it was known or not.\<close>

definition acquired :: "jsval \<Rightarrow> nat \<Rightarrow> refs \<Rightarrow> refs \<Rightarrow> bool" where
  "acquired v i t t' \<longleftrightarrow> refs_ok t' \<and> key_of (lookup t' i) = key_of v
    \<and> held t' i = held t i + 1 \<and> (\<forall>j. j \<noteq> i \<longrightarrow> held t' j = held t j)
    \<and> (\<forall>j. 0 < held t j \<longrightarrow> lookup t' j = lookup t j)"

lemma acquired_known:
  assumes ok: "refs_ok t" and k: "id_of t (key_of v) = Some i"
  shows "acquired v i t (t\<lparr>counts := (counts t)[i := count_plus 1 (counts t ! i)]\<rparr>)"
proof -
  let ?t = "t\<lparr>counts := (counts t)[i := count_plus 1 (counts t ! i)]\<rparr>"
  note d = refs_okD [OF ok]
  have i: "0 < i" "i < length (vals t)" "i \<notin> set (pool t)" "key_of (vals t ! i) = key_of v"
    using d(4) [OF k] by (auto simp: id_ok_def)
  have c: "(i < 7 \<and> counts t ! i = Infinite) \<or> (\<not> i < 7 \<and> (\<exists>n. counts t ! i = Count n \<and> 0 < n))"
    using d(3) [OF i(2)] i(3) by (auto simp: slot_ok_def split: if_splits)
  have "slot_ok ?t j" if "j < length (vals t)" for j
    using d(3) [OF that] c that d(2) i(3) by (cases "j = i") (auto simp: slot_ok_def)
  moreover have "id_ok ?t w j" if "id_of t w = Some j" for w j
    using d(4) [OF that] by (simp add: id_ok_def)
  ultimately have "refs_ok ?t" using d(1,2,5,6) by (simp add: refs_ok_def)
  moreover have "held ?t i = held t i + 1"
    using c i d(2) by (auto simp: held_def arr_get_def one_enat_def nat_add_distrib)
  ultimately show ?thesis
    using i d(2) by (auto simp: acquired_def held_def lookup_def arr_get_def)
qed

lemma acquired_new:
  assumes ok: "refs_ok t" and none: "id_of t (key_of v) = None"
    and t': "t' = t\<lparr>counts := arr_set NaNCount (counts t) k (Count 1), pool := p,
      vals := arr_set VUndef (vals t) k v, id_of := (id_of t)(key_of v \<mapsto> k)\<rparr>"
    and k: "7 \<le> k" "k \<le> length (vals t)" "k < length (vals t) \<Longrightarrow> k \<in> set (pool t)"
    and p: "set p = set (pool t) - {k}" "distinct p"
  shows "acquired v k t t'"
proof -
  note d = refs_okD [OF ok]
  note v' = arr_set_extend [OF k(2), of VUndef v]
  note c' = arr_set_extend [of k "counts t" NaNCount "Count 1", unfolded d(2), OF k(2)]
  have len': "length (vals t') = max (length (vals t)) (Suc k)" using v' by (simp add: t')
  have at_k: "vals t' ! k = v" "counts t' ! k = Count 1" using v' c' by (auto simp: t')
  have off_k: "vals t' ! j = vals t ! j" "counts t' ! j = counts t ! j"
    if "j < length (vals t)" "j \<noteq> k" for j
    using that v' c' by (auto simp: t')
  have old: "j < length (vals t)" if "j < length (vals t')" "j \<noteq> k" for j
    using that k(2) by (auto simp: len' less_max_iff_disj)
  have notin: "k \<notin> set p" "\<And>j. j \<noteq> k \<Longrightarrow> (j \<in> set p) = (j \<in> set (pool t))" using p by auto
  have idne: "w \<noteq> key_of v" if "id_of t w = Some j" for w j using that none by auto
  have "slot_ok t' j" if j: "j < length (vals t')" for j
  proof (cases "j = k")
    case True
    with at_k k(1) notin(1) show ?thesis by (simp add: slot_ok_def t')
  next
    case False
    have jl: "j < length (vals t)" by (rule old [OF j False])
    from d(3) [OF jl] off_k [OF jl False] notin(2) [OF False] idne show ?thesis
      unfolding slot_ok_def by (auto simp: t')
  qed
  moreover have "id_ok t' w j" if "id_of t' w = Some j" for w j
  proof (cases "w = key_of v")
    case True
    with that have "j = k" by (simp add: t')
    with True at_k k(1) notin(1) len' show ?thesis by (simp add: id_ok_def t')
  next
    case False
    with that have w: "id_of t w = Some j" by (simp add: t')
    have "j \<noteq> k" using d(4) [OF w] k(3) by (auto simp: id_ok_def)
    with d(4) [OF w] off_k [of j] notin(2) [of j] len' show ?thesis
      by (simp add: id_ok_def t' less_max_iff_disj)
  qed
  moreover have "length (counts t') = length (vals t')" using v' c' by (simp add: t')
  moreover have "\<forall>j \<in> set p. 7 \<le> j \<and> j < length (vals t')" using p(1) d(6) by (auto simp: len' less_max_iff_disj)
  ultimately have "refs_ok t'"
    using d(1) p(2) len' by (simp add: refs_ok_def t')
  moreover have h0: "held t k = 0"
  proof (cases "k < length (vals t)")
    case True
    with d(3) [OF True] k d(2) show ?thesis by (simp add: held_def arr_get_def slot_ok_def zero_enat_def)
  next
    case False
    with d(2) show ?thesis by (simp add: held_def arr_get_def)
  qed
  moreover have "held t' k = 1"
    using at_k(2) \<open>length (counts t') = length (vals t')\<close> len'
    by (simp add: held_def arr_get_def one_enat_def less_max_iff_disj)
  moreover have "held t' j = held t j \<and> lookup t' j = lookup t j" if "j \<noteq> k" for j
    using that off_k [of j] len' \<open>length (counts t') = length (vals t')\<close> d(2) old [of j]
    by (auto simp: held_def lookup_def arr_get_def)
  moreover have "lookup t' k = v" using at_k len' by (simp add: lookup_def arr_get_def less_max_iff_disj)
  ultimately show ?thesis unfolding acquired_def by (metis add_0 less_irrefl)
qed

lemma acquire_ok:
  assumes "refs_ok t" and "acquire v t = (i, t')"
  shows "acquired v i t t'"
proof (cases "id_of t (key_of v)")
  case (Some k)
  with acquire_known [OF assms(1) Some] assms acquired_known [OF assms(1) Some] show ?thesis by simp
next
  case None
  obtain k p where "acquire v t = (k, t\<lparr>counts := arr_set NaNCount (counts t) k (Count 1), pool := p,
      vals := arr_set VUndef (vals t) k v, id_of := (id_of t)(key_of v \<mapsto> k)\<rparr>)"
    and k: "7 \<le> k" "k \<le> length (vals t)" "k < length (vals t) \<Longrightarrow> k \<in> set (pool t)"
    "set p = set (pool t) - {k}" "distinct p"
    using acquire_new [OF assms(1) None] by metis
  with assms(2) have "i = k" and t': "t' = t\<lparr>counts := arr_set NaNCount (counts t) k (Count 1), pool := p,
      vals := arr_set VUndef (vals t) k v, id_of := (id_of t)(key_of v \<mapsto> k)\<rparr>" by auto
  with acquired_new [OF assms(1) None t' k] show ?thesis by simp
qed

lemma acquire_id_bound:
  assumes "refs_ok t" and "acquire v t = (i, t')"
  shows "i \<le> length (vals t)"
proof (cases "id_of t (key_of v)")
  case (Some k)
  with acquire_known [OF assms(1) Some] assms(2) refs_okD(4) [OF assms(1) Some] show ?thesis
    by (simp add: id_ok_def)
next
  case None
  from acquire_new [OF assms(1) None] assms(2) show ?thesis by (metis prod.inject)
qed

text \<open>Giving a reference back.\<close>

definition released :: "nat \<Rightarrow> refs \<Rightarrow> refs \<Rightarrow> bool" where
  "released i t t' \<longleftrightarrow> refs_ok t' \<and> held t' i + 1 = held t i
    \<and> (\<forall>j. j \<noteq> i \<longrightarrow> held t' j = held t j)
    \<and> (\<forall>j. 0 < held t' j \<longrightarrow> lookup t' j = lookup t j)"

lemma release_ok:
  assumes ok: "refs_ok t" and h: "0 < held t i"
  shows "released i t (release i t)"
proof -
  note d = refs_okD [OF ok]
  have i: "i < length (vals t)"
    using h d(2) by (cases "i < length (vals t)") (auto simp: held_def arr_get_def)
  have np: "i \<notin> set (pool t)"
  proof
    assume p: "i \<in> set (pool t)"
    then have "counts t ! i = Count 0" using d(3) [OF i] d(6) [OF p] by (simp add: slot_ok_def)
    with h i d(2) show False by (simp add: held_def arr_get_def zero_enat_def)
  qed
  show ?thesis
  proof (cases "i < 7")
    case True
    then have c: "counts t ! i = Infinite" using d(3) [OF i] by (simp add: slot_ok_def)
    then have "release i t = t\<lparr>counts := (counts t)[i := Infinite]\<rparr>"
      using i d(2) by (simp add: release_def arr_set_def arr_get_def Let_def)
    also have "\<dots> = t" using c by (metis list_update_id refs.surjective refs.update_convs(2))
    finally have "release i t = t" .
    moreover have "held t i = \<infinity>" using c i d(2) by (simp add: held_def arr_get_def)
    ultimately show ?thesis using ok by (simp add: released_def)
  next
    case False
    then obtain n where n: "counts t ! i = Count n" "0 < n"
      and idi: "id_of t (key_of (vals t ! i)) = Some i"
      using d(3) [OF i] np by (auto simp: slot_ok_def)
    have hi: "held t i = enat (nat n)" using n i d(2) by (simp add: held_def arr_get_def)
    show ?thesis
    proof (cases "n = 1")
      case False
      let ?t = "t\<lparr>counts := (counts t)[i := Count (n - 1)]\<rparr>"
      have r: "release i t = ?t"
        using n i d(2) False by (simp add: release_def arr_set_def arr_get_def Let_def)
      have "slot_ok ?t j" if "j < length (vals t)" for j
        using d(3) [OF that] that d(2) np n False \<open>\<not> i < 7\<close> idi
        by (cases "j = i") (auto simp: slot_ok_def)
      moreover have "id_ok ?t w j" if "id_of t w = Some j" for w j
        using d(4) [OF that] by (simp add: id_ok_def)
      ultimately have "refs_ok ?t" using d(1,2,5,6) by (simp add: refs_ok_def)
      moreover have "held ?t i + 1 = held t i"
        using n i d(2) by (simp add: held_def arr_get_def one_enat_def)
      ultimately show ?thesis unfolding r by (auto simp: released_def held_def lookup_def arr_get_def)
    next
      case True
      let ?t = "t\<lparr>counts := (counts t)[i := Count 0], vals := (vals t)[i := VNull],
        id_of := (id_of t)(key_of (vals t ! i) := None), pool := pool t @ [i]\<rparr>"
      have r: "release i t = ?t"
        using n i d(2) True by (simp add: release_def arr_set_def arr_get_def Let_def)
      have "slot_ok ?t j" if "j < length (vals t)" for j
      proof (cases "j = i")
        case True
        with \<open>\<not> i < 7\<close> i d(2) show ?thesis by (simp add: slot_ok_def)
      next
        case ne: False
        have "key_of (vals t ! j) \<noteq> key_of (vals t ! i)" if "j \<notin> set (pool t)" "0 < j"
          using slot_id [OF ok that(2) \<open>j < length (vals t)\<close> that(1)] idi ne by auto
        moreover have "vals t ! j \<noteq> key_of (vals t ! i)" if "j < 7" "0 < j"
          using d(3) [OF \<open>j < length (vals t)\<close>] that idi ne by (auto simp: slot_ok_def)
        ultimately show ?thesis using d(3) [OF that] ne by (auto simp: slot_ok_def)
      qed
      moreover have "id_ok ?t w j" if "id_of ?t w = Some j" for w j
      proof -
        have w: "id_of t w = Some j" "w \<noteq> key_of (vals t ! i)" using that by (auto split: if_splits)
        then have "j \<noteq> i" using d(4) by (auto simp: id_ok_def)
        with d(4) [OF w(1)] show ?thesis by (simp add: id_ok_def)
      qed
      ultimately have "refs_ok ?t" using d(1,2,5,6) i np \<open>\<not> i < 7\<close> by (auto simp: refs_ok_def)
      moreover have "held ?t i + 1 = held t i"
        using n True i d(2) by (simp add: held_def arr_get_def one_enat_def)
      moreover have "held ?t i = 0" using i d(2) by (simp add: held_def arr_get_def zero_enat_def)
      moreover have "held ?t j = held t j" "lookup ?t j = lookup t j" if "j \<noteq> i" for j
        using that by (simp_all add: held_def lookup_def arr_get_def)
      ultimately show ?thesis unfolding r released_def by (metis less_irrefl)
    qed
  qed
qed

section \<open>The interface\<close>

text \<open>
  What the engine relies on: storing a value gives an id that reads as that value and counts
  one more reference; giving a reference back counts one less; and an id that is still
  referenced keeps its value, whatever else happens.
\<close>

locale ref_table =
  fixes store :: "'v \<Rightarrow> 't \<Rightarrow> nat \<times> 't"
    and free :: "nat \<Rightarrow> 't \<Rightarrow> 't"
    and look :: "'t \<Rightarrow> nat \<Rightarrow> 'v"
    and refcount :: "'t \<Rightarrow> nat \<Rightarrow> enat"
    and same :: "'v \<Rightarrow> 'v \<Rightarrow> bool"
    and ok :: "'t \<Rightarrow> bool"
  assumes store_ok: "ok t \<Longrightarrow> store v t = (i, t') \<Longrightarrow>
      ok t' \<and> same (look t' i) v \<and> refcount t' i = refcount t i + 1
      \<and> (\<forall>j. j \<noteq> i \<longrightarrow> refcount t' j = refcount t j)
      \<and> (\<forall>j. 0 < refcount t j \<longrightarrow> look t' j = look t j)"
    and free_ok: "ok t \<Longrightarrow> 0 < refcount t i \<Longrightarrow>
      ok (free i t) \<and> refcount (free i t) i + 1 = refcount t i
      \<and> (\<forall>j. j \<noteq> i \<longrightarrow> refcount (free i t) j = refcount t j)
      \<and> (\<forall>j. 0 < refcount (free i t) j \<longrightarrow> look (free i t) j = look t j)"
begin

text \<open>A run of the engine: stores, and frees of references it has.\<close>

inductive engine_run :: "'t \<Rightarrow> 't \<Rightarrow> nat \<Rightarrow> bool" where
  idle: "engine_run t t j"
| stores: "engine_run t u j \<Longrightarrow> store v u = (i, u') \<Longrightarrow> engine_run t u' j"
| frees: "engine_run t u j \<Longrightarrow> 0 < refcount u i \<Longrightarrow> 0 < refcount (free i u) j \<Longrightarrow> engine_run t (free i u) j"

lemma run_keeps:
  assumes "engine_run t u j" and "ok t" and "0 < refcount t j"
  shows "ok u \<and> 0 < refcount u j \<and> look u j = look t j"
  using assms
proof (induction rule: engine_run.induct)
  case (idle t j)
  then show ?case by simp
next
  case (stores t u j v i u')
  then have u: "ok u" "0 < refcount u j" "look u j = look t j" by auto
  from store_ok [OF u(1) stores.hyps(2)] have "0 < refcount u' j"
    using u(2) by (cases "j = i") (auto simp: ile_eSuc)
  with store_ok [OF u(1) stores.hyps(2)] u show ?case by auto
next
  case (frees t u j i)
  then show ?case using free_ok [of u i] by auto
qed

lemma stored_survives:
  assumes "ok t" and "store v t = (i, t')" and "engine_run t' u i"
  shows "same (look u i) v"
proof -
  have "ok t'" "same (look t' i) v" "refcount t' i = refcount t i + 1"
    using store_ok [OF assms(1,2)] by auto
  moreover have "0 < refcount t' i"
    using calculation(3) by (cases "refcount t i") (auto simp: one_enat_def zero_enat_def)
  ultimately show ?thesis using run_keeps [OF assms(3)] by simp
qed

end

interpretation go_refs: ref_table acquire release lookup held "\<lambda>a b. key_of a = key_of b" refs_ok
proof unfold_locales
  fix t v i t'
  assume "refs_ok t" and "acquire v t = (i, t')"
  then show "refs_ok t' \<and> key_of (lookup t' i) = key_of v \<and> held t' i = held t i + 1
      \<and> (\<forall>j. j \<noteq> i \<longrightarrow> held t' j = held t j) \<and> (\<forall>j. 0 < held t j \<longrightarrow> lookup t' j = lookup t j)"
    using acquire_ok [of t v i t'] by (auto simp: acquired_def)
next
  fix t i
  assume "refs_ok t" and "0 < held t i"
  then show "refs_ok (release i t) \<and> held (release i t) i + 1 = held t i
      \<and> (\<forall>j. j \<noteq> i \<longrightarrow> held (release i t) j = held t j)
      \<and> (\<forall>j. 0 < held (release i t) j \<longrightarrow> lookup (release i t) j = lookup t j)"
    using release_ok [of t i] by (auto simp: released_def)
qed

section \<open>Properties\<close>

text \<open>The trace of the engine's calls, as a list: a store, or a free of an id.\<close>

datatype ref_op = StoreRef jsval | FreeRef nat

fun ref_steps :: "ref_op list \<Rightarrow> refs \<Rightarrow> refs" where
  "ref_steps [] t = t"
| "ref_steps (StoreRef v # ops) t = ref_steps ops (snd (acquire v t))"
| "ref_steps (FreeRef i # ops) t = ref_steps ops (release i t)"

text \<open>Only references that are held are freed, and one on \<open>j\<close> stays.\<close>

fun frees_held :: "nat \<Rightarrow> ref_op list \<Rightarrow> refs \<Rightarrow> bool" where
  "frees_held j [] t \<longleftrightarrow> True"
| "frees_held j (StoreRef v # ops) t \<longleftrightarrow> frees_held j ops (snd (acquire v t))"
| "frees_held j (FreeRef i # ops) t \<longleftrightarrow>
     0 < held t i \<and> 0 < held (release i t) j \<and> frees_held j ops (release i t)"

lemma ref_steps_run:
  "go_refs.engine_run t u j \<Longrightarrow> frees_held j ops u \<Longrightarrow> go_refs.engine_run t (ref_steps ops u) j"
proof (induction ops u rule: ref_steps.induct)
  case (2 v ops u)
  then show ?case
    using go_refs.engine_run.stores [OF 2(2), of v "fst (acquire v u)" "snd (acquire v u)"] by simp
next
  case (3 i ops u)
  then show ?case using go_refs.engine_run.frees [OF 3(2), of i] by simp
qed simp

text \<open>
  C7: A value the engine holds a reference to is never lost or replaced: after it was stored,
  and whatever the engine stores and frees as long as it keeps that reference, its id reads as
  the value that was stored.
\<close>

theorem held_reference_survives:
  assumes "refs_ok t" and "acquire v t = (i, t')" and "frees_held i ops t'"
  shows "key_of (lookup (ref_steps ops t') i) = key_of v \<and> refs_ok (ref_steps ops t')"
proof -
  have r: "go_refs.engine_run t' (ref_steps ops t') i"
    by (rule ref_steps_run [OF go_refs.engine_run.idle assms(3)])
  have "refs_ok t'" "0 < held t' i"
    using acquire_ok [OF assms(1,2)] by (auto simp: acquired_def ile_eSuc)
  with go_refs.run_keeps [OF r] go_refs.stored_survives [OF assms(1,2) r] show ?thesis by simp
qed

theorem held_reference_survives_witness:
  "key_of (lookup (ref_steps [StoreRef (VObj 9), FreeRef 8, StoreRef (VStr ''a'')]
     (snd (acquire (VFun 4) initial_refs))) 7) = VFun 4"
proof -
  have a: "acquire (VFun 4) initial_refs = (7, snd (acquire (VFun 4) initial_refs))"
    by (simp add: acquire_def initial_refs_def new_id_def v_zero_def)
  have "frees_held 7 [StoreRef (VObj 9), FreeRef 8, StoreRef (VStr ''a'')] (snd (acquire (VFun 4) initial_refs))"
    by (simp add: acquire_def initial_refs_def new_id_def v_zero_def arr_set_def arr_get_def held_def
        release_def zero_enat_def Let_def eval_nat_numeral)
  from held_reference_survives [OF initial_refs_ok a this] show ?thesis by simp
qed

end
