(* ===== verification/Wasm.thy ===== *)
theory Wasm
  imports Wasm_Memory Wasm_Refs "HOL-Library.List_Lexorder" "HOL-Library.Char_ord"
begin

text \<open>
  The \<open>Go\<close> object of \<open>webc/wasm_exec.mjs\<close>: how the engine's memory and the values of the page
  meet. A function the engine imports is an action on the state of the object that may throw a
  value, with the state at the time of the throw kept. What the page's objects do
  (\<open>Reflect\<close>, \<open>instanceof\<close>, \<open>String\<close>) and the WebAssembly instance are the parameter \<open>host\<close>;
  their actions may change everything, since calls can enter the engine again.
\<close>

section \<open>State and actions\<close>

record go =
  argv :: "string list"
  env :: "(string \<times> string) list"
  mem :: memory
  table :: "refs option"
  instance_there :: bool
  exited :: bool
  exit_resolved :: bool
  pending_event :: "nat option"
  timeouts :: "nat \<Rightarrow> nat option"
  next_timeout :: nat
  timers :: "(nat \<times> int) list"
  output_buf :: string
  console :: "effect list"
  errors_made :: nat
  bytes_of :: "nat \<Rightarrow> mem_byte list"

type_synonym 'a act = "go \<Rightarrow> (jsval + 'a) \<times> go"

definition ret :: "'a \<Rightarrow> 'a act" where
  "ret x s = (Inr x, s)"

definition bnd :: "'a act \<Rightarrow> ('a \<Rightarrow> 'b act) \<Rightarrow> 'b act" where
  "bnd m f s = (case m s of (Inl e, s1) \<Rightarrow> (Inl e, s1) | (Inr x, s1) \<Rightarrow> f x s1)"

definition throw_new :: "string \<Rightarrow> 'a act" where
  "throw_new nm s = (Inl (VError (errors_made s) nm), s\<lparr>errors_made := Suc (errors_made s)\<rparr>)"

definition catch :: "'a act \<Rightarrow> (jsval \<Rightarrow> 'a act) \<Rightarrow> 'a act" where
  "catch m h s = (case m s of (Inl e, s1) \<Rightarrow> h e s1 | (Inr x, s1) \<Rightarrow> (Inr x, s1))"

definition put :: "(go \<Rightarrow> go) \<Rightarrow> unit act" where
  "put f s = (Inr (), f s)"

definition ask :: "(go \<Rightarrow> 'a) \<Rightarrow> 'a act" where
  "ask f s = (Inr (f s), s)"

fun for_all :: "'a list \<Rightarrow> ('a \<Rightarrow> 'b act) \<Rightarrow> 'b list act" where
  "for_all [] f = ret []"
| "for_all (x # xs) f = bnd (f x) (\<lambda>y. bnd (for_all xs f) (\<lambda>ys. ret (y # ys)))"

definition from_memory :: "(memory \<Rightarrow> 'a option) \<Rightarrow> 'a act" where
  "from_memory f s = (case f (mem s) of None \<Rightarrow> throw_new ''RangeError'' s | Some x \<Rightarrow> (Inr x, s))"

definition to_memory :: "(memory \<Rightarrow> memory option) \<Rightarrow> unit act" where
  "to_memory f s =
     (case f (mem s) of None \<Rightarrow> throw_new ''RangeError'' s | Some m \<Rightarrow> (Inr (), s\<lparr>mem := m\<rparr>))"

text \<open>\<open>sp >>> 0\<close>\<close>

definition u32 :: "int \<Rightarrow> nat" where
  "u32 sp = nat (sp mod 4294967296)"

section \<open>Values in memory\<close>

definition load_int64 :: "nat \<Rightarrow> int act" where
  "load_int64 a = from_memory (get_int64 a)"

definition store_int64 :: "nat \<Rightarrow> int \<Rightarrow> unit act" where
  "store_int64 a v = to_memory (set_int64 a v)"

definition load_int32 :: "nat \<Rightarrow> int act" where
  "load_int32 a = bnd (from_memory (get32 a)) (\<lambda>w. ret (sint w))"

definition store_int32 :: "nat \<Rightarrow> int \<Rightarrow> unit act" where
  "store_int32 a v = to_memory (set32 a (word_of_int v))"

definition store_uint8 :: "nat \<Rightarrow> nat \<Rightarrow> unit act" where
  "store_uint8 a v = to_memory (put_bytes a [word_of_nat v])"

definition store_words :: "nat \<Rightarrow> 32 word \<Rightarrow> 32 word \<Rightarrow> unit act" where
  "store_words a lo hi = bnd (to_memory (set32 (a + 4) hi)) (\<lambda>_. to_memory (set32 a lo))"

definition load_value :: "nat \<Rightarrow> jsval act" where
  "load_value a =
     bnd (from_memory (get32 a)) (\<lambda>lo. bnd (from_memory (get32 (a + 4))) (\<lambda>hi.
       if num_is_zero hi lo then ret VUndef
       else if \<not> num_is_nan hi lo then ret (VNum hi lo)
       else bnd (ask table) (\<lambda>t. case t of
              None \<Rightarrow> throw_new ''TypeError''
            | Some r \<Rightarrow> ret (lookup r (unat lo)))))"

definition is_nonzero_number :: "jsval \<Rightarrow> bool" where
  "is_nonzero_number v = (case v of VNum hi lo \<Rightarrow> \<not> num_is_zero hi lo | _ \<Rightarrow> False)"

definition acquire_id :: "jsval \<Rightarrow> nat act" where
  "acquire_id v s =
     (case table s of
        None \<Rightarrow> throw_new ''TypeError'' s
      | Some t \<Rightarrow> (let (i, t1) = acquire v t in (Inr i, s\<lparr>table := Some t1\<rparr>)))"

definition store_value :: "nat \<Rightarrow> jsval \<Rightarrow> unit act" where
  "store_value a v =
     (case v of
        VNum hi lo \<Rightarrow>
          (if \<not> num_is_zero hi lo then
             (if num_is_nan hi lo then store_words a 0 (word_of_nat nan_head)
              else store_words a lo hi)
           else bnd (acquire_id v) (\<lambda>i.
             store_words a (word_of_nat i) (word_of_nat (nan_head + type_flag v))))
      | VUndef \<Rightarrow> store_words a 0 0
      | _ \<Rightarrow> bnd (acquire_id v) (\<lambda>i.
          store_words a (word_of_nat i) (word_of_nat (nan_head + type_flag v))))"

text \<open>A typed array or view on the memory: negative or too large is a \<open>RangeError\<close>.\<close>

definition load_slice :: "nat \<Rightarrow> (nat \<times> nat) act" where
  "load_slice a =
     bnd (load_int64 a) (\<lambda>array. bnd (load_int64 (a + 8)) (\<lambda>len.
       bnd (ask (\<lambda>s. int (length (mem s)))) (\<lambda>size.
         if 0 \<le> array \<and> 0 \<le> len \<and> array + len \<le> size then ret (nat array, nat len)
         else throw_new ''RangeError'')))"

definition load_slice_of_values :: "nat \<Rightarrow> jsval list act" where
  "load_slice_of_values a =
     bnd (load_int64 a) (\<lambda>array. bnd (load_int64 (a + 8)) (\<lambda>len.
       if len < 0 \<or> 4294967295 < len then throw_new ''RangeError''
       else for_all [0..<nat len] (\<lambda>i.
         if array + 8 * int i < 0 then throw_new ''RangeError''
         else load_value (nat (array + 8 * int i)))))"

definition decode :: "mem_byte list \<Rightarrow> string" where
  "decode bs = map (\<lambda>b. char_of (unat b)) bs"

definition encode_text :: "string \<Rightarrow> mem_byte list" where
  "encode_text s = map (\<lambda>c. word_of_nat (of_char c)) s"

definition load_text :: "nat \<Rightarrow> string act" where
  "load_text a =
     bnd (load_slice a) (\<lambda>(p, n). bnd (from_memory (get_bytes p n)) (\<lambda>bs. ret (decode bs)))"

section \<open>Output\<close>

text \<open>
  \<open>fs.writeSync\<close>: the text is buffered up to the last line break; \<open>substr\<close> cuts around it.
\<close>

definition newline :: char where
  "newline = char_of (10 :: nat)"

definition upto_last_newline :: "string \<Rightarrow> string" where
  "upto_last_newline s = rev (tl (dropWhile (\<lambda>c. c \<noteq> newline) (rev s)))"

definition after_last_newline :: "string \<Rightarrow> string" where
  "after_last_newline s = rev (takeWhile (\<lambda>c. c \<noteq> newline) (rev s))"

definition write_sync :: "mem_byte list \<Rightarrow> go \<Rightarrow> nat \<times> go" where
  "write_sync buf s =
     (let out = output_buf s @ decode buf
      in if newline \<in> set out
         then (length buf, s\<lparr>console := console s @ [ConsoleLog (upto_last_newline out)],
                output_buf := after_last_newline out\<rparr>)
         else (length buf, s\<lparr>output_buf := out\<rparr>))"

text \<open>The answers of the other file functions go to a callback: \<open>ENOSYS\<close>, or a result.\<close>

datatype fs_error = ENOSYS
datatype fs_op = Chmod | Chown | CloseFile | Fchmod | Fchown | Fstat | Fsync | Ftruncate | Lchown
  | LinkFile | Lstat | Mkdir | OpenFile | ReadFile | Readdir | Readlink | RenameFile | Rmdir | StatFile
  | Symlink | Truncate | Unlink | Utimes

fun fs_call :: "fs_op \<Rightarrow> fs_error option" where
  "fs_call Fsync = None"
| "fs_call _ = Some ENOSYS"

definition fs_write ::
  "mem_byte list \<Rightarrow> int \<Rightarrow> int \<Rightarrow> int option \<Rightarrow> go \<Rightarrow> (fs_error + nat) \<times> go" where
  "fs_write buf offset len position s =
     (if offset \<noteq> 0 \<or> len \<noteq> int (length buf) \<or> position \<noteq> None then (Inl ENOSYS, s)
      else let (n, s1) = write_sync buf s in (Inr n, s1))"

datatype process_op = Getuid | Getgid | Geteuid | Getegid | Getgroups | Pid | Ppid | Umask | Cwd | Chdir

fun process_call :: "process_op \<Rightarrow> fs_error + int" where
  "process_call Getgroups = Inl ENOSYS"
| "process_call Umask = Inl ENOSYS"
| "process_call Cwd = Inl ENOSYS"
| "process_call Chdir = Inl ENOSYS"
| "process_call _ = Inr (-1)"

section \<open>The functions the engine imports\<close>

text \<open>What lies outside: the page's objects and the instance.\<close>

record host =
  reflect_get :: "jsval \<Rightarrow> string \<Rightarrow> jsval act"
  reflect_set :: "jsval \<Rightarrow> string \<Rightarrow> jsval \<Rightarrow> unit act"
  reflect_delete :: "jsval \<Rightarrow> string \<Rightarrow> unit act"
  reflect_apply :: "jsval \<Rightarrow> jsval \<Rightarrow> jsval list \<Rightarrow> jsval act"
  reflect_construct :: "jsval \<Rightarrow> jsval list \<Rightarrow> jsval act"
  is_instance_of :: "jsval \<Rightarrow> jsval \<Rightarrow> bool act"
  to_text :: "jsval \<Rightarrow> string act"
  length_of :: "jsval \<Rightarrow> int act"
  getsp :: "go \<Rightarrow> int"
  run_instance :: "nat \<Rightarrow> nat \<Rightarrow> unit act"
  resume_instance :: "unit act"

text \<open>\<open>this._inst.exports\<close> fails once the instance was deleted.\<close>

definition sp_again :: "host \<Rightarrow> nat act" where
  "sp_again h =
     bnd (ask instance_there) (\<lambda>there.
       if there then ask (\<lambda>s. u32 (getsp h s)) else throw_new ''TypeError'')"

definition wasm_exit :: "int \<Rightarrow> unit act" where
  "wasm_exit sp0 =
     (let sp = u32 sp0 in
      bnd (load_int32 (sp + 8)) (\<lambda>code.
        bnd (put (\<lambda>s. s\<lparr>exited := True, instance_there := False, table := None\<rparr>)) (\<lambda>_.
          if code \<noteq> 0 then put (\<lambda>s. s\<lparr>console := console s @ [ConsoleWarn (''exit code: '' @ show_int code)]\<rparr>)
          else ret ())))"

definition wasm_write :: "int \<Rightarrow> unit act" where
  "wasm_write sp0 =
     (let sp = u32 sp0 in
      bnd (load_int64 (sp + 8)) (\<lambda>fd. bnd (load_int64 (sp + 16)) (\<lambda>p. bnd (load_int32 (sp + 24)) (\<lambda>n.
        if p < 0 \<or> n < 0 then throw_new ''RangeError''
        else bnd (from_memory (get_bytes (nat p) (nat n))) (\<lambda>bs. put (\<lambda>s. snd (write_sync bs s)))))))"

text \<open>The view on the memory is made again, after the memory has grown to \<open>m\<close>.\<close>

definition reset_memory_data_view :: "memory \<Rightarrow> int \<Rightarrow> unit act" where
  "reset_memory_data_view m sp0 = put (\<lambda>s. s\<lparr>mem := m\<rparr>)"

text \<open>The clock readings are arguments: nanoseconds, and milliseconds.\<close>

definition nanotime1 :: "int \<Rightarrow> int \<Rightarrow> unit act" where
  "nanotime1 now sp0 = store_int64 (u32 sp0 + 8) now"

definition walltime :: "int \<Rightarrow> int \<Rightarrow> unit act" where
  "walltime msec sp0 =
     (let sp = u32 sp0 in
      bnd (store_int64 (sp + 8) (msec div 1000)) (\<lambda>_. store_int32 (sp + 16) ((msec mod 1000) * 1000000)))"

text \<open>The handle that \<open>setTimeout\<close> gives is the number of timers started before.\<close>

definition schedule_timeout_event :: "int \<Rightarrow> unit act" where
  "schedule_timeout_event sp0 =
     (let sp = u32 sp0 in
      bnd (ask next_timeout) (\<lambda>i.
        bnd (put (\<lambda>s. s\<lparr>next_timeout := Suc i\<rparr>)) (\<lambda>_.
          bnd (load_int64 (sp + 8)) (\<lambda>delay.
            bnd (put (\<lambda>s. s\<lparr>timeouts := (timeouts s)(i \<mapsto> length (timers s)),
                           timers := timers s @ [(i, delay)]\<rparr>)) (\<lambda>_.
              store_int32 (sp + 16) (int i))))))"

definition clear_timeout_event :: "int \<Rightarrow> unit act" where
  "clear_timeout_event sp0 =
     bnd (load_int32 (u32 sp0 + 8)) (\<lambda>i.
       put (\<lambda>s. if 0 \<le> i then s\<lparr>timeouts := (timeouts s)(nat i := None)\<rparr> else s))"

definition get_random_data :: "(nat \<Rightarrow> mem_byte list) \<Rightarrow> int \<Rightarrow> unit act" where
  "get_random_data random sp0 =
     bnd (load_slice (u32 sp0 + 8)) (\<lambda>(p, n). to_memory (put_bytes p (take n (random n))))"

definition finalize_ref :: "int \<Rightarrow> unit act" where
  "finalize_ref sp0 =
     bnd (from_memory (get32 (u32 sp0 + 8))) (\<lambda>w.
       bnd (ask table) (\<lambda>t. case t of
          None \<Rightarrow> throw_new ''TypeError''
        | Some r \<Rightarrow> put (\<lambda>s. s\<lparr>table := Some (release (unat w) r)\<rparr>)))"

definition string_val :: "int \<Rightarrow> unit act" where
  "string_val sp0 = (let sp = u32 sp0 in bnd (load_text (sp + 8)) (\<lambda>str. store_value (sp + 24) (VStr str)))"

definition value_get :: "host \<Rightarrow> int \<Rightarrow> unit act" where
  "value_get h sp0 =
     (let sp = u32 sp0 in
      bnd (load_value (sp + 8)) (\<lambda>v. bnd (load_text (sp + 16)) (\<lambda>p.
        bnd (reflect_get h v p) (\<lambda>result. bnd (sp_again h) (\<lambda>sp1. store_value (sp1 + 32) result)))))"

definition value_set :: "host \<Rightarrow> int \<Rightarrow> unit act" where
  "value_set h sp0 =
     (let sp = u32 sp0 in
      bnd (load_value (sp + 8)) (\<lambda>v. bnd (load_text (sp + 16)) (\<lambda>p.
        bnd (load_value (sp + 32)) (\<lambda>x. reflect_set h v p x))))"

definition value_delete :: "host \<Rightarrow> int \<Rightarrow> unit act" where
  "value_delete h sp0 =
     (let sp = u32 sp0 in
      bnd (load_value (sp + 8)) (\<lambda>v. bnd (load_text (sp + 16)) (\<lambda>p. reflect_delete h v p)))"

definition value_index :: "host \<Rightarrow> int \<Rightarrow> unit act" where
  "value_index h sp0 =
     (let sp = u32 sp0 in
      bnd (load_value (sp + 8)) (\<lambda>v. bnd (load_int64 (sp + 16)) (\<lambda>i.
        bnd (reflect_get h v (show_int i)) (\<lambda>result. store_value (sp + 24) result))))"

definition value_set_index :: "host \<Rightarrow> int \<Rightarrow> unit act" where
  "value_set_index h sp0 =
     (let sp = u32 sp0 in
      bnd (load_value (sp + 8)) (\<lambda>v. bnd (load_int64 (sp + 16)) (\<lambda>i.
        bnd (load_value (sp + 24)) (\<lambda>x. reflect_set h v (show_int i) x))))"

text \<open>
  The three calls catch what is thrown, by the call and by the storing of its result, and store
  that instead, with the flag 0.
\<close>

definition answer :: "host \<Rightarrow> nat \<Rightarrow> jsval act \<Rightarrow> unit act" where
  "answer h off call =
     catch
       (bnd call (\<lambda>result. bnd (sp_again h) (\<lambda>sp1.
          bnd (store_value (sp1 + off) result) (\<lambda>_. store_uint8 (sp1 + off + 8) 1))))
       (\<lambda>err. bnd (sp_again h) (\<lambda>sp1.
          bnd (store_value (sp1 + off) err) (\<lambda>_. store_uint8 (sp1 + off + 8) 0)))"

definition value_call :: "host \<Rightarrow> int \<Rightarrow> unit act" where
  "value_call h sp0 =
     (let sp = u32 sp0 in
      answer h 56
        (bnd (load_value (sp + 8)) (\<lambda>v. bnd (load_text (sp + 16)) (\<lambda>p. bnd (reflect_get h v p) (\<lambda>m.
           bnd (load_slice_of_values (sp + 32)) (\<lambda>args. reflect_apply h m v args))))))"

definition value_invoke :: "host \<Rightarrow> int \<Rightarrow> unit act" where
  "value_invoke h sp0 =
     (let sp = u32 sp0 in
      answer h 40
        (bnd (load_value (sp + 8)) (\<lambda>v.
           bnd (load_slice_of_values (sp + 16)) (\<lambda>args. reflect_apply h v VUndef args))))"

definition value_new :: "host \<Rightarrow> int \<Rightarrow> unit act" where
  "value_new h sp0 =
     (let sp = u32 sp0 in
      answer h 40
        (bnd (load_value (sp + 8)) (\<lambda>v.
           bnd (load_slice_of_values (sp + 16)) (\<lambda>args. reflect_construct h v args))))"

definition value_length :: "host \<Rightarrow> int \<Rightarrow> unit act" where
  "value_length h sp0 =
     (let sp = u32 sp0 in
      bnd (load_value (sp + 8)) (\<lambda>v. bnd (length_of h v) (\<lambda>n. store_int64 (sp + 16) n)))"

text \<open>The encoded text is a new byte array, with the identity \<open>new\<close>.\<close>

definition value_prepare_string :: "host \<Rightarrow> nat \<Rightarrow> int \<Rightarrow> unit act" where
  "value_prepare_string h new sp0 =
     (let sp = u32 sp0 in
      bnd (load_value (sp + 8)) (\<lambda>v. bnd (to_text h v) (\<lambda>str.
        let bs = encode_text str in
        bnd (put (\<lambda>s. s\<lparr>bytes_of := (bytes_of s)(new := bs)\<rparr>)) (\<lambda>_.
          bnd (store_value (sp + 16) (VBytes new (length bs))) (\<lambda>_.
            store_int64 (sp + 24) (int (length bs)))))))"

text \<open>
  \<open>dst.set(src)\<close>: longer than the slice is a \<open>RangeError\<close>. A value that is not a byte array
  has the elements its indices give: none, for what \<open>valuePrepareString\<close> did not make.
\<close>

definition value_load_string :: "int \<Rightarrow> unit act" where
  "value_load_string sp0 =
     (let sp = u32 sp0 in
      bnd (load_value (sp + 8)) (\<lambda>str. bnd (load_slice (sp + 16)) (\<lambda>(p, n).
        bnd (ask bytes_of) (\<lambda>bytes.
          case str of
            VBytes i l \<Rightarrow> if n < length (bytes i) then throw_new ''RangeError''
              else to_memory (put_bytes p (bytes i))
          | VUndef \<Rightarrow> throw_new ''TypeError''
          | VNull \<Rightarrow> throw_new ''TypeError''
          | _ \<Rightarrow> ret ()))))"

definition value_instance_of :: "host \<Rightarrow> int \<Rightarrow> unit act" where
  "value_instance_of h sp0 =
     (let sp = u32 sp0 in
      bnd (load_value (sp + 8)) (\<lambda>v. bnd (load_value (sp + 16)) (\<lambda>t.
        bnd (is_instance_of h v t) (\<lambda>b. store_uint8 (sp + 24) (if b then 1 else 0)))))"

definition copy_bytes_to_go :: "int \<Rightarrow> unit act" where
  "copy_bytes_to_go sp0 =
     (let sp = u32 sp0 in
      bnd (load_slice (sp + 8)) (\<lambda>(p, n). bnd (load_value (sp + 32)) (\<lambda>src.
        bnd (ask bytes_of) (\<lambda>bytes.
          case src of
            VBytes i l \<Rightarrow>
              (let to_copy = take n (bytes i) in
               bnd (to_memory (put_bytes p to_copy)) (\<lambda>_.
                 bnd (store_int64 (sp + 40) (int (length to_copy))) (\<lambda>_. store_uint8 (sp + 48) 1)))
          | _ \<Rightarrow> store_uint8 (sp + 48) 0))))"

definition copy_bytes_to_js :: "int \<Rightarrow> unit act" where
  "copy_bytes_to_js sp0 =
     (let sp = u32 sp0 in
      bnd (load_value (sp + 8)) (\<lambda>dst. bnd (load_slice (sp + 16)) (\<lambda>(p, n).
        case dst of
          VBytes i l \<Rightarrow>
            bnd (from_memory (get_bytes p n)) (\<lambda>src.
              let to_copy = take l src in
              bnd (put (\<lambda>s. s\<lparr>bytes_of := (bytes_of s)(i :=
                     to_copy @ drop (length to_copy) (bytes_of s i))\<rparr>)) (\<lambda>_.
                bnd (store_int64 (sp + 40) (int (length to_copy))) (\<lambda>_. store_uint8 (sp + 48) 1)))
        | _ \<Rightarrow> store_uint8 (sp + 48) 0)))"

section \<open>Running\<close>

definition start_offset :: nat where
  "start_offset = 4096"

definition wasm_min_data_addr :: nat where
  "wasm_min_data_addr = 4096 + 8192"

definition align8 :: "nat \<Rightarrow> nat" where
  "align8 n = (if n mod 8 \<noteq> 0 then n + (8 - n mod 8) else n)"

text \<open>\<open>strPtr\<close>: the text and a NUL byte at \<open>offset\<close>, then the next multiple of 8.\<close>

definition str_ptr :: "string \<Rightarrow> nat \<Rightarrow> memory \<Rightarrow> (nat \<times> memory) option" where
  "str_ptr str offset m =
     (let bytes = encode_text (str @ [char_of (0 :: nat)]) in
      case put_bytes offset bytes m of
        None \<Rightarrow> None
      | Some m1 \<Rightarrow> Some (align8 (offset + length bytes), m1))"

fun str_ptrs :: "string list \<Rightarrow> nat \<Rightarrow> memory \<Rightarrow> (nat list \<times> nat \<times> memory) option" where
  "str_ptrs [] offset m = Some ([], offset, m)"
| "str_ptrs (s # ss) offset m =
     (case str_ptr s offset m of
        None \<Rightarrow> None
      | Some (offset1, m1) \<Rightarrow>
          (case str_ptrs ss offset1 m1 of
             None \<Rightarrow> None
           | Some (ptrs, offset2, m2) \<Rightarrow> Some (offset # ptrs, offset2, m2)))"

fun write_ptrs :: "nat list \<Rightarrow> nat \<Rightarrow> memory \<Rightarrow> (nat \<times> memory) option" where
  "write_ptrs [] offset m = Some (offset, m)"
| "write_ptrs (p # ps) offset m =
     (case set32 offset (word_of_nat p) m of
        None \<Rightarrow> None
      | Some m1 \<Rightarrow>
          (case set32 (offset + 4) 0 m1 of
             None \<Rightarrow> None
           | Some m2 \<Rightarrow> write_ptrs ps (offset + 8) m2))"

definition env_strings :: "(string \<times> string) list \<Rightarrow> string list" where
  "env_strings e = map (\<lambda>k. k @ ''='' @ (case map_of e k of Some v \<Rightarrow> v | None \<Rightarrow> ''undefined'')) (sort (map fst e))"

datatype layout_error = LayoutRange | LimitExceeded

text \<open>The command line and the environment: number of arguments, their address, the memory.\<close>

definition layout :: "string list \<Rightarrow> (string \<times> string) list \<Rightarrow> memory \<Rightarrow> layout_error + nat \<times> nat \<times> memory" where
  "layout args e m =
     (case str_ptrs args start_offset m of
        None \<Rightarrow> Inl LayoutRange
      | Some (arg_ptrs, offset1, m1) \<Rightarrow>
          (case str_ptrs (env_strings e) offset1 m1 of
             None \<Rightarrow> Inl LayoutRange
           | Some (env_ptrs, offset2, m2) \<Rightarrow>
               (case write_ptrs (arg_ptrs @ [0] @ env_ptrs @ [0]) offset2 m2 of
                  None \<Rightarrow> Inl LayoutRange
                | Some (offset3, m3) \<Rightarrow>
                    (if wasm_min_data_addr \<le> offset3 then Inl LimitExceeded
                     else Inr (length args, offset2, m3)))))"

definition new_go :: "string list \<Rightarrow> (string \<times> string) list \<Rightarrow> go" where
  "new_go args e =
     \<lparr>argv = ''js'' # args, env = e, mem = [], table = None, instance_there = False, exited = False,
      exit_resolved = False, pending_event = None, timeouts = (\<lambda>i. None), next_timeout = 1,
      timers = [], output_buf = [], console = [], errors_made = 0, bytes_of = (\<lambda>i. [])\<rparr>"

text \<open>
  \<open>run\<close>, up to the \<open>await\<close> of the exit: \<open>m\<close> is the memory of the instance. \<open>trip\<close> is called
  in the end, which is the answer of the action.
\<close>

definition run_go :: "host \<Rightarrow> memory \<Rightarrow> unit act" where
  "run_go h m =
     bnd (put (\<lambda>s. s\<lparr>instance_there := True, mem := m, table := Some initial_refs, exited := False\<rparr>)) (\<lambda>_.
       bnd (ask (\<lambda>s. (argv s, env s))) (\<lambda>(a, e).
         case layout a e m of
           Inl LayoutRange \<Rightarrow> throw_new ''RangeError''
         | Inl LimitExceeded \<Rightarrow> throw_new ''total length of command line and environment variables exceeds limit''
         | Inr (argc, argv_at, m1) \<Rightarrow>
             bnd (put (\<lambda>s. s\<lparr>mem := m1\<rparr>)) (\<lambda>_.
               bnd (run_instance h argc argv_at) (\<lambda>_.
                 put (\<lambda>s. if exited s then s\<lparr>exit_resolved := True\<rparr> else s)))))"

definition resume_go :: "host \<Rightarrow> unit act" where
  "resume_go h =
     bnd (ask exited) (\<lambda>ex.
       if ex then throw_new ''Go program has already exited''
       else bnd (resume_instance h) (\<lambda>_.
         put (\<lambda>s. if exited s then s\<lparr>exit_resolved := True\<rparr> else s)))"

text \<open>
  What a timer of \<open>scheduleTimeoutEvent\<close> does: it resumes until the engine has cleared the
  timeout. The loop may not end, which is the result \<open>None\<close>.
\<close>

partial_function (option) missed_loop :: "host \<Rightarrow> nat \<Rightarrow> go \<Rightarrow> ((jsval + unit) \<times> go) option" where
  "missed_loop h i s =
     (if timeouts s i \<noteq> None then
        (case resume_go h (s\<lparr>console := console s @ [ConsoleWarn ''scheduleTimeoutEvent: missed timeout event'']\<rparr>) of
           (Inl e, s1) \<Rightarrow> Some (Inl e, s1)
         | (Inr u, s1) \<Rightarrow> missed_loop h i s1)
      else Some (Inr (), s))"

definition timer_fires :: "host \<Rightarrow> nat \<Rightarrow> go \<Rightarrow> ((jsval + unit) \<times> go) option" where
  "timer_fires h i s =
     (case resume_go h s of
        (Inl e, s1) \<Rightarrow> Some (Inl e, s1)
      | (Inr u, s1) \<Rightarrow> missed_loop h i s1)"

text \<open>\<open>_makeFuncWrapper\<close>: the wrapper leaves its event for the engine and resumes it.\<close>

definition func_wrapper :: "host \<Rightarrow> nat \<Rightarrow> unit act" where
  "func_wrapper h i = bnd (put (\<lambda>s. s\<lparr>pending_event := Some i\<rparr>)) (\<lambda>_. resume_go h)"

section \<open>Lemmas\<close>

lemma store_words_pair:
  assumes "store_words a lo hi s = (Inr (), s')"
  shows "get32 a (mem s') = Some lo \<and> get32 (a + 4) (mem s') = Some hi
     \<and> table s' = table s \<and> length (mem s') = length (mem s)"
proof -
  obtain m1 m2 where m1: "set32 (a + 4) hi (mem s) = Some m1" and m2: "set32 a lo m1 = Some m2"
    and s': "s' = s\<lparr>mem := m2\<rparr>"
    using assms by (auto simp: store_words_def bnd_def to_memory_def throw_new_def split: option.splits)
  have "length m2 = length (mem s)"
    using m1 m2 by (simp add: set32_def put_bytes_length)
  with get_set32_same [OF m2] get_set32_other [OF m2, of "a + 4"] get_set32_same [OF m1] s'
  show ?thesis by simp
qed

lemma nan_head_flag: "num_is_nan (word_of_nat (nan_head + type_flag v)) w \<and>
    \<not> num_is_zero (word_of_nat (nan_head + type_flag v)) w"
  by (cases v) (simp_all add: num_is_nan_def num_is_zero_def nan_head_def unat_of_nat Let_def)

definition is_value_word :: "jsval \<Rightarrow> bool" where
  "is_value_word v \<longleftrightarrow> v = VUndef \<or> is_nonzero_number v"

lemma store_value_ref:
  assumes "\<not> is_value_word v"
  shows "store_value a v = bnd (acquire_id v) (\<lambda>i.
    store_words a (word_of_nat i) (word_of_nat (nan_head + type_flag v)))"
  using assms by (cases v) (auto simp: store_value_def is_value_word_def is_nonzero_number_def)

lemma load_after_words:
  assumes "store_words a lo hi s = (Inr (), s')"
  shows "load_value a s' =
    (if num_is_zero hi lo then (Inr VUndef, s')
     else if \<not> num_is_nan hi lo then (Inr (VNum hi lo), s')
     else (case table s of None \<Rightarrow> throw_new ''TypeError'' s' | Some r \<Rightarrow> (Inr (lookup r (unat lo)), s')))"
  using store_words_pair [OF assms]
  by (simp add: load_value_def bnd_def from_memory_def ret_def ask_def split: option.splits)

lemma initial_lookup_nan: "refs_ok r \<Longrightarrow> lookup r 0 = v_nan"
  using refs_okD(1) [of r] refs_okD(3) [of r 0] by (auto simp: lookup_def arr_get_def slot_ok_def initial_refs_def)

definition refs_fit :: "refs \<Rightarrow> bool" where
  "refs_fit r \<longleftrightarrow> refs_ok r \<and> length (vals r) < 4294967296"

lemma store_load_value:
  assumes "table s = Some r" and "refs_fit r" and "store_value a v s = (Inr (), s')"
  shows "\<exists>w r'. load_value a s' = (Inr w, s') \<and> key_of w = key_of v \<and> table s' = Some r' \<and> refs_ok r'"
proof (cases "is_value_word v")
  case True
  show ?thesis
  proof (cases v)
    case VUndef
    with assms(3) have st: "store_words a 0 0 s = (Inr (), s')" by (simp add: store_value_def)
    have "load_value a s' = (Inr VUndef, s')"
      using load_after_words [OF st] by (simp add: num_is_zero_def)
    with VUndef store_words_pair [OF st] assms(1,2) show ?thesis by (auto simp: refs_fit_def)
  next
    case (VNum hi lo)
    with True have nz: "\<not> num_is_zero hi lo" by (simp add: is_value_word_def is_nonzero_number_def)
    show ?thesis
    proof (cases "num_is_nan hi lo")
      case True
      with nz VNum assms(3) have st: "store_words a 0 (word_of_nat nan_head) s = (Inr (), s')"
        by (simp add: store_value_def)
      have "num_is_nan (word_of_nat nan_head) 0 \<and> \<not> num_is_zero (word_of_nat nan_head) 0"
        using nan_head_flag [of VNull] by simp
      then have "load_value a s' = (Inr v_nan, s')"
        using load_after_words [OF st] assms(1,2) initial_lookup_nan by (simp add: refs_fit_def)
      moreover have "key_of v_nan = v_nan"
        using \<open>num_is_nan (word_of_nat nan_head) 0 \<and> _\<close> by (simp add: v_nan_def)
      ultimately show ?thesis
        using True nz VNum store_words_pair [OF st] assms(1,2) by (auto simp: refs_fit_def)
    next
      case False
      with nz VNum assms(3) have st: "store_words a lo hi s = (Inr (), s')"
        by (simp add: store_value_def)
      have "load_value a s' = (Inr (VNum hi lo), s')"
        using load_after_words [OF st] False nz by simp
      with VNum store_words_pair [OF st] assms(1,2) show ?thesis by (auto simp: refs_fit_def)
    qed
  qed (use True in \<open>auto simp: is_value_word_def is_nonzero_number_def\<close>)
next
  case False
  obtain i t1 where acq: "acquire v r = (i, t1)" by fastforce
  have ok: "refs_ok r" and small: "length (vals r) < 4294967296"
    using assms(2) by (auto simp: refs_fit_def)
  let ?s1 = "s\<lparr>table := Some t1\<rparr>"
  have st: "store_words a (word_of_nat i) (word_of_nat (nan_head + type_flag v)) ?s1 = (Inr (), s')"
    using assms(3) unfolding store_value_ref [OF False]
    by (simp add: bnd_def acquire_id_def assms(1) acq)
  have a: "acquired v i r t1" by (rule acquire_ok [OF ok acq])
  have "i \<le> length (vals r)" by (rule acquire_id_bound [OF ok acq])
  then have iw: "unat (word_of_nat i :: 32 word) = i"
    using small by (simp add: unat_of_nat)
  have "load_value a s' = (Inr (lookup t1 i), s')"
    using load_after_words [OF st] nan_head_flag iw by simp
  with a store_words_pair [OF st] show ?thesis by (auto simp: acquired_def)
qed

text \<open>Output: nothing written is lost.\<close>

definition logged :: "effect list \<Rightarrow> string" where
  "logged es = concat (map (\<lambda>e. case e of ConsoleLog t \<Rightarrow> t @ [newline] | _ \<Rightarrow> []) es)"

lemma cut_at_newline:
  assumes "newline \<in> set s"
  shows "upto_last_newline s @ [newline] @ after_last_newline s = s"
proof -
  let ?p = "\<lambda>c. c \<noteq> newline"
  have ne: "dropWhile ?p (rev s) \<noteq> []" using assms by simp
  then have hd: "hd (dropWhile ?p (rev s)) = newline" by (metis (mono_tags, lifting) hd_dropWhile)
  have "rev s = takeWhile ?p (rev s) @ newline # tl (dropWhile ?p (rev s))"
    using ne hd by (metis list.collapse takeWhile_dropWhile_id)
  then have "s = rev (takeWhile ?p (rev s) @ newline # tl (dropWhile ?p (rev s)))"
    by (metis rev_rev_ident)
  then show ?thesis by (simp add: upto_last_newline_def after_last_newline_def)
qed

lemma write_sync_output:
  assumes "write_sync buf s = (n, s')"
  shows "logged (console s') @ output_buf s' = logged (console s) @ output_buf s @ decode buf"
    and "newline \<notin> set (output_buf s) \<Longrightarrow> newline \<notin> set (output_buf s')"
    and "n = length buf"
proof -
  let ?out = "output_buf s @ decode buf"
  show "logged (console s') @ output_buf s' = logged (console s) @ output_buf s @ decode buf"
    using assms cut_at_newline [of ?out]
    by (auto simp: write_sync_def logged_def Let_def split: if_splits)
  show "newline \<notin> set (output_buf s')" if "newline \<notin> set (output_buf s)"
    using assms that by (auto simp: write_sync_def after_last_newline_def Let_def dest: set_takeWhileD split: if_splits)
  show "n = length buf" using assms by (auto simp: write_sync_def Let_def split: if_splits)
qed

fun write_all :: "mem_byte list list \<Rightarrow> go \<Rightarrow> go" where
  "write_all [] s = s"
| "write_all (b # bs) s = write_all bs (snd (write_sync b s))"

section \<open>Properties\<close>

text \<open>
  C8: A value that was stored for the engine is the value that is loaded back, for every kind of
  value (numbers by their bits, up to the sign of zero and the payload of NaN; everything else
  through the table of references), and the table stays consistent.
\<close>

theorem store_load_round_trip:
  assumes "table s = Some r" and "refs_fit r" and "store_value a v s = (Inr (), s')"
  shows "\<exists>w r'. load_value a s' = (Inr w, s') \<and> key_of w = key_of v \<and> table s' = Some r' \<and> refs_ok r'"
  by (rule store_load_value [OF assms])

definition example_go :: go where
  "example_go = (new_go [] [])\<lparr>mem := replicate 16 0, table := Some initial_refs, instance_there := True\<rparr>"

theorem store_load_round_trip_witness:
  "\<exists>s' w. store_value 8 (VStr ''x'') example_go = (Inr (), s') \<and> load_value 8 s' = (Inr w, s') \<and> key_of w = VStr ''x''"
proof -
  obtain s' where s': "store_value 8 (VStr ''x'') example_go = (Inr (), s')"
    by (cases "acquire (VStr ''x'') initial_refs")
      (simp add: store_value_def bnd_def acquire_id_def example_go_def new_go_def store_words_def
        to_memory_def set32_def put_bytes_def)
  have "table example_go = Some initial_refs" by (simp add: example_go_def)
  moreover have "refs_fit initial_refs" by (simp add: refs_fit_def initial_refs_ok) (simp add: initial_refs_def)
  ultimately show ?thesis using store_load_round_trip [OF _ _ s'] s' by auto
qed

text \<open>
  \<open>setInt64\<close> then \<open>getInt64\<close> is the identity on the 64-bit integers (of those that are
  JavaScript numbers, where every step of the two functions is exact), and the words beside
  the eight bytes keep their contents.
\<close>

theorem int64_round_trip:
  assumes "set_int64 a v m = Some m'" and "- (2 ^ 63) \<le> v" and "v < 2 ^ 63"
  shows "get_int64 a m' = Some v \<and> (\<forall>b. b + 4 \<le> a \<or> a + 8 \<le> b \<longrightarrow> get32 b m' = get32 b m)"
  using get_set_int64 [OF assms] view_memory.set_pair_other [OF assms(1) [unfolded set_int64_pair]] by auto

theorem int64_round_trip_witness:
  "\<exists>m. set_int64 8 (-5) (replicate 16 0) = Some m \<and> get_int64 8 m = Some (-5)"
proof -
  obtain m where m: "set_int64 8 (-5) (replicate 16 0) = Some m"
    by (simp add: set_int64_def set32_def put_bytes_def)
  from int64_round_trip [OF this] show ?thesis using m by simp
qed

text \<open>
  C9: Whatever is written is shown: the lines that were logged, each with its line break, and
  then the buffer, are exactly the texts that were written, in order, and the buffer holds no
  line break.
\<close>

theorem output_is_complete:
  assumes "newline \<notin> set (output_buf s)"
  shows "logged (console (write_all bs s)) @ output_buf (write_all bs s)
      = logged (console s) @ output_buf s @ concat (map decode bs)
    \<and> newline \<notin> set (output_buf (write_all bs s))"
  using assms
proof (induction bs arbitrary: s)
  case (Cons b bs)
  obtain n s1 where w: "write_sync b s = (n, s1)" by fastforce
  from Cons.IH [of s1] write_sync_output [OF w] Cons.prems show ?case by (simp add: w)
qed simp

theorem output_is_complete_witness:
  "logged (console (write_all [encode_text ''a'', encode_text ''b'', encode_text ''c''] example_go))
     @ output_buf (write_all [encode_text ''a'', encode_text ''b'', encode_text ''c''] example_go)
   = concat (map decode [encode_text ''a'', encode_text ''b'', encode_text ''c''])"
  using output_is_complete [of example_go "[encode_text ''a'', encode_text ''b'', encode_text ''c'']"]
  by (simp add: example_go_def new_go_def logged_def)

text \<open>
  After the engine has exited none of its code runs again: resuming throws without touching
  the instance, and a value cannot be stored by reference any more.
\<close>

theorem exited_engine_stays_exited:
  assumes "wasm_exit sp s = (Inr (), s1)"
  shows "exited s1 \<and> resume_go h s1 = throw_new ''Go program has already exited'' s1
    \<and> func_wrapper h i s1 = throw_new ''Go program has already exited'' (s1\<lparr>pending_event := Some i\<rparr>)
    \<and> store_value a (VObj n) s1 = throw_new ''TypeError'' s1"
proof -
  have "exited s1" "table s1 = None"
    using assms by (auto simp: wasm_exit_def bnd_def load_int32_def from_memory_def put_def ret_def
        throw_new_def Let_def split: option.splits sum.splits if_splits prod.splits)
  then show ?thesis
    by (simp add: resume_go_def func_wrapper_def bnd_def ask_def put_def store_value_def acquire_id_def
        throw_new_def)
qed

theorem exited_engine_stays_exited_witness:
  "exited (snd (wasm_exit 0 example_go))"
proof -
  have "\<exists>s1. wasm_exit 0 example_go = (Inr (), s1)"
    by (simp add: wasm_exit_def bnd_def load_int32_def from_memory_def put_def ret_def example_go_def
        u32_def get32_def if_distribR)
  then obtain s1 where "wasm_exit 0 example_go = (Inr (), s1)" by blast
  with exited_engine_stays_exited [OF this] show ?thesis by simp
qed

section \<open>The command line\<close>

lemma align8_ge: "n \<le> align8 n" and align8_mod: "align8 n mod 8 = 0"
proof -
  show "n \<le> align8 n" by (simp add: align8_def) presburger
  have "(n + (8 - n mod 8)) mod 8 = 0" if "n mod 8 \<noteq> 0"
    using that by presburger
  then show "align8 n mod 8 = 0" by (simp add: align8_def)
qed

lemma length_encode_text [simp]: "length (encode_text s) = length s"
  by (simp add: encode_text_def)

text \<open>A text with its NUL byte at an address.\<close>

definition c_string_at :: "memory \<Rightarrow> nat \<Rightarrow> string \<Rightarrow> bool" where
  "c_string_at m p s \<longleftrightarrow> get_bytes p (Suc (length s)) m = Some (encode_text (s @ [char_of (0 :: nat)]))"

lemma str_ptr_ok:
  assumes "str_ptr s off m = Some (off1, m1)"
  shows "c_string_at m1 off s" and "off + Suc (length s) \<le> off1" and "off1 mod 8 = 0"
    and "length m1 = length m"
    and "b + n \<le> off \<Longrightarrow> get_bytes b n m1 = get_bytes b n m"
proof -
  let ?bs = "encode_text (s @ [char_of (0 :: nat)])"
  have p: "put_bytes off ?bs m = Some m1" and o: "off1 = align8 (off + Suc (length s))"
    using assms by (auto simp: str_ptr_def Let_def split: option.splits)
  show "c_string_at m1 off s" using get_put_bytes_same [OF p] by (simp add: c_string_at_def)
  show "off + Suc (length s) \<le> off1" "off1 mod 8 = 0" unfolding o by (rule align8_ge align8_mod)+
  show "length m1 = length m" by (rule put_bytes_length [OF p])
  show "b + n \<le> off \<Longrightarrow> get_bytes b n m1 = get_bytes b n m"
    by (rule get_put_bytes_other [OF p]) simp
qed

lemma str_ptrs_ok:
  assumes "str_ptrs ss off m = Some (ptrs, off2, m2)" and "off mod 8 = 0"
  shows "off \<le> off2 \<and> off2 mod 8 = 0 \<and> length m2 = length m \<and> length ptrs = length ss
    \<and> (\<forall>b n. b + n \<le> off \<longrightarrow> get_bytes b n m2 = get_bytes b n m)
    \<and> (\<forall>i < length ss. ptrs ! i mod 8 = 0 \<and> ptrs ! i + Suc (length (ss ! i)) \<le> off2
        \<and> c_string_at m2 (ptrs ! i) (ss ! i))"
  using assms
proof (induction ss arbitrary: off m ptrs)
  case Nil
  then show ?case by simp
next
  case (Cons s ss)
  obtain off1 m1 where one: "str_ptr s off m = Some (off1, m1)"
    using Cons.prems(1) by (auto split: option.splits)
  obtain ps where rest: "str_ptrs ss off1 m1 = Some (ps, off2, m2)" and ptrs: "ptrs = off # ps"
    using Cons.prems(1) one by (auto split: option.splits)
  note o = str_ptr_ok [OF one]
  note r = Cons.IH [OF rest o(3)]
  have "c_string_at m2 off s" using o(1,2) r unfolding c_string_at_def by simp
  moreover have "get_bytes b n m2 = get_bytes b n m" if "b + n \<le> off" for b n
    using r o(2) o(5) [OF that] that by simp
  ultimately show ?case using o r Cons.prems(2) ptrs
    by (auto simp: nth_Cons split: nat.splits)
qed

lemma write_ptrs_ok:
  assumes "write_ptrs ps off m = Some (off2, m2)"
  shows "off2 = off + 8 * length ps \<and> length m2 = length m
    \<and> (\<forall>b n. b + n \<le> off \<longrightarrow> get_bytes b n m2 = get_bytes b n m)
    \<and> (\<forall>i < length ps. get32 (off + 8 * i) m2 = Some (word_of_nat (ps ! i)) \<and> get32 (off + 8 * i + 4) m2 = Some 0)"
  using assms
proof (induction ps arbitrary: off m)
  case Nil
  then show ?case by simp
next
  case (Cons p ps)
  obtain m1 m3 where m1: "set32 off (word_of_nat p) m = Some m1" and m3: "set32 (off + 4) 0 m1 = Some m3"
    and rest: "write_ptrs ps (off + 8) m3 = Some (off2, m2)"
    using Cons.prems by (auto split: option.splits)
  note r = Cons.IH [OF rest]
  have len: "length m1 = length m" "length m3 = length m1"
    using m1 m3 by (auto simp: set32_def put_bytes_length)
  have low: "get_bytes b n m3 = get_bytes b n m" if "b + n \<le> off" for b n
    using m1 m3 that get_put_bytes_other [of off _ m m1 b n] get_put_bytes_other [of "off + 4" _ m1 m3 b n]
    by (simp add: set32_def)
  have "get32 off m2 = get32 off m3" "get32 (off + 4) m2 = get32 (off + 4) m3"
    using r by (simp_all add: get32_bytes)
  moreover have "get32 off m3 = Some (word_of_nat p)" "get32 (off + 4) m3 = Some 0"
    using get_set32_other [OF m3, of off] get_set32_same [OF m1] get_set32_same [OF m3] by simp_all
  ultimately show ?case using r low len
    by (auto simp: nth_Cons add.assoc split: nat.splits)
qed

text \<open>The first list of strings stays readable after the second list is written above it.\<close>

lemma str_ptrs_kept:
  assumes a: "str_ptrs xs off m = Some (ap, off1, m1)" and b: "str_ptrs ys off1 m1 = Some (ep, off2, m2)"
    and off: "off mod 8 = 0" and i: "i < length xs"
  shows "c_string_at m2 (ap ! i) (xs ! i) \<and> ap ! i mod 8 = 0 \<and> ap ! i + Suc (length (xs ! i)) \<le> off2"
proof -
  note A = str_ptrs_ok [OF a off]
  have o8: "off1 mod 8 = 0" using A by simp
  note B = str_ptrs_ok [OF b o8]
  have e: "ap ! i + Suc (length (xs ! i)) \<le> off1" and c: "c_string_at m1 (ap ! i) (xs ! i)"
    and m: "ap ! i mod 8 = 0"
    using A i by auto
  have "c_string_at m2 (ap ! i) (xs ! i)" using B e c unfolding c_string_at_def by simp
  then show ?thesis using m e B by simp
qed

text \<open>
  What \<open>run\<close> lays out below the engine's data is what the engine finds: the argument vector
  is aligned and has one pointer per argument, then a null pointer, then one per environment
  entry in the order of the keys, then a null pointer; every pointer is aligned and points at
  the bytes of its text with a NUL byte after them; and all of it ends below 12288.
\<close>

theorem layout_readable:
  assumes "layout args e m = Inr (argc, pv, m')"
  shows "argc = length args \<and> pv mod 8 = 0
    \<and> pv + 8 * (length args + length e + 2) < wasm_min_data_addr
    \<and> (\<forall>i < length args. \<exists>p. get32 (pv + 8 * i) m' = Some (word_of_nat p) \<and> p mod 8 = 0
        \<and> c_string_at m' p (args ! i))
    \<and> get32 (pv + 8 * length args) m' = Some 0
    \<and> (\<forall>i < length e. \<exists>p. get32 (pv + 8 * (length args + 1 + i)) m' = Some (word_of_nat p) \<and> p mod 8 = 0
        \<and> c_string_at m' p (env_strings e ! i))
    \<and> get32 (pv + 8 * (length args + 1 + length e)) m' = Some 0"
proof -
  obtain ap off1 m1 ep m2 off3 where a: "str_ptrs args start_offset m = Some (ap, off1, m1)"
    and b: "str_ptrs (env_strings e) off1 m1 = Some (ep, pv, m2)"
    and w: "write_ptrs (ap @ [0] @ ep @ [0]) pv m2 = Some (off3, m')"
    and lim: "\<not> wasm_min_data_addr \<le> off3" and argc: "argc = length args"
    using assms by (auto simp: layout_def split: option.splits if_splits)
  have s8: "start_offset mod 8 = 0" by (simp add: start_offset_def)
  note A = str_ptrs_ok [OF a s8]
  have o8: "off1 mod 8 = 0" using A by simp
  note B = str_ptrs_ok [OF b o8]
  note W = write_ptrs_ok [OF w]
  have le: "length (env_strings e) = length e" by (simp add: env_strings_def)
  have lens: "length ap = length args" "length ep = length e" using A B le by auto
  have below: "get_bytes p n m' = get_bytes p n m2" if "p + n \<le> pv" for p n
    using W that by blast
  have arg: "c_string_at m' (ap ! i) (args ! i) \<and> ap ! i mod 8 = 0" if "i < length args" for i
    using str_ptrs_kept [OF a b s8 that] below by (auto simp: c_string_at_def)
  have ent: "c_string_at m' (ep ! i) (env_strings e ! i) \<and> ep ! i mod 8 = 0" if "i < length e" for i
    using B that le below unfolding c_string_at_def by auto
  let ?ps = "ap @ [0] @ ep @ [0]"
  have ptr: "get32 (pv + 8 * i) m' = Some (word_of_nat (?ps ! i))" if "i < length args + length e + 2" for i
    using W that lens by simp
  have off3: "off3 = pv + 8 * (length args + length e + 2)" using W lens by (simp add: algebra_simps)
  have args_ok: "\<exists>p. get32 (pv + 8 * i) m' = Some (word_of_nat p) \<and> p mod 8 = 0 \<and> c_string_at m' p (args ! i)"
    if "i < length args" for i
    using ptr [of i] that lens arg [OF that] by (intro exI [of _ "ap ! i"]) (simp add: nth_append)
  have env_ok: "\<exists>p. get32 (pv + 8 * (length args + 1 + i)) m' = Some (word_of_nat p) \<and> p mod 8 = 0
      \<and> c_string_at m' p (env_strings e ! i)" if "i < length e" for i
    using ptr [of "length args + 1 + i"] that lens ent [OF that]
    by (intro exI [of _ "ep ! i"]) (simp add: nth_append)
  have "get32 (pv + 8 * length args) m' = Some 0"
    using ptr [of "length args"] lens by (simp add: nth_append)
  moreover have "get32 (pv + 8 * (length args + 1 + length e)) m' = Some 0"
    using ptr [of "length args + 1 + length e"] lens by (simp add: nth_append)
  ultimately show ?thesis using args_ok env_ok argc lim off3 B by simp
qed

theorem layout_readable_witness:
  "\<exists>argc pv m'. layout [''js'', ''-m''] [(''B'', ''1''), (''A'', '''')] (replicate 5000 0) = Inr (argc, pv, m')
     \<and> argc = 2 \<and> get32 (pv + 16) m' = Some 0"
proof -
  have "\<exists>argc pv m'. layout [''js'', ''-m''] [(''B'', ''1''), (''A'', '''')] (replicate 5000 0) = Inr (argc, pv, m')"
    by (simp add: layout_def str_ptr_def put_bytes_def align8_def start_offset_def env_strings_def
        wasm_min_data_addr_def set32_def)
  then obtain argc pv m' where
    "layout [''js'', ''-m''] [(''B'', ''1''), (''A'', '''')] (replicate 5000 0) = Inr (argc, pv, m')" by blast
  with layout_readable [OF this] show ?thesis by auto
qed

text \<open>How many resumes after the first the engine misses a timeout.\<close>

fun misses :: "host \<Rightarrow> nat \<Rightarrow> nat \<Rightarrow> go \<Rightarrow> bool" where
  "misses h i 0 s \<longleftrightarrow> timeouts s i = None"
| "misses h i (Suc k) s \<longleftrightarrow> timeouts s i \<noteq> None \<and>
     (case resume_go h (s\<lparr>console := console s @ [ConsoleWarn ''scheduleTimeoutEvent: missed timeout event'']\<rparr>) of
        (Inl e, s1) \<Rightarrow> False
      | (Inr u, s1) \<Rightarrow> misses h i k s1)"

text \<open>
  The retry loop of a timer ends as soon as the engine has cleared the timeout, however many
  resumes that takes.
\<close>

theorem timer_loop_ends:
  assumes "resume_go h s = (Inr (), s1)" and "misses h i k s1"
  shows "\<exists>s2. timer_fires h i s = Some (Inr (), s2) \<and> timeouts s2 i = None"
proof -
  have "\<exists>s2. missed_loop h i t = Some (Inr (), s2) \<and> timeouts s2 i = None" if "misses h i k t" for t
    using that
  proof (induction k arbitrary: t)
    case 0
    then show ?case by (subst missed_loop.simps) simp
  next
    case (Suc k)
    then obtain s2 where "resume_go h (t\<lparr>console := console t
        @ [ConsoleWarn ''scheduleTimeoutEvent: missed timeout event'']\<rparr>) = (Inr (), s2)" "misses h i k s2"
      by (auto split: prod.splits sum.splits)
    with Suc show ?case by (subst missed_loop.simps) auto
  qed
  with assms show ?thesis by (simp add: timer_fires_def)
qed

definition clearing_host :: host where
  "clearing_host =
     \<lparr>reflect_get = (\<lambda>v p. ret VUndef), reflect_set = (\<lambda>v p x. ret ()), reflect_delete = (\<lambda>v p. ret ()),
      reflect_apply = (\<lambda>f v a. ret VUndef), reflect_construct = (\<lambda>f a. ret VUndef),
      is_instance_of = (\<lambda>v t. ret False), to_text = (\<lambda>v. ret []), length_of = (\<lambda>v. ret 0),
      getsp = (\<lambda>s. 0), run_instance = (\<lambda>n a. ret ()),
      resume_instance = put (\<lambda>s. s\<lparr>timeouts := (\<lambda>i. if console s = [] then timeouts s i else None)\<rparr>)\<rparr>"

theorem timer_loop_ends_witness:
  "\<exists>s2. timer_fires clearing_host 3 (example_go\<lparr>timeouts := [3 \<mapsto> 0]\<rparr>) = Some (Inr (), s2) \<and> timeouts s2 3 = None"
proof -
  have "resume_go clearing_host (example_go\<lparr>timeouts := [3 \<mapsto> 0]\<rparr>) = (Inr (), example_go\<lparr>timeouts := [3 \<mapsto> 0]\<rparr>)"
    by (simp add: resume_go_def bnd_def ask_def clearing_host_def put_def example_go_def new_go_def fun_eq_iff)
  moreover have "misses clearing_host 3 1 (example_go\<lparr>timeouts := [3 \<mapsto> 0]\<rparr>)"
    by (simp add: resume_go_def bnd_def ask_def clearing_host_def put_def example_go_def new_go_def)
  ultimately show ?thesis by (rule timer_loop_ends)
qed

end
