(* ===== verification/Api.thy ===== *)
theory Api
  imports Prelude
begin

text \<open>
  \<open>webc/api.js\<close>: the requests for a pivot and for a notebook, and what becomes of their
  responses. A request and the handling of its response are two definitions, with the awaited
  response between them.
\<close>

definition empty_ulid :: string where
  "empty_ulid = replicate 26 (CHR ''0'')"

definition fetch_pivot_request :: "string \<Rightarrow> request" where
  "fetch_pivot_request i = http_get (''/api/pivot?'' @ query_string [(''action'', ''read''), (''pivot'', i)])"

text \<open>Any status will do; only a body that does not parse is an error.\<close>

definition fetch_pivot_response :: "string \<Rightarrow> response \<Rightarrow> json option \<times> effect list" where
  "fetch_pivot_response i r =
     (case payload r of
        Some p \<Rightarrow> (Some p, [])
      | None \<Rightarrow> (None, [ConsoleError (''Error: could not fetch pivot '' @ i)]))"

definition fetch_notebook_request :: "string \<Rightarrow> request" where
  "fetch_notebook_request i = post_json ''/api/notebook?action=read'' (JObj [(''ID'', JStr i)])"

definition default_key :: "string \<Rightarrow> json \<Rightarrow> (string \<times> json) list \<Rightarrow> (string \<times> json) list" where
  "default_key k v kvs = (if otruthy (map_of kvs k) then kvs else jset k v kvs)"

text \<open>
  The defaults for fields the server omits. Reading a key of null, or setting one of a
  primitive value, throws, which is caught.
\<close>

definition fetch_notebook_response :: "string \<Rightarrow> response \<Rightarrow> json option \<times> effect list" where
  "fetch_notebook_response i r =
     (if status r \<noteq> 200
      then (None, [Notify i ''the notebook could not be retrieved, retrying usually helps'' True])
      else case payload r of
             Some (JObj kvs) \<Rightarrow>
               (Some (JObj (default_key ''Title'' (JStr []) (default_key ''Cells'' (JArr []) kvs))), [])
           | Some (JArr js) \<Rightarrow> (Some (JArr js), [])
           | _ \<Rightarrow> (None, [ConsoleError ''Could not read response'']))"

lemma default_key_get: "map_of (default_key k v kvs) k = Some (if otruthy (map_of kvs k) then the (map_of kvs k) else v)"
  by (cases "map_of kvs k") (auto simp: default_key_def)

lemma default_key_other: "x \<noteq> k \<Longrightarrow> map_of (default_key k v kvs) x = map_of kvs x"
  by (simp add: default_key_def)

text \<open>
  A notebook that is returned as an object has its cells and its title, the server's or the
  default, and every other key as the server sent it; a response with another status than 200
  gives no notebook and one notification, marked as an error.
\<close>

theorem fetched_notebook_has_defaults:
  "(status r \<noteq> 200 \<longrightarrow> fetch_notebook_response i r
      = (None, [Notify i ''the notebook could not be retrieved, retrying usually helps'' True]))
   \<and> (status r = 200 \<longrightarrow> payload r = Some (JObj kvs) \<longrightarrow>
      (\<exists>out. fetch_notebook_response i r = (Some (JObj out), [])
        \<and> map_of out ''Cells'' = Some (if otruthy (map_of kvs ''Cells'') then the (map_of kvs ''Cells'') else JArr [])
        \<and> map_of out ''Title'' = Some (if otruthy (map_of kvs ''Title'') then the (map_of kvs ''Title'') else JStr [])
        \<and> (\<forall>k. k \<noteq> ''Cells'' \<longrightarrow> k \<noteq> ''Title'' \<longrightarrow> map_of out k = map_of kvs k)))"
proof (intro conjI impI)
  assume st: "status r = 200" and pl: "payload r = Some (JObj kvs)"
  define c where "c = default_key ''Cells'' (JArr []) kvs"
  define out where "out = default_key ''Title'' (JStr []) c"
  have o: "fetch_notebook_response i r = (Some (JObj out), [])"
    by (simp add: fetch_notebook_response_def st pl out_def c_def)
  have t: "map_of c ''Title'' = map_of kvs ''Title''" unfolding c_def by (rule default_key_other) simp
  have "map_of out ''Cells'' = map_of c ''Cells''" unfolding out_def by (rule default_key_other) simp
  with o t show "\<exists>out. fetch_notebook_response i r = (Some (JObj out), [])
        \<and> map_of out ''Cells'' = Some (if otruthy (map_of kvs ''Cells'') then the (map_of kvs ''Cells'') else JArr [])
        \<and> map_of out ''Title'' = Some (if otruthy (map_of kvs ''Title'') then the (map_of kvs ''Title'') else JStr [])
        \<and> (\<forall>k. k \<noteq> ''Cells'' \<longrightarrow> k \<noteq> ''Title'' \<longrightarrow> map_of out k = map_of kvs k)"
    by (intro exI [of _ out])
      (simp add: out_def c_def default_key_get default_key_other del: map_of_jset)
qed (simp add: fetch_notebook_response_def)

theorem fetched_notebook_has_defaults_witness:
  "\<exists>out. fetch_notebook_response ''7'' \<lparr>status = 200, payload = Some (JObj [(''Rev'', JNum 3)])\<rparr> = (Some (JObj out), [])
     \<and> map_of out ''Cells'' = Some (JArr []) \<and> map_of out ''Rev'' = Some (JNum 3)"
proof -
  let ?r = "\<lparr>status = 200, payload = Some (JObj [(''Rev'', JNum 3)])\<rparr>"
  obtain out where o: "fetch_notebook_response ''7'' ?r = (Some (JObj out), [])"
    and c: "map_of out ''Cells'' = Some (JArr [])"
    and k: "\<forall>k. k \<noteq> ''Cells'' \<longrightarrow> k \<noteq> ''Title'' \<longrightarrow> map_of out k = map_of [(''Rev'', JNum 3)] k"
    using fetched_notebook_has_defaults [of ?r "''7''" "[(''Rev'', JNum 3)]"] by force
  from k have "map_of out ''Rev'' = map_of [(''Rev'', JNum 3)] ''Rev''" by (rule allE [of _ "''Rev''"]) simp
  with o c show ?thesis by auto
qed

end
