(* ===== verification/Template.thy ===== *)
theory Template
  imports Prelude
begin

text \<open>
  What a component renders: the tree a template denotes, with the actions its event handlers
  stand for. The attributes and classes that depend on the state, and those that identify an
  element (\<open>id\<close>, \<open>aria-label\<close>, \<open>data-\<close> attributes, a title) are kept; purely decorative markup
  (fixed class names, the paths of icons) is left out.
\<close>

datatype 'a ui =
    Elem string "(string \<times> string) list" "(string \<times> 'a) list" "'a ui list"
  | TextNode string
  | Nothing

abbreviation plain :: "string \<Rightarrow> 'a ui list \<Rightarrow> 'a ui" where
  "plain tag ks \<equiv> Elem tag [] [] ks"

abbreviation labelled :: "string \<Rightarrow> string \<Rightarrow> (string \<times> 'a) list \<Rightarrow> 'a ui list \<Rightarrow> 'a ui" where
  "labelled tag l acts ks \<equiv> Elem tag [(''aria-label'', l)] acts ks"

text \<open>The handlers of a tree, with the event they are for, in document order.\<close>

fun ui_actions :: "'a ui \<Rightarrow> (string \<times> 'a) list" where
  "ui_actions (Elem tag as acts ks) = acts @ concat (map ui_actions ks)"
| "ui_actions (TextNode s) = []"
| "ui_actions Nothing = []"

text \<open>The texts of a tree, in document order.\<close>

fun ui_texts :: "'a ui \<Rightarrow> string list" where
  "ui_texts (Elem tag as acts ks) = concat (map ui_texts ks)"
| "ui_texts (TextNode s) = [s]"
| "ui_texts Nothing = []"

text \<open>The elements with a tag.\<close>

fun ui_tagged :: "string \<Rightarrow> 'a ui \<Rightarrow> 'a ui list" where
  "ui_tagged t (Elem tag as acts ks) =
     (if tag = t then [Elem tag as acts ks] else []) @ concat (map (ui_tagged t) ks)"
| "ui_tagged t (TextNode s) = []"
| "ui_tagged t Nothing = []"

fun ui_attr :: "string \<Rightarrow> 'a ui \<Rightarrow> string option" where
  "ui_attr a (Elem tag as acts ks) = map_of as a"
| "ui_attr a _ = None"

definition when_ui :: "bool \<Rightarrow> 'a ui \<Rightarrow> 'a ui" where
  "when_ui b u = (if b then u else Nothing)"

lemma ui_actions_when [simp]: "ui_actions (when_ui b u) = (if b then ui_actions u else [])"
  by (simp add: when_ui_def)

lemma ui_texts_when [simp]: "ui_texts (when_ui b u) = (if b then ui_texts u else [])"
  by (simp add: when_ui_def)

lemma ui_tagged_when [simp]: "ui_tagged t (when_ui b u) = (if b then ui_tagged t u else [])"
  by (simp add: when_ui_def)

text \<open>\<open>classMap\<close>: the classes whose condition holds.\<close>

definition class_map :: "(string \<times> bool) list \<Rightarrow> string" where
  "class_map cs = join_with '' '' (map fst (filter snd cs))"

end
