(* ===== verification/Notification.thy ===== *)
theory Notification
  imports Template Listeners
begin

text \<open>
  \<open>webc/notification.js\<close>: the element that shows the newest notification in a banner and all of
  them in a panel, and keeps those that have not expired in the local storage. The time of
  day is an argument. A notification is an object that the list and the storage text both
  describe; the storage is modelled by the list its JSON text denotes.
\<close>

section \<open>Notifications\<close>

record note_action =
  label :: string
  link :: string

record notice =
  nt_id :: string
  message :: string
  err :: bool
  actions :: "note_action list"
  is_read :: bool
  expires :: int

text \<open>What \<open>notify\<close> is called with: \<open>read\<close> and \<open>exp\<close> are there only if the sender put them.\<close>

record incoming =
  in_id :: string
  in_message :: string
  in_err :: bool
  in_actions :: "note_action list"
  in_read :: "bool option"
  in_expires :: "int option"

record notif =
  notifications :: "notice list"
  banner :: bool
  panel_hidden :: bool
  storage :: "notice list option"
  registered :: "listener list"
  source_open :: bool
  source_made :: nat

definition day :: int where
  "day = 86400000"

definition notice_of :: "int \<Rightarrow> incoming \<Rightarrow> notice" where
  "notice_of now n =
     \<lparr>nt_id = in_id n, message = in_message n, err = in_err n, actions = in_actions n,
      is_read = (case in_read n of Some b \<Rightarrow> b | None \<Rightarrow> False),
      expires = (case in_expires n of Some e \<Rightarrow> e | None \<Rightarrow> now + 2 * day)\<rparr>"

text \<open>\<open>v.exp && v.exp > now\<close>\<close>

definition alive :: "int \<Rightarrow> notice \<Rightarrow> bool" where
  "alive now v \<longleftrightarrow> expires v \<noteq> 0 \<and> now < expires v"

definition update_storage :: "int \<Rightarrow> notif \<Rightarrow> notif" where
  "update_storage now s = s\<lparr>storage := Some (filter (alive now) (notifications s))\<rparr>"

text \<open>\<open>removeBanner\<close>: with no id (or an empty one) everything is read.\<close>

definition mark_read :: "string option \<Rightarrow> notice \<Rightarrow> notice" where
  "mark_read i n =
     (case i of
        None \<Rightarrow> n\<lparr>is_read := True\<rparr>
      | Some s \<Rightarrow> if s = [] \<or> nt_id n = s then n\<lparr>is_read := True\<rparr> else n)"

definition remove_banner :: "string option \<Rightarrow> int \<Rightarrow> notif \<Rightarrow> notif" where
  "remove_banner i now s =
     (let s1 = s\<lparr>banner := False, notifications := map (mark_read i) (notifications s)\<rparr>
      in if storage s1 \<noteq> None then update_storage now s1 else s1)"

definition remove_notification :: "string \<Rightarrow> int \<Rightarrow> notif \<Rightarrow> notif \<times> effect list" where
  "remove_notification i now s =
     (update_storage now (s\<lparr>notifications := filter (\<lambda>n. nt_id n \<noteq> i) (notifications s)\<rparr>),
      [ConsoleLog (''ID '' @ i)])"

definition banner_time :: nat where
  "banner_time = 30000"

text \<open>\<open>notify\<close> of the element; when the timer ends, \<open>removeBanner\<close> is called with the id.\<close>

definition notify_element :: "incoming \<Rightarrow> int \<Rightarrow> notif \<Rightarrow> notif \<times> effect list" where
  "notify_element n now s =
     (let m = notice_of now n;
          s1 = s\<lparr>banner := True, notifications := m # notifications s\<rparr>
      in (update_storage now s1, [StartTimer banner_time]))"

definition toggle_notifications :: "notif \<Rightarrow> notif" where
  "toggle_notifications s = s\<lparr>panel_hidden := \<not> panel_hidden s\<rparr>"

section \<open>Life cycle\<close>

text \<open>
  \<open>me\<close> is the identity of the element's \<open>toggleNotifications\<close>, \<open>unload\<close> that of the arrow
  function that is registered for \<open>beforeunload\<close>. \<open>has_menu\<close>: the page has the menu element.
\<close>

definition click_listener :: "nat \<Rightarrow> listener" where
  "click_listener me = listener_of ''notifications'' ''click'' me"

definition unload_listener :: "nat \<Rightarrow> listener" where
  "unload_listener unload = listener_of ''window'' ''beforeunload'' unload"

definition first_updated :: "bool \<Rightarrow> nat \<Rightarrow> nat \<Rightarrow> notif \<Rightarrow> notif" where
  "first_updated has_menu me unload s =
     (let s1 = (if source_open s then s else s\<lparr>source_open := True, source_made := Suc (source_made s)\<rparr>);
          ls = (if has_menu then add_listener (click_listener me) (registered s1) else registered s1);
          stored = (case storage s of Some ns \<Rightarrow> ns | None \<Rightarrow> []);
          s2 = s1\<lparr>registered := add_listener (unload_listener unload) ls, notifications := stored\<rparr>
      in if list_ex (\<lambda>v. \<not> is_read v) stored then s2\<lparr>banner := True\<rparr> else s2)"

definition notif_disconnected :: "nat \<Rightarrow> notif \<Rightarrow> notif" where
  "notif_disconnected me s = s\<lparr>registered := remove_listener (click_listener me) (registered s)\<rparr>"

definition before_unload :: "int \<Rightarrow> notif \<Rightarrow> notif" where
  "before_unload now s = remove_banner None now (s\<lparr>source_open := False\<rparr>)"

text \<open>
  \<open>notify\<close> of the module, in a micro-task: every element that was ever updated is told.
\<close>

definition notify_all :: "string \<Rightarrow> string \<Rightarrow> bool \<Rightarrow> note_action list \<Rightarrow> int \<Rightarrow> notif list \<Rightarrow> notif list" where
  "notify_all i msg e acts now ls =
     map (\<lambda>s. fst (notify_element \<lparr>in_id = i, in_message = msg, in_err = e, in_actions = acts,
                in_read = None, in_expires = None\<rparr> now s)) ls"

section \<open>Rendering\<close>

datatype notif_action = DoAction string | DismissBanner | DropNotification string | TogglePanel

definition action_buttons :: "notice \<Rightarrow> notif_action ui list" where
  "action_buttons n = map (\<lambda>b. Elem ''button'' [] [(''click'', DoAction (link b))] [TextNode (label b)]) (actions n)"

definition render_banner :: "notice \<Rightarrow> notif_action ui" where
  "render_banner n =
     plain ''div''
       [Elem ''div''
          [(''id'', if err n then ''notification-error'' else ''notification-success''),
           (''class'', if err n then ''bg-red-400'' else ''bg-green-400'')] []
          [plain ''div''
             [Elem ''div'' [(''id'', ''notification-error-text'')] [] [TextNode (message n)],
              when_ui (action_buttons n \<noteq> []) (plain ''div'' (action_buttons n))],
           Elem ''div'' [] [(''click'', DismissBanner)] [TextNode ''&times'']]]"

definition render_item :: "notice \<Rightarrow> notif_action ui" where
  "render_item n =
     Elem ''div'' [(''data-ID'', nt_id n), (''class'', ''notification-item'')] []
       [plain ''div'' [Elem ''div'' [(''class'', if err n then ''bg-red-400'' else ''bg-green-400'')] [] []],
        plain ''div''
          [plain ''p'' [TextNode (message n)],
           when_ui (action_buttons n \<noteq> []) (plain ''div'' (action_buttons n))],
        Elem ''button'' [(''type'', ''button'')] [(''click'', DropNotification (nt_id n))] [TextNode ''&times'']]"

definition render_notif_panel :: "notif \<Rightarrow> notif_action ui" where
  "render_notif_panel s =
     (let panel = (if notifications s \<noteq> []
                   then plain ''div'' (map render_item (notifications s))
                   else plain ''div'' [plain ''svg'' [], plain ''p'' [TextNode ''No notifications'']])
      in plain ''div''
           [plain ''div''
              [plain ''h3'' [TextNode ''Notifications''],
               Elem ''button'' [(''type'', ''button'')] [(''click'', TogglePanel)] [TextNode ''&times'']],
            panel])"

text \<open>
  \<open>render\<close>: the banner shows the first notification. Without one the template reads a field of
  \<open>undefined\<close>, which throws (\<open>None\<close>).
\<close>

definition render_notif :: "notif \<Rightarrow> notif_action ui list option" where
  "render_notif s =
     (case (banner s, notifications s) of
        (True, []) \<Rightarrow> None
      | (True, n # ns) \<Rightarrow> Some (render_banner n # (if panel_hidden s then [] else [render_notif_panel s]))
      | (False, _) \<Rightarrow> Some (if panel_hidden s then [] else [render_notif_panel s]))"

text \<open>What a click does.\<close>

fun notif_click :: "notif_action \<Rightarrow> int \<Rightarrow> notif \<Rightarrow> notif \<times> effect list" where
  "notif_click (DoAction url) now s = (s, [Navigate url])"
| "notif_click DismissBanner now s = (remove_banner None now s, [])"
| "notif_click (DropNotification i) now s = remove_notification i now s"
| "notif_click TogglePanel now s = (toggle_notifications s, [])"

section \<open>Lemmas\<close>

interpretation notif_menu: lifecycle add_listener remove_listener has_listener
  "[click_listener me]" "[click_listener me]" for me
  by unfold_locales simp

lemma mark_read_keeps [simp]:
  "nt_id (mark_read i n) = nt_id n" "message (mark_read i n) = message n" "expires (mark_read i n) = expires n"
  by (auto simp: mark_read_def split: option.splits)

lemma alive_mark_read [simp]: "alive now (mark_read i n) = alive now n"
  by (simp add: alive_def)

definition example_notice :: incoming where
  "example_notice = \<lparr>in_id = ''a'', in_message = ''m'', in_err = True, in_actions = [],
     in_read = None, in_expires = None\<rparr>"

definition example_notif :: notif where
  "example_notif = \<lparr>notifications = [], banner = False, panel_hidden = False, storage = None,
     registered = [], source_open = True, source_made = 1\<rparr>"

section \<open>Properties\<close>

text \<open>
  A new notification is shown at once: it is the first of the list, the one the banner
  shows, the older ones keep their order after it, and the storage holds exactly those of them
  that have not expired, so a fresh one is there too.
\<close>

theorem notify_shows_and_stores:
  "let s' = fst (notify_element n now s) in
     render_notif s' = Some (render_banner (notice_of now n) # (if panel_hidden s then [] else [render_notif_panel s']))
     \<and> notifications s' = notice_of now n # notifications s
     \<and> storage s' = Some (filter (alive now) (notifications s'))
     \<and> (in_expires n = None \<longrightarrow> 0 \<le> now \<longrightarrow> notice_of now n \<in> set (the (storage s')))"
  by (simp add: notify_element_def update_storage_def render_notif_def notice_of_def alive_def day_def Let_def)

theorem notify_shows_and_stores_witness:
  "notice_of 5 example_notice \<in> set (the (storage (fst (notify_element example_notice 5 example_notif))))"
proof -
  have "in_expires example_notice = None" by (simp add: example_notice_def)
  moreover have "(0::int) \<le> 5" by simp
  ultimately show ?thesis
    using notify_shows_and_stores [of example_notice 5 example_notif] unfolding Let_def by blast
qed

text \<open>
  No click, timer or page change ever loses a notification by accident: after any of them the
  ids in the list are those before, less the one that was dropped, in the same order; a banner
  that was dismissed or timed out is gone, and the storage holds nothing that has expired.
\<close>

theorem notifications_are_kept:
  "map nt_id (notifications (fst (notif_click a now s)))
     = (case a of DropNotification i \<Rightarrow> filter (\<lambda>j. j \<noteq> i) (map nt_id (notifications s))
        | _ \<Rightarrow> map nt_id (notifications s))
   \<and> map nt_id (notifications (remove_banner i now s)) = map nt_id (notifications s)
   \<and> \<not> banner (remove_banner i now s)
   \<and> (case storage (remove_banner i now s) of None \<Rightarrow> True | Some ns \<Rightarrow> list_all (alive now) ns)"
proof -
  have drop: "map nt_id (filter (\<lambda>n. nt_id n \<noteq> i) ns) = filter (\<lambda>j. j \<noteq> i) (map nt_id ns)" for i ns
    by (induction ns) auto
  show ?thesis
    by (cases a) (auto simp: remove_banner_def remove_notification_def update_storage_def
        toggle_notifications_def drop comp_def list_all_iff Let_def)
qed

text \<open>
  Dropping the only notification from the panel while the banner is still up leaves the
  element in a state it cannot render: \<open>removeNotification\<close> does not take the banner down.
\<close>

theorem dropping_last_breaks_render:
  assumes "banner s" and "list_all (\<lambda>n. nt_id n = i) (notifications s)"
  shows "render_notif (fst (notif_click (DropNotification i) now s)) = None"
proof -
  have "filter (\<lambda>n. nt_id n \<noteq> i) (notifications s) = []"
    using assms(2) by (auto simp: list_all_iff filter_empty_conv)
  with assms(1) show ?thesis
    by (simp add: remove_notification_def update_storage_def render_notif_def)
qed

theorem dropping_last_breaks_render_witness:
  "render_notif (fst (notif_click (DropNotification ''a'') 5 (fst (notify_element example_notice 5 example_notif))))
     = None"
  by (rule dropping_last_breaks_render)
    (simp_all add: notify_element_def update_storage_def notice_of_def example_notice_def example_notif_def Let_def)

end
