(* ===== verification/Notebook_Events.thy ===== *)
theory Notebook_Events
  imports Pivot_Events
begin

text \<open>
  \<open>webc/notebook-body-events.js\<close>, \<open>webc/file-upload.js\<close> and the dispatchers of
  \<open>utils/events.js\<close>: what is dragged into a notebook (a cell, a data source, a file) and the
  upload of a file.
\<close>

record dropped_file =
  file_name :: string
  file_text :: string

text \<open>A transfer with files: \<open>items\<close> is absent in some browsers. An item that gives no file is null.\<close>

record file_transfer = transfer +
  dt_items :: "(string \<times> dropped_file option) list option"
  dt_files :: "dropped_file list"

abbreviation as_transfer :: "file_transfer \<Rightarrow> transfer" where
  "as_transfer t \<equiv> transfer.truncate t"

section \<open>Custom events\<close>

text \<open>
  A dispatcher sends an event with its detail to a target, or to the window; a checker compares
  the type.
\<close>

definition custom_event_dispatcher :: "string \<Rightarrow> json \<Rightarrow> string option \<Rightarrow> effect \<times> string" where
  "custom_event_dispatcher evt_name detail target =
     (DispatchEvent evt_name detail, case target of Some t \<Rightarrow> t | None \<Rightarrow> ''window'')"

definition custom_event_checker :: "string \<Rightarrow> string \<Rightarrow> bool" where
  "custom_event_checker evt_name ty \<longleftrightarrow> ty = evt_name"

definition dispatch_create_cell :: "json \<Rightarrow> string option \<Rightarrow> effect \<times> string" where
  "dispatch_create_cell = custom_event_dispatcher ''create-cell''"

definition increv :: "string option \<Rightarrow> effect \<times> string" where
  "increv target = (DispatchEvent ''wt-increment-revision'' JNull,
     case target of Some t \<Rightarrow> t | None \<Rightarrow> ''window'')"

section \<open>Files\<close>

definition files_attached :: "file_transfer option \<Rightarrow> dropped_file list" where
  "files_attached ev =
     (case ev of
        None \<Rightarrow> []
      | Some t \<Rightarrow>
          (case dt_items t of
             Some items \<Rightarrow> List.map_filter snd (filter (\<lambda>(kind, f). kind = ''file'') items)
           | None \<Rightarrow> dt_files t))"

datatype upload_error = NoFileData | UploadFailed | BadAnswer

text \<open>\<open>uploadFile\<close>: the request, then what its response gives.\<close>

definition upload_url :: "string \<Rightarrow> string \<Rightarrow> string" where
  "upload_url nm notebook = ''/api/datasource?action=save&type=upload&title='' @ nm @ ''&notebook='' @ notebook"

definition upload_file :: "file_transfer option \<Rightarrow> string \<Rightarrow> effect list \<times> (upload_error + dropped_file)" where
  "upload_file ev notebook =
     (case files_attached ev of
        [] \<Rightarrow> ([PreventDefault, StopPropagation, ConsoleError ''No data on file''], Inl NoFileData)
      | f # _ \<Rightarrow>
          ([PreventDefault, StopPropagation,
            Fetch (post_form (upload_url (file_name f) notebook)
              [(''file'', file_text f), (''name'', file_name f)])], Inr f))"

record cell_data =
  data_source :: json
  data_title :: string

definition upload_answered :: "dropped_file \<Rightarrow> response \<Rightarrow> effect list \<times> (upload_error + cell_data)" where
  "upload_answered f r =
     (if \<not> resp_ok r then ([ConsoleError ''Error uploading file''], Inl UploadFailed)
      else case payload r of
             None \<Rightarrow> ([], Inl BadAnswer)
           | Some j \<Rightarrow>
               (case jget j ''Streams'' of
                  Some (JArr (x # xs)) \<Rightarrow> ([], Inr \<lparr>data_source = x, data_title = file_name f\<rparr>)
                | _ \<Rightarrow> ([], Inl BadAnswer)))"

section \<open>Cells and data sources\<close>

definition datasource_load :: string where
  "datasource_load = ''datasourceload''"

definition cell_data_format :: string where
  "cell_data_format = ''celldata''"

definition set_datasource_drag_data :: "transfer \<Rightarrow> json \<Rightarrow> transfer" where
  "set_datasource_drag_data t def = t\<lparr>dt_data := dt_set datasource_load (Parses def) (dt_data t)\<rparr>"

definition has_datasource_data :: "file_transfer option \<Rightarrow> bool" where
  "has_datasource_data ev =
     (case ev of
        None \<Rightarrow> False
      | Some t \<Rightarrow> datasource_load \<in> set (map fst (dt_data t)) \<or> 0 < length (files_attached ev))"

text \<open>A file wins; otherwise the definition that was set, if any.\<close>

definition get_datasource_drag_data ::
  "file_transfer option \<Rightarrow> string \<Rightarrow> effect list \<times> (upload_error + dropped_file) option \<times> (pivot_error + json option)" where
  "get_datasource_drag_data ev notebook =
     (if 0 < length (files_attached ev)
      then (let (effs, f) = upload_file ev notebook in (effs, Some f, Inr None))
      else ([], None,
        (case ev of
           None \<Rightarrow> Inr None
         | Some t \<Rightarrow>
             (case map_of (dt_data t) datasource_load of
                None \<Rightarrow> Inr None
              | Some (Unparsable s) \<Rightarrow> if s = [] then Inr None else Inl BadJson
              | Some (Parses j) \<Rightarrow> Inr (Some j)))))"

definition set_cell_drag_data :: "transfer option \<Rightarrow> json \<Rightarrow> pivot_error + transfer" where
  "set_cell_drag_data ev d =
     (case ev of
        None \<Rightarrow> Inl OnlyInDragStart
      | Some t \<Rightarrow> Inr (t\<lparr>dt_data := dt_set cell_data_format (Parses d) [], effect_allowed := ''copy''\<rparr>))"

definition has_cell_data :: "file_transfer option \<Rightarrow> bool" where
  "has_cell_data ev =
     (case ev of None \<Rightarrow> False | Some t \<Rightarrow> cell_data_format \<in> set (map fst (dt_data t)))"

definition get_cell_drag_data :: "file_transfer option \<Rightarrow> pivot_error + json option" where
  "get_cell_drag_data ev =
     (case ev of
        None \<Rightarrow> Inr None
      | Some t \<Rightarrow>
          (case map_of (dt_data t) cell_data_format of
             None \<Rightarrow> Inr None
           | Some (Unparsable s) \<Rightarrow> if s = [] then Inr None else Inl BadJson
           | Some (Parses j) \<Rightarrow> Inr (Some j)))"

text \<open>
  A file that is dropped is what gets uploaded: dropping with a file attached prevents the
  default, posts exactly the first attached file under its name, and a successful answer gives
  a cell on the first stream titled with the name of the file, even if a data source was
  dragged along.
\<close>

theorem dropped_file_is_uploaded:
  assumes "files_attached ev = f # fs"
  shows "get_datasource_drag_data ev notebook =
      ([PreventDefault, StopPropagation,
        Fetch (post_form (upload_url (file_name f) notebook) [(''file'', file_text f), (''name'', file_name f)])],
       Some (Inr f), Inr None)
    \<and> (status r = 200 \<longrightarrow> payload r = Some (JObj [(''Streams'', JArr (x # xs))]) \<longrightarrow>
        upload_answered f r = ([], Inr \<lparr>data_source = x, data_title = file_name f\<rparr>))"
  using assms
  by (auto simp: get_datasource_drag_data_def upload_file_def upload_answered_def resp_ok_def)

theorem dropped_file_is_uploaded_witness:
  "snd (upload_answered \<lparr>file_name = ''a.csv'', file_text = ''x''\<rparr>
      \<lparr>status = 200, payload = Some (JObj [(''Streams'', JArr [JStr ''s''])])\<rparr>)
    = Inr \<lparr>data_source = JStr ''s'', data_title = ''a.csv''\<rparr>"
  using dropped_file_is_uploaded [of "Some \<lparr>dt_data = [], effect_allowed = [], drag_image = None,
      dt_items = Some [(''string'', None), (''file'', Some \<lparr>file_name = ''a.csv'', file_text = ''x''\<rparr>)],
      dt_files = []\<rparr>" "\<lparr>file_name = ''a.csv'', file_text = ''x''\<rparr>" "[]" "''7''"
      "\<lparr>status = 200, payload = Some (JObj [(''Streams'', JArr [JStr ''s''])])\<rparr>" "JStr ''s''" "[]"]
  by (simp add: files_attached_def List.map_filter_def)

end
