(* ===== verification/Notebook.thy ===== *)
theory Notebook
  imports Template Notebook_Events Listeners Api "HOL-Library.Multiset"
begin

text \<open>
  \<open>webc/notebook-body.js\<close>: a notebook and the layout of its cells, the operations on them, the
  requests that save and read it, and what is rendered. The handlers of a cell are given the
  cell by its place in the list of cells; a cell that is no longer in the list (\<open>indexOf\<close> is
  \<open>-1\<close>) is left out. A handler up to an \<open>await\<close> and what follows it are two definitions.
\<close>

section \<open>Data\<close>

record position =
  p_col :: int
  p_height :: int
  p_row :: int

record nb_cell =
  c_id :: "string option"
  c_title :: string
  c_source :: json
  c_pivots :: "string list option"
  c_notebook :: string
  c_check :: bool
  c_snapshot :: "string option"
  c_pos :: position

record notebook =
  nb_id :: string
  nb_title :: string
  nb_rev :: int
  nb_urgent :: bool
  nb_resolved :: bool
  nb_created :: string
  nb_cells :: "nb_cell list"

record body_state =
  notebook_id :: string
  nb :: notebook
  panel :: string
  pivots :: "(string \<times> json) list"
  opened_menu :: "string option"
  snapshot_menu :: bool
  snapshots :: "string list"
  adjust_flag :: bool

text \<open>What is sent when a notebook is saved.\<close>

definition id_json :: "string option \<Rightarrow> json" where
  "id_json i = (case i of None \<Rightarrow> JNull | Some s \<Rightarrow> JStr s)"

definition cell_json :: "nb_cell \<Rightarrow> json" where
  "cell_json c = JObj [(''Title'', JStr (c_title c)), (''DataSource'', c_source c), (''ID'', id_json (c_id c)),
     (''Pivots'', case c_pivots c of None \<Rightarrow> JNull | Some ps \<Rightarrow> JArr (map (\<lambda>p. JObj [(''Pivot'', JStr p)]) ps)),
     (''Notebook'', JStr (c_notebook c)), (''CheckCell'', JBool (c_check c)), (''Snapshot'', id_json (c_snapshot c)),
     (''Position'', JObj [(''Col'', JNum (p_col (c_pos c))), (''Height'', JNum (p_height (c_pos c))),
        (''Row'', JNum (p_row (c_pos c)))])]"

definition notebook_json :: "notebook \<Rightarrow> json" where
  "notebook_json n = JObj [(''ID'', JStr (nb_id n)), (''Title'', JStr (nb_title n)), (''Rev'', JNum (nb_rev n)),
     (''Urgent'', JBool (nb_urgent n)), (''Resolved'', JBool (nb_resolved n)), (''Created'', JStr (nb_created n)),
     (''Cells'', JArr (map cell_json (nb_cells n)))]"

section \<open>Moving and sizing cells\<close>

abbreviation row_of :: "nb_cell \<Rightarrow> int" where
  "row_of c \<equiv> p_row (c_pos c)"

abbreviation col_of :: "nb_cell \<Rightarrow> int" where
  "col_of c \<equiv> p_col (c_pos c)"

definition add_row :: "int \<Rightarrow> nb_cell \<Rightarrow> nb_cell" where
  "add_row d c = c\<lparr>c_pos := (c_pos c)\<lparr>p_row := p_row (c_pos c) + d\<rparr>\<rparr>"

definition set_row :: "int \<Rightarrow> nb_cell \<Rightarrow> nb_cell" where
  "set_row r c = c\<lparr>c_pos := (c_pos c)\<lparr>p_row := r\<rparr>\<rparr>"

definition set_col :: "int \<Rightarrow> nb_cell \<Rightarrow> nb_cell" where
  "set_col k c = c\<lparr>c_pos := (c_pos c)\<lparr>p_col := k\<rparr>\<rparr>"

definition upd :: "nat \<Rightarrow> (nb_cell \<Rightarrow> nb_cell) \<Rightarrow> nb_cell list \<Rightarrow> nb_cell list" where
  "upd i f cells = cells[i := f (cells ! i)]"

definition is_valid_range :: "int \<Rightarrow> int \<Rightarrow> nat \<Rightarrow> bool" where
  "is_valid_range index direction cell_count \<longleftrightarrow>
     index \<ge> 0 \<and> index + direction \<ge> 0 \<and> index + direction < int cell_count"

definition adjust_row_for_cells :: "nb_cell list \<Rightarrow> nat \<Rightarrow> int \<Rightarrow> nb_cell list" where
  "adjust_row_for_cells cells start direction = take start cells @ map (add_row direction) (drop start cells)"

text \<open>
  \<open>swapCells\<close>: \<open>temp.Col = 3\<close> sets a field of the cell that nothing reads, and leaves
  \<open>Position.Col\<close> alone.
\<close>

definition swap_cells :: "nb_cell list \<Rightarrow> int \<Rightarrow> int \<Rightarrow> int \<Rightarrow> nb_cell list \<times> effect list" where
  "swap_cells cells index1 index2 direction =
     (if index1 < 0 \<or> index1 \<ge> int (length cells) \<or> index2 < 0 \<or> index2 \<ge> int (length cells)
      then (cells, [ConsoleError ''Invalid indices provided for cell swapping.''])
      else let i = nat index1; j = nat index2;
               c1 = upd i (add_row direction) cells;
               c2 = upd j (add_row (- direction)) c1
           in (c2[i := c2 ! j, j := c2 ! i], []))"

text \<open>\<open>cells.sort((a, b) => a.Position.Row - b.Position.Row)\<close> is stable.\<close>

definition sort_rows :: "nb_cell list \<Rightarrow> nb_cell list" where
  "sort_rows cells = sort_key row_of cells"

text \<open>
  \<open>moveCell\<close>. Cells have no \<open>Row\<close> of their own, so the filter on \<open>c.Row === 0\<close> is empty.
\<close>

definition move_cell :: "nb_cell list \<Rightarrow> nat \<Rightarrow> int \<Rightarrow> nb_cell list \<times> effect list" where
  "move_cell cells0 index direction =
     (let cells = (if row_of (cells0 ! index) = 0 \<or> length (filter (\<lambda>c. False) cells0) = length cells0
                   then adjust_row_for_cells cells0 0 1 else cells0);
          cell = cells ! index
      in if is_valid_range (int index) direction (length cells) then
           (let neighbors = filter (\<lambda>c. row_of c = row_of cell + direction) cells
            in if neighbors = [] then
                 (if (row_of cell = 1 \<and> direction = -1)
                     \<or> (row_of cell = int (length cells) \<and> direction = 1 \<and> col_of cell \<noteq> 3)
                  then (sort_rows (adjust_row_for_cells (upd index (set_row 1 \<circ> set_col 3) cells) (index + 1) direction), [])
                  else (sort_rows cells, []))
               else let ncol = sum_list (map col_of neighbors)
                 in if ncol > 0 \<and> ncol < 3
                    then (sort_rows (adjust_row_for_cells
                            (upd index (add_row direction \<circ> set_col (3 - ncol)) cells) (index + 1) direction), [])
                    else let (cs, effs) = swap_cells cells (int index) (int index + 1) direction
                         in (sort_rows cs, effs))
         else
           (let cells1 = upd index (set_col 3) cells
            in if row_of cell = 1 \<and> direction = 1
               then (sort_rows (adjust_row_for_cells (upd index (add_row direction) cells1) (index + 1) direction), [])
               else if row_of cell = 1 \<and> direction = -1
               then (sort_rows (adjust_row_for_cells cells1 (index + 1) 1), [])
               else (sort_rows cells1, [])))"

text \<open>With Control or Command the size grows, without it shrinks.\<close>

definition adjust_width :: "bool \<Rightarrow> nb_cell \<Rightarrow> nb_cell" where
  "adjust_width grow c =
     (let k = (if col_of c = 0 then 3 else col_of c)
      in set_col (if grow then min 3 (k + 1) else max 1 (k - 1)) c)"

definition height_ranges :: "int list" where
  "height_ranges = [6, 20, 28, 36, 44, 56]"

definition set_height :: "int \<Rightarrow> nb_cell \<Rightarrow> nb_cell" where
  "set_height h c = c\<lparr>c_pos := (c_pos c)\<lparr>p_height := h\<rparr>\<rparr>"

definition adjust_height :: "bool \<Rightarrow> nb_cell \<Rightarrow> nb_cell" where
  "adjust_height grow c =
     (let h = (if p_height (c_pos c) = 0 then 44 else p_height (c_pos c));
          index = find_index (\<lambda>r. r = h) height_ranges
      in if index \<ge> 0 then
           (if grow then
              (if index < int (length height_ranges) - 1 then set_height (height_ranges ! nat (index + 1)) c
               else set_height h c)
            else if index > 0 then set_height (height_ranges ! nat (index - 1)) c
            else set_height h c)
         else set_height h c)"

section \<open>Operations of the element\<close>

definition with_cells :: "(nb_cell list \<Rightarrow> nb_cell list) \<Rightarrow> body_state \<Rightarrow> body_state" where
  "with_cells f s = s\<lparr>nb := (nb s)\<lparr>nb_cells := f (nb_cells (nb s))\<rparr>\<rparr>"

text \<open>
  \<open>saveNotebook\<close> of the element: the revision grows and the notebook is posted. When the
  response is there, a failure is notified, and the notebook is read again either way.
\<close>

definition save_notebook :: "body_state \<Rightarrow> body_state \<times> effect list" where
  "save_notebook s =
     (let n = (nb s)\<lparr>nb_rev := nb_rev (nb s) + 1\<rparr>
      in (s\<lparr>nb := n\<rparr>, [Fetch (post_json ''/api/notebook?action=save'' (notebook_json n))]))"

definition notebook_saved :: "string \<Rightarrow> response \<Rightarrow> body_state \<Rightarrow> effect list" where
  "notebook_saved saved_id r s =
     (if status r \<noteq> 200
      then [Notify saved_id ''the notebook could not be saved, retrying usually helps'' True] else [])
     @ [Fetch (fetch_notebook_request (notebook_id s))]"

text \<open>The notebook that was read replaces the one there was.\<close>

definition notebook_fetched :: "notebook \<Rightarrow> body_state \<Rightarrow> body_state" where
  "notebook_fetched n s = s\<lparr>nb := n\<rparr>"

definition close_panels :: "body_state \<Rightarrow> body_state" where
  "close_panels s = s\<lparr>panel := ''none''\<rparr>"

definition open_search_panel :: "body_state \<Rightarrow> body_state" where
  "open_search_panel s = s\<lparr>panel := ''search''\<rparr>"

definition open_data_source_panel :: "body_state \<Rightarrow> body_state" where
  "open_data_source_panel s = s\<lparr>panel := ''sources''\<rparr>"

text \<open>\<open>loadPivot\<close>, once the pivot is there: the fields of the request go over those of the answer.\<close>

definition merge_objects :: "json \<Rightarrow> json \<Rightarrow> json" where
  "merge_objects a b =
     (case (a, b) of
        (JObj x, JObj y) \<Rightarrow> JObj (fold (\<lambda>(k, v). jset k v) y x)
      | (JObj x, _) \<Rightarrow> JObj x
      | (_, JObj y) \<Rightarrow> JObj (fold (\<lambda>(k, v). jset k v) y [])
      | _ \<Rightarrow> JObj [])"

definition pivot_loaded :: "json \<Rightarrow> json option \<Rightarrow> body_state \<Rightarrow> body_state" where
  "pivot_loaded p answer s =
     (if \<not> otruthy answer then s
      else let a = the answer;
               key = (case jget a ''pivotid'' of Some (JStr k) \<Rightarrow> k | Some v \<Rightarrow> show_json v | None \<Rightarrow> ''undefined'')
           in s\<lparr>pivots := jset key (merge_objects a p) (pivots s)\<rparr>)"

text \<open>
  The listener for manifest changes of cells: the pivots of the manifest are loaded, and the
  cell with its id is replaced by it. A manifest without cells to load has null pivots.
\<close>

definition manifest_changed :: "nb_cell \<Rightarrow> body_state \<Rightarrow> body_state \<times> effect list" where
  "manifest_changed m s =
     (with_cells (map (\<lambda>c. if c_id c \<noteq> c_id m then c else m)) s,
      (case c_pivots m of
         None \<Rightarrow> []
       | Some ps \<Rightarrow> map (\<lambda>p. Fetch (fetch_pivot_request p)) ps))"

text \<open>
  What a drop on the cells gives: a duplicate of a cell, a file whose upload is awaited, a data
  source, nothing, or an exception of \<open>JSON.parse\<close>. A dropped definition without a title gives
  the empty title here.
\<close>

datatype drop_result = DropUpload dropped_file | DropData "cell_data option" | DropFails pivot_error

definition cell_title_or :: "json \<Rightarrow> string" where
  "cell_title_or j = (case jget j ''Title'' of Some (JStr (c # cs)) \<Rightarrow> c # cs | _ \<Rightarrow> ''cell'')"

definition source_data :: "json \<Rightarrow> cell_data" where
  "source_data j =
     \<lparr>data_source = (case jget j ''dataSource'' of Some v \<Rightarrow> v | None \<Rightarrow> JNull),
      data_title = (case jget j ''title'' of Some (JStr t) \<Rightarrow> t | _ \<Rightarrow> [])\<rparr>"

definition not_a_datasource :: effect where
  "not_a_datasource = ConsoleWarn ''Dropped something that is not a datasource definition on notebook-body''"

definition cell_data_from_drop ::
  "file_transfer option \<Rightarrow> body_state \<Rightarrow> effect list \<times> drop_result" where
  "cell_data_from_drop ev s =
     (if has_cell_data ev then
        (case get_cell_drag_data ev of
           Inl e \<Rightarrow> ([], DropFails e)
         | Inr None \<Rightarrow> ([], DropData None)
         | Inr (Some j) \<Rightarrow>
             (case jget j ''DataSource'' of
                Some d \<Rightarrow> if truthy d
                  then ([], DropData (Some \<lparr>data_source = d, data_title = cell_title_or j\<rparr>))
                  else ([], DropData None)
              | None \<Rightarrow> ([], DropData None)))
      else if has_datasource_data ev then
        (case get_datasource_drag_data ev (nb_id (nb s)) of
           (effs, Some (Inr f), _) \<Rightarrow> (effs, DropUpload f)
         | (effs, _, Inl e) \<Rightarrow> (effs, DropFails e)
         | (effs, _, Inr d) \<Rightarrow>
             if otruthy d then (effs, DropData (Some (source_data (the d))))
             else (effs @ [not_a_datasource], DropData None))
      else ([], DropData None))"

definition new_cell :: "cell_data \<Rightarrow> notebook \<Rightarrow> nb_cell" where
  "new_cell d n =
     \<lparr>c_id = None, c_title = data_title d, c_source = data_source d, c_pivots = Some [],
      c_notebook = nb_id n, c_check = False, c_snapshot = None,
      c_pos = \<lparr>p_col = 3, p_height = 0, p_row = int (length (nb_cells n)) + 1\<rparr>\<rparr>"

text \<open>\<open>createCell\<close>, once its data is known.\<close>

definition create_cell :: "cell_data option \<Rightarrow> body_state \<Rightarrow> body_state \<times> effect list" where
  "create_cell d s =
     (case d of
        None \<Rightarrow> (s, [ConsoleWarn ''got a cell creation event but no data''])
      | Some x \<Rightarrow> save_notebook (with_cells (\<lambda>cs. cs @ [new_cell x (nb s)]) s))"

definition remove_cell :: "string option \<Rightarrow> bool \<Rightarrow> body_state \<Rightarrow> body_state \<times> effect list" where
  "remove_cell cell confirmed s =
     (case cell of
        None \<Rightarrow> (s, [])
      | Some i \<Rightarrow>
          if i = [] then (s, [])
          else if \<not> confirmed then (s, [ConfirmDialog ''Are you sure you want to delete this cell?''])
          else let (s1, effs) = save_notebook (with_cells (filter (\<lambda>c. c_id c \<noteq> Some i)) s)
               in (s1, ConfirmDialog ''Are you sure you want to delete this cell?'' # effs))"

definition adjust_cell :: "string \<Rightarrow> bool \<Rightarrow> nat \<Rightarrow> body_state \<Rightarrow> body_state \<times> effect list" where
  "adjust_cell action modifier index s =
     (let s1 = s\<lparr>opened_menu := None\<rparr>;
          cells = nb_cells (nb s1);
          (cells1, effs) =
            (if action = ''up'' then move_cell cells index (-1)
             else if action = ''down'' then move_cell cells index 1
             else if action = ''width'' then (upd index (adjust_width modifier) cells, [])
             else if action = ''height'' then (upd index (adjust_height modifier) cells, [])
             else (cells, []));
          (s2, effs2) = save_notebook (with_cells (\<lambda>cs. cells1) s1)
      in (s2, effs @ effs2))"

definition toggle_urgent :: "body_state \<Rightarrow> body_state \<times> effect list" where
  "toggle_urgent s = save_notebook (s\<lparr>nb := (nb s)\<lparr>nb_urgent := \<not> nb_urgent (nb s)\<rparr>\<rparr>)"

definition toggle_resolved :: "body_state \<Rightarrow> body_state \<times> effect list" where
  "toggle_resolved s = save_notebook (s\<lparr>nb := (nb s)\<lparr>nb_resolved := \<not> nb_resolved (nb s)\<rparr>\<rparr>)"

definition validate_notebook :: "notebook \<Rightarrow> string option" where
  "validate_notebook n =
     (if nb_title n = [] then Some ''Notebook must have a title''
      else if nb_cells n = [] then Some ''Notebook must have at least one cell''
      else None)"

definition export_notebook :: "body_state \<Rightarrow> effect list" where
  "export_notebook s =
     (case validate_notebook (nb s) of
        Some msg \<Rightarrow> [Notify (notebook_id s) msg True]
      | None \<Rightarrow> [Fetch (post_empty (''/api/nbar?action=export&notebook='' @ notebook_id s))])"

definition export_answered :: "response \<Rightarrow> body_state \<Rightarrow> effect list" where
  "export_answered r s =
     (if status r \<noteq> 200 then [Notify (notebook_id s) ''the notebook could not be exported'' True]
      else [DomCall ''download'' [nb_id (nb s) @ ''.nbar''], StartTimer 100])"

text \<open>The snapshots of a cell: a placeholder, then the list, or another placeholder.\<close>

definition fetch_snapshots :: "nat \<Rightarrow> body_state \<Rightarrow> body_state \<times> effect list" where
  "fetch_snapshots index s =
     (s\<lparr>snapshots := [''Loading..'']\<rparr>,
      [Fetch (post_json ''/api/notebook/snapshot?action=list'' (JObj [(''cell'', cell_json (nb_cells (nb s) ! index))]))])"

definition snapshots_answered :: "int \<Rightarrow> string list \<Rightarrow> body_state \<Rightarrow> body_state \<times> effect list" where
  "snapshots_answered st list s =
     (if st = 200 then (s\<lparr>snapshots := (if list = [] then [''No snapshots found.''] else list)\<rparr>, [])
      else (s, [Notify (notebook_id s) ''the snapshots could not be fetched'' True]))"

definition save_snapshot :: "nat \<Rightarrow> body_state \<Rightarrow> effect list" where
  "save_snapshot index s =
     [Fetch (post_json ''/api/notebook/snapshot?action=save'' (JObj [(''cell'', cell_json (nb_cells (nb s) ! index))]))]"

definition snapshot_saved :: "int \<Rightarrow> string \<Rightarrow> body_state \<Rightarrow> body_state \<times> effect list" where
  "snapshot_saved st snapshot s =
     (if st = 200 then (s\<lparr>snapshots := snapshots s @ [snapshot]\<rparr>, [])
      else (s, [Notify (notebook_id s) ''the snapshot could not be saved'' True]))"

section \<open>Rendering\<close>

datatype nb_action =
    Move string nat
  | ToggleCheck nat
  | ToggleSnapshots nat
  | ClearSnapshot nat
  | LoadSnapshot string
  | NewSnapshot nat
  | DeleteCell "string option"
  | ToggleMenu string
  | OpenSources
  | OpenSearch
  | NoAction
  | ScrollToCell "string option"
  | DragCellStart nat
  | ClosePanels
  | CreateFromEvent bool
  | SetTitle
  | ExportIt
  | ShareLink
  | ToggleUrgent
  | ToggleResolved
  | AllowDrop

definition adjust_cell_menu :: "bool \<Rightarrow> nat \<Rightarrow> nb_action ui" where
  "adjust_cell_menu on i =
     (if on then
        plain ''div''
          [plain ''div''
             [TextNode ''Move'',
              labelled ''svg'' ''move-up'' [(''click'', Move ''up'' i)] [],
              labelled ''svg'' ''move-down'' [(''click'', Move ''down'' i)] []],
           plain ''div''
             [TextNode ''Resize'',
              labelled ''svg'' ''adjust-width'' [(''click'', Move ''width'' i)] [],
              labelled ''svg'' ''adjust-height'' [(''click'', Move ''height'' i)] []]]
      else Nothing)"

definition snapshot_and_enforce :: "bool \<Rightarrow> (string \<Rightarrow> string) \<Rightarrow> body_state \<Rightarrow> nat \<Rightarrow> nb_cell \<Rightarrow> nb_action ui" where
  "snapshot_and_enforce on locale_date s i c =
     (if on then
        plain ''div''
          [Elem ''div'' [] [(''click'', ToggleCheck i)]
             [TextNode (if c_check c then ''Enforced'' else ''Enforce''),
              plain ''svg'' [], when_ui (c_check c) (plain ''svg'' [])],
           plain ''div''
             [Elem ''div'' [] [(''click'', ToggleSnapshots i)]
                [(case c_snapshot c of
                    Some d \<Rightarrow> if d = [] then TextNode ''Snapshot''
                      else TextNode (''Snapshot Taken: '' @ locale_date d)
                  | None \<Rightarrow> TextNode ''Snapshot''),
                 when_ui (\<not> (c_snapshot c = None \<or> c_snapshot c = Some []))
                   (Elem ''svg'' [] [(''click'', ClearSnapshot i)] [])],
              when_ui (snapshot_menu s)
                (plain ''div''
                   (map (\<lambda>sn. Elem ''div'' [] [(''click'', LoadSnapshot sn)] [TextNode (''Taken: '' @ sn)])
                      (snapshots s)
                    @ [when_ui (c_snapshot c = None \<or> c_snapshot c = Some [])
                         (Elem ''div'' [] [(''click'', NewSnapshot i)] [TextNode ''New Snapshot''])]))]]
      else Nothing)"

definition cell_menu :: "bool \<Rightarrow> bool \<Rightarrow> (string \<Rightarrow> string) \<Rightarrow> body_state \<Rightarrow> nat \<Rightarrow> nb_cell \<Rightarrow> nb_action ui" where
  "cell_menu can_adjust can_enforce locale_date s i c =
     plain ''div''
       [adjust_cell_menu can_adjust i,
        snapshot_and_enforce can_enforce locale_date s i c,
        labelled ''div'' ''delete-cell'' [(''click'', DeleteCell (c_id c))] [TextNode ''Delete'']]"

definition cell_width :: "bool \<Rightarrow> nb_cell \<Rightarrow> string" where
  "cell_width adjust c =
     (if adjust then
        (if col_of c \<noteq> 0 \<and> col_of c > 0 \<and> col_of c < 3 then ''w-'' @ show_int (col_of c) @ ''/3 pr-2'' else ''w-full'')
      else [])"

definition cell_height :: "bool \<Rightarrow> nb_cell \<Rightarrow> string" where
  "cell_height adjust c =
     (if adjust then
        (if p_height (c_pos c) \<noteq> 0 \<and> p_height (c_pos c) > 0
         then ''h-['' @ show_int (p_height (c_pos c)) @ ''rem]'' else ''h-[44rem]'')
      else [])"

text \<open>A cell without an id (it was just created) is not rendered.\<close>

definition render_cell :: "bool \<Rightarrow> bool \<Rightarrow> (string \<Rightarrow> string) \<Rightarrow> body_state \<Rightarrow> nat \<Rightarrow> nb_cell \<Rightarrow> nb_action ui" where
  "render_cell can_adjust can_enforce locale_date s i c =
     (case c_id c of
        None \<Rightarrow> Nothing
      | Some cid \<Rightarrow>
          if cid = [] then Nothing
          else Elem ''div'' [(''class'', cell_width (adjust_flag s) c), (''aria-label'', ''cell-wrapper'')] []
            [Elem ''div'' [(''aria-label'', ''cell-body-wrapper''), (''class'', cell_height (adjust_flag s) c)] []
               [Elem ''wt-data'' [(''id'', cid), (''manifest'', show_json (cell_json c))] [] [],
                labelled ''button'' ''cell-menu'' [(''click'', ToggleMenu cid)] [plain ''svg'' []],
                when_ui (opened_menu s = Some cid) (cell_menu can_adjust can_enforce locale_date s i c)]])"

definition navigation_articles :: "nb_action ui list" where
  "navigation_articles =
     map (\<lambda>(n, a). plain ''article'' [Elem ''a'' [(''href'', ''#'')] [(''click'', a)] [plain ''svg'' [], TextNode n]])
       [(''Explore'', OpenSources), (''Find'', OpenSearch), (''Connect'', NoAction), (''Help'', NoAction)]"

text \<open>A pivot of the overview: its pill when it was loaded, a placeholder before.\<close>

definition overview_pivot :: "body_state \<Rightarrow> string \<Rightarrow> nb_action ui" where
  "overview_pivot s p =
     (case map_of (pivots s) p of
        Some v \<Rightarrow> Elem ''wt-pivot-pill'' [(''cls'', ''w-full''), (''pivot'', show_json v)] [] []
      | None \<Rightarrow> Elem ''wt-pivot-pill'' [(''cls'', ''w-full''), (''pivotid'', p), (''loading'', ''true'')] [] [])"

definition overview_cell :: "body_state \<Rightarrow> nat \<Rightarrow> nb_cell \<Rightarrow> nb_action ui" where
  "overview_cell s i c =
     plain ''article''
       [Elem ''button'' [(''aria-label'', ''Click to scroll''), (''draggable'', ''true'')]
          [(''click'', ScrollToCell (c_id c)), (''dragstart'', DragCellStart i)]
          [plain ''h2'' [plain ''svg'' [], TextNode (c_title c)], plain ''p'' []],
        plain ''ul'' (case c_pivots c of None \<Rightarrow> [] | Some ps \<Rightarrow> map (overview_pivot s) ps)]"

definition render_overlay :: "body_state \<Rightarrow> nb_action ui list" where
  "render_overlay s =
     (if panel s = ''search'' then
        [Elem ''div'' [] [(''click'', ClosePanels)] [], Elem ''wt-search'' [] [] []]
      else if panel s = ''sources'' then
        [Elem ''div'' [] [(''click'', ClosePanels)] [],
         Elem ''wt-notebook-datasources'' [] [(''create-cell'', CreateFromEvent True)] []]
      else [])"

definition render_title :: "(string \<Rightarrow> string) \<Rightarrow> notebook \<Rightarrow> nb_action ui" where
  "render_title full_date n =
     plain ''div''
       [Elem ''input'' [(''type'', ''text''), (''placeholder'', ''Event - '' @ full_date (nb_created n)),
            (''value'', nb_title n), (''aria-label'', ''notebook-title'')] [(''blur'', SetTitle)] [],
        plain ''div''
          [Elem ''button'' [(''type'', ''button'')] [(''click'', ExportIt)] [TextNode ''Export''],
           Elem ''button'' [(''type'', ''button''), (''data-testid'', ''share-button'')] [(''click'', ShareLink)]
             [TextNode ''Share'']]]"

definition render_topbar :: "string \<Rightarrow> string \<Rightarrow> notebook \<Rightarrow> nb_action ui" where
  "render_topbar owner created n =
     plain ''div''
       [plain ''p'' [plain ''svg'' [], TextNode owner],
        plain ''p'' [plain ''svg'' [], TextNode created],
        Elem ''button'' [(''type'', ''button''), (''class'', if nb_urgent n then ''text-red-500'' else [])]
          [(''click'', ToggleUrgent)]
          [Elem ''svg'' [(''class'', if nb_urgent n then ''fill-red-500'' else ''fill-neutral-900 dark:fill-neutral-100'')] [] [],
           TextNode (if nb_urgent n then ''Urgent'' else ''Routine'')],
        Elem ''button'' [(''type'', ''button''), (''class'', if nb_resolved n then ''text-green-600'' else [])]
          [(''click'', ToggleResolved)]
          [Elem ''svg'' [(''class'', if nb_resolved n then ''fill-green-600'' else ''fill-neutral-900 dark:fill-neutral-100'')] [] [],
           TextNode (if nb_resolved n then ''Resolved'' else ''In Progress'')]]"

definition render_notebook ::
  "bool \<Rightarrow> bool \<Rightarrow> (string \<Rightarrow> string) \<Rightarrow> (string \<Rightarrow> string) \<Rightarrow> string \<Rightarrow> string \<Rightarrow> body_state \<Rightarrow> nb_action ui" where
  "render_notebook can_adjust can_enforce locale_date full_date owner created s =
     (let n = nb s;
          cells = map (\<lambda>(i, c). render_cell can_adjust can_enforce locale_date s i c) (enumerate 0 (nb_cells n));
          overview = map (\<lambda>(i, c). overview_cell s i c) (enumerate 0 (nb_cells n))
      in plain ''notebook-body''
           ([plain ''div''
               [plain ''nav'' [plain ''section'' navigation_articles, plain ''section'' overview],
                plain ''div''
                  [Elem ''div'' [(''data-testid'', ''notebook-cells-wrapper'')]
                     [(''dragover'', AllowDrop), (''drop'', CreateFromEvent False)]
                     ([render_title full_date n, render_topbar owner created n,
                       Elem ''wt-editor'' [(''notebook'', nb_id n)] [(''create-cell'', CreateFromEvent False)] []]
                      @ (if adjust_flag s then [plain ''div'' cells] else cells))]]]
            @ render_overlay s))"

text \<open>
  The handlers. Those that need more of their event than a modifier key or the answer of a
  dialog are separate: \<open>set_title\<close>, \<open>create_from_event\<close> and \<open>drag_cell_start\<close>.
\<close>

fun nb_click :: "nb_action \<Rightarrow> bool \<Rightarrow> body_state \<Rightarrow> body_state \<times> effect list" where
  "nb_click (Move action i) m s = adjust_cell action m i s"
| "nb_click (ToggleCheck i) m s =
     save_notebook (with_cells (\<lambda>cs. upd i (\<lambda>c. c\<lparr>c_check := \<not> c_check c\<rparr>) cs) s)"
| "nb_click (ToggleSnapshots i) m s = fetch_snapshots i (s\<lparr>snapshot_menu := \<not> snapshot_menu s\<rparr>)"
| "nb_click (ClearSnapshot i) m s =
     save_notebook (with_cells (\<lambda>cs. upd i (\<lambda>c. c\<lparr>c_snapshot := None\<rparr>) cs) s)"
| "nb_click (LoadSnapshot sn) m s = (s, [])"
| "nb_click (NewSnapshot i) m s = (s, save_snapshot i s)"
| "nb_click (DeleteCell i) m s = remove_cell i m s"
| "nb_click (ToggleMenu i) m s = (s\<lparr>opened_menu := (if opened_menu s = Some i then None else Some i)\<rparr>, [])"
| "nb_click OpenSources m s = (open_data_source_panel s, [])"
| "nb_click OpenSearch m s = (open_search_panel s, [])"
| "nb_click NoAction m s = (s, [])"
| "nb_click (ScrollToCell i) m s =
     (s, (case i of Some (c # cs) \<Rightarrow> [DomCall ''scrollIntoView'' [c # cs]] | _ \<Rightarrow> []))"
| "nb_click (DragCellStart i) m s = (s, [])"
| "nb_click ClosePanels m s = (close_panels s, [])"
| "nb_click (CreateFromEvent closes) m s = (s, [])"
| "nb_click SetTitle m s = (s, [])"
| "nb_click ExportIt m s = (s, export_notebook s)"
| "nb_click ShareLink m s = (s, [DomCall ''writeText'' [''location.href'']])"
| "nb_click ToggleUrgent m s = toggle_urgent s"
| "nb_click ToggleResolved m s = toggle_resolved s"
| "nb_click AllowDrop m s = (s, [PreventDefault])"

definition set_title :: "string \<Rightarrow> body_state \<Rightarrow> body_state \<times> effect list" where
  "set_title t s = save_notebook (s\<lparr>nb := (nb s)\<lparr>nb_title := t\<rparr>\<rparr>)"

definition create_from_event :: "bool \<Rightarrow> cell_data option \<Rightarrow> body_state \<Rightarrow> body_state \<times> effect list" where
  "create_from_event closes d s =
     (let (s1, effs) = create_cell d s
      in (if closes then close_panels s1 else s1, PreventDefault # effs))"

definition drag_cell_start :: "transfer option \<Rightarrow> nat \<Rightarrow> body_state \<Rightarrow> pivot_error + transfer" where
  "drag_cell_start ev i s = set_cell_drag_data ev (cell_json (nb_cells (nb s) ! i))"

section \<open>What moving cells does\<close>

text \<open>What a move may not touch: a cell without the column and the row of its position.\<close>

definition content :: "nb_cell \<Rightarrow> nb_cell" where
  "content c = c\<lparr>c_pos := (c_pos c)\<lparr>p_col := 0, p_row := 0\<rparr>\<rparr>"

lemma content_simps [simp]:
  "content (add_row d c) = content c"
  "content (set_row r c) = content c"
  "content (set_col k c) = content c"
  by (simp_all add: content_def add_row_def set_row_def set_col_def)

lemma row_simps [simp]:
  "row_of (add_row d c) = row_of c + d"
  "col_of (add_row d c) = col_of c"
  "row_of (set_col k c) = row_of c"
  "col_of (set_col k c) = k"
  "row_of (set_row r c) = r"
  by (simp_all add: add_row_def set_row_def set_col_def)

lemma upd_content: "(\<And>c. content (f c) = content c) \<Longrightarrow> map content (upd i f cells) = map content cells"
  by (cases "i < length cells") (auto simp: upd_def map_update list_update_same_conv list_update_beyond)

lemma length_upd [simp]: "length (upd i f cells) = length cells"
  by (simp add: upd_def)

lemma nth_upd: "j < length cells \<Longrightarrow> upd i f cells ! j = (if j = i then f (cells ! j) else cells ! j)"
  by (auto simp: upd_def nth_list_update)

lemma length_adjust_rows [simp]: "length (adjust_row_for_cells cells k d) = length cells"
  by (simp add: adjust_row_for_cells_def)

lemma adjust_rows_content: "map content (adjust_row_for_cells cells k d) = map content cells"
proof -
  have "map content (map (add_row d) (drop k cells)) = map content (drop k cells)" by simp
  then have "map content (adjust_row_for_cells cells k d) = map content (take k cells) @ map content (drop k cells)"
    by (simp only: adjust_row_for_cells_def map_append)
  then show ?thesis by (simp only: map_append [symmetric] append_take_drop_id)
qed

lemma swap_cells_content: "mset (map content (fst (swap_cells cells i j d))) = mset (map content cells)"
proof (cases "i < 0 \<or> i \<ge> int (length cells) \<or> j < 0 \<or> j \<ge> int (length cells)")
  case False
  let ?c = "upd (nat j) (add_row (- d)) (upd (nat i) (add_row d) cells)"
  have "fst (swap_cells cells i j d) = ?c[nat i := ?c ! nat j, nat j := ?c ! nat i]"
    using False by (simp add: swap_cells_def Let_def)
  moreover have "mset (map content (?c[nat i := ?c ! nat j, nat j := ?c ! nat i])) = mset (map content ?c)"
    using False by (simp add: mset_map mset_swap nat_less_iff)
  moreover have "map content ?c = map content cells" by (simp add: upd_content)
  ultimately show ?thesis by simp
qed (auto simp: swap_cells_def)

lemma sort_rows_content: "mset (map content (sort_rows cells)) = mset (map content cells)"
  by (simp add: sort_rows_def)

lemmas keeps_content = sort_rows_content adjust_rows_content upd_content swap_cells_content

definition same_cells :: "nb_cell multiset \<Rightarrow> nb_cell list \<Rightarrow> bool" where
  "same_cells M cells \<longleftrightarrow> mset (map content cells) = M"

lemma same_cells_steps:
  "same_cells M (sort_rows cs) \<longleftrightarrow> same_cells M cs"
  "same_cells M (adjust_row_for_cells cs n d) \<longleftrightarrow> same_cells M cs"
  "same_cells M (fst (swap_cells cs a b d)) \<longleftrightarrow> same_cells M cs"
  "same_cells M (upd i (set_col k) cs) \<longleftrightarrow> same_cells M cs"
  "same_cells M (upd i (add_row d) cs) \<longleftrightarrow> same_cells M cs"
  "same_cells M (upd i (set_row d \<circ> set_col k) cs) \<longleftrightarrow> same_cells M cs"
  "same_cells M (upd i (add_row d \<circ> set_col k) cs) \<longleftrightarrow> same_cells M cs"
  by (simp_all only: same_cells_def keeps_content content_simps o_apply)

lemma fst_if: "fst (if b then x else y) = (if b then fst x else fst y)"
  by simp

lemma same_cells_if: "same_cells M (if b then x else y) \<longleftrightarrow> (if b then same_cells M x else same_cells M y)"
  by simp

lemma fst_sort_pair: "fst (let (cs, effs) = p in (sort_rows cs, effs)) = sort_rows (fst p)"
  by (simp split: prod.split)

lemma move_cell_same: "same_cells M (fst (move_cell cells i d)) \<longleftrightarrow> same_cells M cells"
  unfolding move_cell_def fst_sort_pair Let_def [of "if _ then _ else _"]
  by (simp only: Let_def fst_if fst_conv fst_sort_pair [unfolded Let_def] same_cells_if same_cells_steps if_cancel)

lemma sorted_move: "sorted (map row_of (sort_rows cs))"
  by (simp add: sort_rows_def)

lemma sorted_if: "sorted (map row_of (if b then x else y)) \<longleftrightarrow>
    (if b then sorted (map row_of x) else sorted (map row_of y))"
  by simp

lemma move_cell_sorted: "sorted (map row_of (fst (move_cell cells i d)))"
  unfolding move_cell_def
  by (simp only: Let_def fst_if fst_conv fst_sort_pair [unfolded Let_def] sorted_if sorted_move if_cancel simp_thms)

text \<open>
  C10: Moving a cell loses, duplicates and alters none: whatever the cell and the direction,
  the cells of the notebook are the same ones up to their columns and rows, and they are in
  the order of their rows.
\<close>

theorem move_cell_permutes:
  "mset (map content (fst (move_cell cells i d))) = mset (map content cells)
   \<and> sorted (map row_of (fst (move_cell cells i d)))"
  using move_cell_same [of "mset (map content cells)" cells i d] move_cell_sorted
  by (simp add: same_cells_def)

text \<open>A notebook of full-width cells, one to a row: what it is until a width was changed.\<close>

definition stacked :: "nb_cell list \<Rightarrow> bool" where
  "stacked cells \<longleftrightarrow> map row_of cells = map (\<lambda>i. int i + 1) [0..<length cells]
     \<and> (\<forall>c \<in> set cells. col_of c = 3)"

lemma stacked_row: "stacked cells \<Longrightarrow> i < length cells \<Longrightarrow> row_of (cells ! i) = int i + 1"
proof -
  assume "stacked cells" "i < length cells"
  then have "map row_of cells ! i = map (\<lambda>i. int i + 1) [0..<length cells] ! i" by (simp add: stacked_def)
  then show "row_of (cells ! i) = int i + 1" using \<open>i < length cells\<close> by simp
qed

lemma stacked_col: "stacked cells \<Longrightarrow> i < length cells \<Longrightarrow> col_of (cells ! i) = 3"
  by (simp add: stacked_def)

lemma stacked_at_row:
  assumes "stacked cells" "j < length cells" "r = int j + 1"
  shows "filter (\<lambda>c. row_of c = r) cells = [cells ! j]"
proof -
  have c: "cells = take j cells @ cells ! j # drop (Suc j) cells"
    using assms(2) by (simp add: id_take_nth_drop)
  have "filter (\<lambda>c. row_of c = r) (take j cells) = []"
    using assms by (auto simp: filter_empty_conv in_set_conv_nth stacked_row)
  moreover have "filter (\<lambda>c. row_of c = r) (drop (Suc j) cells) = []"
    using assms by (auto simp: filter_empty_conv in_set_conv_nth stacked_row)
  moreover have "row_of (cells ! j) = r" using assms by (simp add: stacked_row)
  ultimately show ?thesis by (subst c) simp
qed

text \<open>The two cells of a swap, seen from the cells around them.\<close>

lemma split_at_pair:
  assumes "Suc i < length cells"
  shows "cells = take i cells @ [cells ! i, cells ! Suc i] @ drop (Suc (Suc i)) cells"
proof -
  have "drop i cells = cells ! i # cells ! Suc i # drop (Suc (Suc i)) cells"
    using assms by (simp add: Cons_nth_drop_Suc [symmetric])
  then show ?thesis using append_take_drop_id [of i cells] by simp
qed

lemma swap_cells_pair:
  assumes "length pre = i"
  shows "swap_cells (pre @ [a, b] @ post) (int i) (int i + 1) d
    = (pre @ [add_row (- d) b, add_row d a] @ post, [])"
  using assms by (simp add: swap_cells_def upd_def Let_def nth_append list_update_append nat_add_distrib)

lemma move_cell_swaps:
  assumes "row_of (cells ! i) \<noteq> 0" and "cells \<noteq> []" and "is_valid_range (int i) d (length cells)"
    and "filter (\<lambda>c. row_of c = row_of (cells ! i) + d) cells = ns" and "ns \<noteq> []"
    and "3 \<le> sum_list (map col_of ns)"
  shows "move_cell cells i d =
    (sort_rows (fst (swap_cells cells (int i) (int i + 1) d)), snd (swap_cells cells (int i) (int i + 1) d))"
  using assms by (simp add: move_cell_def case_prod_unfold Let_def)

text \<open>Where both neighbours of the row before and after are full, a move is a swap with the cell below.\<close>

lemma move_cell_stacked:
  assumes "stacked cells" and "i < length cells" and "0 \<le> int i + d" and "int i + d < int (length cells)"
  shows "move_cell cells i d =
    (sort_rows (fst (swap_cells cells (int i) (int i + 1) d)), snd (swap_cells cells (int i) (int i + 1) d))"
proof (rule move_cell_swaps [where ns = "[cells ! nat (int i + d)]"])
  have r: "row_of (cells ! i) = int i + 1" using assms by (simp add: stacked_row)
  then show "row_of (cells ! i) \<noteq> 0" by simp
  show "filter (\<lambda>c. row_of c = row_of (cells ! i) + d) cells = [cells ! nat (int i + d)]"
    unfolding r using assms by (intro stacked_at_row) auto
  have "nat (int i + d) < length cells" using assms by simp
  then show "3 \<le> sum_list (map col_of [cells ! nat (int i + d)])"
    using assms(1) by (simp add: stacked_col)
qed (use assms in \<open>auto simp: is_valid_range_def\<close>)

lemma sorted_stacked: "stacked cells \<Longrightarrow> sorted (map row_of cells)"
  by (auto simp: stacked_def sorted_iff_nth_mono)

lemma sort_rows_sorted: "sorted (map row_of cs) \<Longrightarrow> sort_rows cs = cs"
  by (simp add: sort_rows_def sort_key_id_if_sorted)

lemma move_cell_stacked_pair:
  assumes "stacked cells" and "Suc i < length cells" and "0 \<le> int i + d" and "int i + d < int (length cells)"
  shows "move_cell cells i d =
    (sort_rows (take i cells @ [add_row (- d) (cells ! Suc i), add_row d (cells ! i)] @ drop (Suc (Suc i)) cells), [])"
proof -
  have "swap_cells cells (int i) (int i + 1) d
      = (take i cells @ [add_row (- d) (cells ! Suc i), add_row d (cells ! i)] @ drop (Suc (Suc i)) cells, [])"
    using assms(2) by (subst split_at_pair [OF assms(2)]) (rule swap_cells_pair, simp)
  with assms show ?thesis by (simp add: move_cell_stacked)
qed

lemma sort_rows_pair:
  assumes "sorted (map row_of (pre @ [a, b] @ post))" and "row_of a < row_of b"
  shows "sort_rows (pre @ [b, a] @ post) = pre @ [a, b] @ post"
  unfolding sort_rows_def using assms
  by (intro properties_for_sort_key) auto

text \<open>
  In a notebook of full-width cells, moving a cell down exchanges it with the next one,
  rows included, touches no other cell, reports nothing, and leaves such a notebook.
\<close>

theorem move_down_exchanges:
  assumes "stacked cells" and "Suc i < length cells"
  shows "move_cell cells i 1 =
      (take i cells @ [add_row (- 1) (cells ! Suc i), add_row 1 (cells ! i)] @ drop (Suc (Suc i)) cells, [])
    \<and> stacked (fst (move_cell cells i 1))"
proof -
  let ?r = "take i cells @ [add_row (- 1) (cells ! Suc i), add_row 1 (cells ! i)] @ drop (Suc (Suc i)) cells"
  have "map row_of cells = map row_of (take i cells @ [cells ! i, cells ! Suc i] @ drop (Suc (Suc i)) cells)"
    using split_at_pair [OF assms(2)] by simp
  then have rows: "map row_of ?r = map row_of cells"
    using assms by (simp add: stacked_row)
  have "col_of c = 3" if "c \<in> set ?r" for c
    using that assms by (auto simp: stacked_def dest: in_set_takeD in_set_dropD)
  moreover have "length ?r = length cells" using assms(2) by simp
  ultimately have st: "stacked ?r" using rows assms(1) unfolding stacked_def by metis
  moreover have "move_cell cells i 1 = (sort_rows ?r, [])"
    using assms by (simp add: move_cell_stacked_pair)
  ultimately show ?thesis by (simp only: sort_rows_sorted [OF sorted_stacked [OF st]] fst_conv)
qed

definition sample_cell :: "string \<Rightarrow> int \<Rightarrow> int \<Rightarrow> nb_cell" where
  "sample_cell i k r = \<lparr>c_id = Some i, c_title = i, c_source = JNull, c_pivots = None, c_notebook = ''n'',
     c_check = False, c_snapshot = None, c_pos = \<lparr>p_col = k, p_height = 0, p_row = r\<rparr>\<rparr>"

theorem move_down_exchanges_witness:
  "map c_title (fst (move_cell [sample_cell ''a'' 3 1, sample_cell ''b'' 3 2, sample_cell ''c'' 3 3] 0 1))
     = [''b'', ''a'', ''c'']"
proof -
  have "stacked [sample_cell ''a'' 3 1, sample_cell ''b'' 3 2, sample_cell ''c'' 3 3]"
    by (simp add: stacked_def sample_cell_def upt_rec)
  from move_down_exchanges [OF this, of 0] show ?thesis
    by (simp add: add_row_def sample_cell_def)
qed

text \<open>
  C11: Moving up does not move: in a notebook of full-width cells the order of the cells after
  moving any of them but the first up is the order before, since the exchange is always with the
  cell below; for the last cell, which has none below, the attempt is reported as an error and
  changes nothing. (The first cell has none above it and is outside of this property.)
\<close>

theorem move_up_keeps_order:
  assumes "stacked cells" and "0 < i" and "i < length cells"
  shows "map content (fst (move_cell cells i (- 1))) = map content cells
    \<and> (Suc i = length cells \<longrightarrow>
      move_cell cells i (- 1) = (cells, [ConsoleError ''Invalid indices provided for cell swapping.'']))"
proof (intro conjI impI)
  have last: "move_cell cells i (- 1) = (cells, [ConsoleError ''Invalid indices provided for cell swapping.''])"
    if "Suc i = length cells"
    using assms that sort_rows_sorted [OF sorted_stacked [OF assms(1)]]
    by (simp add: move_cell_stacked swap_cells_def)
  then show "Suc i = length cells \<Longrightarrow>
      move_cell cells i (- 1) = (cells, [ConsoleError ''Invalid indices provided for cell swapping.''])" .
  show "map content (fst (move_cell cells i (- 1))) = map content cells"
  proof (cases "Suc i < length cells")
    case False
    with assms last show ?thesis by simp
  next
    case True
    let ?a = "add_row (- 1) (cells ! i)" and ?b = "add_row 1 (cells ! Suc i)"
    let ?l = "take i cells @ [?a, ?b] @ drop (Suc (Suc i)) cells"
    have "row_of (?l ! j) = (if j = i then int i else if j = Suc i then int i + 3 else int j + 1)"
      if "j < length cells" for j
      using that True assms(1) by (auto simp: nth_append nth_Cons' stacked_row)
    then have "sorted (map row_of ?l)" using True
      by (auto simp: sorted_iff_nth_mono simp del: map_append append_Cons)
    moreover have "row_of ?a < row_of ?b" using True assms(1) by (simp add: stacked_row)
    ultimately have "sort_rows (take i cells @ [?b, ?a] @ drop (Suc (Suc i)) cells) = ?l"
      by (rule sort_rows_pair)
    with True assms have "fst (move_cell cells i (- 1)) = ?l"
      by (simp add: move_cell_stacked_pair)
    moreover have "map content cells
        = map content (take i cells @ [cells ! i, cells ! Suc i] @ drop (Suc (Suc i)) cells)"
      using split_at_pair [OF True] by (rule arg_cong)
    ultimately show ?thesis by simp
  qed
qed

theorem move_up_keeps_order_witness:
  "map content (fst (move_cell [sample_cell ''a'' 3 1, sample_cell ''b'' 3 2, sample_cell ''c'' 3 3] 1 (- 1)))
     = map content [sample_cell ''a'' 3 1, sample_cell ''b'' 3 2, sample_cell ''c'' 3 3]"
  by (rule move_up_keeps_order [THEN conjunct1]) (simp_all add: stacked_def sample_cell_def upt_rec)

section \<open>Sizes\<close>

lemma adjust_width_range:
  "0 \<le> col_of c \<Longrightarrow> col_of c \<le> 3 \<Longrightarrow> 1 \<le> col_of (adjust_width g c) \<and> col_of (adjust_width g c) \<le> 3"
  by (simp add: adjust_width_def Let_def)

lemma p_height_set [simp]: "p_height (c_pos (set_height h c)) = h"
  by (simp add: set_height_def)

lemma set_height_twice [simp]: "set_height h (set_height k c) = set_height h c"
  by (simp add: set_height_def)

lemma set_height_same: "p_height (c_pos c) = h \<Longrightarrow> set_height h c = c"
  by (auto simp: set_height_def)

lemma height_cases:
  "(h :: int) \<in> set height_ranges \<longleftrightarrow> h = 6 \<or> h = 20 \<or> h = 28 \<or> h = 36 \<or> h = 44 \<or> h = 56"
  by (simp add: height_ranges_def)

lemma adjust_height_range:
  assumes "p_height (c_pos c) \<in> insert 0 (set height_ranges)"
  shows "p_height (c_pos (adjust_height g c)) \<in> set height_ranges"
proof -
  have "p_height (c_pos c) = 0 \<or> p_height (c_pos c) \<in> set height_ranges" using assms by simp
  then show ?thesis unfolding height_cases
    by (elim disjE; simp add: adjust_height_def height_ranges_def; fail)
qed

lemma adjust_height_undo:
  assumes "p_height (c_pos c) \<in> set (butlast height_ranges)"
  shows "adjust_height False (adjust_height True c) = c"
proof -
  let ?h = "p_height (c_pos c)"
  have "?h = 6 \<or> ?h = 20 \<or> ?h = 28 \<or> ?h = 36 \<or> ?h = 44" using assms by (simp add: height_ranges_def)
  then show ?thesis
    by (elim disjE; simp add: adjust_height_def height_ranges_def set_height_same; fail)
qed

text \<open>
  Sizes stay in range: from a width of 0 (unset) to 3 the width becomes 1 to 3, and from an
  unset height or one of the list the height becomes one of the list; and growing a cell whose
  height is in the list and not the last, then shrinking it, gives the cell back.
\<close>

theorem sizes_stay_in_range:
  "(0 \<le> col_of c \<longrightarrow> col_of c \<le> 3 \<longrightarrow> 1 \<le> col_of (adjust_width g c) \<and> col_of (adjust_width g c) \<le> 3)
   \<and> (p_height (c_pos c) \<in> insert 0 (set height_ranges) \<longrightarrow>
        p_height (c_pos (adjust_height g c)) \<in> set height_ranges)
   \<and> (p_height (c_pos c) \<in> set (butlast height_ranges) \<longrightarrow>
        adjust_height False (adjust_height True c) = c)"
  using adjust_width_range [of c g] adjust_height_range [of c g] adjust_height_undo [of c] by blast

theorem sizes_stay_in_range_witness:
  "col_of (adjust_width True (sample_cell ''a'' 3 1)) = 3
   \<and> p_height (c_pos (adjust_height True (sample_cell ''a'' 3 1))) \<in> set height_ranges"
proof -
  have w: "col_of (adjust_width True (sample_cell ''a'' 3 1)) \<le> 3"
    using sizes_stay_in_range [of "sample_cell ''a'' 3 1" True] by (simp add: sample_cell_def)
  have "p_height (c_pos (adjust_height True (sample_cell ''a'' 3 1))) \<in> set height_ranges"
    using sizes_stay_in_range [of "sample_cell ''a'' 3 1" True] by (simp add: sample_cell_def)
  moreover have "col_of (adjust_width True (sample_cell ''a'' 3 1)) = 3"
    by (simp add: adjust_width_def sample_cell_def)
  ultimately show ?thesis by simp
qed

section \<open>Saving\<close>

fun is_save :: "effect \<Rightarrow> bool" where
  "is_save (Fetch r) = (req_url r = ''/api/notebook?action=save'')"
| "is_save _ = False"

definition save_request :: "notebook \<Rightarrow> effect" where
  "save_request n = Fetch (post_json ''/api/notebook?action=save'' (notebook_json n))"

text \<open>An operation leaves the notebook, or gives a notebook of the next revision and saves that.\<close>

definition saved_change :: "body_state \<Rightarrow> body_state \<times> effect list \<Rightarrow> bool" where
  "saved_change s r \<longleftrightarrow>
     (nb (fst r) = nb s \<and> filter is_save (snd r) = []
      \<or> nb_rev (nb (fst r)) = nb_rev (nb s) + 1 \<and> filter is_save (snd r) = [save_request (nb (fst r))])"

lemma saved_change_keep: "nb t = nb s \<Longrightarrow> filter is_save effs = [] \<Longrightarrow> saved_change s (t, effs)"
  by (simp add: saved_change_def)

lemma saved_change_save: "nb_rev (nb t) = nb_rev (nb s) \<Longrightarrow> saved_change s (save_notebook t)"
  by (simp add: saved_change_def save_notebook_def Let_def save_request_def)

lemma saved_change_effs:
  "saved_change s (t, effs) \<Longrightarrow> filter is_save pre = [] \<Longrightarrow> saved_change s (t, pre @ effs)"
  by (simp add: saved_change_def)

lemma nb_rev_with_cells [simp]: "nb_rev (nb (with_cells f s)) = nb_rev (nb s)"
  by (simp add: with_cells_def)

lemma swap_cells_no_save: "filter is_save (snd (swap_cells cells a b d)) = []"
  by (simp add: swap_cells_def Let_def)

lemma snd_if: "snd (if b then x else y) = (if b then snd x else snd y)"
  by simp

lemma filter_if: "filter p (if b then x else y) = (if b then filter p x else filter p y)"
  by simp

lemma move_cell_no_save: "filter is_save (snd (move_cell cells i d)) = []"
  using swap_cells_no_save
  by (simp only: move_cell_def Let_def case_prod_unfold snd_if snd_conv filter_if filter.simps if_cancel)

lemma adjust_cell_saves: "saved_change s (adjust_cell a m i s)"
proof -
  let ?t = "s\<lparr>opened_menu := None\<rparr>" and ?cells = "nb_cells (nb s)"
  define p where "p = (if a = ''up'' then move_cell ?cells i (-1)
             else if a = ''down'' then move_cell ?cells i 1
             else if a = ''width'' then (upd i (adjust_width m) ?cells, [])
             else if a = ''height'' then (upd i (adjust_height m) ?cells, []) else (?cells, []))"
  define q where "q = save_notebook (with_cells (\<lambda>_. fst p) ?t)"
  have "adjust_cell a m i s = (fst q, snd p @ snd q)"
    unfolding adjust_cell_def p_def q_def case_prod_unfold Let_def by simp
  moreover have "saved_change s (fst q, snd q)" unfolding q_def prod.collapse
    by (rule saved_change_save) simp
  moreover have "filter is_save (snd p) = []" by (simp add: p_def move_cell_no_save)
  ultimately show ?thesis by (simp add: saved_change_effs)
qed

lemma remove_cell_saves: "saved_change s (remove_cell i b s)"
proof (cases "i = None \<or> i = Some [] \<or> \<not> b")
  case True
  then show ?thesis by (auto simp: remove_cell_def saved_change_def split: option.splits)
next
  case False
  then obtain j where j: "i = Some j" "j \<noteq> []" "b" by auto
  let ?q = "save_notebook (with_cells (filter (\<lambda>c. c_id c \<noteq> Some j)) s)"
  have "saved_change s (fst ?q, snd ?q)" unfolding prod.collapse by (rule saved_change_save) simp
  from saved_change_effs [OF this, of "[ConfirmDialog ''Are you sure you want to delete this cell?'']"]
  show ?thesis using j by (simp add: remove_cell_def case_prod_unfold Let_def)
qed

lemma export_no_save: "filter is_save (export_notebook s) = []"
  by (simp add: export_notebook_def split: option.split)

lemma create_cell_saves: "saved_change s (create_cell d s)"
  by (auto simp: create_cell_def intro: saved_change_keep saved_change_save split: option.split)

lemma create_from_event_saves: "saved_change s (create_from_event closes d s)"
  using create_cell_saves [of s d]
  by (auto simp: create_from_event_def case_prod_unfold Let_def saved_change_def close_panels_def)

text \<open>
  C12: No change is lost and none is saved twice: whatever the user does (moving, sizing, deleting
  or creating a cell, the title, the flags, snapshots, menus, panels), either the notebook is
  what it was and nothing is saved, or its revision is the next one and exactly one save is
  sent, with the notebook as it is after the change.
\<close>

theorem changes_are_saved_once:
  "saved_change s (nb_click a m s) \<and> saved_change s (set_title t s)
   \<and> saved_change s (create_from_event closes d s)"
proof (intro conjI)
  show "saved_change s (nb_click a m s)"
    by (cases a)
      (auto simp: adjust_cell_saves remove_cell_saves toggle_urgent_def toggle_resolved_def export_no_save
        fetch_snapshots_def save_snapshot_def open_data_source_panel_def open_search_panel_def close_panels_def
        intro!: saved_change_save saved_change_keep split: option.split list.split)
  show "saved_change s (set_title t s)" by (simp add: set_title_def saved_change_save)
qed (rule create_from_event_saves)

section \<open>Creating, duplicating and removing cells\<close>

lemma stacked_append:
  assumes "stacked cells" and "row_of c = int (length cells) + 1" and "col_of c = 3"
  shows "stacked (cells @ [c])"
  using assms by (simp add: stacked_def)

text \<open>
  A new cell comes last: what is created is one cell with the data of the event on the row
  below the others, so a notebook of full-width cells stays one; it has no id, so nothing is
  rendered for it until the notebook was read again; an event without data changes nothing.
\<close>

theorem created_cell_comes_last:
  "(stacked (nb_cells (nb s)) \<longrightarrow> stacked (nb_cells (nb (fst (create_cell d s)))))
   \<and> (d = None \<longrightarrow> fst (create_cell d s) = s)
   \<and> (\<forall>x. d = Some x \<longrightarrow>
        nb_cells (nb (fst (create_cell d s))) = nb_cells (nb s) @ [new_cell x (nb s)]
        \<and> c_source (new_cell x (nb s)) = data_source x \<and> c_title (new_cell x (nb s)) = data_title x
        \<and> (\<forall>a e ld i. render_cell a e ld (fst (create_cell d s)) i (new_cell x (nb s)) = Nothing))"
  by (auto simp: create_cell_def save_notebook_def with_cells_def new_cell_def render_cell_def Let_def
      intro!: stacked_append split: option.split)

definition sample_notebook :: "nb_cell list \<Rightarrow> notebook" where
  "sample_notebook cs = \<lparr>nb_id = ''n'', nb_title = ''t'', nb_rev = 4, nb_urgent = False,
     nb_resolved = False, nb_created = ''2024'', nb_cells = cs\<rparr>"

definition sample_body :: "nb_cell list \<Rightarrow> body_state" where
  "sample_body cs = \<lparr>notebook_id = ''n'', nb = sample_notebook cs, panel = ''none'', pivots = [],
     opened_menu = None, snapshot_menu = False, snapshots = [], adjust_flag = False\<rparr>"

theorem created_cell_comes_last_witness:
  "stacked (nb_cells (nb (fst (create_cell (Some \<lparr>data_source = JStr ''s'', data_title = ''u''\<rparr>)
     (sample_body [sample_cell ''a'' 3 1, sample_cell ''b'' 3 2])))))"
  by (rule created_cell_comes_last [THEN conjunct1, rule_format])
    (simp add: sample_body_def sample_notebook_def sample_cell_def stacked_def upt_rec)

text \<open>
  Dragging a cell from the overview onto the cells duplicates it: whatever else the drop
  carries, a cell with a data source arrives with that source and its title (\<open>cell\<close> when it
  has none), whichever notebook it is dropped on.
\<close>

theorem dragged_cell_is_duplicated:
  assumes "drag_cell_start (Some t) i s = Inr t'" and "truthy (c_source (nb_cells (nb s) ! i))"
  shows "cell_data_from_drop (Some (transfer.extend t' \<lparr>dt_items = items, dt_files = files\<rparr>)) s2
    = ([], DropData (Some \<lparr>data_source = c_source (nb_cells (nb s) ! i),
         data_title = str_or (c_title (nb_cells (nb s) ! i)) ''cell''\<rparr>))"
proof -
  let ?ev = "Some (transfer.extend t' \<lparr>dt_items = items, dt_files = files\<rparr>)"
  let ?c = "nb_cells (nb s) ! i"
  have d: "dt_data t' = [(cell_data_format, Parses (cell_json ?c))]"
    using assms(1) by (auto simp: drag_cell_start_def set_cell_drag_data_def)
  then have "has_cell_data ?ev" and "get_cell_drag_data ?ev = Inr (Some (cell_json ?c))"
    by (simp_all add: has_cell_data_def get_cell_drag_data_def transfer.defs)
  moreover have "jget (cell_json ?c) ''DataSource'' = Some (c_source ?c)"
    and "cell_title_or (cell_json ?c) = str_or (c_title ?c) ''cell''"
    by (simp_all add: cell_json_def cell_title_or_def str_or_def split: list.split)
  ultimately show ?thesis using assms(2) by (simp add: cell_data_from_drop_def)
qed
theorem dragged_cell_is_duplicated_witness:
  "cell_data_from_drop (Some \<lparr>dt_data = [(cell_data_format, Parses (cell_json ((sample_cell ''a'' 3 1)\<lparr>c_source := JStr ''s''\<rparr>)))],
       effect_allowed = ''copy'', drag_image = None, dt_items = None, dt_files = []\<rparr>) (sample_body [])
    = ([], DropData (Some \<lparr>data_source = JStr ''s'', data_title = ''a''\<rparr>))"
  using dragged_cell_is_duplicated [of "\<lparr>dt_data = [], effect_allowed = [], drag_image = None\<rparr>" 0
      "sample_body [(sample_cell ''a'' 3 1)\<lparr>c_source := JStr ''s''\<rparr>]"
      "\<lparr>dt_data = [(cell_data_format, Parses (cell_json ((sample_cell ''a'' 3 1)\<lparr>c_source := JStr ''s''\<rparr>)))],
         effect_allowed = ''copy'', drag_image = None\<rparr>" None "[]" "sample_body []"]
  by (simp add: drag_cell_start_def set_cell_drag_data_def sample_body_def sample_notebook_def sample_cell_def
      str_or_def transfer.defs)

text \<open>
  Deleting takes a confirmation and removes exactly the cell with the id: the other cells
  stay in their order, the request carries what is left; without confirmation, or for a cell
  that has no id, nothing changes and nothing is sent.
\<close>

theorem remove_cell_removes_exactly:
  "(let (s', effs) = remove_cell i confirmed s
    in if confirmed \<and> i \<noteq> None \<and> i \<noteq> Some []
       then nb_cells (nb s') = filter (\<lambda>c. c_id c \<noteq> i) (nb_cells (nb s))
         \<and> save_request (nb s') \<in> set effs \<and> nb s' = (nb s)\<lparr>nb_cells := nb_cells (nb s'), nb_rev := nb_rev (nb s) + 1\<rparr>
       else s' = s \<and> filter is_save effs = [])"
  by (auto simp: remove_cell_def save_notebook_def with_cells_def save_request_def Let_def
      split: option.split)

section \<open>What is rendered\<close>

lemma concat_map_enumerate: "concat (map (\<lambda>(i, c). g c) (enumerate k xs)) = concat (map g xs)"
  by (induction xs arbitrary: k) auto

lemma ui_tagged_cells:
  "concat (map (ui_tagged t) (map (\<lambda>(i, c). f i c) (enumerate k xs)))
     = concat (map (\<lambda>(i, c). ui_tagged t (f i c)) (enumerate k xs))"
  by (induction xs arbitrary: k) auto

lemma no_data_in_menu: "ui_tagged ''wt-data'' (cell_menu a e ld s i c) = []"
  by (simp add: cell_menu_def adjust_cell_menu_def snapshot_and_enforce_def map_idI comp_def
      split: option.split)

fun cell_element :: "nb_cell \<Rightarrow> (string \<times> string) list" where
  "cell_element c = (case c_id c of Some (x # xs) \<Rightarrow> [(x # xs, show_json (cell_json c))] | _ \<Rightarrow> [])"

definition element_of :: "'a ui \<Rightarrow> string \<times> string" where
  "element_of u = (the (ui_attr ''id'' u), the (ui_attr ''manifest'' u))"

lemma render_cell_data:
  "map element_of (ui_tagged ''wt-data'' (render_cell a e ld s i c)) = cell_element c"
  by (auto simp: render_cell_def no_data_in_menu element_of_def split: option.split list.split)

lemma concat_all_Nil: "(\<And>x. x \<in> set xs \<Longrightarrow> f x = []) \<Longrightarrow> concat (map f xs) = []"
  by (induction xs) auto

lemma no_data_in_overview: "ui_tagged ''wt-data'' (overview_cell s i c) = []"
  by (auto simp: overview_cell_def overview_pivot_def split: option.split)

lemma no_data_elsewhere:
  "concat (map (ui_tagged ''wt-data'') navigation_articles) = []"
  "concat (map (ui_tagged ''wt-data'') (map (\<lambda>(i, c). overview_cell s i c) (enumerate 0 cs))) = []"
  "ui_tagged ''wt-data'' (render_title f n) = []"
  "ui_tagged ''wt-data'' (render_topbar w cr n) = []"
  "concat (map (ui_tagged ''wt-data'') (render_overlay s)) = []"
  by (auto simp: navigation_articles_def render_title_def render_topbar_def render_overlay_def
      no_data_in_overview intro!: concat_all_Nil)

lemma render_cells_data:
  "map element_of (concat (map (ui_tagged ''wt-data'')
      (map (\<lambda>(i, c). render_cell a e ld s i c) (enumerate k cs)))) = concat (map cell_element cs)"
  by (induction cs arbitrary: k) (simp_all add: render_cell_data del: cell_element.simps)

lemma ui_tagged_plain:
  "t \<noteq> tag \<Longrightarrow> ui_tagged t (Elem tag as acts ks) = concat (map (ui_tagged t) ks)"
  by simp

lemma render_notebook_data:
  "ui_tagged ''wt-data'' (render_notebook a e ld fd w cr s)
    = concat (map (ui_tagged ''wt-data'')
        (map (\<lambda>(i, c). render_cell a e ld s i c) (enumerate 0 (nb_cells (nb s)))))"
  by (simp add: render_notebook_def Let_def no_data_elsewhere del: map_map)

text \<open>
  Every saved cell is on the page once: the data cells that are rendered are those of the
  notebook that have an id, in the order of the notebook, each with its id and with a manifest
  that is the whole cell as it is saved; panels, menus and the flags of features do not
  change this.
\<close>

theorem every_saved_cell_is_rendered:
  "map element_of (ui_tagged ''wt-data'' (render_notebook can_adjust can_enforce locale_date full_date owner created s))
    = concat (map cell_element (nb_cells (nb s)))"
  by (simp only: render_notebook_data render_cells_data)

end
