(* ===== verification/Utils.thy ===== *)
theory Utils
  imports Prelude
begin

text \<open>
  \<open>utils/\<close> and the small helpers of \<open>webc/\<close>: class names, rate limiting (\<open>debounce\<close>,
  \<open>throttle\<close>), feature flags, the inputs of a form, random names. What two helpers share is
  an interface: \<open>rate_limiter\<close> is what a component may rely on when it wraps a callback.
\<close>

section \<open>Class names\<close>

text \<open>A class name that is falsy (\<open>undefined\<close>, \<open>false\<close>) is \<open>None\<close>.\<close>

definition split_classes :: "string \<Rightarrow> string list" where
  "split_classes s = filter (\<lambda>c. c \<noteq> []) (map js_trim (split_on (CHR '' '') s))"

definition clsx :: "string option list \<Rightarrow> string" where
  "clsx cs = join_with '' '' (filter (\<lambda>c. c \<noteq> [])
     (List.map_filter (map_option js_trim) cs))"

text \<open>
  \<open>classList.add\<close> throws at an empty token and at one with white space in it, before it adds
  any; \<open>applyClasses\<close> does not leave the empty ones out.
\<close>

definition class_list_add :: "string list \<Rightarrow> string list \<Rightarrow> string list option" where
  "class_list_add cls ts =
     (if \<exists>t \<in> set ts. t = [] \<or> (\<exists>c \<in> set t. is_space c) then None
      else Some (fold (\<lambda>t acc. if t \<in> set acc then acc else acc @ [t]) ts cls))"

definition apply_classes :: "string list \<Rightarrow> string \<Rightarrow> string list option" where
  "apply_classes cls s = class_list_add cls (map js_trim (split_on (CHR '' '') s))"

lemma js_trim_no_space: "\<forall>c \<in> set s. \<not> is_space c \<Longrightarrow> js_trim s = s"
proof -
  assume a: "\<forall>c \<in> set s. \<not> is_space c"
  then have "dropWhile is_space s = s" by (cases s) auto
  moreover have "dropWhile is_space (rev s) = rev s" using a by (cases "rev s") (auto dest: arg_cong [of _ _ set])
  ultimately show ?thesis by (simp add: js_trim_def)
qed

section \<open>Rate limiting\<close>

text \<open>
  \<open>lastcall\<close> is \<open>undefined\<close> at first. The time is \<open>performance.now()\<close>, in units of its
  resolution; the falsy time 0 counts as never called. A call either passes, and is
  remembered, or is dropped.
\<close>

type_synonym time = nat

definition may_call :: "time \<Rightarrow> time option \<Rightarrow> time \<Rightarrow> bool" where
  "may_call timeout lastcall now =
     (case lastcall of None \<Rightarrow> True | Some t \<Rightarrow> t = 0 \<or> t + timeout < now)"

text \<open>What is to be called when: \<open>throttle\<close> calls at once, \<open>debounce\<close> after the delay.\<close>

definition throttle :: "time \<Rightarrow> time \<Rightarrow> 'a \<Rightarrow> time option \<Rightarrow> time option \<times> (time \<times> 'a) option" where
  "throttle timeout now args lastcall =
     (if may_call timeout lastcall now then (Some now, Some (now, args)) else (lastcall, None))"

definition debounce :: "time \<Rightarrow> time \<Rightarrow> 'a \<Rightarrow> time option \<Rightarrow> time option \<times> (time \<times> 'a) option" where
  "debounce timeout now args lastcall =
     (if may_call timeout lastcall now then (Some now, Some (now + timeout, args)) else (lastcall, None))"

text \<open>The runs of the callback for a sequence of calls, one state threaded through.\<close>

fun limited_calls :: "(time \<Rightarrow> 'a \<Rightarrow> 's \<Rightarrow> 's \<times> (time \<times> 'a) option) \<Rightarrow> (time \<times> 'a) list \<Rightarrow> 's
    \<Rightarrow> (time \<times> 'a) list" where
  "limited_calls call [] s = []"
| "limited_calls call ((now, a) # evs) s =
     (case call now a s of
        (s', None) \<Rightarrow> limited_calls call evs s'
      | (s', Some r) \<Rightarrow> r # limited_calls call evs s')"

text \<open>
  The interface: a call gives the new state and, when it passes, when the callback runs and
  with what; \<open>delay\<close> is the time between the two.
\<close>

locale rate_limiter =
  fixes call :: "time \<Rightarrow> 'a \<Rightarrow> 's \<Rightarrow> 's \<times> (time \<times> 'a) option"
    and last_of :: "'s \<Rightarrow> time option"
    and timeout delay :: time
  assumes passes_first: "last_of s = None \<Longrightarrow> snd (call now a s) = Some (now + delay, a)"
    and passes_late: "last_of s = Some t \<Longrightarrow> t + timeout < now \<Longrightarrow> snd (call now a s) = Some (now + delay, a)"
    and drops_early: "last_of s = Some t \<Longrightarrow> 0 < t \<Longrightarrow> now \<le> t + timeout \<Longrightarrow> call now a s = (s, None)"
    and remembers: "snd (call now a s) \<noteq> None \<Longrightarrow> last_of (fst (call now a s)) = Some now"
    and forgets_not: "snd (call now a s) = None \<Longrightarrow> fst (call now a s) = s"
    and in_order: "snd (call now a s) = Some (u, b) \<Longrightarrow> u = now + delay \<and> b = a"
begin

abbreviation calls :: "(time \<times> 'a) list \<Rightarrow> 's \<Rightarrow> (time \<times> 'a) list" where
  "calls \<equiv> limited_calls call"

lemma calls_cases:
  "calls ((now, a) # evs) s =
     (if snd (call now a s) = None then calls evs s
      else (now + delay, a) # calls evs (fst (call now a s)))"
  using forgets_not [of now a s] in_order [of now a s]
  by (auto split: prod.split option.split)

lemma calls_after:
  "\<lbrakk>last_of s = Some t; 0 < t; (u, b) \<in> set (calls evs s); \<forall>(n, a) \<in> set evs. 0 < n\<rbrakk>
     \<Longrightarrow> t + timeout + delay < u"
proof (induction evs arbitrary: s t)
  case Nil
  then show ?case by simp
next
  case (Cons e evs)
  obtain now a where e: "e = (now, a)" by (cases e)
  show ?case
  proof (cases "snd (call now a s) = None")
    case True
    have "(u, b) \<in> set (calls evs s)" using Cons.prems(3) True by (simp add: e calls_cases del: limited_calls.simps)
    with Cons.IH [of s t] Cons.prems show ?thesis by simp
  next
    case False
    have late: "t + timeout < now"
      using drops_early [of s t now a] Cons.prems(1,2) False by (metis not_le_imp_less snd_conv)
    have "(u, b) = (now + delay, a) \<or> (u, b) \<in> set (calls evs (fst (call now a s)))"
      using Cons.prems(3) False by (simp add: e calls_cases del: limited_calls.simps)
    then show ?thesis
    proof
      assume "(u, b) \<in> set (calls evs (fst (call now a s)))"
      with Cons.IH [OF remembers [OF False]] late Cons.prems(4) show ?thesis by (auto simp: e)
    qed (use late in simp)
  qed
qed

lemma calls_spaced:
  "\<forall>(n, a) \<in> set evs. 0 < n \<Longrightarrow>
     sorted_wrt (\<lambda>x y. fst x + timeout < fst y) (calls evs s)"
proof (induction evs arbitrary: s)
  case Nil
  then show ?case by simp
next
  case (Cons e evs)
  obtain now a where e: "e = (now, a)" by (cases e)
  show ?case
  proof (cases "snd (call now a s) = None")
    case True
    with Cons show ?thesis by (simp add: e calls_cases del: limited_calls.simps)
  next
    case False
    have "now + delay + timeout < fst y" if "y \<in> set (calls evs (fst (call now a s)))" for y
      using calls_after [OF remembers [OF False], of "fst y" "snd y" evs] that Cons.prems
      by (auto simp: e)
    with Cons False show ?thesis by (auto simp: e calls_cases simp del: limited_calls.simps)
  qed
qed

lemma calls_burst:
  "last_of s = Some t \<Longrightarrow> 0 < t \<Longrightarrow> \<forall>(n, a) \<in> set evs. n \<le> t + timeout \<Longrightarrow> calls evs s = []"
proof (induction evs)
  case (Cons e evs)
  then show ?case using drops_early [of s t "fst e" "snd e"] by (cases e) auto
qed simp

text \<open>No call is ignored for long: one that is dropped has one that passed at most the timeout before it.\<close>

lemma calls_cover:
  "\<lbrakk>(n, a) \<in> set evs; sorted (map fst evs); case last_of s of None \<Rightarrow> True | Some t \<Rightarrow> t + timeout < n\<rbrakk>
     \<Longrightarrow> \<exists>m b. (m + delay, b) \<in> set (calls evs s) \<and> m \<le> n \<and> n \<le> m + timeout"
proof (induction evs arbitrary: s)
  case Nil
  then show ?case by simp
next
  case (Cons e evs)
  obtain now b where e: "e = (now, b)" by (cases e)
  have le: "now \<le> n" using Cons.prems(1,2) by (auto simp: e)
  show ?case
  proof (cases "snd (call now b s) = None")
    case True
    have "(n, a) \<noteq> (now, b)"
      using True Cons.prems(3) passes_first [of s now b] passes_late [of s _ now b] by (auto split: option.splits)
    then have "(n, a) \<in> set evs" using Cons.prems(1) by (auto simp: e)
    with Cons.IH [of s] Cons.prems(2,3)
    have "\<exists>m b. (m + delay, b) \<in> set (calls evs s) \<and> m \<le> n \<and> n \<le> m + timeout" by simp
    with True show ?thesis by (simp add: e calls_cases del: limited_calls.simps)
  next
    case False
    show ?thesis
    proof (cases "n \<le> now + timeout")
      case True
      with False le show ?thesis by (auto simp: e calls_cases simp del: limited_calls.simps)
    next
      case late: False
      then have "(n, a) \<in> set evs" using Cons.prems(1) by (auto simp: e)
      with Cons.IH [of "fst (call now b s)"] Cons.prems(2) remembers [OF False] late
      have "\<exists>m c. (m + delay, c) \<in> set (calls evs (fst (call now b s))) \<and> m \<le> n \<and> n \<le> m + timeout"
        by (simp add: e)
      with False show ?thesis by (auto simp: e calls_cases simp del: limited_calls.simps)
    qed
  qed
qed

lemma first_passes: "last_of s = None \<Longrightarrow> calls ((now, a) # evs) s \<noteq> []"
  using passes_first [of s now a] by (simp add: calls_cases del: limited_calls.simps)

end

interpretation throttled: rate_limiter "throttle w" "\<lambda>l. l" w 0
  for w
  by unfold_locales (auto simp: throttle_def may_call_def split: if_splits)

interpretation debounced: rate_limiter "debounce w" "\<lambda>l. l" w w
  for w
  by unfold_locales (auto simp: debounce_def may_call_def split: if_splits)

text \<open>
  C36: A throttled callback runs at times more than the timeout apart, and no call waits for
  long: whenever it is called, in the order of time and from the fresh state, a call ran at
  most the timeout before. (At the time 0 the record of the last call reads as none.)
\<close>

theorem throttle_limits_rate:
  assumes "sorted (map fst evs)" and "\<forall>(n, a) \<in> set evs. 0 < n"
  shows "sorted_wrt (\<lambda>x y. fst x + w < fst y) (limited_calls (throttle w) evs None)
    \<and> (\<forall>(n, a) \<in> set evs. \<exists>(m, b) \<in> set (limited_calls (throttle w) evs None). m \<le> n \<and> n \<le> m + w)"
proof
  show "sorted_wrt (\<lambda>x y. fst x + w < fst y) (limited_calls (throttle w) evs None)"
    by (rule throttled.calls_spaced [OF assms(2)])
  show "\<forall>(n, a) \<in> set evs. \<exists>(m, b) \<in> set (limited_calls (throttle w) evs None). m \<le> n \<and> n \<le> m + w"
  proof clarify
    fix n a assume "(n, a) \<in> set evs"
    from throttled.calls_cover [OF this assms(1), where s = None and w = w]
    show "\<exists>(m, b) \<in> set (limited_calls (throttle w) evs None). m \<le> n \<and> n \<le> m + w" by force
  qed
qed

theorem throttle_limits_rate_witness:
  "\<exists>(m, b) \<in> set (limited_calls (throttle 10) [(1, ''a''), (5, ''b''), (12, ''c'')] None). m \<le> 5 \<and> 5 \<le> m + 10"
proof -
  have "\<forall>(n, a) \<in> set [(1, ''a''), (5, ''b''), (12, ''c'')].
      \<exists>(m, b) \<in> set (limited_calls (throttle 10) [(1, ''a''), (5, ''b''), (12, ''c'')] None). m \<le> n \<and> n \<le> m + 10"
    by (rule throttle_limits_rate [THEN conjunct2]) simp_all
  then show ?thesis by (rule ballE [of _ _ "(5, ''b'')"]) simp_all
qed

text \<open>
  A debounced burst runs once, with the arguments of its first call: calls that come within
  the timeout after the first run nothing of their own, and the run is the timeout after the
  first call, not after the last.
\<close>

theorem debounce_runs_first_of_burst:
  assumes "0 < n" and "\<forall>(m, b) \<in> set evs. m \<le> n + w"
  shows "limited_calls (debounce w) ((n, a) # evs) None = [(n + w, a)]"
proof -
  have "limited_calls (debounce w) evs (Some n) = []"
    by (rule debounced.calls_burst) (use assms in auto)
  then show ?thesis by (simp add: debounce_def may_call_def)
qed

theorem debounce_runs_first_of_burst_witness:
  "limited_calls (debounce 100) [(1, ''k''), (40, ''ke''), (90, ''key'')] None = [(101, ''k'')]"
  using debounce_runs_first_of_burst [of 1 "[(40, ''ke''), (90, ''key'')]" 100 "''k''"] by simp

end
