(* ===== verification/Flags.thy ===== *)
theory Flags
  imports Prelude
begin

text \<open>
  \<open>utils/flags.js\<close>: the feature flags of the server are read once, by a \<open>HEAD\<close> request, and
  kept. The module's two variables are the state; a call of \<open>hasFlag\<close> or \<open>listFlags\<close> is
  numbered, the first that finds no flags sends the request and waits for its response, the
  others wait for the promise \<open>singleflight\<close>. The executor of that promise ignores its
  \<open>resolve\<close>, and the \<open>res()\<close> at the end calls the empty function.
\<close>

datatype flag_query = HasFlag string | ListFlags

datatype flag_answer = IsSet bool | AllFlags "string list" | Rejected

record flag_state =
  flags :: "string list option"
  in_flight :: bool
  leader :: "(nat \<times> flag_query) option"
  stuck :: "(nat \<times> flag_query) list"
  answered :: "(nat \<times> flag_answer) list"
  head_requests :: nat

definition initial_flags :: flag_state where
  "initial_flags = \<lparr>flags = None, in_flight = False, leader = None, stuck = [], answered = [], head_requests = 0\<rparr>"

text \<open>\<open>name in flags\<close> looks at what the object inherits as well.\<close>

definition object_prototype :: "string list" where
  "object_prototype = [''constructor'', ''__defineGetter__'', ''__defineSetter__'', ''hasOwnProperty'',
     ''__lookupGetter__'', ''__lookupSetter__'', ''isPrototypeOf'', ''propertyIsEnumerable'', ''toString'',
     ''valueOf'', ''__proto__'', ''toLocaleString'']"

definition flag_in :: "string \<Rightarrow> string list \<Rightarrow> bool" where
  "flag_in nm fs \<longleftrightarrow> nm \<in> set fs \<or> nm \<in> set object_prototype"

definition answer_query :: "flag_query \<Rightarrow> string list \<Rightarrow> flag_answer" where
  "answer_query q fs = (case q of HasFlag nm \<Rightarrow> IsSet (flag_in nm fs) | ListFlags \<Rightarrow> AllFlags fs)"

text \<open>The header, absent or empty, is split at its commas; no name is left out or trimmed.\<close>

definition read_flags :: "string option \<Rightarrow> string list" where
  "read_flags header = remdups (split_on (CHR '','') (case header of None \<Rightarrow> [] | Some h \<Rightarrow> h))"

definition has_flag :: "nat \<Rightarrow> flag_query \<Rightarrow> flag_state \<Rightarrow> flag_state" where
  "has_flag n q s =
     (case flags s of
        Some fs \<Rightarrow> s\<lparr>answered := answered s @ [(n, answer_query q fs)]\<rparr>
      | None \<Rightarrow>
          if in_flight s then s\<lparr>stuck := stuck s @ [(n, q)]\<rparr>
          else s\<lparr>in_flight := True, leader := Some (n, q), head_requests := head_requests s + 1\<rparr>)"

text \<open>The response, or its failure, continues the call that waits for it.\<close>

definition info_arrived :: "string option \<Rightarrow> flag_state \<Rightarrow> flag_state" where
  "info_arrived header s =
     (case leader s of
        None \<Rightarrow> s
      | Some (n, q) \<Rightarrow>
          s\<lparr>flags := Some (read_flags header), leader := None,
            answered := answered s @ [(n, answer_query q (read_flags header))]\<rparr>)"

definition info_failed :: "flag_state \<Rightarrow> flag_state" where
  "info_failed s =
     (case leader s of
        None \<Rightarrow> s
      | Some (n, q) \<Rightarrow> s\<lparr>leader := None, answered := answered s @ [(n, Rejected)]\<rparr>)"

datatype flag_event = Ask nat flag_query | InfoArrived "string option" | InfoFailed

fun flag_step :: "flag_event \<Rightarrow> flag_state \<Rightarrow> flag_state" where
  "flag_step (Ask n q) s = has_flag n q s"
| "flag_step (InfoArrived h) s = info_arrived h s"
| "flag_step InfoFailed s = info_failed s"

abbreviation flag_run :: "flag_event list \<Rightarrow> flag_state" where
  "flag_run evs \<equiv> fold flag_step evs initial_flags"

fun asks :: "flag_event list \<Rightarrow> (nat \<times> flag_query) list" where
  "asks [] = []"
| "asks (Ask n q # evs) = (n, q) # asks evs"
| "asks (_ # evs) = asks evs"

lemma asks_append: "asks (xs @ ys) = asks xs @ asks ys"
  by (induction xs rule: asks.induct) auto

text \<open>
  What holds in every state: at most one request was ever sent, and it was sent for the leader;
  without a request nobody waits.
\<close>

definition flags_ok :: "flag_state \<Rightarrow> bool" where
  "flags_ok s \<longleftrightarrow> head_requests s = (if in_flight s then 1 else 0)
     \<and> (flags s \<noteq> None \<longrightarrow> in_flight s \<and> leader s = None)
     \<and> (leader s \<noteq> None \<longrightarrow> in_flight s)
     \<and> (stuck s \<noteq> [] \<longrightarrow> in_flight s)"

lemma flag_step_ok: "flags_ok s \<Longrightarrow> flags_ok (flag_step e s)"
  by (cases e) (auto simp: flags_ok_def has_flag_def info_arrived_def info_failed_def split: option.splits)

lemma fold_step_ok: "flags_ok s \<Longrightarrow> flags_ok (fold flag_step evs s)"
  by (induction evs arbitrary: s) (simp_all add: flag_step_ok)

lemma flag_run_ok: "flags_ok (flag_run evs)"
  by (rule fold_step_ok) (simp add: flags_ok_def initial_flags_def)

text \<open>Every call is answered, waiting for the response, or stuck, and it is one of these once.\<close>

definition accounted :: "flag_state \<Rightarrow> nat list" where
  "accounted s = map fst (answered s) @ map fst (stuck s) @ (case leader s of None \<Rightarrow> [] | Some (n, _) \<Rightarrow> [n])"

lemma flag_step_accounted:
  "set (accounted (flag_step e s)) \<subseteq> set (accounted s) \<union> set (map fst (asks [e]))"
  "flags_ok s \<Longrightarrow> distinct (accounted s @ map fst (asks [e])) \<Longrightarrow> distinct (accounted (flag_step e s))"
  by (cases e; auto simp: accounted_def flags_ok_def has_flag_def info_arrived_def info_failed_def split: option.splits)+

lemma stuck_grows: "set (stuck s) \<subseteq> set (stuck (flag_step e s))"
  by (cases e) (auto simp: has_flag_def info_arrived_def info_failed_def split: option.splits)

lemma fold_stuck_grows: "set (stuck s) \<subseteq> set (stuck (fold flag_step evs s))"
proof (induction evs arbitrary: s)
  case (Cons e evs)
  from stuck_grows [of s e] Cons [of "flag_step e s"] show ?case by auto
qed simp

lemma fold_accounted:
  "flags_ok s \<Longrightarrow> distinct (accounted s @ map fst (asks evs)) \<Longrightarrow> distinct (accounted (fold flag_step evs s))"
proof (induction evs arbitrary: s)
  case (Cons e evs)
  have a: "asks (e # evs) = asks [e] @ asks evs" using asks_append [of "[e]" evs] by simp
  have "distinct (accounted (flag_step e s))"
    by (rule flag_step_accounted) (use Cons.prems a in auto)
  then have "distinct (accounted (flag_step e s) @ map fst (asks evs))"
    using flag_step_accounted(1) [of e s] Cons.prems(2)
    unfolding a map_append distinct_append set_append by blast
  with Cons flag_step_ok show ?case by simp
qed simp

text \<open>
  The flags are requested once: in every run at most one request is sent, exactly one as soon
  as there was a question, and a question gets at most one answer when the calls are numbered
  apart.
\<close>

theorem flags_are_requested_once:
  "head_requests (flag_run evs) = (if asks evs = [] then 0 else 1)
   \<and> (distinct (map fst (asks evs)) \<longrightarrow> distinct (map fst (answered (flag_run evs))))"
proof
  have "in_flight (fold flag_step es s) \<longleftrightarrow> in_flight s \<or> asks es \<noteq> []" if "flags_ok s" for es s
    using that
  proof (induction es arbitrary: s)
    case (Cons e es)
    have "in_flight (flag_step e s) \<longleftrightarrow> in_flight s \<or> asks [e] \<noteq> []" using Cons.prems
      by (cases e) (auto simp: flags_ok_def has_flag_def info_arrived_def info_failed_def split: option.splits)
    moreover have "asks (e # es) = asks [e] @ asks es" using asks_append [of "[e]" es] by simp
    ultimately show ?case using Cons.IH [OF flag_step_ok [OF Cons.prems]] by simp
  qed simp
  from this [of initial_flags evs]
  have "in_flight (flag_run evs) \<longleftrightarrow> asks evs \<noteq> []" by (simp add: flags_ok_def initial_flags_def)
  with flag_run_ok [of evs] show "head_requests (flag_run evs) = (if asks evs = [] then 0 else 1)"
    by (simp add: flags_ok_def)
  show "distinct (map fst (asks evs)) \<longrightarrow> distinct (map fst (answered (flag_run evs)))"
    using fold_accounted [of initial_flags evs]
    by (simp add: accounted_def flags_ok_def initial_flags_def)
qed

theorem flags_are_requested_once_witness:
  "distinct (map fst (answered (flag_run [Ask 1 (HasFlag ''a''), InfoArrived (Some ''a,b''), Ask 2 ListFlags])))"
  by (rule flags_are_requested_once [THEN conjunct2, rule_format]) simp

text \<open>
  Two components that ask for a flag before the first answer is there: the second never gets
  one. Whatever happens afterwards (the response, other questions, failures), a question that
  came while the request was in flight stays without an answer.
\<close>

theorem early_question_starves:
  assumes "flags (flag_run before) = None" and "in_flight (flag_run before)"
    and "distinct (map fst (asks (before @ [Ask n q] @ after)))"
  shows "n \<notin> set (map fst (answered (flag_run (before @ [Ask n q] @ after))))"
proof -
  let ?s = "flag_run (before @ [Ask n q])"
  have "(n, q) \<in> set (stuck ?s)" using assms(1,2) by (simp add: has_flag_def)
  with fold_stuck_grows [of ?s after] have "(n, q) \<in> set (stuck (flag_run (before @ [Ask n q] @ after)))" by auto
  moreover have "distinct (accounted (flag_run (before @ [Ask n q] @ after)))"
    using assms(3) by (intro fold_accounted) (simp_all add: flags_ok_def initial_flags_def accounted_def)
  ultimately show ?thesis by (force simp: accounted_def)
qed

theorem early_question_starves_witness:
  "2 \<notin> set (map fst (answered (flag_run ([Ask 1 (HasFlag ''adjust-cell'')] @ [Ask 2 (HasFlag ''snapshot-and-enforce'')]
     @ [InfoArrived (Some ''adjust-cell''), Ask 3 ListFlags]))))"
  by (rule early_question_starves) (simp_all add: has_flag_def initial_flags_def)

text \<open>
  What the leader and every later question get is right: the answer is whether the name is
  one of the comma separated names of the header, or a name that every object inherits.
\<close>

theorem flags_answered_from_header:
  assumes "leader (flag_run before) = Some (n, HasFlag nm)"
  shows "(n, IsSet (nm \<in> set (split_on (CHR '','') h) \<or> nm \<in> set object_prototype))
      \<in> set (answered (flag_run (before @ [InfoArrived (Some h)])))
    \<and> (m, IsSet (nm2 \<in> set (split_on (CHR '','') h) \<or> nm2 \<in> set object_prototype))
      \<in> set (answered (flag_run (before @ [InfoArrived (Some h), Ask m (HasFlag nm2)])))"
  using assms by (simp add: info_arrived_def has_flag_def answer_query_def flag_in_def read_flags_def)

theorem flags_answered_from_header_witness:
  "(1, IsSet True) \<in> set (answered (flag_run ([Ask 1 (HasFlag ''b'')] @ [InfoArrived (Some ''a,b'')])))"
  using flags_answered_from_header [of "[Ask 1 (HasFlag ''b'')]" 1 "''b''" "''a,b''" 2 "''c''"]
  by (simp add: has_flag_def initial_flags_def)

end
