(* ===== verification/Forms.thy ===== *)
theory Forms
  imports Template
begin

text \<open>
  Forms: \<open>utils/inputs.js\<close> (the inputs among slotted elements), \<open>webc/inline-form.js\<close>,
  \<open>webc/submitter.js\<close> and \<open>webc/alert.js\<close>. The interface \<open>input_source\<close> is what the forms
  rely on: the inputs that are found, in an order.
\<close>

section \<open>Inputs among elements\<close>

text \<open>An element with its tag, its name and value, the answer of \<open>reportValidity\<close>, its children.\<close>

datatype el = El (el_tag: string) (el_name: string) (el_value: string) (el_valid: bool) (el_kids: "el list")

text \<open>Elements with these tags have a name and a value.\<close>

definition is_valid_input :: "el \<Rightarrow> bool" where
  "is_valid_input e \<longleftrightarrow> el_tag e \<in> {''button'', ''input'', ''output'', ''select'', ''textarea''}"

text \<open>
  The tree walker visits the descendants in document order, without the root; an element that
  is skipped still has its children visited.
\<close>

fun walk :: "el \<Rightarrow> el list" where
  "walk (El t n v ok ks) = concat (map (\<lambda>k. (if is_valid_input k then [k] else []) @ walk k) ks)"

definition inputs :: "el list \<Rightarrow> el list" where
  "inputs es = concat (map (\<lambda>e. if is_valid_input e then [e] else walk e) es)"

text \<open>All elements of a tree in document order.\<close>

fun document_order :: "el \<Rightarrow> el list" where
  "document_order (El t n v ok ks) = El t n v ok ks # concat (map document_order ks)"

lemma filter_concat_map: "filter p (concat (map f xs)) = concat (map (\<lambda>x. filter p (f x)) xs)"
  by (induction xs) auto

lemma walk_document_order: "walk e = filter is_valid_input (tl (document_order e))"
proof (induction e rule: walk.induct)
  case (1 t n v ok ks)
  have h: "document_order k = k # tl (document_order k)" for k by (cases k) simp
  have "(if is_valid_input k then [k] else []) @ walk k = filter is_valid_input (document_order k)"
    if "k \<in> set ks" for k
    using 1 that by (subst h) simp
  then show ?case by (simp add: filter_concat_map cong: map_cong)
qed

lemma inputs_of_containers:
  "\<forall>e \<in> set es. \<not> is_valid_input e \<Longrightarrow> inputs es = filter is_valid_input (concat (map document_order es))"
proof (induction es)
  case (Cons e es)
  have "document_order e = e # tl (document_order e)" by (cases e) simp
  then have "filter is_valid_input (document_order e) = walk e"
    using Cons.prems walk_document_order [of e] by (metis filter.simps(2) list.set_intros(1))
  with Cons show ?case by (simp add: inputs_def)
qed (simp add: inputs_def)

section \<open>Collecting\<close>

text \<open>
  The loop over the inputs of the forms: the first input that does not validate ends it; the
  later ones are not asked.
\<close>

fun collect :: "el list \<Rightarrow> (string \<times> string) list \<Rightarrow> (string \<times> string) list option" where
  "collect [] fd = Some fd"
| "collect (e # es) fd = (if el_valid e then collect es (fd @ [(el_name e, el_value e)]) else None)"

text \<open>What a form may rely on, whichever way the inputs are found.\<close>

locale input_source =
  fixes source :: "'d \<Rightarrow> el list"
  assumes only_inputs: "e \<in> set (source d) \<Longrightarrow> is_valid_input e"
begin

lemma collect_all:
  "collect (source d) fd =
     (if \<forall>e \<in> set (source d). el_valid e
      then Some (fd @ map (\<lambda>e. (el_name e, el_value e)) (source d)) else None)"
proof -
  have "collect es fd = (if \<forall>e \<in> set es. el_valid e
      then Some (fd @ map (\<lambda>e. (el_name e, el_value e)) es) else None)" for es
    by (induction es arbitrary: fd) auto
  then show ?thesis .
qed

lemma collected_are_inputs:
  "collect (source d) fd = Some out \<Longrightarrow> p \<in> set out \<Longrightarrow>
     p \<in> set fd \<or> (\<exists>e. is_valid_input e \<and> el_valid e \<and> p = (el_name e, el_value e))"
proof -
  assume c: "collect (source d) fd = Some out" and p: "p \<in> set out"
  then have out: "out = fd @ map (\<lambda>e. (el_name e, el_value e)) (source d)"
    and ok: "\<forall>e \<in> set (source d). el_valid e" by (simp_all add: collect_all split: if_splits)
  show ?thesis
  proof (cases "p \<in> set fd")
    case False
    with p out obtain e where "e \<in> set (source d)" "p = (el_name e, el_value e)" by auto
    with ok only_inputs [of e d] show ?thesis by blast
  qed simp
qed

end

lemma walk_inputs: "x \<in> set (walk e) \<Longrightarrow> is_valid_input x"
  by (simp add: walk_document_order)

interpretation slotted: input_source inputs
proof
  show "is_valid_input e" if "e \<in> set (inputs d)" for e d
    using that walk_inputs by (auto simp: inputs_def split: if_splits)
qed

text \<open>
  The inputs of a form are its inputs: among slotted containers, the elements that are found
  are exactly the buttons, inputs, outputs, selects and text areas below them, each once and in
  document order, however deep they are; a slotted element that is an input itself stands for
  itself only.
\<close>

theorem inputs_in_document_order:
  "inputs es = concat (map (\<lambda>e. if is_valid_input e then [e]
     else filter is_valid_input (document_order e)) es)"
proof -
  have "(if is_valid_input e then [e] else walk e)
      = (if is_valid_input e then [e] else filter is_valid_input (document_order e))" for e
  proof -
    have "document_order e = e # tl (document_order e)" by (cases e) simp
    then show ?thesis using walk_document_order [of e] by (metis filter.simps(2))
  qed
  then show ?thesis by (simp add: inputs_def)
qed

section \<open>Inline form\<close>

text \<open>
  \<open>inline-form.js\<close>. The answer of the fetch is its status and its \<open>Location\<close> header;
  \<open>location.replace(null)\<close> goes to \<open>null\<close>.
\<close>

definition inline_submit :: "string \<Rightarrow> el list \<Rightarrow> effect list" where
  "inline_submit action slotted =
     (case collect (inputs slotted) [] of
        None \<Rightarrow> []
      | Some fd \<Rightarrow> [PreventDefault, Fetch (post_form action fd)])"

definition inline_answered :: "int \<Rightarrow> string option \<Rightarrow> effect list" where
  "inline_answered st location =
     (if st = 200 then [Navigate (case location of None \<Rightarrow> ''null'' | Some l \<Rightarrow> l)]
      else if st = 400 then []
      else [ConsoleWarn ''unknown response status (API error):''])"

datatype inline_action = ToggleForm | SubmitForm

definition render_inline :: "bool \<Rightarrow> string \<Rightarrow> inline_action ui" where
  "render_inline expanded v =
     (if \<not> expanded then Elem ''button'' [] [(''click'', ToggleForm)] [TextNode v]
      else Elem ''form'' [(''method'', ''post'')] [(''submit'', SubmitForm)]
        [plain ''slot'' [TextNode ''No expanded content''],
         plain ''div''
           [Elem ''input'' [(''type'', ''submit''), (''value'', v)] [] [],
            Elem ''button'' [] [(''click'', ToggleForm)] [TextNode ''Cancel'']]])"

text \<open>
  An inline form sends all of its inputs or nothing: when every input found validates, the
  default is prevented and one request carries every input with its value in document order;
  when one does not, nothing is sent, and the default of the browser is not prevented either.
\<close>

theorem inline_form_all_or_nothing:
  "inline_submit action slotted =
     (if \<forall>e \<in> set (inputs slotted). el_valid e
      then [PreventDefault, Fetch (post_form action (map (\<lambda>e. (el_name e, el_value e)) (inputs slotted)))]
      else [])"
  by (simp add: inline_submit_def slotted.collect_all)

theorem inline_form_all_or_nothing_witness:
  "inline_submit ''/go'' [El ''div'' [] [] True [El ''input'' ''a'' ''1'' True [], El ''select'' ''b'' ''2'' True []]]
     = [PreventDefault, Fetch (post_form ''/go'' [(''a'', ''1''), (''b'', ''2'')])]"
  using inline_form_all_or_nothing [of "''/go''"
      "[El ''div'' [] [] True [El ''input'' ''a'' ''1'' True [], El ''select'' ''b'' ''2'' True []]]"]
  by (simp add: inputs_def is_valid_input_def)

section \<open>Submitter\<close>

text \<open>
  \<open>submitter.js\<close>: the children move into a form of the shadow root; a submit of the form and a
  change below the root both send it. \<open>None\<close> is an attribute that is absent.
\<close>

record submitter =
  sub_action :: "string option"
  light_children :: "el list"
  form_children :: "el list option"
  sub_listeners :: "(string \<times> string) list"

definition no_action :: "submitter \<Rightarrow> bool" where
  "no_action s \<longleftrightarrow> (case sub_action s of None \<Rightarrow> True | Some a \<Rightarrow> a = [])"

definition submitter_connected :: "submitter \<Rightarrow> submitter \<times> effect list" where
  "submitter_connected s =
     (if no_action s
      then (s, [ConsoleError ''Submitter element added without an action property. No data will be sent.''])
      else (s\<lparr>light_children := [], form_children := Some (light_children s),
              sub_listeners := sub_listeners s @ [(''form'', ''submit''), (''shadowRoot'', ''change'')]\<rparr>, []))"

text \<open>The entries of \<open>FormData(form)\<close> are an argument: the browser collects them.\<close>

definition submitter_submit :: "(el list \<Rightarrow> (string \<times> string) list) \<Rightarrow> submitter \<Rightarrow> effect list" where
  "submitter_submit form_data s =
     (case sub_action s of
        None \<Rightarrow> []
      | Some a \<Rightarrow> if a = [] then [] else [Fetch (post_form a (form_data (case form_children s of None \<Rightarrow> [] | Some ks \<Rightarrow> ks)))])"

text \<open>
  An element with an action takes all of its children into the form and keeps none, and
  what it then sends for a submit or a change is the form with these children; the submit
  itself is not prevented, so the browser submits the form as well. Without an action there is
  one error, no form and no listener, and nothing is ever sent.
\<close>

theorem submitter_sends_its_children:
  "(\<not> no_action s \<longrightarrow>
      light_children (fst (submitter_connected s)) = []
      \<and> submitter_submit fd (fst (submitter_connected s))
          = [Fetch (post_form (the (sub_action s)) (fd (light_children s)))]
      \<and> PreventDefault \<notin> set (submitter_submit fd (fst (submitter_connected s))))
   \<and> (no_action s \<longrightarrow> fst (submitter_connected s) = s \<and> submitter_submit fd s = []
      \<and> length (snd (submitter_connected s)) = 1)"
  by (auto simp: no_action_def submitter_connected_def submitter_submit_def split: option.splits)

theorem submitter_sends_its_children_witness:
  "submitter_submit (map (\<lambda>e. (el_name e, el_value e)))
      (fst (submitter_connected \<lparr>sub_action = Some ''/save'', light_children = [El ''input'' ''a'' ''1'' True []],
         form_children = None, sub_listeners = []\<rparr>))
    = [Fetch (post_form ''/save'' [(''a'', ''1'')])]"
  using submitter_sends_its_children [of "\<lparr>sub_action = Some ''/save'', light_children = [El ''input'' ''a'' ''1'' True []],
         form_children = None, sub_listeners = []\<rparr>" "map (\<lambda>e. (el_name e, el_value e))"]
  by (simp add: no_action_def)

section \<open>Alert\<close>

record alert =
  alert_type :: string
  alert_text :: string
  display :: bool

definition new_alert :: "string \<Rightarrow> string \<Rightarrow> alert" where
  "new_alert ty s = \<lparr>alert_type = ty, alert_text = s, display = False\<rparr>"

definition alert_open :: "alert \<Rightarrow> alert" where
  "alert_open a = a\<lparr>display := True\<rparr>"

definition alert_close :: "alert \<Rightarrow> alert" where
  "alert_close a = a\<lparr>display := False\<rparr>"

definition render_alert :: "alert \<Rightarrow> 'a ui" where
  "render_alert a = when_ui (display a) (plain ''div'' [plain ''p'' [TextNode (alert_text a)]])"

end
