(* ===== verification/Schedules.thy ===== *)
theory Schedules
  imports Template Flags
begin

text \<open>
  Schedules of playbooks: \<open>webc/schedule.js\<close>, \<open>webc/schedule-form.js\<close> and
  \<open>webc/schedule-item.js\<close>, with the two functions of the server that read what they send:
  \<open>ParseRepetition\<close> of \<open>internal/iso8601/duration.go\<close>, and the choice of the action in
  \<open>hub/schedule.go\<close>.
\<close>

section \<open>The forms\<close>

record schedule_fields =
  notebook_select :: string
  repetitions :: string
  start_date :: string
  start_hour :: string
  frequency :: string
  interval :: string

definition repetition_part :: "schedule_fields \<Rightarrow> string" where
  "repetition_part f = (if repetitions f \<noteq> [] then ''R'' @ repetitions f @ ''/'' else [])"

text \<open>\<open>schedule.js\<close> takes the hour as it is; \<open>schedule-form.js\<close> takes 0 for none.\<close>

definition old_schedule :: "schedule_fields \<Rightarrow> string" where
  "old_schedule f =
     repetition_part f @ start_date f @ ''T'' @ start_hour f @ ''/P'' @ frequency f @ interval f"

definition schedule_spec :: "schedule_fields \<Rightarrow> string" where
  "schedule_spec f =
     repetition_part f @ start_date f @ ''T'' @ str_or (start_hour f) ''0'' @ ''/P'' @ frequency f @ interval f"

definition old_schedule_submit :: "schedule_fields \<Rightarrow> effect list" where
  "old_schedule_submit f =
     [ConsoleLog ''submit event sent'', PreventDefault, StopPropagation,
      Fetch (post_form ''/schedule/add'' [(''notebook'', notebook_select f), (''schedule'', old_schedule f)])]"

definition schedule_submit :: "bool \<Rightarrow> schedule_fields \<Rightarrow> effect list" where
  "schedule_submit stop_schedule f =
     [ConsoleLog ''submit event sent'', PreventDefault, StopPropagation,
      if stop_schedule
      then Fetch (post_form ''/schedule'' [(''notebook'', notebook_select f), (''schedule'', schedule_spec f), (''action'', ''add'')])
      else Fetch (post_form ''/schedule/add'' [(''notebook'', notebook_select f), (''schedule'', schedule_spec f)])]"

text \<open>A response without JSON rejects the promise: \<open>None\<close>.\<close>

definition schedule_answered :: "response \<Rightarrow> effect list option" where
  "schedule_answered r =
     (case payload r of
        None \<Rightarrow> None
      | Some JNull \<Rightarrow> None
      | Some j \<Rightarrow>
          if jget j ''Result'' = Some (JStr ''ok'') then Some [Reload]
          else Some [ConsoleError (case jget j ''Message'' of Some (JStr m) \<Rightarrow> m | Some v \<Rightarrow> show_json v | None \<Rightarrow> ''undefined'')])"

section \<open>The server's parser\<close>

datatype tok = TEof | TInt string | TCh char

definition isnum :: "char \<Rightarrow> bool" where
  "isnum c \<longleftrightarrow> 48 \<le> (of_char c :: nat) \<and> (of_char c :: nat) \<le> 57"

fun next_tok :: "string \<Rightarrow> tok \<times> string" where
  "next_tok [] = (TEof, [])"
| "next_tok (c # cs) =
     (if isnum c then (TInt (takeWhile isnum (c # cs)), dropWhile isnum (c # cs)) else (TCh c, cs))"

text \<open>\<open>strconv.ParseInt(s, 10, 64)\<close> of a run of digits: an error when it does not fit.\<close>

definition go_int :: "string \<Rightarrow> int option" where
  "go_int ds = (let n = parse_digits 10 0 ds in if n < 2 ^ 63 then Some (int n) else None)"

definition wrap64 :: "int \<Rightarrow> int" where
  "wrap64 i = (i + 2 ^ 63) mod 2 ^ 64 - 2 ^ 63"

definition expect_ch :: "char \<Rightarrow> string \<Rightarrow> string option" where
  "expect_ch c s = (case next_tok s of (TCh d, r) \<Rightarrow> if d = c then Some r else None | _ \<Rightarrow> None)"

definition expect_int :: "string \<Rightarrow> (int \<times> string) option" where
  "expect_int s =
     (case next_tok s of
        (TInt ds, r) \<Rightarrow> (case go_int ds of None \<Rightarrow> None | Some n \<Rightarrow> Some (n, r))
      | _ \<Rightarrow> None)"

text \<open>
  \<open>parseDate\<close>: the tokenizer is the text that is left; an error ends the parse. The time zones
  are an argument. After a date without zone the separator has been read.
\<close>

record start_time =
  year :: int
  month :: int
  day :: int
  hour :: int
  zone :: string

definition utc :: string where
  "utc = ''UTC''"

definition parse_ymd :: "string \<Rightarrow> (int \<times> int \<times> int \<times> string) option" where
  "parse_ymd s =
     Option.bind (expect_int s) (\<lambda>(y, r1). Option.bind (expect_ch CHR ''-'' r1) (\<lambda>r2.
     Option.bind (expect_int r2) (\<lambda>(m, r3). Option.bind (expect_ch CHR ''-'' r3) (\<lambda>r4.
     Option.bind (expect_int r4) (\<lambda>(d, r5). Some (y, m, d, r5))))))"

definition parse_date :: "(string \<Rightarrow> bool) \<Rightarrow> string \<Rightarrow> (start_time \<times> string) option" where
  "parse_date known_zone s =
     Option.bind (parse_ymd s) (\<lambda>(y, m, d, r).
     Option.bind (case next_tok r of
          (TCh c, r1) \<Rightarrow> if c = CHR ''T'' then map_option (\<lambda>(h, r2). (h, next_tok r2)) (expect_int r1)
                        else Some (0, (TCh c, r1))
        | x \<Rightarrow> Some (0, x)) (\<lambda>(h, t, r3).
     case t of
       TEof \<Rightarrow> Some (\<lparr>year = y, month = m, day = d, hour = h, zone = utc\<rparr>, r3)
     | TCh c \<Rightarrow>
         if c = CHR ''/'' then Some (\<lparr>year = y, month = m, day = d, hour = h, zone = utc\<rparr>, r3)
         else if c = CHR ''['' then
           (let z = takeWhile (\<lambda>x. x \<noteq> CHR '']'') r3; rest = dropWhile (\<lambda>x. x \<noteq> CHR '']'') r3
            in if rest \<noteq> [] \<and> known_zone z
               then Some (\<lparr>year = y, month = m, day = d, hour = h, zone = z\<rparr>, tl rest) else None)
         else None
     | TInt ds \<Rightarrow> None))"

definition max_reps :: int where
  "max_reps = 520"

record period =
  years :: int
  months :: int
  days :: int

definition set_unit :: "tok \<Rightarrow> int \<Rightarrow> period \<Rightarrow> period" where
  "set_unit t v p =
     (if t = TCh CHR ''Y'' then p\<lparr>years := v\<rparr>
      else if t = TCh CHR ''M'' then p\<lparr>months := v\<rparr>
      else if t = TCh CHR ''D'' then p\<lparr>days := v\<rparr>
      else if t = TCh CHR ''W'' then p\<lparr>days := wrap64 (7 * v)\<rparr>
      else p)"

lemma next_tok_length: "next_tok s = (t, r) \<Longrightarrow> length r \<le> length s"
  using length_dropWhile_le [of isnum "tl s"]
  by (cases s) (auto split: if_splits)

lemma next_tok_int_length: "next_tok s = (TInt ds, r) \<Longrightarrow> length r < length s"
proof (cases s)
  case (Cons c cs)
  assume "next_tok s = (TInt ds, r)"
  then have "r = dropWhile isnum cs" by (auto simp: Cons split: if_splits)
  with length_dropWhile_le [of isnum cs] show ?thesis by (simp add: Cons)
qed simp

text \<open>The loop goes on while there is a number, and ends at anything else.\<close>

function parse_period :: "string \<Rightarrow> period \<Rightarrow> period option" where
  "parse_period s p =
     (case next_tok s of
        (TInt ds, r) \<Rightarrow>
          (case go_int ds of
             None \<Rightarrow> None
           | Some v \<Rightarrow> (case next_tok r of (t, r2) \<Rightarrow> parse_period r2 (set_unit t v p)))
      | _ \<Rightarrow> Some p)"
  by pat_completeness auto
termination
proof (relation "measure (\<lambda>(s, p). length s)", goal_cases)
  case (2 s p t r ds v t2 r2)
  then show ?case using next_tok_int_length [of s ds r] next_tok_length [of r t2 r2] by simp
qed simp

declare parse_period.simps [simp del]

definition parse_repetition :: "(string \<Rightarrow> bool) \<Rightarrow> string \<Rightarrow> (int \<times> start_time \<times> period) option" where
  "parse_repetition known_zone s =
     Option.bind (expect_ch CHR ''R'' s) (\<lambda>r0.
     Option.bind (case next_tok r0 of
          (TInt ds, r) \<Rightarrow> Option.bind (go_int ds) (\<lambda>n. if n > max_reps then None else Some (n, r))
        | (TCh c, r) \<Rightarrow> if c = CHR ''I'' then Some (max_reps, r) else None
        | _ \<Rightarrow> None) (\<lambda>(n, r1).
     Option.bind (expect_ch CHR ''/'' r1) (\<lambda>r2.
     Option.bind (parse_date known_zone r2) (\<lambda>(d, r3).
     Option.bind (expect_ch CHR ''P'' r3) (\<lambda>r4.
     map_option (\<lambda>p. (n, d, p)) (parse_period r4 \<lparr>years = 0, months = 0, days = 0\<rparr>))))))"

section \<open>What the server understands\<close>

definition digits :: "string \<Rightarrow> bool" where
  "digits ds \<longleftrightarrow> ds \<noteq> [] \<and> list_all isnum ds"

definition number :: "string \<Rightarrow> int" where
  "number ds = int (parse_digits 10 0 ds)"

lemma isnum_simps [simp]:
  "\<not> isnum CHR ''-''" "\<not> isnum CHR ''T''" "\<not> isnum CHR ''/''" "\<not> isnum CHR ''P''" "\<not> isnum CHR ''R''"
  "\<not> isnum CHR ''D''" "\<not> isnum CHR ''W''" "\<not> isnum CHR ''M''" "\<not> isnum CHR ''Y''" "isnum CHR ''0''"
  by (simp_all add: isnum_def)

lemma takeWhile_digits:
  "list_all isnum ds \<Longrightarrow> r = [] \<or> \<not> isnum (hd r) \<Longrightarrow>
     takeWhile isnum (ds @ r) = ds \<and> dropWhile isnum (ds @ r) = r"
  by (induction ds) (cases r; auto)+

lemma next_tok_digits:
  assumes "digits ds" and "r = [] \<or> \<not> isnum (hd r)"
  shows "next_tok (ds @ r) = (TInt ds, r)"
proof -
  obtain c cs where c: "ds = c # cs" "isnum c" "list_all isnum cs" using assms(1) by (cases ds) (auto simp: digits_def)
  then show ?thesis using takeWhile_digits [OF c(3) assms(2)] by simp
qed

lemma go_int_number: "number ds < 2 ^ 63 \<Longrightarrow> go_int ds = Some (number ds)"
  by (auto simp: go_int_def number_def Let_def)

lemma expect_int_digits:
  assumes "digits ds" and "number ds < 2 ^ 63" and "r = [] \<or> \<not> isnum (hd r)"
  shows "expect_int (ds @ r) = Some (number ds, r)"
  using assms by (simp add: expect_int_def next_tok_digits go_int_number)

lemma expect_ch_same [simp]: "\<not> isnum c \<Longrightarrow> expect_ch c (c # r) = Some r"
  by (simp add: expect_ch_def)

lemma expect_ch_other: "r = [] \<or> hd r \<noteq> c \<Longrightarrow> expect_ch c r = None"
  by (cases r) (auto simp: expect_ch_def)

lemma parse_period_unit:
  assumes "digits ds" and "number ds < 2 ^ 63" and "\<not> isnum u"
  shows "parse_period (ds @ [u]) p = Some (set_unit (TCh u) (number ds) p)"
proof -
  have "next_tok (ds @ [u]) = (TInt ds, [u])" using assms by (simp add: next_tok_digits)
  moreover have "parse_period [] q = Some q" for q by (subst parse_period.simps) simp
  ultimately show ?thesis using assms
    by (subst parse_period.simps) (simp add: go_int_number)
qed

text \<open>The fields of a form as its controls let them be: a date, numbers, one of the units.\<close>

definition good_number :: "string \<Rightarrow> bool" where
  "good_number ds \<longleftrightarrow> digits ds \<and> number ds < 2 ^ 63"

lemma parse_ymd_date:
  assumes "good_number ys" "good_number ms" "good_number ds" "r = [] \<or> \<not> isnum (hd r)"
  shows "parse_ymd (ys @ ''-'' @ ms @ ''-'' @ ds @ r) = Some (number ys, number ms, number ds, r)"
  using assms by (simp add: parse_ymd_def good_number_def expect_int_digits)

lemma parse_date_hour:
  assumes "good_number ys" "good_number ms" "good_number ds" "good_number hs"
  shows "parse_date kz (ys @ ''-'' @ ms @ ''-'' @ ds @ ''T'' @ hs @ ''/'' @ r)
    = Some (\<lparr>year = number ys, month = number ms, day = number ds, hour = number hs, zone = utc\<rparr>, r)"
  using assms parse_ymd_date [of ys ms ds "''T'' @ hs @ ''/'' @ r"]
  by (simp add: parse_date_def good_number_def expect_int_digits)

lemma parse_repetition_spec:
  assumes "good_number rs" "number rs \<le> max_reps" "good_number ys" "good_number ms" "good_number ds"
    and "good_number hs" "good_number fs" "\<not> isnum u"
  shows "parse_repetition kz
      (''R'' @ rs @ ''/'' @ (ys @ ''-'' @ ms @ ''-'' @ ds) @ ''T'' @ hs @ ''/P'' @ fs @ [u])
    = Some (number rs, \<lparr>year = number ys, month = number ms, day = number ds, hour = number hs, zone = utc\<rparr>,
        set_unit (TCh u) (number fs) \<lparr>years = 0, months = 0, days = 0\<rparr>)"
proof -
  have "next_tok (rs @ CHR ''/'' # q) = (TInt rs, CHR ''/'' # q)" for q
    using assms(1) by (intro next_tok_digits) (simp_all add: good_number_def)
  moreover have "parse_date kz (ys @ CHR ''-'' # ms @ CHR ''-'' # ds @ CHR ''T'' # hs @ CHR ''/'' # q)
    = Some (\<lparr>year = number ys, month = number ms, day = number ds, hour = number hs, zone = utc\<rparr>, q)" for q
    using parse_date_hour [OF assms(3-6), of kz q] by simp
  moreover have "parse_period (fs @ [u]) p = Some (set_unit (TCh u) (number fs) p)" for p
    using assms(7,8) by (intro parse_period_unit) (simp_all add: good_number_def)
  ultimately show ?thesis using assms(1,2)
    by (simp add: parse_repetition_def good_number_def go_int_number)
qed

lemma number_zero: "good_number ''0''" "number ''0'' = 0"
  by (simp_all add: good_number_def digits_def number_def digit_value_def)

text \<open>
  C32: What the form sends is what the server schedules: for a date, a number of repetitions of at
  most 520, a frequency with one of the units of the form and an hour or none, the server
  reads that many repetitions, from that date at that hour (0 for none) in UTC, with a period
  of that many years, months or days, or of seven days for each week. The days of the weeks are a
  64-bit product, which wraps.
\<close>

theorem schedule_is_understood:
  assumes "good_number (repetitions f)" and "number (repetitions f) \<le> max_reps"
    and "start_date f = ys @ ''-'' @ ms @ ''-'' @ ds"
    and "good_number ys" "good_number ms" "good_number ds"
    and "start_hour f = [] \<or> good_number (start_hour f)"
    and "good_number (frequency f)" and "interval f = [u]" and "u \<in> {CHR ''D'', CHR ''W'', CHR ''M'', CHR ''Y''}"
  shows "parse_repetition known_zone (schedule_spec f)
    = Some (number (repetitions f),
        \<lparr>year = number ys, month = number ms, day = number ds,
         hour = (if start_hour f = [] then 0 else number (start_hour f)), zone = utc\<rparr>,
        \<lparr>years = (if u = CHR ''Y'' then number (frequency f) else 0),
         months = (if u = CHR ''M'' then number (frequency f) else 0),
         days = (if u = CHR ''D'' then number (frequency f)
                 else if u = CHR ''W'' then (7 * number (frequency f) + 2 ^ 63) mod 2 ^ 64 - 2 ^ 63 else 0)\<rparr>)"
proof -
  have u: "\<not> isnum u" using assms(10) by auto
  have h: "good_number (str_or (start_hour f) ''0'')"
    using assms(7) number_zero(1) by (auto simp: str_or_def)
  have n: "number (str_or (start_hour f) ''0'') = (if start_hour f = [] then 0 else number (start_hour f))"
    by (simp add: str_or_def number_zero)
  have "repetitions f \<noteq> []" using assms(1) by (auto simp: good_number_def digits_def)
  then have "schedule_spec f = ''R'' @ repetitions f @ ''/'' @ (ys @ ''-'' @ ms @ ''-'' @ ds) @ ''T''
      @ str_or (start_hour f) ''0'' @ ''/P'' @ frequency f @ [u]"
    by (simp add: schedule_spec_def repetition_part_def assms(3,9))
  then show ?thesis
    using parse_repetition_spec [OF assms(1,2,4-6) h assms(8) u, of known_zone] n assms(10)
    by (auto simp: set_unit_def wrap64_def)
qed

definition sample_fields :: schedule_fields where
  "sample_fields = \<lparr>notebook_select = ''n'', repetitions = ''10'', start_date = ''2024-01-05'', start_hour = ''9'',
     frequency = ''2'', interval = ''W''\<rparr>"

lemma good_numeral:
  "good_number ''10''" "good_number ''2024''" "good_number ''01''" "good_number ''05''" "good_number ''9''" "good_number ''2''"
  "number ''10'' = 10" "number ''2024'' = 2024" "number ''01'' = 1" "number ''05'' = 5" "number ''9'' = 9" "number ''2'' = 2"
  by (simp_all add: good_number_def digits_def number_def digit_value_def isnum_def)

theorem schedule_is_understood_witness:
  "parse_repetition (\<lambda>z. False) (schedule_spec sample_fields)
    = Some (10, \<lparr>year = 2024, month = 1, day = 5, hour = 9, zone = utc\<rparr>, \<lparr>years = 0, months = 0, days = 14\<rparr>)"
  using schedule_is_understood [of sample_fields "''2024''" "''01''" "''05''" "CHR ''W''" "\<lambda>z. False"]
  by (simp add: sample_fields_def good_numeral max_reps_def)

text \<open>
  Three fields that the forms let the user leave empty make the server refuse what is sent:
  without repetitions there is no \<open>R\<close> and no schedule, without a date there is none either,
  and in \<open>schedule.js\<close> there is none without an hour, where \<open>schedule-form.js\<close> has a default.
\<close>

theorem empty_fields_are_refused:
  "(repetitions f = [] \<longrightarrow> (start_date f = [] \<or> isnum (hd (start_date f))) \<longrightarrow>
      parse_repetition known_zone (schedule_spec f) = None)
   \<and> (good_number (repetitions f) \<longrightarrow> start_date f = [] \<longrightarrow>
      parse_repetition known_zone (schedule_spec f) = None)
   \<and> (good_number (repetitions f) \<longrightarrow> start_date f = ys @ ''-'' @ ms @ ''-'' @ ds \<longrightarrow>
      good_number ys \<longrightarrow> good_number ms \<longrightarrow> good_number ds \<longrightarrow> start_hour f = [] \<longrightarrow>
      parse_repetition known_zone (old_schedule f) = None)"
proof (intro conjI impI)
  assume r: "repetitions f = []" and d: "start_date f = [] \<or> isnum (hd (start_date f))"
  show "parse_repetition known_zone (schedule_spec f) = None"
  proof (cases "start_date f")
    case Nil
    with r show ?thesis
      by (simp add: parse_repetition_def schedule_spec_def repetition_part_def expect_ch_other)
  next
    case (Cons c cs)
    with d have "isnum c" by simp
    then have "c \<noteq> CHR ''R''" by auto
    with r Cons show ?thesis
      by (simp add: parse_repetition_def schedule_spec_def repetition_part_def expect_ch_other)
  qed
next
  assume g: "good_number (repetitions f)" and d: "start_date f = []"
  then have "next_tok (repetitions f @ CHR ''/'' # q) = (TInt (repetitions f), CHR ''/'' # q)" for q
    by (intro next_tok_digits) (simp_all add: good_number_def)
  moreover have "repetitions f \<noteq> []" using g by (auto simp: good_number_def digits_def)
  moreover have "parse_date known_zone (CHR ''T'' # q) = None" for q
    by (simp add: parse_date_def parse_ymd_def expect_int_def)
  ultimately show "parse_repetition known_zone (schedule_spec f) = None" using g d
    by (simp add: parse_repetition_def schedule_spec_def repetition_part_def good_number_def go_int_number)
next
  assume g: "good_number (repetitions f)" and d: "start_date f = ys @ ''-'' @ ms @ ''-'' @ ds"
    and y: "good_number ys" "good_number ms" "good_number ds" and h: "start_hour f = []"
  have "next_tok (repetitions f @ CHR ''/'' # q) = (TInt (repetitions f), CHR ''/'' # q)" for q
    using g by (intro next_tok_digits) (simp_all add: good_number_def)
  moreover have "repetitions f \<noteq> []" using g by (auto simp: good_number_def digits_def)
  moreover have "parse_date known_zone (ys @ CHR ''-'' # ms @ CHR ''-'' # ds @ CHR ''T'' # CHR ''/'' # q) = None" for q
    using parse_ymd_date [OF y, of "''T/'' @ q"]
    by (simp add: parse_date_def expect_int_def)
  ultimately show "parse_repetition known_zone (old_schedule f) = None" using g
    by (simp add: parse_repetition_def old_schedule_def repetition_part_def d h good_number_def go_int_number)
qed

theorem empty_fields_are_refused_witness:
  "parse_repetition (\<lambda>z. False) (schedule_spec (sample_fields\<lparr>repetitions := []\<rparr>)) = None
   \<and> parse_repetition (\<lambda>z. False) (old_schedule (sample_fields\<lparr>start_hour := []\<rparr>)) = None"
  using empty_fields_are_refused [of "sample_fields\<lparr>repetitions := []\<rparr>" "\<lambda>z. False" "''2024''" "''01''" "''05''"]
    empty_fields_are_refused [of "sample_fields\<lparr>start_hour := []\<rparr>" "\<lambda>z. False" "''2024''" "''01''" "''05''"]
  by (simp add: sample_fields_def good_numeral isnum_def)

section \<open>The items of the list\<close>

text \<open>
  \<open>schedule-item.js\<close>: the status is an attribute; \<open>parseInt\<close> of something else is NaN, for
  which neither button is switched off.
\<close>

definition control_active :: "string \<Rightarrow> bool" where
  "control_active st \<longleftrightarrow> parse_int st \<noteq> Some 1 \<and> parse_int st \<noteq> Some 3"

definition trash_active :: "string \<Rightarrow> bool" where
  "trash_active st \<longleftrightarrow> parse_int st \<noteq> Some 0 \<and> parse_int st \<noteq> Some 3"

definition control_action :: "string \<Rightarrow> string" where
  "control_action st =
     (if parse_int st = Some 0 then ''stop'' else if parse_int st = Some 2 then ''start'' else [])"

datatype item_action = SubmitItem string

definition render_item :: "string \<Rightarrow> item_action ui" where
  "render_item st =
     Elem ''form'' [] []
       [plain ''slot'' [],
        when_ui (control_active st)
          (Elem ''button'' [(''data-action'', control_action st)] [(''submit'', SubmitItem (control_action st))]
             [when_ui (parse_int st = Some 0 \<or> parse_int st = Some 2) (plain ''svg'' [])]),
        when_ui (trash_active st)
          (Elem ''button'' [(''data-action'', ''remove'')] [(''submit'', SubmitItem ''remove'')] [plain ''svg'' []])]"

definition item_submit :: "string \<Rightarrow> string \<Rightarrow> effect list" where
  "item_submit notebook action =
     [PreventDefault, StopPropagation,
      Fetch (post_form (''/schedule?action='' @ action) [(''notebook'', notebook)])]"

text \<open>
  The server: \<open>PostFormValue(''action'')\<close> reads the body of the request, not the query of the
  URL; no action creates a schedule, and the others set the status of the schedule.
\<close>

definition server_action :: "request \<Rightarrow> string" where
  "server_action r = (case req_body r of FormBody f \<Rightarrow> (case map_of f ''action'' of None \<Rightarrow> [] | Some a \<Rightarrow> a) | _ \<Rightarrow> [])"

datatype server_effect = CreateSchedule | SetStatus int | NoEffect

definition schedule_notebook :: "request \<Rightarrow> server_effect" where
  "schedule_notebook r =
     (let a = server_action r
      in if a = [] \<or> a = ''add'' then CreateSchedule
         else if a = ''stop'' then SetStatus 2
         else if a = ''start'' then SetStatus 0
         else if a = ''remove'' then SetStatus 3
         else NoEffect)"

text \<open>
  The buttons of an item fit its status: a running schedule can only be stopped, a finished
  one only removed, a canceled one started or removed, and an archived one nothing.
\<close>

theorem item_buttons_fit_status:
  "map snd (ui_actions (render_item (show_nat 0))) = [SubmitItem ''stop'']
   \<and> map snd (ui_actions (render_item (show_nat 1))) = [SubmitItem ''remove'']
   \<and> map snd (ui_actions (render_item (show_nat 2))) = [SubmitItem ''start'', SubmitItem ''remove'']
   \<and> map snd (ui_actions (render_item (show_nat 3))) = []"
  by (simp add: render_item_def control_active_def trash_active_def control_action_def parse_int_show_nat)

text \<open>
  None of these buttons does what it says: the action is put in the URL, the server reads it
  from the body, so every submit of an item, whatever its action, is taken for the creation of
  a schedule and never changes a status; the form that adds a schedule sends it in the body.
\<close>

theorem item_actions_are_not_read:
  "(\<forall>r. Fetch r \<in> set (item_submit notebook action) \<longrightarrow> schedule_notebook r = CreateSchedule)
   \<and> (\<forall>r. Fetch r \<in> set (schedule_submit True f) \<longrightarrow> server_action r = ''add'')"
  by (simp add: item_submit_def schedule_submit_def schedule_notebook_def server_action_def Let_def)

theorem item_actions_are_not_read_witness:
  "schedule_notebook (post_form ''/schedule?action=stop'' [(''notebook'', ''n'')]) = CreateSchedule"
  using item_actions_are_not_read [of "''n''" "''stop''" sample_fields] by (simp add: item_submit_def)

end
