(* ===== verification/Datasources.thy ===== *)
theory Datasources
  imports Forms Listeners
begin

text \<open>
  \<open>webc/datasource.js\<close>: the card of a data source, with its view and edit modes, its test, and
  what it sends to \<open>/api/datasource\<close>. An absent property (\<open>color\<close>, \<open>key\<close>) is \<open>None\<close>.
\<close>

record card =
  color :: "string option"
  is_edited :: bool
  is_colour_changed :: bool
  is_expanded :: bool
  is_tested :: int
  ds_key :: "string option"
  is_alert :: bool
  alert_message :: string
  card_height :: int
  organizing :: bool
  window_listeners :: "listener list"

definition new_card :: "string option \<Rightarrow> string option \<Rightarrow> bool \<Rightarrow> listener list \<Rightarrow> card" where
  "new_card k c edited ls =
     \<lparr>color = c, is_edited = edited, is_colour_changed = False, is_expanded = False, is_tested = -1,
      ds_key = k, is_alert = False, alert_message = [], card_height = 0, organizing = False,
      window_listeners = ls\<rparr>"

definition falsy_string :: "string option \<Rightarrow> bool" where
  "falsy_string s \<longleftrightarrow> s = None \<or> s = Some []"

text \<open>Each call makes a new arrow function; \<open>fresh\<close> is its identity.\<close>

definition card_connected :: "nat \<Rightarrow> card \<Rightarrow> card" where
  "card_connected fresh c =
     (let c1 = (if falsy_string (ds_key c) then c\<lparr>is_edited := True\<rparr> else c);
          c2 = (if is_edited c1 then c1\<lparr>is_expanded := True\<rparr> else c1)
      in c2\<lparr>window_listeners := add_listener (listener_of ''window'' ''load'' fresh) (window_listeners c2)\<rparr>)"

definition card_disconnected :: "nat \<Rightarrow> card \<Rightarrow> card" where
  "card_disconnected fresh c =
     c\<lparr>window_listeners := remove_listener (listener_of ''window'' ''load'' fresh) (window_listeners c)\<rparr>"

definition loaded_height :: "int \<Rightarrow> card \<Rightarrow> card" where
  "loaded_height h c = c\<lparr>card_height := h\<rparr>"

text \<open>\<open>replace\<close>: the inputs that validate, as name and value, are dispatched to the list.\<close>

definition card_replace :: "el list \<Rightarrow> effect" where
  "card_replace slotted =
     DispatchEvent ''datasource-change''
       (JArr (map (\<lambda>e. JObj [(''name'', JStr (el_name e)), (''value'', JStr (el_value e))])
          (filter el_valid (inputs slotted))))"

definition card_edit :: "card \<Rightarrow> card \<times> effect list" where
  "card_edit c = (c\<lparr>is_edited := \<not> is_edited c, is_expanded := True\<rparr>, [StopPropagation])"

definition card_expand :: "card \<Rightarrow> card \<times> effect list" where
  "card_expand c = (c\<lparr>is_expanded := \<not> is_expanded c\<rparr>, [StopPropagation])"

definition card_pick_colour :: "card \<Rightarrow> card \<times> effect list" where
  "card_pick_colour c = (c\<lparr>is_colour_changed := True\<rparr>, [StopPropagation])"

text \<open>
  \<open>submit\<close> until the request: deleting asks first; an input that does not validate ends it.
  \<open>FormData\<close> makes a text of an undefined colour.
\<close>

definition color_text :: "card \<Rightarrow> string" where
  "color_text c = (case color c of None \<Rightarrow> ''undefined'' | Some s \<Rightarrow> s)"

definition delete_question :: string where
  "delete_question = ''Are you sure you want to delete this datasource?''"

definition card_submit :: "string \<Rightarrow> bool \<Rightarrow> el list \<Rightarrow> card \<Rightarrow> effect list" where
  "card_submit action confirmed slotted c =
     [PreventDefault, StopPropagation]
     @ (if action = ''delete'' then [ConfirmDialog delete_question] else [])
     @ (if action = ''delete'' \<and> \<not> confirmed then []
        else case collect (inputs slotted) [(''action'', action), (''color'', color_text c)] of
               None \<Rightarrow> [ConsoleError ''invalid input'']
             | Some fd \<Rightarrow> [Fetch (post_form ''/api/datasource'' fd)])"

definition card_colour :: "string \<Rightarrow> string \<Rightarrow> bool \<Rightarrow> el list \<Rightarrow> card \<Rightarrow> card \<times> effect list" where
  "card_colour chosen action confirmed slotted c =
     (let c1 = c\<lparr>color := Some chosen, is_colour_changed := False\<rparr>
      in (c1, card_submit action confirmed slotted c1))"

text \<open>What follows the response; one without JSON rejects the promise and changes nothing.\<close>

definition card_answered :: "string \<Rightarrow> response \<Rightarrow> card \<Rightarrow> card \<times> effect list" where
  "card_answered action r c =
     (case payload r of
        None \<Rightarrow> (c, [])
      | Some j \<Rightarrow>
          if action = ''save'' then (c\<lparr>is_edited := False\<rparr>, [Reload])
          else if action = ''test'' then
            (if j = JNull then (c, [])
             else if jget j ''Result'' = Some (JStr ''ok'')
             then (c\<lparr>is_tested := 1, alert_message := [], is_alert := False\<rparr>, [])
             else (c\<lparr>is_tested := 0, is_alert := True,
                     alert_message := (case jget j ''Message'' of Some (JStr m) \<Rightarrow> m | Some v \<Rightarrow> show_json v | None \<Rightarrow> [])\<rparr>, []))
          else if action = ''delete'' then (c, [Reload])
          else (c, []))"

section \<open>Rendering\<close>

datatype card_action =
    Edit | SubmitAs string | SubmitDelete | ReplaceIt | Expand | PickColour | ChooseColour string

definition color_map :: "(string \<times> string) list" where
  "color_map = [(''blue'', ''bg-sky-600''), (''green'', ''bg-lime-600''), (''orange-600'', ''bg-orange-600''),
     (''orange-500'', ''bg-orange-500''), (''orange-300'', ''bg-orange-300'')]"

definition set_alert :: "string \<Rightarrow> 'a ui" where
  "set_alert msg = render_alert (alert_open (new_alert ''danger'' msg))"

definition default_view :: "card \<Rightarrow> card_action ui" where
  "default_view c =
     plain ''div''
       [Elem ''slot'' [(''name'', ''configs'')] []
          [plain ''div'' [TextNode ''New datasource, click the edit button to connect'']],
        Elem ''slot'' [(''name'', ''form''), (''class'', ''hidden'')] [] [],
        plain ''div''
          [plain ''div''
             [Elem ''button'' [(''type'', ''button''), (''aria-label'', ''Edit datasource'')] [(''click'', Edit)] [plain ''svg'' []],
              Elem ''button'' [(''type'', ''button''), (''name'', ''action''), (''value'', ''delete'')]
                [(''click'', SubmitDelete)] [plain ''svg'' []],
              when_ui (organizing c) (Elem ''button'' [(''type'', ''button'')] [(''click'', ReplaceIt)] [plain ''svg'' []])],
           Elem ''button''
             [(''type'', ''button''),
              (''class'', (if is_expanded c then ''rotate-180'' else []) @ '' '' @ (if card_height c < 96 then ''hidden'' else []))]
             [(''click'', Expand)] [plain ''svg'' []]]]"

definition test_class :: "int \<Rightarrow> string" where
  "test_class t = (if t = 0 then ''bg-red-600'' else if t = 1 then ''bg-green-600'' else ''bg-neutral-100'')"

definition edit_view :: "card \<Rightarrow> card_action ui" where
  "edit_view c =
     plain ''form''
       [Elem ''slot'' [(''name'', ''form'')] [] [],
        plain ''div''
          [Elem ''button'' [(''type'', ''submit''), (''value'', ''save''), (''title'', ''Save'')]
             [(''click'', SubmitAs ''save'')] [plain ''svg'' []],
           plain ''div''
             [Elem ''button'' [(''type'', ''submit''), (''value'', ''test''), (''title'', ''Test'')]
                [(''click'', SubmitAs ''test'')] [plain ''svg'' []],
              Elem ''span'' [(''class'', test_class (is_tested c))] [] []]],
        (if is_alert c then set_alert (alert_message c) else Nothing)]"

definition colour_buttons :: "card_action ui list" where
  "colour_buttons =
     map (\<lambda>(k, d). Elem ''button'' [(''data-testid'', ''color-select-'' @ k), (''value'', ''save''), (''class'', d)]
       [(''click'', ChooseColour k)] []) color_map"

text \<open>A colour that is not in the map reads as \<open>undefined\<close> in the class.\<close>

definition shown_colour :: "card \<Rightarrow> string" where
  "shown_colour c =
     (case map_of color_map (case color c of Some (x # xs) \<Rightarrow> x # xs | _ \<Rightarrow> ''blue'') of
        Some d \<Rightarrow> d | None \<Rightarrow> ''undefined'')"

definition render_card :: "card \<Rightarrow> card_action ui" where
  "render_card c =
     Elem ''div'' [(''role'', ''listitem''), (''class'', if is_expanded c then ''max-h-128'' else ''max-h-24''),
         (''aria-label'', ''Datasource '' @ (case ds_key c of None \<Rightarrow> [] | Some k \<Rightarrow> k))] []
       [Elem ''button'' [(''data-testid'', ''change-color''), (''class'', shown_colour c)] [(''click'', PickColour)] [],
        when_ui (is_colour_changed c) (Elem ''div'' [(''id'', ''color-choice-menu'')] [] colour_buttons),
        (if is_edited c then edit_view c else default_view c)]"

text \<open>What the buttons do; the buttons of colours have the value \<open>save\<close>.\<close>

fun card_click :: "card_action \<Rightarrow> bool \<Rightarrow> el list \<Rightarrow> card \<Rightarrow> card \<times> effect list" where
  "card_click Edit confirmed sl c = card_edit c"
| "card_click (SubmitAs a) confirmed sl c = (c, card_submit a confirmed sl c)"
| "card_click SubmitDelete confirmed sl c = (c, StopPropagation # card_submit ''delete'' confirmed sl c)"
| "card_click ReplaceIt confirmed sl c = (c, [card_replace sl])"
| "card_click Expand confirmed sl c = card_expand c"
| "card_click PickColour confirmed sl c = card_pick_colour c"
| "card_click (ChooseColour k) confirmed sl c = card_colour k ''save'' confirmed sl c"

section \<open>What the card does\<close>

text \<open>
  A card sends what it shows, once and only when allowed: a request is sent exactly when all
  of its inputs validate and, for a deletion, the user confirmed; then there is one, and it
  carries the action, the colour and every input with its value in document order. Otherwise
  nothing is sent, and an invalid input is reported.
\<close>

theorem card_submit_guarded:
  "filter (\<lambda>e. \<exists>r. e = Fetch r) (card_submit action confirmed slotted c) =
     (if (action \<noteq> ''delete'' \<or> confirmed) \<and> (\<forall>e \<in> set (inputs slotted). el_valid e)
      then [Fetch (post_form ''/api/datasource''
        ([(''action'', action), (''color'', color_text c)] @ map (\<lambda>e. (el_name e, el_value e)) (inputs slotted)))]
      else [])
   \<and> ((action \<noteq> ''delete'' \<or> confirmed) \<longrightarrow> (\<exists>e \<in> set (inputs slotted). \<not> el_valid e) \<longrightarrow>
        ConsoleError ''invalid input'' \<in> set (card_submit action confirmed slotted c))"
  by (auto simp: card_submit_def slotted.collect_all)

theorem card_submit_guarded_witness:
  "filter (\<lambda>e. \<exists>r. e = Fetch r) (card_submit ''save'' False [El ''input'' ''title'' ''x'' True []]
       (new_card (Some ''k'') (Some ''green'') True []))
     = [Fetch (post_form ''/api/datasource'' [(''action'', ''save''), (''color'', ''green''), (''title'', ''x'')])]
   \<and> ConsoleError ''invalid input'' \<in> set (card_submit ''save'' False [El ''input'' ''title'' ''x'' False []]
       (new_card (Some ''k'') (Some ''green'') True []))"
  using card_submit_guarded [of "''save''" False "[El ''input'' ''title'' ''x'' True []]"
      "new_card (Some ''k'') (Some ''green'') True []"]
    card_submit_guarded [of "''save''" False "[El ''input'' ''title'' ''x'' False []]"
      "new_card (Some ''k'') (Some ''green'') True []"]
  by (simp add: inputs_def is_valid_input_def color_text_def new_card_def)

text \<open>
  A card without a colour shows blue and saves something else: the bar has the class of blue,
  but what a save sends as the colour is the text \<open>undefined\<close>, and a card with that colour no
  longer shows blue. Choosing a colour sends exactly the colour that was chosen.
\<close>

theorem unset_colour_is_saved_as_undefined:
  "shown_colour (new_card k None e ls) = shown_colour (new_card k (Some ''blue'') e ls)
   \<and> collect (inputs []) [(''action'', ''save''), (''color'', color_text (new_card k None e ls))]
       = Some [(''action'', ''save''), (''color'', ''undefined'')]
   \<and> shown_colour (new_card k (Some (color_text (new_card k None e ls))) e ls) \<noteq> shown_colour (new_card k None e ls)
   \<and> color_text (fst (card_colour chosen action confirmed slotted c)) = chosen"
  by (simp add: shown_colour_def new_card_def color_map_def inputs_def color_text_def card_colour_def Let_def)

text \<open>
  A card never unregisters: its listener for the load of the window is still there after it
  was disconnected, since a fresh function is removed; with every further connection there is
  one more.
\<close>

theorem load_listener_leaks:
  assumes "b \<noteq> a" and "d \<noteq> a"
  shows "has_listener (listener_of ''window'' ''load'' a)
      (window_listeners (card_disconnected d (card_connected c (card_disconnected b (card_connected a x)))))"
  using assms
  by (simp add: card_disconnected_def card_connected_def Let_def dom_registry.has_add dom_registry.has_remove)

theorem load_listener_leaks_witness:
  "has_listener (listener_of ''window'' ''load'' 1)
     (window_listeners (card_disconnected 4 (card_connected 3 (card_disconnected 2 (card_connected 1
        (new_card None None False []))))))"
  by (rule load_listener_leaks) simp_all

text \<open>
  The card tells the truth about the last test: after its answer the light is green and there
  is no alert when the server said ok, and otherwise the light is red and the alert shows the
  message of the server; a test leaves the card in the mode it was in.
\<close>

theorem test_is_shown:
  assumes "payload r = Some (JObj kvs)" and "is_edited c"
  shows "is_edited (fst (card_answered ''test'' r c))
    \<and> (map_of kvs ''Result'' = Some (JStr ''ok'') \<longrightarrow>
         ui_texts (render_card (fst (card_answered ''test'' r (c\<lparr>is_colour_changed := False\<rparr>)))) = []
         \<and> test_class (is_tested (fst (card_answered ''test'' r c))) = ''bg-green-600'')
    \<and> (map_of kvs ''Result'' \<noteq> Some (JStr ''ok'') \<longrightarrow> map_of kvs ''Message'' = Some (JStr m) \<longrightarrow>
         ui_texts (render_card (fst (card_answered ''test'' r (c\<lparr>is_colour_changed := False\<rparr>)))) = [m]
         \<and> test_class (is_tested (fst (card_answered ''test'' r c))) = ''bg-red-600'')"
  using assms
  by (simp add: card_answered_def render_card_def edit_view_def set_alert_def render_alert_def alert_open_def
      new_alert_def when_ui_def test_class_def)

theorem test_is_shown_witness:
  "ui_texts (render_card (fst (card_answered ''test''
      \<lparr>status = 200, payload = Some (JObj [(''Result'', JStr ''error''), (''Message'', JStr ''no route'')])\<rparr>
      ((new_card (Some ''k'') None True [])\<lparr>is_colour_changed := False\<rparr>)))) = [''no route'']"
  by (rule test_is_shown [where kvs = "[(''Result'', JStr ''error''), (''Message'', JStr ''no route'')]" and m = "''no route''",
        THEN conjunct2, THEN conjunct2, rule_format, THEN conjunct1])
    (simp_all add: new_card_def)

text \<open>
  The buttons of a card fit its mode: a new source (one without a key) opens in edit mode,
  where it can be saved and tested but not deleted; a saved one that is not edited can be
  edited and deleted but neither saved nor tested; the pencil switches between the two, with
  the card opened.
\<close>

theorem card_modes:
  "(falsy_string (ds_key c) \<longrightarrow> is_edited (card_connected n c) \<and> is_expanded (card_connected n c))
   \<and> (\<not> is_colour_changed c \<longrightarrow> map snd (ui_actions (render_card c)) =
        (if is_edited c then [PickColour, SubmitAs ''save'', SubmitAs ''test'']
         else [PickColour, Edit, SubmitDelete] @ (if organizing c then [ReplaceIt] else []) @ [Expand]))
   \<and> is_edited (fst (card_edit c)) = (\<not> is_edited c) \<and> is_expanded (fst (card_edit c))"
  by (simp add: card_connected_def Let_def render_card_def edit_view_def default_view_def card_edit_def
      set_alert_def render_alert_def)

theorem card_modes_witness:
  "is_edited (card_connected 1 (new_card None None False []))
   \<and> map snd (ui_actions (render_card (new_card (Some ''k'') None False []))) = [PickColour, Edit, SubmitDelete, Expand]"
  using card_modes [of "new_card None None False []" 1] card_modes [of "new_card (Some ''k'') None False []" 1]
  by (simp add: new_card_def falsy_string_def)

end
