(* ===== verification/Datasource_List.thy ===== *)
theory Datasource_List
  imports Datasources Notebook_Events Api
begin

text \<open>
  The lists of data sources: \<open>webc/datasource-list.js\<close> (tabs and pages of cards, new cards),
  \<open>webc/datasource-replace.js\<close> (replacing the source of each cell) and
  \<open>webc/notebook-datasources.js\<close> (the searchable list of streams). What the server lists is a
  list of sources with their streams; a missing field is \<open>None\<close>, and reading the streams of a
  source that has none throws.
\<close>

record stream =
  st_id :: string
  st_name :: string

record source =
  src_title :: string
  src_description :: "string option"
  src_streams :: "stream list option"

section \<open>Tabs and pages\<close>

definition page_length :: nat where
  "page_length = 6"

text \<open>An element is its list of classes.\<close>

definition remove_classes :: "string list \<Rightarrow> string list \<Rightarrow> string list" where
  "remove_classes cs el = filter (\<lambda>c. c \<notin> set cs) el"

definition add_classes :: "string list \<Rightarrow> string list \<Rightarrow> string list" where
  "add_classes cs el = fold (\<lambda>c acc. if c \<in> set acc then acc else acc @ [c]) cs el"

lemma set_add_classes [simp]: "set (add_classes cs el) = set cs \<union> set el"
proof (induction cs arbitrary: el)
  case (Cons c cs)
  have "add_classes (c # cs) el = add_classes cs (if c \<in> set el then el else el @ [c])"
    by (simp add: add_classes_def)
  with Cons show ?case by auto
qed (simp add: add_classes_def)

lemma set_remove_classes [simp]: "set (remove_classes cs el) = set el - set cs"
  by (auto simp: remove_classes_def)

definition pages_amount :: "nat \<Rightarrow> nat" where
  "pages_amount n = (n + page_length - 1) div page_length"

text \<open>The buttons of the pages, each with its number; there are none for a single page.\<close>

definition page_buttons :: "nat \<Rightarrow> (string \<times> string) list" where
  "page_buttons n =
     (if n > page_length then map (\<lambda>j. (show_nat j, show_nat (j + 1))) [0..<pages_amount n] else [])"

definition hide_rest :: "string list list \<Rightarrow> string list list" where
  "hide_rest els =
     (if length els > page_length
      then map (\<lambda>(i, el). if i \<ge> page_length then add_classes [''hidden''] el else el) (enumerate 0 els)
      else els)"

text \<open>\<open>parseInt\<close> of the number of the page; NaN is on no page.\<close>

definition on_page :: "int option \<Rightarrow> nat \<Rightarrow> bool" where
  "on_page page i =
     (case page of None \<Rightarrow> False
      | Some p \<Rightarrow> int i < (p + 1) * int page_length \<and> int i \<ge> p * int page_length)"

definition page_change :: "string \<Rightarrow> string list list \<Rightarrow> string list list" where
  "page_change data_page els =
     map (\<lambda>(i, el).
        if on_page (parse_int data_page) i
        then add_classes [''fade-in''] (remove_classes [''hidden'', ''fade-out''] el)
        else add_classes [''fade-out''] (remove_classes [''fade-in''] el))
       (enumerate 0 els)"

definition shown :: "string list \<Rightarrow> bool" where
  "shown el \<longleftrightarrow> ''hidden'' \<notin> set el \<and> ''fade-out'' \<notin> set el"

text \<open>A tab is its slot name with its classes.\<close>

definition tab_change :: "string \<Rightarrow> (string \<times> string list) list \<Rightarrow> (string \<times> string list) list" where
  "tab_change tab tabs =
     (let tabs1 = map (\<lambda>(s, el). (s, remove_classes [''active''] (add_classes [''fade-out''] (remove_classes [''fade-in''] el)))) tabs;
          i = find_index (\<lambda>(s, el). s = tab) tabs1
      in if i < 0 then tabs1
         else tabs1[nat i := (fst (tabs1 ! nat i),
           remove_classes [''hidden'', ''fade-out''] (add_classes [''active'', ''fade-in''] (snd (tabs1 ! nat i))))])"

definition set_button_active :: "nat \<Rightarrow> string list list \<Rightarrow> string list list" where
  "set_button_active k buttons =
     (let bs = map (\<lambda>b. add_classes [''bg-neutral-200'', ''dark:bg-neutral-700'', ''dark:text-white'']
                 (remove_classes [''bg-yellow-400'', ''text-neutral-900''] b)) buttons
      in bs[k := remove_classes [''bg-neutral-200'', ''dark:bg-neutral-700'', ''dark:text-white'']
           (add_classes [''bg-yellow-400'', ''text-neutral-900''] (bs ! k))])"

lemma nth_page_change:
  "i < length els \<Longrightarrow> page_change p els ! i =
     (if on_page (parse_int p) i
      then add_classes [''fade-in''] (remove_classes [''hidden'', ''fade-out''] (els ! i))
      else add_classes [''fade-out''] (remove_classes [''fade-in''] (els ! i)))"
  by (simp add: page_change_def nth_enumerate_eq)

lemma length_page_change [simp]: "length (page_change p els) = length els"
  by (simp add: page_change_def)

lemma on_page_iff: "on_page (Some (int p)) i \<longleftrightarrow> i div page_length = p"
proof -
  have "i div page_length = p \<longleftrightarrow> p * page_length \<le> i \<and> i < (p + 1) * page_length"
    by (auto simp: page_length_def)
  also have "\<dots> \<longleftrightarrow> on_page (Some (int p)) i"
    by (auto simp: on_page_def page_length_def)
  finally show ?thesis by simp
qed

lemma div_less_pages: "i < n \<Longrightarrow> i div page_length < pages_amount n"
  by (simp add: pages_amount_def page_length_def)

text \<open>
  C37: Paging shows each card on one page: after the button of a page was clicked, whatever was
  shown before, a card is shown exactly when its place divided by six is the page; when there
  is more than one page, every card is on the page of exactly one button; and the first page
  is what is shown at the start.
\<close>

theorem paging_partitions_cards:
  assumes "i < length els"
  shows "(shown (page_change (show_nat p) els ! i) \<longleftrightarrow> i div page_length = p)
    \<and> (page_length < length els \<longrightarrow>
        (\<exists>!b. b \<in> set (page_buttons (length els)) \<and> shown (page_change (fst b) els ! i)))
    \<and> (shown (els ! i) \<longrightarrow> (shown (hide_rest els ! i) \<longleftrightarrow> i div page_length = 0 \<or> length els \<le> page_length))"
proof (intro conjI impI)
  show s: "shown (page_change (show_nat p) els ! i) \<longleftrightarrow> i div page_length = p" for p
    using assms by (simp add: nth_page_change parse_int_show_nat on_page_iff shown_def)
  show "\<exists>!b. b \<in> set (page_buttons (length els)) \<and> shown (page_change (fst b) els ! i)"
    if "page_length < length els"
    using that assms s div_less_pages [OF assms] by (auto simp: page_buttons_def)
  show "shown (hide_rest els ! i) \<longleftrightarrow> i div page_length = 0 \<or> length els \<le> page_length" if "shown (els ! i)"
    using that assms by (auto simp: hide_rest_def nth_enumerate_eq shown_def page_length_def)
qed

theorem paging_partitions_cards_witness:
  "shown (page_change (show_nat 1) (replicate 8 []) ! 7) \<and> \<not> shown (page_change (show_nat 1) (replicate 8 []) ! 2)"
  using paging_partitions_cards [of 7 "replicate 8 []" 1] paging_partitions_cards [of 2 "replicate 8 []" 1]
  by (simp add: page_length_def)

text \<open>
  Exactly one tab is active after the button of a tab was clicked: the first with its name,
  and it is shown; the others fade out and are not active.
\<close>

theorem one_tab_is_active:
  assumes "distinct (map fst tabs)" and "(t, el) \<in> set tabs" and "(u, el2) \<in> set (tab_change t tabs)"
  shows "(''active'' \<in> set el2 \<longleftrightarrow> u = t) \<and> (shown el2 \<longleftrightarrow> u = t)"
proof -
  define g where "g = (\<lambda>el. remove_classes [''active''] (add_classes [''fade-out''] (remove_classes [''fade-in''] el)))"
  let ?tabs1 = "map (\<lambda>(s, el). (s, g el)) tabs" and ?P = "\<lambda>(s, el). s = t"
  let ?i = "find_index ?P ?tabs1"
  have names: "map fst ?tabs1 = map fst tabs" by (simp add: case_prod_unfold)
  have "\<not> ?i < 0" using assms(2) by (force simp: find_index_neg)
  then have i: "nat ?i < length ?tabs1" "fst (?tabs1 ! nat ?i) = t"
    using find_index_nth [of ?P ?tabs1] by auto
  define new where "new = remove_classes [''hidden'', ''fade-out''] (add_classes [''active'', ''fade-in''] (snd (?tabs1 ! nat ?i)))"
  have tc: "tab_change t tabs = ?tabs1[nat ?i := (t, new)]"
    using \<open>\<not> ?i < 0\<close> i(2) by (simp add: tab_change_def Let_def new_def g_def)
  from assms(3) obtain j where j: "j < length tabs" "?tabs1[nat ?i := (t, new)] ! j = (u, el2)"
    by (auto simp: tc in_set_conv_nth)
  show ?thesis
  proof (cases "j = nat ?i")
    case True
    with j i(1) have "u = t" "el2 = new" by simp_all
    then show ?thesis by (simp add: new_def shown_def)
  next
    case False
    then have ju: "?tabs1 ! j = (u, el2)" using j by simp
    then have e: "el2 = g (snd (tabs ! j))" and "fst (?tabs1 ! j) = u" using j(1) by (auto simp: case_prod_unfold)
    moreover have "map fst ?tabs1 ! j \<noteq> map fst ?tabs1 ! nat ?i"
      using assms(1) False i(1) j(1) by (subst nth_eq_iff_index_eq) (simp_all only: names length_map not_False_eq_True)
    then have "fst (?tabs1 ! j) \<noteq> fst (?tabs1 ! nat ?i)" using i(1) j(1) by simp
    ultimately have "u \<noteq> t" using i(2) by simp
    with e show ?thesis by (simp add: g_def shown_def)
  qed
qed

theorem one_tab_is_active_witness:
  "\<forall>(u, el) \<in> set (tab_change ''tab1'' [(''tab0'', [''active'']), (''tab1'', [''hidden''])]).
     (''active'' \<in> set el \<longleftrightarrow> u = ''tab1'') \<and> (shown el \<longleftrightarrow> u = ''tab1'')"
proof clarify
  fix u el assume a: "(u, el) \<in> set (tab_change ''tab1'' [(''tab0'', [''active'']), (''tab1'', [''hidden''])])"
  show "(''active'' \<in> set el \<longleftrightarrow> u = ''tab1'') \<and> (shown el \<longleftrightarrow> u = ''tab1'')"
    by (rule one_tab_is_active [OF _ _ a, of "[''hidden'']"]) simp_all
qed

section \<open>New cards and duplicates\<close>

text \<open>
  A card that is to be shown for a type of source: chosen in the list of types, without data, or
  copied from another card, with the data of its inputs.
\<close>

type_synonym field_data = "(string \<times> string) list"

record ds_list =
  ds_cells :: "(string \<times> field_data option) list"
  new_cell_flag :: bool
  list_alert :: bool
  do_update :: bool

definition empty_list :: ds_list where
  "empty_list = \<lparr>ds_cells = [], new_cell_flag = False, list_alert = False, do_update = False\<rparr>"

definition select_type :: "string \<Rightarrow> ds_list \<Rightarrow> ds_list" where
  "select_type ty s =
     (if \<not> new_cell_flag s then s\<lparr>new_cell_flag := True, ds_cells := ds_cells s @ [(ty, None)]\<rparr>
      else s\<lparr>list_alert := True\<rparr>)"

text \<open>The detail of the event, an array of names and values, as pairs.\<close>

definition string_field :: "string \<Rightarrow> json \<Rightarrow> string" where
  "string_field k j = (case jget j k of Some (JStr s) \<Rightarrow> s | _ \<Rightarrow> [])"

fun change_detail :: "json \<Rightarrow> field_data" where
  "change_detail (JArr js) = map (\<lambda>j. (string_field ''name'' j, string_field ''value'' j)) js"
| "change_detail _ = []"

definition datasource_changed :: "json \<Rightarrow> ds_list \<Rightarrow> ds_list" where
  "datasource_changed detail s =
     fold (\<lambda>(k, v) t. if k = ''type''
         then t\<lparr>ds_cells := ds_cells t @ [(v, Some (change_detail detail))], do_update := True\<rparr> else t)
       (change_detail detail) s"

text \<open>
  \<open>updated\<close>: the inputs of the slot of each card take the values of the data with their name,
  the key left alone. A card without data has \<open>undefined\<close> to iterate over, which throws at the
  first input of its slot; what was filled before stays, and \<open>doUpdate\<close> is not reset.
\<close>

definition set_value :: "string \<Rightarrow> el \<Rightarrow> el" where
  "set_value v e = El (el_tag e) (el_name e) v (el_valid e) (el_kids e)"

definition fill_input :: "field_data \<Rightarrow> el \<Rightarrow> el" where
  "fill_input dat e = fold (\<lambda>(k, v) x. if k \<noteq> ''key'' \<and> k = el_name x then set_value v x else x) dat e"

type_synonym slots = "string \<Rightarrow> el list option"

fun fill_cells :: "(string \<times> field_data option) list \<Rightarrow> slots \<Rightarrow> slots \<times> bool" where
  "fill_cells [] slots = (slots, False)"
| "fill_cells ((ty, d) # cells) slots =
     (case slots ty of
        None \<Rightarrow> fill_cells cells slots
      | Some es \<Rightarrow>
          (case d of
             Some dat \<Rightarrow> fill_cells cells (slots(ty \<mapsto> map (fill_input dat) es))
           | None \<Rightarrow> if es = [] then fill_cells cells slots else (slots, True)))"

definition list_updated :: "bool \<Rightarrow> slots \<Rightarrow> ds_list \<Rightarrow> slots \<times> ds_list" where
  "list_updated organizing_flag slots s =
     (if organizing_flag \<and> do_update s then
        (case fill_cells (ds_cells s) slots of
           (slots1, threw) \<Rightarrow> (slots1, if threw then s else s\<lparr>do_update := False\<rparr>))
      else (slots, s\<lparr>do_update := False\<rparr>))"

datatype list_action = ChangeTab nat | SelectType

text \<open>The slots and the alert; the buttons of the tabs are there without the flag for pagination.\<close>

definition render_list :: "bool \<Rightarrow> string list \<Rightarrow> ds_list \<Rightarrow> list_action ui" where
  "render_list pagination captions s =
     plain ''div''
       [when_ui (\<not> pagination)
          (plain ''div''
             (map (\<lambda>(i, v). Elem ''button'' [(''data-tab'', ''tab'' @ show_nat i)] [(''click'', ChangeTab i)] [TextNode v])
                (enumerate 0 captions))),
        plain ''div'' (map (\<lambda>i. Elem ''slot'' [(''name'', ''tab'' @ show_nat i)] [] []) [0..<length captions]),
        plain ''div''
          [plain ''p'' [TextNode ''Connect another source''],
           Elem ''slot'' [(''name'', ''select'')] [(''change'', SelectType)] []],
        plain ''div'' (map (\<lambda>(ty, d). Elem ''slot'' [(''name'', ty)] [] []) (ds_cells s)),
        (if list_alert s then set_alert ''Please save created datasource first'' else Nothing)]"

lemma el_name_set_value [simp]: "el_name (set_value v e) = el_name e" "el_value (set_value v e) = v"
  by (simp_all add: set_value_def)

lemma el_name_fill [simp]: "el_name (fill_input dat e) = el_name e"
proof -
  have "el_name (fold (\<lambda>(k, v) x. if k \<noteq> ''key'' \<and> k = el_name x then set_value v x else x) dat x) = el_name x" for x
    by (induction dat arbitrary: x) (simp_all add: case_prod_unfold)
  then show ?thesis by (simp add: fill_input_def)
qed

lemma fill_input_value:
  assumes "distinct (map fst dat)"
  shows "el_value (fill_input dat e) =
    (case map_of dat (el_name e) of Some v \<Rightarrow> if el_name e = ''key'' then el_value e else v | None \<Rightarrow> el_value e)"
proof -
  let ?f = "\<lambda>(k, v) x. if k \<noteq> ''key'' \<and> k = el_name x then set_value v x else x"
  have skip: "el_value (fold ?f ds x) = el_value x" if "el_name x \<notin> fst ` set ds" for ds x
    using that by (induction ds arbitrary: x) auto
  have "el_value (fold ?f ds x) =
      (case map_of ds (el_name x) of Some v \<Rightarrow> if el_name x = ''key'' then el_value x else v | None \<Rightarrow> el_value x)"
    if "distinct (map fst ds)" for ds x
    using that
  proof (induction ds arbitrary: x)
    case (Cons kv ds)
    obtain k v where kv: "kv = (k, v)" by (cases kv)
    show ?case
    proof (cases "k = el_name x")
      case True
      with Cons.prems have "el_name (set_value v x) \<notin> fst ` set ds" "el_name x \<notin> fst ` set ds" by (auto simp: kv)
      with skip [of "set_value v x" ds] skip [of x ds] True show ?thesis by (simp add: kv)
    next
      case False
      with Cons show ?thesis by (simp add: kv)
    qed
  qed simp
  with assms show ?thesis by (simp add: fill_input_def)
qed

lemma change_detail_replace:
  "card_replace slotted = DispatchEvent n d \<Longrightarrow>
     change_detail d = map (\<lambda>e. (el_name e, el_value e)) (filter el_valid (inputs slotted))"
  by (auto simp: card_replace_def string_field_def)

lemma datasource_changed_once:
  assumes "distinct (map fst (change_detail d))" and "map_of (change_detail d) ''type'' = Some ty"
  shows "datasource_changed d s = s\<lparr>ds_cells := ds_cells s @ [(ty, Some (change_detail d))], do_update := True\<rparr>"
proof -
  define dd where "dd = change_detail d"
  let ?f = "\<lambda>(k, v) t. if k = ''type'' then t\<lparr>ds_cells := ds_cells t @ [(v, Some dd)], do_update := True\<rparr> else t"
  have skip: "fold ?f ds t = t" if "''type'' \<notin> fst ` set ds" for ds t
    using that by (induction ds arbitrary: t) auto
  have "fold ?f ds t = t\<lparr>ds_cells := ds_cells t @ [(ty, Some dd)], do_update := True\<rparr>"
    if "distinct (map fst ds)" "map_of ds ''type'' = Some ty" for ds t
    using that
  proof (induction ds arbitrary: t)
    case (Cons kv ds)
    obtain k v where kv: "kv = (k, v)" by (cases kv)
    show ?case
    proof (cases "k = ''type''")
      case True
      with Cons.prems skip [of ds] show ?thesis by (simp add: kv)
    qed (use Cons kv in simp)
  qed simp
  from this [OF assms [folded dd_def]] show ?thesis unfolding datasource_changed_def dd_def [symmetric] .
qed

text \<open>
  Duplicating a data source copies what was entered: the event that a card sends makes the
  list show one more card of its type, and after the update the inputs of that card have the
  values of the inputs of the same name, except the key, which stays what it was, so that the
  copy is saved as a new source.
\<close>

theorem duplicate_keeps_values:
  assumes "card_replace slotted = DispatchEvent n d" and "distinct (map fst (change_detail d))"
    and "map_of (change_detail d) ''type'' = Some ty" and "slots ty = Some es"
  shows "let (slots1, s1) = list_updated True slots (datasource_changed d empty_list)
    in ds_cells s1 = [(ty, Some (change_detail d))] \<and> \<not> do_update s1
     \<and> map_option (map el_name) (slots1 ty) = Some (map el_name es)
     \<and> map_option (map el_value) (slots1 ty) = Some (map (\<lambda>e.
          if el_name e = ''key'' then el_value e
          else case map_of (map (\<lambda>e. (el_name e, el_value e)) (filter el_valid (inputs slotted))) (el_name e) of
                 Some v \<Rightarrow> v | None \<Rightarrow> el_value e) es)"
proof -
  have dd: "change_detail d = map (\<lambda>e. (el_name e, el_value e)) (filter el_valid (inputs slotted))"
    by (rule change_detail_replace [OF assms(1)])
  have "list_updated True slots (datasource_changed d empty_list)
      = (slots(ty \<mapsto> map (fill_input (change_detail d)) es),
         empty_list\<lparr>ds_cells := [(ty, Some (change_detail d))], do_update := False\<rparr>)"
    using assms(4)
    by (simp add: datasource_changed_once [OF assms(2,3)] list_updated_def empty_list_def)
  then show ?thesis
    using fill_input_value [OF assms(2)]
    by (simp add: dd [symmetric] comp_def empty_list_def split: option.split)
qed

theorem duplicate_keeps_values_witness:
  "map_option (map el_value) (fst (list_updated True [''pg'' \<mapsto> [El ''input'' ''host'' [] True [], El ''input'' ''key'' ''new'' True []]]
      (datasource_changed (JArr [JObj [(''name'', JStr ''type''), (''value'', JStr ''pg'')],
          JObj [(''name'', JStr ''host''), (''value'', JStr ''db'')], JObj [(''name'', JStr ''key''), (''value'', JStr ''old'')]])
        empty_list)) ''pg'') = Some [''db'', ''new'']"
  using duplicate_keeps_values [of "[El ''input'' ''type'' ''pg'' True [], El ''input'' ''host'' ''db'' True [],
        El ''input'' ''key'' ''old'' True []]" "''datasource-change''"
      "JArr [JObj [(''name'', JStr ''type''), (''value'', JStr ''pg'')],
          JObj [(''name'', JStr ''host''), (''value'', JStr ''db'')], JObj [(''name'', JStr ''key''), (''value'', JStr ''old'')]]"
      "''pg''" "[''pg'' \<mapsto> [El ''input'' ''host'' [] True [], El ''input'' ''key'' ''new'' True []]]"
      "[El ''input'' ''host'' [] True [], El ''input'' ''key'' ''new'' True []]"]
  by (simp add: card_replace_def inputs_def is_valid_input_def string_field_def case_prod_unfold Let_def)

text \<open>
  A duplicate after a new card is not filled in: once a type was chosen from the list and its
  slot has an input, the update that a duplicate asks for stops at that card with an exception,
  no input gets a value, and the update stays due.
\<close>

theorem duplicate_after_new_card_fails:
  assumes "slots ty = Some (e # es)"
    and "distinct (map fst (change_detail d))" and "map_of (change_detail d) ''type'' = Some ty2"
  shows "let s = datasource_changed d (select_type ty empty_list)
    in do_update s \<and> list_updated True slots s = (slots, s)"
  using assms(1)
  by (simp add: datasource_changed_once [OF assms(2,3)] select_type_def empty_list_def list_updated_def Let_def)

theorem duplicate_after_new_card_fails_witness:
  "fst (list_updated True [''pg'' \<mapsto> [El ''input'' ''host'' [] True []]]
      (datasource_changed (JArr [JObj [(''name'', JStr ''type''), (''value'', JStr ''pg'')],
          JObj [(''name'', JStr ''host''), (''value'', JStr ''db'')]]) (select_type ''pg'' empty_list)))
    = [''pg'' \<mapsto> [El ''input'' ''host'' [] True []]]"
  using duplicate_after_new_card_fails [of "[''pg'' \<mapsto> [El ''input'' ''host'' [] True []]]" "''pg''"
      "El ''input'' ''host'' [] True []" "[]" "JArr [JObj [(''name'', JStr ''type''), (''value'', JStr ''pg'')],
          JObj [(''name'', JStr ''host''), (''value'', JStr ''db'')]]" "''pg''"]
  by (simp add: string_field_def Let_def)

end
