(* ===== verification/Source_Lists.thy ===== *)
theory Source_Lists
  imports Datasource_List Notebook
begin

text \<open>
  \<open>webc/notebook-datasources.js\<close>, the searchable list of streams from which a cell is created,
  and \<open>webc/datasource-replace.js\<close>, the dialog that gives each cell of a notebook another
  source. Both flatten the sources that the server lists into their streams; reading the
  streams of a source that has none throws (\<open>None\<close>). The log line of \<open>search\<close> is left out, and
  the dash before a description is an ASCII one here.
\<close>

section \<open>Streams\<close>

record stream_entry =
  en_id :: string
  en_title :: string
  en_name :: string
  en_description :: "string option"

text \<open>The entries up to the first source without streams, and whether there was one.\<close>

fun stream_list :: "source list \<Rightarrow> stream_entry list \<times> bool" where
  "stream_list [] = ([], False)"
| "stream_list (src # srcs) =
     (case src_streams src of
        None \<Rightarrow> ([], True)
      | Some sts \<Rightarrow>
          (case stream_list srcs of (es, threw) \<Rightarrow>
             (map (\<lambda>st. \<lparr>en_id = st_id st, en_title = src_title src, en_name = st_name st,
                en_description = src_description src\<rparr>) sts @ es, threw)))"

section \<open>Searching\<close>

record source_search =
  entries :: "stream_entry list"
  search_list :: "stream_entry list"
  search_value :: string
  loading :: bool
  list_error :: "string option"

definition initial_search :: source_search where
  "initial_search = \<lparr>entries = [], search_list = [], search_value = [], loading = True, list_error = None\<rparr>"

text \<open>
  \<open>fetchList\<close> after its request: the sources, or the message of the exception. The list is
  pushed to, and it is built in either case.
\<close>

definition list_fetched :: "string + source list \<Rightarrow> source_search \<Rightarrow> source_search \<times> effect list" where
  "list_fetched answer s =
     (case answer of
        Inl err \<Rightarrow> (s\<lparr>list_error := Some err, loading := False\<rparr>, [ConsoleError err])
      | Inr srcs \<Rightarrow> (s\<lparr>loading := False, entries := entries s @ fst (stream_list srcs)\<rparr>, []))"

definition entry_matches :: "string \<Rightarrow> stream_entry \<Rightarrow> bool option" where
  "entry_matches q e =
     (case en_description e of
        None \<Rightarrow> None
      | Some d \<Rightarrow> Some (str_includes (to_lower (en_name e)) q \<or> str_includes (to_lower (en_title e)) q
                     \<or> str_includes (to_lower d) q))"

text \<open>The loop of \<open>search\<close>; an entry without description throws, what was found before stays.\<close>

fun search_loop :: "string \<Rightarrow> stream_entry list \<Rightarrow> stream_entry list \<Rightarrow> stream_entry list \<times> bool" where
  "search_loop q [] found = (found, False)"
| "search_loop q (e # es) found =
     (case entry_matches q e of
        None \<Rightarrow> (found, True)
      | Some b \<Rightarrow> search_loop q es (if b then found @ [e] else found))"

definition search_input :: "string \<Rightarrow> source_search \<Rightarrow> source_search" where
  "search_input typed s =
     (let q = to_lower typed in s\<lparr>search_value := q, search_list := fst (search_loop q (entries s) [])\<rparr>)"

datatype source_action = SearchKey | CreateFrom string string

definition render_entry :: "stream_entry \<Rightarrow> source_action ui" where
  "render_entry e =
     plain ''li''
       [Elem ''a'' [] [(''click'', CreateFrom (en_name e) (en_id e))]
          ([plain ''svg'' [], plain ''p'' [TextNode (en_title e)],
            plain ''p'' [TextNode (''('' @ en_name e @ '')'')]]
           @ (case en_description e of
                Some (c # cs) \<Rightarrow> [plain ''p'' [TextNode ('' - '' @ c # cs)]] | _ \<Rightarrow> []))]"

definition empty_state :: "'a ui" where
  "empty_state = plain ''p'' [TextNode ''No Data Source yet,'',
     Elem ''a'' [(''href'', ''/datasources'')] [] [TextNode '' click to create one.'']]"

definition render_sources :: "source_search \<Rightarrow> source_action ui" where
  "render_sources s =
     (let searching = search_value s \<noteq> [];
          items = map render_entry (if searching then search_list s else entries s);
          failed = (case list_error s of Some (c # cs) \<Rightarrow> True | _ \<Rightarrow> False)
      in plain ''div''
           [Elem ''input'' [(''name'', ''filter'')] [(''keyup'', SearchKey)] [],
            (case list_error s of
               Some (c # cs) \<Rightarrow> plain ''p'' [TextNode (''Error while listing data sources:'' @ (c # cs) @ ''. Refresh the page to try again.'')]
             | _ \<Rightarrow> Nothing),
            (if \<not> loading s \<and> \<not> failed then
               (if items \<noteq> [] then plain ''ul'' items
                else if searching then TextNode ''Nothing found'' else empty_state)
             else Nothing)])"

definition create_cell_from :: "string \<Rightarrow> string \<Rightarrow> effect \<times> string" where
  "create_cell_from title dataSource =
     dispatch_create_cell (JObj [(''title'', JStr title), (''dataSource'', JStr dataSource)]) (Some ''this'')"

lemma search_loop_filter:
  "\<forall>e \<in> set es. en_description e \<noteq> None \<Longrightarrow>
     search_loop q es found = (found @ filter (\<lambda>e. entry_matches q e = Some True) es, False)"
  by (induction es arbitrary: found) (auto simp: entry_matches_def)

text \<open>
  The search shows exactly what matches, whatever the case: when every source has a
  description, what can be clicked after typing are the streams whose name, title or
  description contains the text, in the order of the list, case aside; an emptied field shows
  the whole list again.
\<close>

theorem search_shows_matches:
  assumes "\<forall>e \<in> set (entries s). en_description e \<noteq> None" and "\<not> loading s" and "list_error s = None"
  shows "map snd (ui_actions (render_sources (search_input typed s))) =
    SearchKey # map (\<lambda>e. CreateFrom (en_name e) (en_id e))
      (filter (\<lambda>e. \<exists>txt \<in> {en_name e, en_title e, the (en_description e)}.
         sublist (to_lower typed) (to_lower txt)) (entries s))"
proof -
  have acts: "ui_actions (render_entry e) = [(''click'', CreateFrom (en_name e) (en_id e))]" for e
    by (auto simp: render_entry_def split: option.split list.split)
  have items: "concat (map ui_actions (map render_entry es)) = map (\<lambda>e. (''click'', CreateFrom (en_name e) (en_id e))) es" for es
    by (induction es) (simp_all add: acts)
  have clicks: "map snd (map (\<lambda>e. (''click'', CreateFrom (en_name e) (en_id e))) es) = map (\<lambda>e. CreateFrom (en_name e) (en_id e)) es" for es
    by simp
  have m: "filter (\<lambda>e. entry_matches (to_lower typed) e = Some True) (entries s)
      = filter (\<lambda>e. \<exists>txt \<in> {en_name e, en_title e, the (en_description e)}.
         sublist (to_lower typed) (to_lower txt)) (entries s)"
    using assms(1) by (intro filter_cong) (auto simp: entry_matches_def str_includes_iff_sublist)
  have empty: "typed = [] \<Longrightarrow> filter (\<lambda>e. entry_matches (to_lower typed) e = Some True) (entries s) = entries s"
    using assms(1) by (intro filter_True) (auto simp: entry_matches_def to_lower_def str_includes_iff_sublist)
  have "to_lower typed = [] \<longleftrightarrow> typed = []" by (simp add: to_lower_def)
  then show ?thesis unfolding m [symmetric] using assms empty
    by (auto simp: render_sources_def search_input_def Let_def search_loop_filter items clicks empty_state_def
        simp del: map_map)
qed

theorem search_shows_matches_witness:
  "map snd (ui_actions (render_sources (search_input ''FIRE''
      (initial_search\<lparr>loading := False, entries := [\<lparr>en_id = ''1'', en_title = ''Firewall'', en_name = ''fw'', en_description = Some ''x''\<rparr>,
         \<lparr>en_id = ''2'', en_title = ''DNS'', en_name = ''dns'', en_description = Some ''y''\<rparr>]\<rparr>))))
    = [SearchKey, CreateFrom ''fw'' ''1'']"
proof -
  let ?s = "initial_search\<lparr>loading := False, entries := [\<lparr>en_id = ''1'', en_title = ''Firewall'', en_name = ''fw'', en_description = Some ''x''\<rparr>,
         \<lparr>en_id = ''2'', en_title = ''DNS'', en_name = ''dns'', en_description = Some ''y''\<rparr>]\<rparr>"
  have l: "to_lower ''FIRE'' = ''fire''" "to_lower ''Firewall'' = ''fire'' @ ''wall''" "to_lower ''dns'' = ''dns''"
    "to_lower ''DNS'' = ''dns''" "to_lower ''y'' = ''y''"
    by code_simp+
  have f: "sublist ''fire'' (''fire'' @ ''wall'')" by (simp add: sublist_def) (metis append_Nil)
  have n: "\<not> sublist ''fire'' ''dns''" "\<not> sublist ''fire'' ''y''"
    by (auto dest!: sublist_length_le simp: sublist_Cons_right prefix_Cons)
  show ?thesis
    using search_shows_matches [of ?s "''FIRE''"] f n unfolding l
    by (simp add: initial_search_def l del: append.simps append_Cons)
qed

section \<open>Replacing the sources of a notebook\<close>

text \<open>
  \<open>datasource-replace.js\<close>. The notebook is read by its id, or given as text in \<open>nb\<close>; both loads
  start at the first update. \<open>JSON.parse\<close> of an attribute that is absent, or of text that is no
  JSON, throws before the sources are requested.
\<close>

record replacer =
  rp_notebook_id :: "string option"
  rp_notebook :: "notebook option"
  rp_nb :: "notebook option"
  is_audit :: bool
  source_options :: "(string \<times> string) list"

definition replacer_first_updated :: "replacer \<Rightarrow> replacer \<times> effect list" where
  "replacer_first_updated r =
     (let nb_request = (case rp_notebook_id r of
          Some (c # cs) \<Rightarrow> [Fetch (fetch_notebook_request (c # cs))] | _ \<Rightarrow> []);
          r1 = (if rp_notebook r = None then r\<lparr>rp_notebook := rp_nb r\<rparr> else r)
      in if rp_notebook r1 = None then (r, nb_request)
         else (r1, nb_request @ [Fetch (http_get ''/datasources/list'')]))"

definition replacer_notebook_fetched :: "notebook option \<Rightarrow> replacer \<Rightarrow> replacer" where
  "replacer_notebook_fetched n r = r\<lparr>rp_notebook := n\<rparr>"

text \<open>Each stream is an option with the title of its source; an exception keeps the old options.\<close>

definition replacer_list_fetched :: "string + source list \<Rightarrow> replacer \<Rightarrow> replacer \<times> effect list" where
  "replacer_list_fetched answer r =
     (case answer of
        Inl err \<Rightarrow> (r\<lparr>source_options := []\<rparr>, [ConsoleError err])
      | Inr srcs \<Rightarrow>
          (case stream_list srcs of
             (es, threw) \<Rightarrow> if threw then (r, [])
               else (r\<lparr>source_options := map (\<lambda>e. (en_id e, en_title e)) es\<rparr>, [])))"

text \<open>\<open>replaceDatasource\<close>: every cell with the id takes the value of the select.\<close>

definition replace_datasource :: "string option \<Rightarrow> string \<Rightarrow> replacer \<Rightarrow> replacer" where
  "replace_datasource i v r =
     r\<lparr>rp_notebook := map_option (\<lambda>n. n\<lparr>nb_cells :=
         map (\<lambda>c. if c_id c = i then c\<lparr>c_source := JStr v\<rparr> else c) (nb_cells n)\<rparr>) (rp_notebook r)\<rparr>"

definition replacer_json :: "replacer \<Rightarrow> json" where
  "replacer_json r = (case rp_notebook r of None \<Rightarrow> JNull | Some n \<Rightarrow> notebook_json n)"

definition replacer_save :: "replacer \<Rightarrow> effect list" where
  "replacer_save r =
     (if is_audit r
      then [DispatchEvent ''replace-datasource'' (JObj [(''notebook'', replacer_json r)]), RemoveSelf]
      else [Fetch (post_json ''/api/nbar?action=replace'' (replacer_json r)), RemoveSelf, Reload])"

datatype replace_action = PickSource "string option" | CancelReplace | SaveReplace

definition replacer_cell :: "(string \<times> string) list \<Rightarrow> nat \<Rightarrow> nb_cell \<Rightarrow> replace_action ui" where
  "replacer_cell opts i c =
     plain ''div''
       [plain ''div'' [TextNode (if c_title c \<noteq> [] then c_title c else ''Cell #'' @ show_nat (i + 1))],
        Elem ''select'' [] [(''input'', PickSource (c_id c))]
          (Elem ''option'' [(''value'', [])] [] [TextNode ''Select Datasource'']
           # map (\<lambda>(v, t). Elem ''option'' [(''value'', v)] [] [TextNode t]) opts)]"

definition render_replacer :: "replacer \<Rightarrow> replace_action ui" where
  "render_replacer r =
     Elem ''div'' [(''id'', ''datasource-replace'')] []
       [plain ''h1'' [TextNode ''Replace Datasources''],
        plain ''div'' (case rp_notebook r of None \<Rightarrow> []
          | Some n \<Rightarrow> map (\<lambda>(i, c). replacer_cell (source_options r) i c) (enumerate 0 (nb_cells n))),
        plain ''div''
          [Elem ''button'' [] [(''click'', CancelReplace)] [TextNode ''Cancel''],
           Elem ''button'' [] [(''click'', SaveReplace)] [TextNode ''Replace'']]]"

text \<open>A run of choices: the id of a cell, and what was chosen for it.\<close>

abbreviation choose_all :: "(string option \<times> string) list \<Rightarrow> replacer \<Rightarrow> replacer" where
  "choose_all cs r \<equiv> fold (\<lambda>(i, v). replace_datasource i v) cs r"

lemma replace_datasource_cells:
  "rp_notebook r = Some n \<Longrightarrow> rp_notebook (choose_all cs r) = Some (n\<lparr>nb_cells :=
     map (\<lambda>c. case map_of (rev cs) (c_id c) of None \<Rightarrow> c | Some v \<Rightarrow> c\<lparr>c_source := JStr v\<rparr>) (nb_cells n)\<rparr>)"
proof (induction cs arbitrary: r n)
  case (Cons p cs)
  obtain i v where p: "p = (i, v)" by (cases p)
  let ?n = "n\<lparr>nb_cells := map (\<lambda>c. if c_id c = i then c\<lparr>c_source := JStr v\<rparr> else c) (nb_cells n)\<rparr>"
  have "rp_notebook (replace_datasource i v r) = Some ?n" by (simp add: replace_datasource_def Cons.prems)
  from Cons.IH [OF this] show ?case
    by (simp add: p map_add_def comp_def split: option.split)
qed simp

lemma is_audit_replace [simp]: "is_audit (replace_datasource i v r) = is_audit r"
  by (simp add: replace_datasource_def)

lemma choose_all_keeps: "is_audit (choose_all cs r) = is_audit r"
  by (induction cs arbitrary: r) (simp_all add: case_prod_unfold)

text \<open>
  What is sent is what was chosen: after any choices, saving sends (to the server, or as an
  event to the audit) the notebook in which each cell for which there was a choice has the
  last one made for its id as its source, and nothing else was changed.
\<close>

theorem replaced_sources_are_sent:
  assumes "rp_notebook r = Some n"
  shows "let n2 = n\<lparr>nb_cells := map (\<lambda>c. case map_of (rev cs) (c_id c) of
           None \<Rightarrow> c | Some v \<Rightarrow> c\<lparr>c_source := JStr v\<rparr>) (nb_cells n)\<rparr>
    in hd (replacer_save (choose_all cs r)) =
      (if is_audit r then DispatchEvent ''replace-datasource'' (JObj [(''notebook'', notebook_json n2)])
       else Fetch (post_json ''/api/nbar?action=replace'' (notebook_json n2)))"
  using replace_datasource_cells [OF assms, of cs]
  by (simp add: replacer_save_def replacer_json_def choose_all_keeps)

definition sample_replacer :: replacer where
  "sample_replacer = \<lparr>rp_notebook_id = None, rp_notebook = Some (sample_notebook [sample_cell ''a'' 3 1]),
     rp_nb = None, is_audit = False, source_options = []\<rparr>"

theorem replaced_sources_are_sent_witness:
  "hd (replacer_save (choose_all [(Some ''a'', ''s1''), (Some ''b'', ''s3''), (Some ''a'', ''s2'')] sample_replacer))
    = Fetch (post_json ''/api/nbar?action=replace''
        (notebook_json (sample_notebook [(sample_cell ''a'' 3 1)\<lparr>c_source := JStr ''s2''\<rparr>])))"
  using replaced_sources_are_sent [of sample_replacer "sample_notebook [sample_cell ''a'' 3 1]"
      "[(Some ''a'', ''s1''), (Some ''b'', ''s3''), (Some ''a'', ''s2'')]"]
  by (simp add: sample_replacer_def sample_notebook_def sample_cell_def)

text \<open>
  Opened with the id of a notebook, the dialog has nothing to choose from: the sources are
  never requested, because the text of a notebook that was not given is parsed first; the
  notebook is requested and read, and each of its cells offers the empty choice only.
\<close>

theorem replacer_by_id_has_no_sources:
  assumes "rp_notebook_id r = Some (x # xs)" and "rp_notebook r = None" and "rp_nb r = None" and "source_options r = []"
  shows "snd (replacer_first_updated r) = [Fetch (fetch_notebook_request (x # xs))]
    \<and> ui_tagged ''option'' (render_replacer (replacer_notebook_fetched (Some n) (fst (replacer_first_updated r))))
      = map (\<lambda>c. Elem ''option'' [(''value'', [])] [] [TextNode ''Select Datasource'']) (nb_cells n)"
proof
  show "snd (replacer_first_updated r) = [Fetch (fetch_notebook_request (x # xs))]"
    using assms by (simp add: replacer_first_updated_def)
  have r: "fst (replacer_first_updated r) = r" using assms by (simp add: replacer_first_updated_def)
  have "concat (map (ui_tagged ''option'') (map (\<lambda>(i, c). replacer_cell [] i c) (enumerate k cs)))
      = map (\<lambda>c. Elem ''option'' [(''value'', [])] [] [TextNode ''Select Datasource'']) cs" for k cs
    by (induction cs arbitrary: k) (simp_all add: replacer_cell_def)
  with assms(4) show "ui_tagged ''option'' (render_replacer (replacer_notebook_fetched (Some n) (fst (replacer_first_updated r))))
      = map (\<lambda>c. Elem ''option'' [(''value'', [])] [] [TextNode ''Select Datasource'']) (nb_cells n)"
    unfolding r by (simp add: render_replacer_def replacer_notebook_fetched_def del: map_map)
qed

theorem replacer_by_id_has_no_sources_witness:
  "snd (replacer_first_updated \<lparr>rp_notebook_id = Some ''7'', rp_notebook = None, rp_nb = None, is_audit = False,
      source_options = []\<rparr>) = [Fetch (fetch_notebook_request ''7'')]"
  by (rule replacer_by_id_has_no_sources [THEN conjunct1]) simp_all

end
