(* ===== verification/Search.thy ===== *)
theory Search
  imports Template
begin

text \<open>
  \<open>webc/search.js\<close>: the search panel. A key or a change of a filter starts a delay, the end of
  the delay sends the search, and the answer is shown and kept in the session storage. The
  events (input, end of a delay, answer or failure of a request) come in any order; timers and
  requests are numbered. The value of a date input for a text of the server is an argument.
\<close>

section \<open>State\<close>

text \<open>A result: a notebook with its owner, the titles of its sources and the names of its pivots.\<close>

record search_result =
  res_id :: string
  res_title :: string
  res_owner :: string
  res_created :: string
  res_sources :: "string list option"
  res_pivots :: "string list option"

record search_response =
  sr_results :: "search_result list"
  sr_authors :: "(string \<times> string) list option"
  sr_start :: string
  sr_end :: string
  sr_datasources :: "(string \<times> string) list option"

definition empty_response :: search_response where
  "empty_response = \<lparr>sr_results = [], sr_authors = Some [], sr_start = [], sr_end = [], sr_datasources = Some []\<rparr>"

text \<open>The values of the five controls, as they are sent.\<close>

record search_query =
  q_text :: string
  q_start :: string
  q_end :: string
  q_author :: string
  q_datasource :: string

record search_state =
  controls :: search_query
  author_options :: "(string \<times> string) list"
  datasource_options :: "(string \<times> string) list"
  shown_response :: search_response
  search_error :: string
  is_loading :: bool
  timeout :: "nat option"
  live_timers :: "nat list"
  next_id :: nat
  searches :: "(nat \<times> search_query) list"
  stored_response :: "search_response option"
  stored_query :: "string option"

definition search_request :: "search_query \<Rightarrow> request" where
  "search_request q = post_json ''/search/query'' (JObj [(''query'', JStr (q_text q)), (''start'', JStr (q_start q)),
     (''end'', JStr (q_end q)), (''author'', JStr (q_author q)), (''datasource'', JStr (q_datasource q))])"

definition filters_request :: request where
  "filters_request = http_get ''/search/filters''"

section \<open>Operations\<close>

text \<open>A select that is given a value that is not one of its options has the empty value.\<close>

definition select_value :: "(string \<times> string) list \<Rightarrow> string \<Rightarrow> string" where
  "select_value opts v = (if v \<in> set (map fst opts) then v else [])"

definition all_option :: "(string \<times> string) list \<Rightarrow> (string \<times> string) list" where
  "all_option xs = ([], ''All'') # xs"

definition apply_facets :: "(string \<Rightarrow> string) \<Rightarrow> search_state \<Rightarrow> search_state" where
  "apply_facets date_value s =
     (let r = shown_response s;
          s1 = (if sr_start r \<noteq> [] then s\<lparr>controls := (controls s)\<lparr>q_start := date_value (sr_start r)\<rparr>\<rparr> else s);
          s2 = (if sr_end r \<noteq> [] then s1\<lparr>controls := (controls s1)\<lparr>q_end := date_value (sr_end r)\<rparr>\<rparr> else s1);
          s3 = (case sr_authors r of
                  None \<Rightarrow> s2
                | Some us \<Rightarrow> s2\<lparr>author_options := all_option us,
                    controls := (controls s2)\<lparr>q_author := select_value (all_option us) (q_author (controls s2))\<rparr>\<rparr>)
      in case sr_datasources r of
           None \<Rightarrow> s3
         | Some ds \<Rightarrow> s3\<lparr>datasource_options := all_option ds,
             controls := (controls s3)\<lparr>q_datasource := select_value (all_option ds) (q_datasource (controls s3))\<rparr>\<rparr>)"

text \<open>
  \<open>firstUpdated\<close>: the stored query and the stored response, each on its own; without a response
  the filters are requested.
\<close>

definition open_search :: "(string \<Rightarrow> string) \<Rightarrow> search_state \<Rightarrow> search_state \<times> effect list" where
  "open_search date_value s =
     (let s1 = (case stored_query s of
                  Some (c # cs) \<Rightarrow> s\<lparr>controls := (controls s)\<lparr>q_text := c # cs\<rparr>\<rparr> | _ \<Rightarrow> s)
      in case stored_response s1 of
           Some r \<Rightarrow> (apply_facets date_value (s1\<lparr>shown_response := r\<rparr>), [])
         | None \<Rightarrow> (s1, [Fetch filters_request]))"

text \<open>
  \<open>performSearch\<close>, after a control changed: everything of the last search is cleared. The
  pending delay is cancelled only on the way to a new one.
\<close>

definition perform_search :: "search_state \<Rightarrow> search_state \<times> effect list" where
  "perform_search s =
     (let s1 = s\<lparr>shown_response := empty_response, search_error := [], is_loading := True,
                 stored_response := None, stored_query := None\<rparr>
      in if q_text (controls s1) = [] then (s1\<lparr>is_loading := False\<rparr>, [Fetch filters_request])
         else (s1\<lparr>live_timers := (case timeout s1 of None \<Rightarrow> live_timers s1 | Some t \<Rightarrow> removeAll t (live_timers s1))
                     @ [next_id s1],
                  timeout := Some (next_id s1), next_id := next_id s1 + 1\<rparr>,
               (case timeout s1 of None \<Rightarrow> [] | Some t \<Rightarrow> [CancelTimer t]) @ [StartTimer 500]))"

definition change_controls :: "search_query \<Rightarrow> search_state \<Rightarrow> search_state \<times> effect list" where
  "change_controls q s = perform_search (s\<lparr>controls := q\<rparr>)"

text \<open>The delay ends: \<open>search\<close> until its request, with the controls as they are then.\<close>

definition timer_ends :: "nat \<Rightarrow> search_state \<Rightarrow> search_state \<times> effect list" where
  "timer_ends t s =
     (if t \<in> set (live_timers s)
      then (s\<lparr>live_timers := removeAll t (live_timers s), searches := searches s @ [(t, controls s)]\<rparr>,
            [Fetch (search_request (controls s))])
      else (s, []))"

text \<open>Its answer, or an exception of the request: the query that is kept is the one in the input by then.\<close>

definition search_answered :: "(string \<Rightarrow> string) \<Rightarrow> nat \<Rightarrow> search_response option \<Rightarrow> search_state \<Rightarrow> search_state" where
  "search_answered date_value n answer s =
     (if n \<notin> set (map fst (searches s)) then s
      else let s1 = s\<lparr>searches := filter (\<lambda>(m, q). m \<noteq> n) (searches s)\<rparr>
           in case answer of
                None \<Rightarrow> s1\<lparr>search_error := ''The search failed, update your query to try again.'', is_loading := False\<rparr>
              | Some r \<Rightarrow>
                  (let s2 = apply_facets date_value (s1\<lparr>shown_response := r\<rparr>)
                   in s2\<lparr>stored_response := Some r, stored_query := Some (q_text (controls s2)), is_loading := False\<rparr>))"

definition filters_answered :: "(string \<Rightarrow> string) \<Rightarrow> search_response \<Rightarrow> search_state \<Rightarrow> search_state" where
  "filters_answered date_value r s = apply_facets date_value (s\<lparr>shown_response := r\<rparr>)"

datatype search_event =
    ChangeControls search_query
  | TimerEnds nat
  | SearchAnswered nat "search_response option"
  | FiltersAnswered search_response

fun search_step :: "(string \<Rightarrow> string) \<Rightarrow> search_event \<Rightarrow> search_state \<Rightarrow> search_state \<times> effect list" where
  "search_step dv (ChangeControls q) s = change_controls q s"
| "search_step dv (TimerEnds t) s = timer_ends t s"
| "search_step dv (SearchAnswered n a) s = (search_answered dv n a s, [])"
| "search_step dv (FiltersAnswered r) s = (filters_answered dv r s, [])"

definition new_search :: "search_response option \<Rightarrow> string option \<Rightarrow> search_state" where
  "new_search r q =
     \<lparr>controls = \<lparr>q_text = [], q_start = [], q_end = [], q_author = [], q_datasource = []\<rparr>,
      author_options = [([], ''All'')], datasource_options = [([], ''All'')],
      shown_response = empty_response, search_error = [], is_loading = False, timeout = None,
      live_timers = [], next_id = 0, searches = [], stored_response = r, stored_query = q\<rparr>"

inductive search_reach :: "(string \<Rightarrow> string) \<Rightarrow> search_state \<Rightarrow> search_state \<Rightarrow> bool" for dv s0 where
  start: "search_reach dv s0 s0"
| step: "search_reach dv s0 s \<Longrightarrow> search_reach dv s0 (fst (search_step dv e s))"

section \<open>Rendering\<close>

text \<open>The dates are shown by \<open>toDateString\<close>, an argument.\<close>

definition pill :: "string \<Rightarrow> unit ui" where
  "pill t = plain ''div'' [plain ''svg'' [], plain ''span'' [TextNode t]]"

definition pills :: "search_result \<Rightarrow> unit ui" where
  "pills r =
     plain ''div''
       [plain ''span'' (case res_sources r of None \<Rightarrow> [] | Some ds \<Rightarrow> map pill ds),
        plain ''span'' (case res_pivots r of None \<Rightarrow> [] | Some ps \<Rightarrow> map pill ps)]"

definition render_result :: "(string \<Rightarrow> string) \<Rightarrow> search_result \<Rightarrow> unit ui" where
  "render_result date_string r =
     Elem ''a'' [(''href'', ''/notebook/'' @ res_id r), (''target'', ''_blank'')] []
       [plain ''div''
          [plain ''div'' [pills r],
           plain ''div'' [TextNode (''Title: '' @ res_title r)],
           plain ''div''
             [plain ''div'' [plain ''span'' [TextNode ''Author: ''], TextNode (res_owner r)],
              plain ''div'' [plain ''span'' [TextNode ''Date: ''], TextNode (date_string (res_created r))]],
           Elem ''wt-search-result'' [(''notebook'', res_id r)] [] []]]"

definition render_results :: "(string \<Rightarrow> string) \<Rightarrow> search_state \<Rightarrow> unit ui list" where
  "render_results date_string s =
     (let rs = map (render_result date_string) (sr_results (shown_response s))
      in (if rs \<noteq> [] then rs else if is_loading s then [TextNode ''Loading...''] else [TextNode ''No match ...''])
         @ (if search_error s \<noteq> [] then [plain ''p'' [TextNode (search_error s)]] else []))"

text \<open>The panel; the action of each control is the search it starts.\<close>

definition render_search :: "(string \<Rightarrow> string) \<Rightarrow> search_state \<Rightarrow> unit ui" where
  "render_search date_string s =
     Elem ''div'' [(''role'', ''search''), (''id'', ''search'')] []
       [Elem ''input'' [(''name'', ''query''), (''aria-label'', ''Search input'')] [(''input'', ())] [],
        plain ''div''
          [plain ''div''
             [plain ''div''
                [plain ''label'' [TextNode ''Date''],
                 plain ''div''
                   [Elem ''input'' [(''type'', ''date''), (''name'', ''startdate'')] [(''input'', ())] [],
                    Elem ''input'' [(''type'', ''date''), (''name'', ''enddate'')] [(''input'', ())] []]],
              plain ''div''
                [plain ''label'' [TextNode ''Author''],
                 Elem ''select'' [(''name'', ''author'')] [(''input'', ())]
                   (map (\<lambda>(v, t). Elem ''option'' [(''value'', v)] [] [TextNode t]) (author_options s))],
              plain ''div''
                [plain ''label'' [TextNode ''Data Sources''],
                 Elem ''select'' [(''name'', ''datasource'')] [(''input'', ())]
                   (map (\<lambda>(v, t). Elem ''option'' [(''value'', v)] [] [TextNode t]) (datasource_options s))]],
           plain ''div'' (render_results date_string s)]]"

section \<open>Delays\<close>

text \<open>At most one delay is running, and it is the one that \<open>timeout\<close> names.\<close>

definition one_timer :: "search_state \<Rightarrow> bool" where
  "one_timer s \<longleftrightarrow> (live_timers s = [] \<or> (\<exists>t. timeout s = Some t \<and> live_timers s = [t]))
     \<and> (\<forall>t. timeout s = Some t \<longrightarrow> t < next_id s)"

lemma facets_keep [simp]:
  "live_timers (apply_facets dv s) = live_timers s"
  "timeout (apply_facets dv s) = timeout s"
  "next_id (apply_facets dv s) = next_id s"
  "searches (apply_facets dv s) = searches s"
  "is_loading (apply_facets dv s) = is_loading s"
  "search_error (apply_facets dv s) = search_error s"
  "q_text (controls (apply_facets dv s)) = q_text (controls s)"
  "shown_response (apply_facets dv s) = shown_response s"
  by (simp_all add: apply_facets_def Let_def split: option.split)

lemma change_to_text:
  assumes "one_timer s" and "q_text q \<noteq> []"
  shows "live_timers (fst (change_controls q s)) = [next_id s]
    \<and> timeout (fst (change_controls q s)) = Some (next_id s) \<and> controls (fst (change_controls q s)) = q"
  using assms
  by (cases "timeout s") (auto simp: one_timer_def change_controls_def perform_search_def Let_def)

lemma change_to_empty:
  "q_text q = [] \<Longrightarrow> live_timers (fst (change_controls q s)) = live_timers s
     \<and> timeout (fst (change_controls q s)) = timeout s \<and> controls (fst (change_controls q s)) = q"
  by (simp add: change_controls_def perform_search_def Let_def)

lemma timer_ends_effects:
  "snd (timer_ends t s) = (if t \<in> set (live_timers s) then [Fetch (search_request (controls s))] else [])"
  by (simp add: timer_ends_def)

lemma change_controls_timer: "one_timer s \<Longrightarrow> one_timer (fst (change_controls q s))"
  by (auto simp: one_timer_def change_controls_def perform_search_def Let_def split: option.split)

lemma timer_ends_timer: "one_timer s \<Longrightarrow> one_timer (fst (timer_ends t s))"
  by (auto simp: one_timer_def timer_ends_def)

lemma search_answered_timer: "one_timer s \<Longrightarrow> one_timer (search_answered dv n a s)"
  by (auto simp: one_timer_def search_answered_def Let_def split: option.split)

lemma filters_answered_timer: "one_timer s \<Longrightarrow> one_timer (filters_answered dv r s)"
  by (simp add: one_timer_def filters_answered_def)

lemma search_step_timer: "one_timer s \<Longrightarrow> one_timer (fst (search_step dv e s))"
  by (cases e) (simp_all add: change_controls_timer timer_ends_timer search_answered_timer filters_answered_timer)

lemma open_search_timer: "one_timer s \<Longrightarrow> one_timer (fst (open_search dv s))"
  by (auto simp: one_timer_def open_search_def Let_def split: option.split list.split)

lemma new_search_timer: "one_timer (new_search r q)"
  by (simp add: one_timer_def new_search_def)

lemma search_reach_timer:
  "search_reach dv s0 s \<Longrightarrow> one_timer s0 \<Longrightarrow> one_timer s"
  by (induction rule: search_reach.induct) (simp_all add: search_step_timer)

abbreviation type_all :: "search_query list \<Rightarrow> search_state \<Rightarrow> search_state" where
  "type_all qs s \<equiv> fold (\<lambda>q t. fst (change_controls q t)) qs s"

lemma type_all_timer: "one_timer s \<Longrightarrow> one_timer (type_all qs s)"
  by (induction qs arbitrary: s) (simp_all add: change_controls_timer)

text \<open>
  C33: A burst of typing is searched for once: however the panel came to its state, after any
  number of changes the last of which leaves a text, with no answer and no end of a delay between
  them, exactly one delay is running; its end sends exactly one request, with the controls of the
  last change, and the end of any other delay sends nothing.
\<close>

theorem burst_is_searched_once:
  assumes "search_reach dv (fst (open_search dv (new_search r0 q0))) s" and "q_text q \<noteq> []"
  shows "\<exists>t. live_timers (type_all (qs @ [q]) s) = [t]
    \<and> snd (timer_ends t (type_all (qs @ [q]) s)) = [Fetch (search_request q)]
    \<and> (\<forall>u. u \<noteq> t \<longrightarrow> snd (timer_ends u (type_all (qs @ [q]) s)) = [])"
proof -
  let ?s = "type_all qs s"
  have "one_timer s" using assms(1) new_search_timer open_search_timer search_reach_timer by blast
  then have "one_timer ?s" by (rule type_all_timer)
  from change_to_text [OF this assms(2)] show ?thesis
    by (intro exI [of _ "next_id ?s"]) (simp add: timer_ends_effects)
qed

theorem burst_is_searched_once_witness:
  "\<exists>t. snd (timer_ends t (type_all ([\<lparr>q_text = ''f'', q_start = [], q_end = [], q_author = [], q_datasource = []\<rparr>]
       @ [\<lparr>q_text = ''fw'', q_start = [], q_end = [], q_author = [], q_datasource = []\<rparr>])
       (fst (open_search (\<lambda>d. d) (new_search None None)))))
     = [Fetch (search_request \<lparr>q_text = ''fw'', q_start = [], q_end = [], q_author = [], q_datasource = []\<rparr>)]"
  using burst_is_searched_once [of "\<lambda>d. d" None None "fst (open_search (\<lambda>d. d) (new_search None None))"
      "\<lparr>q_text = ''fw'', q_start = [], q_end = [], q_author = [], q_datasource = []\<rparr>"
      "[\<lparr>q_text = ''f'', q_start = [], q_end = [], q_author = [], q_datasource = []\<rparr>]",
      OF search_reach.start]
  by auto

text \<open>
  An emptied field is searched for all the same: the check for the empty query does not
  cancel the delay of the text before it, whose end sends a search with the empty query.
\<close>

theorem emptied_field_is_searched:
  assumes "q_text q \<noteq> []" and "q_text q2 = []" and "one_timer s"
  shows "\<exists>t. live_timers (type_all [q, q2] s) = [t]
    \<and> snd (timer_ends t (type_all [q, q2] s)) = [Fetch (search_request q2)]"
  using change_to_text [OF assms(3,1)] change_to_empty [OF assms(2), of "fst (change_controls q s)"]
  by (intro exI [of _ "next_id s"]) (simp add: timer_ends_effects)

theorem emptied_field_is_searched_witness:
  "\<exists>t. snd (timer_ends t (type_all [\<lparr>q_text = ''f'', q_start = [], q_end = [], q_author = [], q_datasource = []\<rparr>,
       \<lparr>q_text = [], q_start = [], q_end = [], q_author = [], q_datasource = []\<rparr>] (new_search None None)))
     = [Fetch (search_request \<lparr>q_text = [], q_start = [], q_end = [], q_author = [], q_datasource = []\<rparr>)]"
  using emptied_field_is_searched [of "\<lparr>q_text = ''f'', q_start = [], q_end = [], q_author = [], q_datasource = []\<rparr>"
      "\<lparr>q_text = [], q_start = [], q_end = [], q_author = [], q_datasource = []\<rparr>" "new_search None None"]
    new_search_timer
  by auto

text \<open>
  A search comes back when the panel is opened again: after an answer, a new panel over the
  same storage shows the same results and the same text, without a request.
\<close>

theorem search_is_restored:
  assumes "n \<in> set (map fst (searches s))" and "q_text (controls s) \<noteq> []"
  shows "let s1 = search_answered dv n (Some r) s;
      (s2, effs) = open_search dv (new_search (stored_response s1) (stored_query s1))
    in shown_response s2 = shown_response s1 \<and> q_text (controls s2) = q_text (controls s1) \<and> effs = []
     \<and> render_results date_string s2 = render_results date_string (s1\<lparr>search_error := []\<rparr>)"
  using assms
  by (simp add: search_answered_def open_search_def new_search_def Let_def render_results_def case_prod_unfold
      split: list.split)

definition sample_query :: "string \<Rightarrow> search_query" where
  "sample_query s = \<lparr>q_text = s, q_start = [], q_end = [], q_author = [], q_datasource = []\<rparr>"

definition sample_answer :: search_response where
  "sample_answer = empty_response\<lparr>sr_results := [\<lparr>res_id = ''7'', res_title = ''Report'', res_owner = ''ada'',
     res_created = ''2024-01-05'', res_sources = None, res_pivots = None\<rparr>]\<rparr>"

theorem search_is_restored_witness:
  "shown_response (fst (open_search (\<lambda>d. d) (new_search (Some sample_answer) (Some ''fw'')))) = sample_answer"
proof -
  let ?s = "fst (timer_ends 0 (fst (change_controls (sample_query ''fw'') (new_search None None))))"
  have "stored_response (search_answered (\<lambda>d. d) 0 (Some sample_answer) ?s) = Some sample_answer"
    "stored_query (search_answered (\<lambda>d. d) 0 (Some sample_answer) ?s) = Some ''fw''"
    "shown_response (search_answered (\<lambda>d. d) 0 (Some sample_answer) ?s) = sample_answer"
    by (simp_all add: search_answered_def timer_ends_def change_controls_def perform_search_def new_search_def
        sample_query_def Let_def)
  then show ?thesis
    using search_is_restored [of 0 ?s "\<lambda>d. d" sample_answer]
    by (simp add: timer_ends_def change_controls_def perform_search_def new_search_def sample_query_def Let_def
        case_prod_unfold)
qed

text \<open>
  An answer that is late replaces a newer search: while a search is on its way the text can be
  changed; its answer is then shown although it answers the old text, and it is stored together
  with the new text, so that reopening the panel shows results that were never found for it.
\<close>

theorem late_answer_is_shown_and_stored:
  assumes "(n, q_old) \<in> set (searches s)" and "q_text q_new \<noteq> []"
  shows "let s1 = search_answered dv n (Some r) (fst (change_controls q_new s))
    in shown_response s1 = r \<and> stored_response s1 = Some r \<and> stored_query s1 = Some (q_text q_new)
     \<and> q_text (controls (fst (open_search dv (new_search (stored_response s1) (stored_query s1))))) = q_text q_new
     \<and> shown_response (fst (open_search dv (new_search (stored_response s1) (stored_query s1)))) = r"
proof -
  have "n \<in> set (map fst (searches s))" using assms(1) by force
  then show ?thesis using assms(2)
    by (simp add: search_answered_def change_controls_def perform_search_def open_search_def new_search_def Let_def
        split: list.split)
qed

theorem late_answer_is_shown_and_stored_witness:
  "stored_query (search_answered (\<lambda>d. d) 0 (Some sample_answer) (fst (change_controls (sample_query ''dns'')
     (fst (timer_ends 0 (fst (change_controls (sample_query ''fw'') (new_search None None)))))))) = Some ''dns''"
  using late_answer_is_shown_and_stored [of 0 "sample_query ''fw''"
      "fst (timer_ends 0 (fst (change_controls (sample_query ''fw'') (new_search None None))))"
      "sample_query ''dns''" "\<lambda>d. d" sample_answer]
  by (simp add: timer_ends_def change_controls_def perform_search_def new_search_def sample_query_def Let_def)

end
