(* ===== verification/Prose.thy ===== *)
theory Prose
  imports Prelude
begin

text \<open>
  The document of the text editor of \<open>components.js\<close>: its schema, and the part of the document
  library bundled with it that the editor's commands call. A document is a tree whose positions
  count characters, leaves and the two edges of every other node; the operations work on the
  tree. The abstract view of a document is the sequence of what its positions count: each
  operation on the tree is shown to be the plain list operation on that sequence.
\<close>

section \<open>The schema\<close>

text \<open>
  A unit of text: a character, or the object replacement character U+FFFC, which stands for a
  node where the text around it is read.
\<close>

datatype uchar = Ch char | Obj

type_synonym utext = "uchar list"

datatype colour = Red | Yellow | Green

datatype mark_type = Link | Em | Strong | Underline | Colour colour

type_synonym attrs = "(string \<times> json) list"

datatype mark = Mark (mark_type: mark_type) (mark_attrs: attrs)

datatype node_type = Doc | Paragraph | Pre | Blockquote | Heading | Image | Hard_break
  | Task_list | Task_list_item | Ordered_list | Bullet_list | List_item | Pill | Search_pill

definition leaf_type :: "node_type \<Rightarrow> bool" where
  "leaf_type nt \<longleftrightarrow> nt \<in> {Image, Hard_break, Pill, Search_pill}"

text \<open>The blocks whose content is \<open>inline*\<close>; all marks are allowed there, and nowhere else.\<close>

definition textblock :: "node_type \<Rightarrow> bool" where
  "textblock nt \<longleftrightarrow> nt \<in> {Paragraph, Heading}"

definition list_nodes :: "node_type list" where
  "list_nodes = [Bullet_list, Ordered_list, Task_list]"

definition color_marks :: "mark_type list" where
  "color_marks = [Colour Red, Colour Yellow, Colour Green]"

text \<open>The rank of a mark is its place in the schema.\<close>

fun mark_rank :: "mark_type \<Rightarrow> nat" where
  "mark_rank Link = 0"
| "mark_rank Em = 1"
| "mark_rank Strong = 2"
| "mark_rank Underline = 3"
| "mark_rank (Colour Red) = 4"
| "mark_rank (Colour Yellow) = 5"
| "mark_rank (Colour Green) = 6"

section \<open>Sets of marks\<close>

text \<open>
  \<open>addToSet\<close>: no mark of the schema declares what it excludes, so a mark excludes those of its
  own type only.
\<close>

fun add_loop :: "mark \<Rightarrow> bool \<Rightarrow> mark list \<Rightarrow> mark list" where
  "add_loop m placed [] = (if placed then [] else [m])"
| "add_loop m placed (other # os) =
     (if mark_type other = mark_type m then add_loop m placed os
      else if \<not> placed \<and> mark_rank (mark_type other) > mark_rank (mark_type m)
      then m # other # add_loop m True os
      else other # add_loop m placed os)"

definition add_to_set :: "mark \<Rightarrow> mark list \<Rightarrow> mark list" where
  "add_to_set m ms = (if m \<in> set ms then ms else add_loop m False ms)"

definition type_in_set :: "mark_type \<Rightarrow> mark list \<Rightarrow> bool" where
  "type_in_set t ms \<longleftrightarrow> t \<in> mark_type ` set ms"

text \<open>\<open>removeMark\<close> takes out every mark of the type.\<close>

definition remove_type :: "mark_type \<Rightarrow> mark list \<Rightarrow> mark list" where
  "remove_type t ms = filter (\<lambda>m. mark_type m \<noteq> t) ms"

lemma add_loop_set: "set (add_loop m placed ms) =
    {x \<in> set ms. mark_type x \<noteq> mark_type m} \<union> (if placed then {} else {m})"
  by (induction m placed ms rule: add_loop.induct) auto

lemma types_add: "mark_type ` set (add_to_set m ms) = insert (mark_type m) (mark_type ` set ms)"
  by (force simp: add_to_set_def add_loop_set)

lemma types_remove: "mark_type ` set (remove_type t ms) = mark_type ` set ms - {t}"
  by (auto simp: remove_type_def)

section \<open>Nodes and their sizes\<close>

datatype pm =
    TextN utext "mark list"
  | NodeN node_type attrs "mark list" "pm list"

function frag_size :: "pm list \<Rightarrow> nat" where
  "frag_size [] = 0"
| "frag_size (TextN s ms # ns) = length s + frag_size ns"
| "frag_size (NodeN nt a ms c # ns) = (if leaf_type nt then 1 else 2 + frag_size c) + frag_size ns"
  by pat_completeness auto
termination by (relation "measure (size_list size)") auto

abbreviation node_size :: "pm \<Rightarrow> nat" where
  "node_size n \<equiv> frag_size [n]"

lemma frag_induct [case_names Nil Text Node]:
  assumes "P []"
    and "\<And>s ms ns. P ns \<Longrightarrow> P (TextN s ms # ns)"
    and "\<And>nt a ms c ns. P c \<Longrightarrow> P ns \<Longrightarrow> P (NodeN nt a ms c # ns)"
  shows "P ns"
proof (induction ns rule: measure_induct_rule [where f = "size_list size"])
  case (less ns)
  show ?case
  proof (cases ns)
    case Nil
    with assms(1) show ?thesis by simp
  next
    case (Cons n ms)
    then have "P ms" using less by simp
    show ?thesis
    proof (cases n)
      case (TextN s m)
      with assms(2) \<open>P ms\<close> Cons show ?thesis by simp
    next
      case (NodeN nt a m c)
      have "P c" using less Cons NodeN by simp
      with assms(3) \<open>P ms\<close> Cons NodeN show ?thesis by simp
    qed
  qed
qed

text \<open>Texts are not empty, leaves have no content, and only inline nodes carry marks.\<close>

function well_formed :: "pm list \<Rightarrow> bool" where
  "well_formed [] \<longleftrightarrow> True"
| "well_formed (TextN s ms # ns) \<longleftrightarrow> s \<noteq> [] \<and> well_formed ns"
| "well_formed (NodeN nt a ms c # ns) \<longleftrightarrow>
     (if leaf_type nt then c = [] else ms = []) \<and> well_formed c \<and> well_formed ns"
  by pat_completeness auto
termination by (relation "measure (size_list size)") auto

section \<open>The sequence a document denotes\<close>

datatype token = Open node_type attrs | Close | Chr uchar "mark list" | Leaf node_type attrs "mark list"

function tokens :: "pm list \<Rightarrow> token list" where
  "tokens [] = []"
| "tokens (TextN s ms # ns) = map (\<lambda>c. Chr c ms) s @ tokens ns"
| "tokens (NodeN nt a ms c # ns) =
     (if leaf_type nt then [Leaf nt a ms] else Open nt a # tokens c @ [Close]) @ tokens ns"
  by pat_completeness auto
termination by (relation "measure (size_list size)") auto

lemma length_tokens [simp]: "length (tokens c) = frag_size c"
  by (induction c rule: frag_induct) auto

lemma tokens_append [simp]: "tokens (xs @ ys) = tokens xs @ tokens ys"
  by (induction xs rule: frag_induct) auto

lemma frag_size_append [simp]: "frag_size (xs @ ys) = frag_size xs + frag_size ys"
  by (induction xs rule: frag_induct) auto

fun token_marks :: "token \<Rightarrow> mark list" where
  "token_marks (Chr c ms) = ms"
| "token_marks (Leaf nt a ms) = ms"
| "token_marks _ = []"

fun with_marks :: "(mark list \<Rightarrow> mark list) \<Rightarrow> token \<Rightarrow> token" where
  "with_marks f (Chr c ms) = Chr c (f ms)"
| "with_marks f (Leaf nt a ms) = Leaf nt a (f ms)"
| "with_marks f t = t"

section \<open>Cutting and joining\<close>

text \<open>
  \<open>Fragment.cut\<close>: the loop over the children, with the two ends counted from the child. A child
  that is only partly in the range is cut in turn.
\<close>

function cut :: "nat \<Rightarrow> nat \<Rightarrow> pm list \<Rightarrow> pm list" where
  "cut lo hi [] = []"
| "cut lo hi (TextN s ms # ns) =
     (if hi = 0 then []
      else (if lo < length s then [TextN (drop lo (take hi s)) ms] else [])
        @ cut (lo - length s) (hi - length s) ns)"
| "cut lo hi (NodeN nt a ms c # ns) =
     (let size = node_size (NodeN nt a ms c)
      in if hi = 0 then []
         else (if lo < size
               then (if 0 < lo \<or> hi < size
                     then [NodeN nt a ms (cut (lo - 1) (min (frag_size c) (hi - 1)) c)]
                     else [NodeN nt a ms c])
               else [])
           @ cut (lo - size) (hi - size) ns)"
  by pat_completeness auto
termination by (relation "measure (\<lambda>(lo, hi, c). size_list size c)") auto

text \<open>\<open>Fragment.append\<close>: texts with the same marks are joined where the two fragments meet.\<close>

definition append_frag :: "pm list \<Rightarrow> pm list \<Rightarrow> pm list" where
  "append_frag c d =
     (if frag_size d = 0 then c
      else if frag_size c = 0 then d
      else case (last c, hd d) of
             (TextN s ms, TextN t ns) \<Rightarrow> if ms = ns then butlast c @ TextN (s @ t) ms # tl d else c @ d
           | _ \<Rightarrow> c @ d)"

text \<open>\<open>Fragment.fromArray\<close>: all adjacent texts with the same marks are joined.\<close>

fun from_array :: "pm list \<Rightarrow> pm list" where
  "from_array (TextN s ms # TextN t ns # rest) =
     (if ms = ns then from_array (TextN (s @ t) ms # rest)
      else TextN s ms # from_array (TextN t ns # rest))"
| "from_array (n # rest) = n # from_array rest"
| "from_array [] = []"

lemma tokens_from_array [simp]: "tokens (from_array c) = tokens c"
  by (induction c rule: from_array.induct) (auto split: pm.splits, (case_tac n; simp)+)

lemma no_size_no_tokens: "frag_size c = 0 \<Longrightarrow> tokens c = []"
  by (metis length_0_conv length_tokens)

lemma tokens_append_frag [simp]: "tokens (append_frag c d) = tokens c @ tokens d"
proof (cases "frag_size c = 0 \<or> frag_size d = 0")
  case True
  then show ?thesis by (auto simp: append_frag_def no_size_no_tokens)
next
  case False
  then have ne: "c \<noteq> []" "d \<noteq> []" by auto
  then obtain n where d: "d = n # tl d" and n: "n = hd d" by (cases d) auto
  have c: "c = butlast c @ [last c]" using ne by simp
  show ?thesis
  proof (cases "\<exists>s t ms. last c = TextN s ms \<and> hd d = TextN t ms")
    case True
    then obtain s t ms where l: "last c = TextN s ms" "hd d = TextN t ms" by blast
    have "tokens c = tokens (butlast c) @ map (\<lambda>x. Chr x ms) s" using c l(1) by (metis tokens_append tokens.simps(1,2) append_Nil2)
    moreover have "tokens d = map (\<lambda>x. Chr x ms) t @ tokens (tl d)" using d n l(2) by (metis tokens.simps(2))
    ultimately show ?thesis using l False by (simp add: append_frag_def)
  next
    case other: False
    then have "append_frag c d = c @ d"
      using False by (auto simp: append_frag_def split: pm.splits if_splits)
    then show ?thesis by simp
  qed
qed

text \<open>
  A position is flat in a fragment when it is between two children or inside a text of it, not
  inside another child.
\<close>

function flat_at :: "nat \<Rightarrow> pm list \<Rightarrow> bool" where
  "flat_at pos [] \<longleftrightarrow> pos = 0"
| "flat_at pos (TextN s ms # ns) \<longleftrightarrow> pos \<le> length s \<or> flat_at (pos - length s) ns"
| "flat_at pos (NodeN nt a ms c # ns) \<longleftrightarrow>
     pos = 0 \<or> node_size (NodeN nt a ms c) \<le> pos \<and> flat_at (pos - node_size (NodeN nt a ms c)) ns"
  by pat_completeness auto
termination by (relation "measure (\<lambda>(pos, c). length c)") auto

lemma flat_at_0 [simp]: "flat_at 0 c"
  by (cases c rule: frag_size.cases) auto

lemma flat_rest: "flat_at pos (n # ns) \<Longrightarrow> flat_at (pos - node_size n) ns"
  by (cases n) auto

lemma flat_node: "flat_at pos (NodeN nt a ms c # ns) \<Longrightarrow> pos = 0 \<or> node_size (NodeN nt a ms c) \<le> pos"
  by auto

lemma drop_take_append:
  "drop lo (take hi (xs @ ys)) = drop lo (take hi xs) @ drop (lo - length xs) (take (hi - length xs) ys)"
  by (cases "length xs \<le> hi") auto

lemma tokens_cut:
  "flat_at lo c \<Longrightarrow> flat_at hi c \<Longrightarrow> tokens (cut lo hi c) = drop lo (take hi (tokens c))"
proof (induction c arbitrary: lo hi rule: frag_induct)
  case Nil
  then show ?case by simp
next
  case (Text s ms ns)
  have "tokens (cut (lo - length s) (hi - length s) ns)
      = drop (lo - length s) (take (hi - length s) (tokens ns))"
    by (rule Text.IH) (use flat_rest [OF Text.prems(1)] flat_rest [OF Text.prems(2)] in simp_all)
  then show ?case by (cases "length s \<le> hi") (auto simp: drop_map take_map min_def)
next
  case (Node nt a ms c ns)
  let ?n = "NodeN nt a ms c"
  have rest: "tokens (cut (lo - node_size ?n) (hi - node_size ?n) ns)
      = drop (lo - node_size ?n) (take (hi - node_size ?n) (tokens ns))"
    by (rule Node.IH(2)) (use flat_rest [OF Node.prems(1)] flat_rest [OF Node.prems(2)] in simp_all)
  have split: "tokens (?n # ns) = tokens [?n] @ tokens ns" by (metis append_Cons append_Nil tokens_append)
  have ends: "lo = 0 \<or> node_size ?n \<le> lo" "hi = 0 \<or> node_size ?n \<le> hi"
    using flat_node Node.prems by blast+
  have "drop lo (take hi (tokens [?n])) = (if hi = 0 \<or> lo \<noteq> 0 then [] else tokens [?n])"
    using ends by (auto simp del: tokens.simps(3) frag_size.simps(3))
  moreover have "0 < node_size ?n" by simp
  ultimately show ?case using rest ends unfolding split drop_take_append
    by (auto simp: Let_def simp del: tokens.simps(3) frag_size.simps(3))
qed

section \<open>Replacing inside a textblock\<close>

fun inline_node :: "pm \<Rightarrow> bool" where
  "inline_node (TextN s ms) = True"
| "inline_node (NodeN nt a ms c) = leaf_type nt"

text \<open>
  \<open>tr.replace\<close>, \<open>tr.insert\<close> and \<open>tr.delete\<close> where both ends are in the same textblock and what is
  inserted is inline: \<open>fitsTrivially\<close> holds and \<open>replaceOuter\<close> goes down to that textblock. The
  search for a place elsewhere, when it does not fit, is not modelled: \<open>None\<close>.
\<close>

function replace_in :: "nat \<Rightarrow> nat \<Rightarrow> pm list \<Rightarrow> pm list \<Rightarrow> pm list option" where
  "replace_in lo hi ins [] = None"
| "replace_in lo hi ins (TextN s ms # ns) =
     (if length s \<le> lo then map_option ((#) (TextN s ms)) (replace_in (lo - length s) (hi - length s) ins ns)
      else None)"
| "replace_in lo hi ins (NodeN nt a ms c # ns) =
     (let size = node_size (NodeN nt a ms c)
      in if \<not> leaf_type nt \<and> 0 < lo \<and> hi < size
         then (if textblock nt
               then (if flat_at (lo - 1) c \<and> flat_at (hi - 1) c \<and> list_all inline_node ins
                     then Some (NodeN nt a ms
                       (append_frag (append_frag (cut 0 (lo - 1) c) ins) (cut (hi - 1) (frag_size c) c)) # ns)
                     else None)
               else map_option (\<lambda>c'. NodeN nt a ms c' # ns) (replace_in (lo - 1) (hi - 1) ins c))
         else if size \<le> lo
         then map_option ((#) (NodeN nt a ms c)) (replace_in (lo - size) (hi - size) ins ns)
         else None)"
  by pat_completeness auto
termination by (relation "measure (\<lambda>(lo, hi, ins, c). size_list size c)") auto

lemma flat_at_end [simp]: "flat_at (frag_size c) c"
  by (induction c rule: frag_induct) auto

lemma replace_in_bounds:
  "replace_in lo hi ins c = Some d \<Longrightarrow> lo \<le> hi \<Longrightarrow> hi \<le> frag_size c"
proof (induction c arbitrary: lo hi d rule: frag_induct)
  case (Text s ms ns)
  then have "hi - length s \<le> frag_size ns" by (auto split: if_splits)
  then show ?case by simp
next
  case (Node nt a ms c ns)
  show ?case
  proof (cases "\<not> leaf_type nt \<and> 0 < lo \<and> hi < node_size (NodeN nt a ms c)")
    case True
    then show ?thesis by (auto split: if_splits)
  next
    case False
    with Node.prems obtain d' where "replace_in (lo - node_size (NodeN nt a ms c)) (hi - node_size (NodeN nt a ms c)) ins ns = Some d'"
      by (auto simp: Let_def split: if_splits)
    from Node.IH(2) [OF this diff_le_mono [OF Node.prems(2)]] show ?thesis by (simp split: if_splits)
  qed
qed simp

lemma tokens_replace_in:
  "replace_in lo hi ins c = Some c' \<Longrightarrow> lo \<le> hi \<Longrightarrow>
     tokens c' = take lo (tokens c) @ tokens ins @ drop hi (tokens c)"
proof (induction c arbitrary: lo hi c' rule: frag_induct)
  case Nil
  then show ?case by simp
next
  case (Text s ms ns)
  then obtain d where l: "length s \<le> lo" and d: "replace_in (lo - length s) (hi - length s) ins ns = Some d"
    and c': "c' = TextN s ms # d"
    by (auto split: if_splits)
  have "tokens d = take (lo - length s) (tokens ns) @ tokens ins @ drop (hi - length s) (tokens ns)"
    by (rule Text.IH [OF d]) (use Text.prems(2) in simp)
  then show ?case using l Text.prems(2) by (simp add: c')
next
  case (Node nt a ms c ns)
  let ?n = "NodeN nt a ms c"
  have split: "tokens (?n # xs) = tokens [?n] @ tokens xs" for xs by (metis append_Cons append_Nil tokens_append)
  show ?case
  proof (cases "\<not> leaf_type nt \<and> 0 < lo \<and> hi < node_size ?n")
    case True
    have ends: "lo - 1 \<le> frag_size c" "hi - 1 \<le> frag_size c" "lo - 1 \<le> hi - 1"
      using True Node.prems(2) by auto
    obtain d where c': "c' = NodeN nt a ms d # ns"
      and d: "tokens d = take (lo - 1) (tokens c) @ tokens ins @ drop (hi - 1) (tokens c)"
    proof (cases "textblock nt")
      case tb: True
      then show ?thesis using that Node.prems(1) True ends
        by (auto simp: Let_def tokens_cut split: if_splits)
    next
      case False
      then obtain d where "replace_in (lo - 1) (hi - 1) ins c = Some d" "c' = NodeN nt a ms d # ns"
        using Node.prems(1) True by (auto simp: Let_def)
      then show ?thesis using that Node.IH(1) ends(3) by blast
    qed
    obtain k where k: "lo = Suc k" using True by (cases lo) auto
    obtain l where l: "hi = Suc l" using k Node.prems(2) by (cases hi) auto
    show ?thesis using True d ends by (simp add: c' k l)
  next
    case False
    then obtain d where s: "node_size ?n \<le> lo"
      and d: "replace_in (lo - node_size ?n) (hi - node_size ?n) ins ns = Some d" and c': "c' = ?n # d"
      using Node.prems(1) by (auto simp: Let_def split: if_splits)
    have "tokens d = take (lo - node_size ?n) (tokens ns) @ tokens ins @ drop (hi - node_size ?n) (tokens ns)"
      by (rule Node.IH(2) [OF d]) (use Node.prems(2) in simp)
    then show ?thesis using s Node.prems(2)
      unfolding c' split [of d] split [of ns] by (simp del: tokens.simps frag_size.simps)
  qed
qed

section \<open>Marks on a range\<close>

text \<open>
  What \<open>tr.addMark\<close> and \<open>tr.removeMark\<close> make of a range: the marks of its inline content are
  changed, a text that is only partly in it is split, and equal neighbours are joined again.
\<close>

definition text_pieces :: "(mark list \<Rightarrow> mark list) \<Rightarrow> nat \<Rightarrow> nat \<Rightarrow> utext \<Rightarrow> mark list \<Rightarrow> pm list" where
  "text_pieces f lo hi s ms =
     (if lo < hi \<and> lo < length s
      then filter (\<lambda>n. node_size n > 0)
             [TextN (take lo s) ms, TextN (drop lo (take hi s)) (f ms), TextN (drop hi s) ms]
      else [TextN s ms])"

function mark_list :: "(mark list \<Rightarrow> mark list) \<Rightarrow> nat \<Rightarrow> nat \<Rightarrow> pm list \<Rightarrow> pm list" where
  "mark_list f lo hi [] = []"
| "mark_list f lo hi (TextN s ms # ns) =
     text_pieces f lo hi s ms @ mark_list f (lo - length s) (hi - length s) ns"
| "mark_list f lo hi (NodeN nt a ms c # ns) =
     (let size = node_size (NodeN nt a ms c)
      in (if leaf_type nt then NodeN nt a (if lo = 0 \<and> 0 < hi then f ms else ms) c
          else NodeN nt a ms (from_array (mark_list f (lo - 1) (hi - 1) c)))
         # mark_list f (lo - size) (hi - size) ns)"
  by pat_completeness auto
termination by (relation "measure (\<lambda>(f, lo, hi, c). size_list size c)") auto

definition mark_range :: "(mark list \<Rightarrow> mark list) \<Rightarrow> nat \<Rightarrow> nat \<Rightarrow> pm list \<Rightarrow> pm list" where
  "mark_range f lo hi c = from_array (mark_list f lo hi c)"

definition add_mark :: "nat \<Rightarrow> nat \<Rightarrow> mark \<Rightarrow> pm list \<Rightarrow> pm list" where
  "add_mark lo hi m = mark_range (add_to_set m) lo hi"

definition remove_mark :: "nat \<Rightarrow> nat \<Rightarrow> mark_type \<Rightarrow> pm list \<Rightarrow> pm list" where
  "remove_mark lo hi t = mark_range (remove_type t) lo hi"

text \<open>A function on the elements of a range of a list.\<close>

fun map_range :: "('a \<Rightarrow> 'a) \<Rightarrow> nat \<Rightarrow> nat \<Rightarrow> 'a list \<Rightarrow> 'a list" where
  "map_range f lo hi [] = []"
| "map_range f lo hi (x # xs) = (if lo = 0 \<and> 0 < hi then f x else x) # map_range f (lo - 1) (hi - 1) xs"

lemma length_map_range [simp]: "length (map_range f lo hi xs) = length xs"
  by (induction xs arbitrary: lo hi) auto

lemma nth_map_range:
  "i < length xs \<Longrightarrow> map_range f lo hi xs ! i = (if lo \<le> i \<and> i < hi then f (xs ! i) else xs ! i)"
  by (induction xs arbitrary: lo hi i) (auto simp: nth_Cons split: nat.split)

lemma map_range_append:
  "map_range f lo hi (xs @ ys) = map_range f lo hi xs @ map_range f (lo - length xs) (hi - length xs) ys"
  by (induction xs arbitrary: lo hi) auto

lemma map_range_empty [simp]: "hi \<le> lo \<Longrightarrow> map_range f lo hi xs = xs"
  by (rule nth_equalityI) (auto simp: nth_map_range)

lemma map_range_past [simp]: "length xs \<le> lo \<Longrightarrow> map_range f lo hi xs = xs"
  by (rule nth_equalityI) (auto simp: nth_map_range)

lemma map_range_pieces:
  "lo \<le> hi \<Longrightarrow> map_range f lo hi xs = take lo xs @ map f (drop lo (take hi xs)) @ drop hi xs"
  by (induction xs arbitrary: lo hi) (auto simp: take_Cons' drop_Cons' split: if_splits)

lemma tokens_text_pieces:
  "tokens (text_pieces f lo hi s ms) = map_range (with_marks f) lo hi (map (\<lambda>c. Chr c ms) s)"
proof (cases "lo < hi \<and> lo < length s")
  case True
  have "tokens (filter (\<lambda>n. node_size n > 0) ns) = tokens ns" if "\<forall>n \<in> set ns. \<exists>t m. n = TextN t m" for ns
    using that by (induction ns) auto
  with True show ?thesis
    by (simp add: text_pieces_def map_range_pieces take_map drop_map del: filter.simps)
next
  case False
  then show ?thesis by (auto simp: text_pieces_def)
qed

lemma tokens_mark_list:
  "tokens (mark_list f lo hi c) = map_range (with_marks f) lo hi (tokens c)"
proof (induction c arbitrary: lo hi rule: frag_induct)
  case Nil
  then show ?case by simp
next
  case (Text s ms ns)
  then show ?case by (simp add: map_range_append tokens_text_pieces)
next
  case (Node nt a ms c ns)
  then show ?case by (simp add: Let_def map_range_append)
qed

lemma tokens_mark_range [simp]:
  "tokens (mark_range f lo hi c) = map_range (with_marks f) lo hi (tokens c)"
  by (simp add: mark_range_def tokens_mark_list)

section \<open>Looking into a document\<close>

text \<open>\<open>nodesBetween\<close> with the callback of \<open>rangeHasMark\<close>: every node the range touches is asked.\<close>

function has_mark :: "mark_type \<Rightarrow> nat \<Rightarrow> nat \<Rightarrow> pm list \<Rightarrow> bool" where
  "has_mark t lo hi [] \<longleftrightarrow> False"
| "has_mark t lo hi (TextN s ms # ns) \<longleftrightarrow> 0 < hi \<and>
     (lo < length s \<and> type_in_set t ms \<or> has_mark t (lo - length s) (hi - length s) ns)"
| "has_mark t lo hi (NodeN nt a ms c # ns) \<longleftrightarrow> 0 < hi \<and>
     (lo < node_size (NodeN nt a ms c)
        \<and> (type_in_set t ms \<or> has_mark t (lo - 1) (min (frag_size c) (hi - 1)) c)
      \<or> has_mark t (lo - node_size (NodeN nt a ms c)) (hi - node_size (NodeN nt a ms c)) ns)"
  by pat_completeness auto
termination by (relation "measure (\<lambda>(t, lo, hi, c). size_list size c)") auto

definition range_has_mark :: "nat \<Rightarrow> nat \<Rightarrow> mark_type \<Rightarrow> pm list \<Rightarrow> bool" where
  "range_has_mark lo hi t c \<longleftrightarrow> lo < hi \<and> has_mark t lo hi c"

lemma has_mark_past: "frag_size c \<le> lo \<Longrightarrow> \<not> has_mark t lo hi c"
  by (induction c arbitrary: lo hi rule: frag_induct) auto

text \<open>Which marks the range of a list of tokens has.\<close>

definition marked_in :: "nat \<Rightarrow> nat \<Rightarrow> mark_type \<Rightarrow> token list \<Rightarrow> bool" where
  "marked_in lo hi t ts \<longleftrightarrow> (\<exists>i < length ts. lo \<le> i \<and> i < hi \<and> type_in_set t (token_marks (ts ! i)))"

lemma marked_in_Nil [simp]: "\<not> marked_in lo hi t []"
  by (simp add: marked_in_def)

lemma marked_in_0 [simp]: "\<not> marked_in lo 0 t ts"
  by (simp add: marked_in_def)

lemma marked_in_Cons:
  "marked_in lo hi t (x # xs) \<longleftrightarrow>
     lo = 0 \<and> 0 < hi \<and> type_in_set t (token_marks x) \<or> marked_in (lo - 1) (hi - 1) t xs"
  (is "?l \<longleftrightarrow> ?r")
proof
  assume ?l
  then obtain i where "i < Suc (length xs)" "lo \<le> i" "i < hi" "type_in_set t (token_marks ((x # xs) ! i))"
    by (auto simp: marked_in_def)
  then show ?r by (cases i) (auto simp: marked_in_def)
next
  assume ?r
  then show ?l
  proof (elim disjE conjE)
    assume "marked_in (lo - 1) (hi - 1) t xs"
    then obtain i where "i < length xs" "lo - 1 \<le> i" "i < hi - 1" "type_in_set t (token_marks (xs ! i))"
      by (auto simp: marked_in_def)
    then show ?l unfolding marked_in_def by (intro exI [of _ "Suc i"]) auto
  qed (auto simp: marked_in_def)
qed

lemma marked_in_append:
  "marked_in lo hi t (xs @ ys) \<longleftrightarrow>
     marked_in lo hi t xs \<or> marked_in (lo - length xs) (hi - length xs) t ys"
  by (induction xs arbitrary: lo hi) (auto simp: marked_in_Cons)

lemma marked_in_text:
  "marked_in lo hi t (map (\<lambda>c. Chr c ms) s) \<longleftrightarrow> lo < hi \<and> lo < length s \<and> type_in_set t ms"
  by (auto simp: marked_in_def)

lemma marked_in_min: "marked_in lo (min (length xs) hi) t xs = marked_in lo hi t xs"
  by (auto simp: marked_in_def)

lemma type_in_empty [simp]: "\<not> type_in_set t []"
  by (simp add: type_in_set_def)

lemma has_mark_tokens:
  "well_formed c \<Longrightarrow> lo < hi \<or> hi = 0 \<or> frag_size c \<le> lo \<Longrightarrow> has_mark t lo hi c \<longleftrightarrow> marked_in lo hi t (tokens c)"
proof (induction c arbitrary: lo hi rule: frag_induct)
  case Nil
  then show ?case by simp
next
  case (Text s ms ns)
  have "has_mark t (lo - length s) (hi - length s) ns = marked_in (lo - length s) (hi - length s) t (tokens ns)"
    by (rule Text.IH) (use Text.prems in auto)
  then show ?case using Text.prems(2)
    by (cases "hi = 0") (auto simp: marked_in_append marked_in_text has_mark_past)
next
  case (Node nt a ms c ns)
  let ?k = "node_size (NodeN nt a ms c)"
  have rest: "has_mark t (lo - ?k) (hi - ?k) ns = marked_in (lo - ?k) (hi - ?k) t (tokens ns)"
    by (rule Node.IH(2)) (use Node.prems in auto)
  have kid: "has_mark t (lo - 1) (min (frag_size c) (hi - 1)) c = marked_in (lo - 1) (hi - 1) t (tokens c)"
    if "lo < hi"
  proof -
    have "has_mark t (lo - 1) (min (frag_size c) (hi - 1)) c
        = marked_in (lo - 1) (min (frag_size c) (hi - 1)) t (tokens c)"
      by (rule Node.IH(1)) (use Node.prems that in auto)
    then show ?thesis using marked_in_min [of "lo - 1" "tokens c" "hi - 1" t] by simp
  qed
  have past: "lo < ?k" if "\<not> leaf_type nt" "marked_in (lo - 1) (hi - 1) t (tokens c)"
    using that by (auto simp: marked_in_def)
  show ?case
  proof (cases "lo < hi")
    case True
    with rest kid [OF True] past Node.prems show ?thesis
      by (auto simp: marked_in_append marked_in_Cons split: if_splits)
  next
    case False
    then show ?thesis using Node.prems(2)
      by (auto simp: has_mark_past marked_in_def)
  qed
qed

lemma range_has_mark_tokens:
  "well_formed c \<Longrightarrow> range_has_mark lo hi t c \<longleftrightarrow> marked_in lo hi t (tokens c)"
  by (auto simp: range_has_mark_def has_mark_tokens marked_in_def)

text \<open>
  \<open>nodeAt\<close>: the node after a position, the whole of it when the position is inside a text, with
  the place where it starts, which identifies it.
\<close>

function node_at :: "nat \<Rightarrow> nat \<Rightarrow> pm list \<Rightarrow> (nat \<times> pm) option" where
  "node_at base pos [] = None"
| "node_at base pos (TextN s ms # ns) =
     (if pos < length s then Some (base, TextN s ms)
      else node_at (base + length s) (pos - length s) ns)"
| "node_at base pos (NodeN nt a ms c # ns) =
     (let size = node_size (NodeN nt a ms c)
      in if pos = 0 then Some (base, NodeN nt a ms c)
         else if pos < size then node_at (base + 1) (pos - 1) c
         else node_at (base + size) (pos - size) ns)"
  by pat_completeness auto
termination by (relation "measure (\<lambda>(base, pos, c). size_list size c)") auto

text \<open>\<open>nodeAfter\<close> and \<open>nodeBefore\<close> of a position: a text is cut there.\<close>

function node_after :: "nat \<Rightarrow> pm list \<Rightarrow> pm option" where
  "node_after pos [] = None"
| "node_after pos (TextN s ms # ns) =
     (if pos = 0 then Some (TextN s ms)
      else if pos < length s then Some (TextN (drop pos s) ms)
      else node_after (pos - length s) ns)"
| "node_after pos (NodeN nt a ms c # ns) =
     (let size = node_size (NodeN nt a ms c)
      in if pos = 0 then Some (NodeN nt a ms c)
         else if pos < size then node_after (pos - 1) c
         else node_after (pos - size) ns)"
  by pat_completeness auto
termination by (relation "measure (\<lambda>(pos, c). size_list size c)") auto

function node_before :: "nat \<Rightarrow> pm list \<Rightarrow> pm option" where
  "node_before pos [] = None"
| "node_before pos (TextN s ms # ns) =
     (if pos = 0 then None
      else if pos < length s then Some (TextN (take pos s) ms)
      else if pos = length s then Some (TextN s ms)
      else node_before (pos - length s) ns)"
| "node_before pos (NodeN nt a ms c # ns) =
     (let size = node_size (NodeN nt a ms c)
      in if pos = 0 then None
         else if pos < size then node_before (pos - 1) c
         else if pos = size then Some (NodeN nt a ms c)
         else node_before (pos - size) ns)"
  by pat_completeness auto
termination by (relation "measure (\<lambda>(pos, c). size_list size c)") auto

text \<open>\<open>resolve(pos)\<close>: the nodes around a position with where their content starts, from the outside in.\<close>

function ancestors :: "nat \<Rightarrow> nat \<Rightarrow> pm list \<Rightarrow> (nat \<times> node_type \<times> attrs \<times> pm list) list" where
  "ancestors base pos [] = []"
| "ancestors base pos (TextN s ms # ns) =
     (if pos < length s then [] else ancestors (base + length s) (pos - length s) ns)"
| "ancestors base pos (NodeN nt a ms c # ns) =
     (let size = node_size (NodeN nt a ms c)
      in if pos = 0 then []
         else if pos < size then (base + 1, nt, a, c) # ancestors (base + 1) (pos - 1) c
         else ancestors (base + size) (pos - size) ns)"
  by pat_completeness auto
termination by (relation "measure (\<lambda>(base, pos, c). size_list size c)") auto

text \<open>\<open>$pos.node(d)\<close>, the document itself being at depth 0.\<close>

definition path_of :: "pm list \<Rightarrow> nat \<Rightarrow> (nat \<times> node_type \<times> attrs \<times> pm list) list" where
  "path_of c pos = (0, Doc, [], c) # ancestors 0 pos c"

text \<open>\<open>setNodeAttribute\<close>: \<open>None\<close> when there is no node, or a text, after the position.\<close>

function set_node_attribute :: "nat \<Rightarrow> string \<Rightarrow> json \<Rightarrow> pm list \<Rightarrow> pm list option" where
  "set_node_attribute pos k v [] = None"
| "set_node_attribute pos k v (TextN s ms # ns) =
     (if pos < length s then None
      else map_option ((#) (TextN s ms)) (set_node_attribute (pos - length s) k v ns))"
| "set_node_attribute pos k v (NodeN nt a ms c # ns) =
     (let size = node_size (NodeN nt a ms c)
      in if pos = 0 then Some (NodeN nt (jset k v a) ms c # ns)
         else if pos < size then map_option (\<lambda>c'. NodeN nt a ms c' # ns) (set_node_attribute (pos - 1) k v c)
         else map_option ((#) (NodeN nt a ms c)) (set_node_attribute (pos - size) k v ns))"
  by pat_completeness auto
termination by (relation "measure (\<lambda>(pos, k, v, c). size_list size c)") auto

text \<open>Marking a range keeps a document well formed.\<close>

lemma well_formed_append [simp]: "well_formed (xs @ ys) \<longleftrightarrow> well_formed xs \<and> well_formed ys"
  by (induction xs rule: frag_induct) auto

lemma well_formed_Cons: "well_formed (n # ns) \<longleftrightarrow> well_formed [n] \<and> well_formed ns"
  using well_formed_append [of "[n]" ns] by simp

lemma well_formed_from_array: "well_formed c \<Longrightarrow> well_formed (from_array c)"
proof (induction c rule: from_array.induct)
  case (1 s ms t ns rest)
  then show ?case by auto
qed (simp_all add: well_formed_Cons [of _ "from_array _"] well_formed_Cons [of _ "_ # _"])

lemma well_formed_mark_list: "well_formed c \<Longrightarrow> well_formed (mark_list f lo hi c)"
  by (induction c arbitrary: lo hi rule: frag_induct) (auto simp: text_pieces_def Let_def well_formed_from_array)

lemma well_formed_mark_range: "well_formed c \<Longrightarrow> well_formed (mark_range f lo hi c)"
  by (simp add: mark_range_def well_formed_mark_list well_formed_from_array)

end
