(* ===== verification/Prose_Commands.thy ===== *)
theory Prose_Commands
  imports Prose
begin

text \<open>
  The state of the text editor and the commands its toolbar and its shortcuts run, from
  \<open>components.js\<close>: marks and colours, headings, lists, and the pills that are moved or searched
  for. A command gives the new state (\<open>dispatch\<close> was called) or \<open>None\<close>. The commands are specified
  on the sequence of tokens of the document.
\<close>

section \<open>Selections\<close>

text \<open>A text selection from an anchor to a head, a selected node, or everything.\<close>

datatype selection = TextSel nat nat | NodeSel nat | AllSel

record ed_state =
  content :: "pm list"
  sel :: selection
  stored_marks :: "mark list option"

definition new_state :: "pm list \<Rightarrow> ed_state" where
  "new_state c = \<lparr>content = c, sel = TextSel 1 1, stored_marks = None\<rparr>"

fun sel_from :: "ed_state \<Rightarrow> nat" where
  "sel_from s = (case sel s of TextSel a h \<Rightarrow> min a h | NodeSel p \<Rightarrow> p | AllSel \<Rightarrow> 0)"

fun sel_to :: "ed_state \<Rightarrow> nat" where
  "sel_to s = (case sel s of
      TextSel a h \<Rightarrow> max a h
    | NodeSel p \<Rightarrow> p + (case node_at 0 p (content s) of None \<Rightarrow> 0 | Some (b, n) \<Rightarrow> node_size n)
    | AllSel \<Rightarrow> frag_size (content s))"

declare sel_from.simps [simp del] sel_to.simps [simp del]

definition sel_empty :: "ed_state \<Rightarrow> bool" where
  "sel_empty s \<longleftrightarrow> sel_from s = sel_to s"

definition get_cursor :: "ed_state \<Rightarrow> nat option" where
  "get_cursor s = (case sel s of TextSel a h \<Rightarrow> if a = h then Some h else None | _ \<Rightarrow> None)"

definition is_pill_selection :: "ed_state \<Rightarrow> bool" where
  "is_pill_selection s =
     (case sel s of
        NodeSel p \<Rightarrow> (case node_at 0 p (content s) of
            Some (b, NodeN nt a ms c) \<Rightarrow> nt \<in> {Pill, Search_pill}
          | _ \<Rightarrow> False)
      | _ \<Rightarrow> False)"

section \<open>Which marks there are\<close>

definition mark_in_selection :: "ed_state \<Rightarrow> mark_type \<Rightarrow> bool" where
  "mark_in_selection s t = range_has_mark (sel_from s) (sel_to s) t (content s)"

definition has_colour :: "ed_state \<Rightarrow> bool" where
  "has_colour s \<longleftrightarrow> list_ex (mark_in_selection s) color_marks"

text \<open>
  \<open>$pos.marks()\<close>: the marks a character typed there gets; a link is not continued at its end.
\<close>

fun node_marks :: "pm \<Rightarrow> mark list" where
  "node_marks (TextN s ms) = ms"
| "node_marks (NodeN nt a ms c) = ms"

text \<open>The children of the innermost node around a position, with the offset into it.\<close>

definition parent_content :: "nat \<Rightarrow> pm list \<Rightarrow> nat \<times> pm list" where
  "parent_content pos c = (case last (path_of c pos) of (start, nt, a, kids) \<Rightarrow> (pos - start, kids))"

definition inside_text :: "nat \<Rightarrow> pm list \<Rightarrow> bool" where
  "inside_text pos c =
     (case node_at 0 pos c of Some (b, TextN s ms) \<Rightarrow> b < pos | _ \<Rightarrow> False)"

definition marks_at :: "nat \<Rightarrow> pm list \<Rightarrow> mark list" where
  "marks_at pos c =
     (if frag_size (snd (parent_content pos c)) = 0 then []
      else if inside_text pos c then (case node_at 0 pos c of Some (b, n) \<Rightarrow> node_marks n | None \<Rightarrow> [])
      else let (main, other) = (case node_before pos c of
                 None \<Rightarrow> (node_after pos c, None) | Some n \<Rightarrow> (Some n, node_after pos c))
           in filter (\<lambda>m. mark_type m \<noteq> Link \<or> (case other of None \<Rightarrow> False | Some n \<Rightarrow> m \<in> set (node_marks n)))
                (case main of None \<Rightarrow> [] | Some n \<Rightarrow> node_marks n))"

definition mark_at_cursor :: "ed_state \<Rightarrow> mark_type \<Rightarrow> bool" where
  "mark_at_cursor s t =
     (case get_cursor s of
        None \<Rightarrow> False
      | Some p \<Rightarrow> type_in_set t (case stored_marks s of Some ms \<Rightarrow> ms | None \<Rightarrow> marks_at p (content s)))"

text \<open>A mark applies when the range touches a textblock.\<close>

function touches_textblock :: "nat \<Rightarrow> nat \<Rightarrow> pm list \<Rightarrow> bool" where
  "touches_textblock lo hi [] \<longleftrightarrow> False"
| "touches_textblock lo hi (TextN s ms # ns) \<longleftrightarrow> 0 < hi \<and> touches_textblock (lo - length s) (hi - length s) ns"
| "touches_textblock lo hi (NodeN nt a ms c # ns) \<longleftrightarrow> 0 < hi \<and>
     (lo < node_size (NodeN nt a ms c)
        \<and> (textblock nt \<or> touches_textblock (lo - 1) (min (frag_size c) (hi - 1)) c)
      \<or> touches_textblock (lo - node_size (NodeN nt a ms c)) (hi - node_size (NodeN nt a ms c)) ns)"
  by pat_completeness auto
termination by (relation "measure (\<lambda>(lo, hi, c). size_list size c)") auto

definition mark_applies :: "ed_state \<Rightarrow> bool" where
  "mark_applies s = touches_textblock (sel_from s) (sel_to s) (content s)"

section \<open>Marks and colours\<close>

text \<open>The range a mark is put on: the white space at its two ends is left out.\<close>

fun space_unit :: "uchar \<Rightarrow> bool" where
  "space_unit (Ch c) = is_space c"
| "space_unit Obj = False"

fun leading_space :: "pm option \<Rightarrow> nat" where
  "leading_space (Some (TextN s ms)) = length (takeWhile space_unit s)"
| "leading_space _ = 0"

fun trailing_space :: "pm option \<Rightarrow> nat" where
  "trailing_space (Some (TextN s ms)) = length (takeWhile space_unit (rev s))"
| "trailing_space _ = 0"

definition trimmed_range :: "ed_state \<Rightarrow> nat \<times> nat" where
  "trimmed_range s =
     (let lo = sel_from s; hi = sel_to s;
          space_start = leading_space (node_after lo (content s));
          space_end = trailing_space (node_before hi (content s))
      in if lo + space_start < hi then (lo + space_start, hi - space_end) else (lo, hi))"

text \<open>One turn of the loop of \<open>toggleColourCmd\<close> over the colours.\<close>

definition colour_turn :: "ed_state \<Rightarrow> mark_type \<Rightarrow> mark_type \<Rightarrow> pm list \<Rightarrow> pm list" where
  "colour_turn s mt t d =
     (if t = mt
      then (if mark_applies s
            then add_mark (fst (trimmed_range s)) (snd (trimmed_range s)) (Mark t []) d
            else d)
      else if mark_in_selection s t then remove_mark (sel_from s) (sel_to s) t d else d)"

definition toggle_colour_cmd :: "mark_type \<Rightarrow> ed_state \<Rightarrow> ed_state option" where
  "toggle_colour_cmd mt s =
     (if sel_empty s then None
      else Some (s\<lparr>content := fold (colour_turn s mt) color_marks (content s), stored_marks := None\<rparr>))"

definition remove_colours_cmd :: "ed_state \<Rightarrow> ed_state option" where
  "remove_colours_cmd s =
     (if has_colour s
      then Some (s\<lparr>content := fold (\<lambda>t d. if mark_in_selection s t
                     then remove_mark (sel_from s) (sel_to s) t d else d) color_marks (content s),
                   stored_marks := None\<rparr>)
      else None)"

text \<open>\<open>toggleMark\<close>: at a cursor the marks of the next character change, else those of the range.\<close>

definition toggle_mark :: "mark_type \<Rightarrow> ed_state \<Rightarrow> ed_state option" where
  "toggle_mark t s =
     (case get_cursor s of
        Some p \<Rightarrow>
          if \<not> mark_applies s then None
          else let ms = (case stored_marks s of Some ms \<Rightarrow> ms | None \<Rightarrow> marks_at p (content s))
               in Some (s\<lparr>stored_marks := Some (if type_in_set t ms then remove_type t ms
                                                 else add_to_set (Mark t []) ms)\<rparr>)
      | None \<Rightarrow>
          if sel_empty s \<or> \<not> mark_applies s then None
          else if mark_in_selection s t
          then Some (s\<lparr>content := remove_mark (sel_from s) (sel_to s) t (content s), stored_marks := None\<rparr>)
          else Some (s\<lparr>content := add_mark (fst (trimmed_range s)) (snd (trimmed_range s)) (Mark t []) (content s),
                       stored_marks := None\<rparr>))"

section \<open>What the colour commands do to the tokens\<close>

definition types_of :: "token \<Rightarrow> mark_type set" where
  "types_of x = mark_type ` set (token_marks x)"

fun inline_token :: "token \<Rightarrow> bool" where
  "inline_token (Chr c ms) = True"
| "inline_token (Leaf nt a ms) = True"
| "inline_token _ = False"

lemma types_with_add:
  "types_of (with_marks (add_to_set m) x) = (if inline_token x then insert (mark_type m) (types_of x) else types_of x)"
  by (cases x) (auto simp: types_of_def types_add)

lemma types_with_remove: "types_of (with_marks (remove_type t) x) = types_of x - {t}"
  by (cases x) (auto simp: types_of_def types_remove)

lemma marked_in_types: "marked_in lo hi t ts \<longleftrightarrow> (\<exists>i < length ts. lo \<le> i \<and> i < hi \<and> t \<in> types_of (ts ! i))"
  by (simp add: marked_in_def type_in_set_def types_of_def)

lemma unmarked_selection:
  assumes "well_formed (content s)" and "\<not> mark_in_selection s t"
    and "i < frag_size (content s)" and "sel_from s \<le> i" and "i < sel_to s"
  shows "t \<notin> types_of (tokens (content s) ! i)"
  using assms by (auto simp: mark_in_selection_def range_has_mark_tokens marked_in_types)

text \<open>What the commands leave alone: everything but the colours.\<close>

fun is_colour :: "mark_type \<Rightarrow> bool" where
  "is_colour (Colour c) = True"
| "is_colour _ = False"

definition uncoloured :: "token \<Rightarrow> token" where
  "uncoloured = with_marks (filter (\<lambda>m. \<not> is_colour (mark_type m)))"

lemma with_marks_comp: "with_marks f (with_marks g x) = with_marks (f \<circ> g) x"
  by (cases x) simp_all

lemma filter_add_loop:
  "\<not> P (mark_type m) \<Longrightarrow> filter (\<lambda>x. P (mark_type x)) (add_loop m placed ms) = filter (\<lambda>x. P (mark_type x)) ms"
  by (induction m placed ms rule: add_loop.induct) auto

lemma uncoloured_add: "is_colour (mark_type m) \<Longrightarrow> uncoloured (with_marks (add_to_set m) x) = uncoloured x"
  by (cases x) (auto simp: uncoloured_def add_to_set_def filter_add_loop [where P = "\<lambda>t. \<not> is_colour t"])

lemma uncoloured_remove: "is_colour t \<Longrightarrow> uncoloured (with_marks (remove_type t) x) = uncoloured x"
  by (cases x) (auto simp: uncoloured_def remove_type_def intro!: filter_cong)

lemma inline_with_marks [simp]: "inline_token (with_marks f x) = inline_token x"
  by (cases x) auto

lemma inline_uncoloured [simp]: "inline_token (uncoloured x) = inline_token x"
  by (simp add: uncoloured_def)

definition in_range :: "nat \<times> nat \<Rightarrow> nat \<Rightarrow> bool" where
  "in_range r i \<longleftrightarrow> fst r \<le> i \<and> i < snd r"

lemma in_trimmed: "in_range (trimmed_range s) i \<Longrightarrow> sel_from s \<le> i \<and> i < sel_to s"
  by (auto simp: in_range_def trimmed_range_def Let_def split: if_splits)

text \<open>One turn, on the token at a place.\<close>

lemma size_colour_turn [simp]: "frag_size (colour_turn s mt t d) = frag_size d"
proof -
  have "length (tokens (colour_turn s mt t d)) = length (tokens d)"
    by (simp add: colour_turn_def add_mark_def remove_mark_def del: length_tokens)
  then show ?thesis by simp
qed

lemma token_add: "i < frag_size d \<Longrightarrow> tokens (add_mark lo hi m d) ! i =
    (if in_range (lo, hi) i then with_marks (add_to_set m) (tokens d ! i) else tokens d ! i)"
  by (simp add: add_mark_def nth_map_range in_range_def)

lemma token_remove: "i < frag_size d \<Longrightarrow> tokens (remove_mark lo hi t d) ! i =
    (if in_range (lo, hi) i then with_marks (remove_type t) (tokens d ! i) else tokens d ! i)"
  by (simp add: remove_mark_def nth_map_range in_range_def)

lemma turn_uncoloured:
  assumes "is_colour t" and "i < frag_size d"
  shows "uncoloured (tokens (colour_turn s mt t d) ! i) = uncoloured (tokens d ! i)"
  using assms by (auto simp: colour_turn_def token_add token_remove uncoloured_add uncoloured_remove)

lemma turn_same:
  "i < frag_size d \<Longrightarrow> types_of (tokens (colour_turn s mt mt d) ! i) = types_of (tokens d ! i)
     \<union> (if mark_applies s \<and> in_range (trimmed_range s) i \<and> inline_token (tokens d ! i) then {mt} else {})"
  by (auto simp: colour_turn_def token_add types_with_add)

lemma turn_other:
  assumes "t \<noteq> mt" and "i < frag_size d"
    and "\<not> mark_in_selection s t \<Longrightarrow> in_range (sel_from s, sel_to s) i \<Longrightarrow> t \<notin> types_of (tokens d ! i)"
  shows "types_of (tokens (colour_turn s mt t d) ! i) = types_of (tokens d ! i)
     - (if in_range (sel_from s, sel_to s) i then {t} else {})"
  using assms by (auto simp: colour_turn_def token_remove types_with_remove)

lemma turn_inline: "i < frag_size d \<Longrightarrow> is_colour t \<Longrightarrow>
    inline_token (tokens (colour_turn s mt t d) ! i) = inline_token (tokens d ! i)"
  by (metis inline_uncoloured turn_uncoloured)

lemma all_colours: "set color_marks = {t. is_colour t}"
proof -
  have "is_colour t \<longleftrightarrow> t = Colour Red \<or> t = Colour Yellow \<or> t = Colour Green" for t
  proof (cases t)
    case (Colour c)
    then show ?thesis by (cases c) auto
  qed auto
  then show ?thesis by (auto simp: color_marks_def)
qed

text \<open>
  The turns for a list of distinct colours: the other colours leave the selection, the chosen
  one is put on its trimmed range.
\<close>

lemma turns_types:
  assumes "list_all is_colour ts" and "distinct ts" and "i < frag_size d" and "well_formed (content s)"
    and "i < frag_size (content s)"
    and "\<forall>t \<in> set ts. t \<noteq> mt \<longrightarrow> t \<in> types_of (tokens d ! i) \<longrightarrow> t \<in> types_of (tokens (content s) ! i)"
  shows "types_of (tokens (fold (colour_turn s mt) ts d) ! i) =
     types_of (tokens d ! i) - (if in_range (sel_from s, sel_to s) i then set ts - {mt} else {})
     \<union> (if mt \<in> set ts \<and> mark_applies s \<and> in_range (trimmed_range s) i \<and> inline_token (tokens d ! i)
        then {mt} else {})"
  using assms
proof (induction ts arbitrary: d)
  case Nil
  then show ?case by simp
next
  case (Cons t ts)
  let ?d = "colour_turn s mt t d"
  have unm: "\<not> mark_in_selection s t \<Longrightarrow> in_range (sel_from s, sel_to s) i \<Longrightarrow> t \<noteq> mt
      \<Longrightarrow> t \<notin> types_of (tokens d ! i)"
    using unmarked_selection [OF Cons.prems(4) _ Cons.prems(5), of t] Cons.prems(6)
    by (auto simp: in_range_def)
  have step: "types_of (tokens ?d ! i) = (if t = mt
      then types_of (tokens d ! i)
        \<union> (if mark_applies s \<and> in_range (trimmed_range s) i \<and> inline_token (tokens d ! i) then {mt} else {})
      else types_of (tokens d ! i) - (if in_range (sel_from s, sel_to s) i then {t} else {}))"
    using turn_same [of i d s t] turn_other [of t mt i d s] Cons.prems(3) unm by auto
  have "types_of (tokens (fold (colour_turn s mt) ts ?d) ! i) =
     types_of (tokens ?d ! i) - (if in_range (sel_from s, sel_to s) i then set ts - {mt} else {})
     \<union> (if mt \<in> set ts \<and> mark_applies s \<and> in_range (trimmed_range s) i \<and> inline_token (tokens ?d ! i)
        then {mt} else {})"
    by (rule Cons.IH) (use Cons.prems step in \<open>auto split: if_splits\<close>)
  moreover have "inline_token (tokens ?d ! i) = inline_token (tokens d ! i)"
    by (rule turn_inline) (use Cons.prems in auto)
  ultimately show ?case using step Cons.prems(2) by (auto split: if_splits)
qed

lemma turns_uncoloured:
  "list_all is_colour ts \<Longrightarrow> i < frag_size d \<Longrightarrow>
     uncoloured (tokens (fold (colour_turn s mt) ts d) ! i) = uncoloured (tokens d ! i)"
  by (induction ts arbitrary: d) (auto simp: turn_uncoloured)

lemma size_turns [simp]: "frag_size (fold (colour_turn s mt) ts d) = frag_size d"
  by (induction ts arbitrary: d) auto

lemma remove_colours_turns:
  "has_colour s \<Longrightarrow> remove_colours_cmd s =
     Some (s\<lparr>content := fold (colour_turn s Link) color_marks (content s), stored_marks := None\<rparr>)"
  by (simp add: remove_colours_cmd_def colour_turn_def color_marks_def)

lemma colour_list: "list_all is_colour color_marks" "distinct color_marks"
  by (simp_all add: color_marks_def)

text \<open>A press of one of the buttons of the colour menu: a colour, or the default.\<close>

definition press_colour :: "colour option \<Rightarrow> ed_state \<Rightarrow> ed_state" where
  "press_colour b s =
     (case (case b of Some k \<Rightarrow> toggle_colour_cmd (Colour k) s | None \<Rightarrow> remove_colours_cmd s) of
        None \<Rightarrow> s | Some s' \<Rightarrow> s')"

definition button_mark :: "colour option \<Rightarrow> mark_type" where
  "button_mark b = (case b of Some k \<Rightarrow> Colour k | None \<Rightarrow> Link)"

lemma press_colour_turns:
  "press_colour b s = s \<or>
   press_colour b s = s\<lparr>content := fold (colour_turn s (button_mark b)) color_marks (content s), stored_marks := None\<rparr>"
proof (cases b)
  case None
  then show ?thesis
    by (cases "has_colour s")
      (simp_all add: press_colour_def button_mark_def remove_colours_turns, simp add: remove_colours_cmd_def)
next
  case (Some k)
  then show ?thesis by (auto simp: press_colour_def button_mark_def toggle_colour_cmd_def)
qed

lemma well_formed_turns: "well_formed d \<Longrightarrow> well_formed (fold (colour_turn s mt) ts d)"
  by (induction ts arbitrary: d)
    (auto simp: colour_turn_def add_mark_def remove_mark_def well_formed_mark_range)

lemma well_formed_press: "well_formed (content s) \<Longrightarrow> well_formed (content (press_colour b s))"
  using press_colour_turns [of b s] by (auto simp: well_formed_turns)

definition one_colour :: "token \<Rightarrow> bool" where
  "one_colour x \<longleftrightarrow> (\<forall>t \<in> types_of x. \<forall>u \<in> types_of x. is_colour t \<longrightarrow> is_colour u \<longrightarrow> t = u)"

lemma turn_token_types:
  assumes "well_formed (content s)" and "i < frag_size (content s)"
  shows "types_of (tokens (fold (colour_turn s mt) color_marks (content s)) ! i) =
     types_of (tokens (content s) ! i)
       - (if in_range (sel_from s, sel_to s) i then {t. is_colour t} - {mt} else {})
     \<union> (if is_colour mt \<and> mark_applies s \<and> in_range (trimmed_range s) i \<and> inline_token (tokens (content s) ! i)
        then {mt} else {})"
  using turns_types [OF colour_list assms(2,1,2), of mt] by (simp add: all_colours)

lemma one_colour_press:
  assumes "well_formed (content s)" and "\<forall>x \<in> set (tokens (content s)). one_colour x"
  shows "\<forall>x \<in> set (tokens (content (press_colour b s))). one_colour x"
proof -
  let ?d = "fold (colour_turn s (button_mark b)) color_marks (content s)"
  have "one_colour (tokens ?d ! i)" if i: "i < frag_size (content s)" for i
  proof -
    have "one_colour (tokens (content s) ! i)" using assms(2) i by simp
    then show ?thesis
      using turn_token_types [OF assms(1) i, of "button_mark b"] in_trimmed [of s i]
      by (auto simp: one_colour_def in_range_def split: if_splits)
  qed
  then have "\<forall>x \<in> set (tokens ?d). one_colour x" by (auto simp: in_set_conv_nth)
  then show ?thesis using assms(2) press_colour_turns [of b s] by auto
qed

section \<open>Properties of the colour menu\<close>

text \<open>
  C16: Whatever buttons of the colour menu are pressed, and wherever the selection is moved in
  between, no character or pill ever has two colours, if none had at first.
\<close>

theorem colours_stay_exclusive:
  assumes "well_formed (content s)" and "\<forall>x \<in> set (tokens (content s)). one_colour x"
  shows "\<forall>x \<in> set (tokens (content (fold (\<lambda>(r, b) s. press_colour b (s\<lparr>sel := r\<rparr>)) presses s))). one_colour x"
  using assms
proof (induction presses arbitrary: s)
  case Nil
  then show ?case by simp
next
  case (Cons p presses)
  obtain r b where p: "p = (r, b)" by (cases p)
  let ?s = "s\<lparr>sel := r\<rparr>"
  have w: "well_formed (content ?s)" and o: "\<forall>x \<in> set (tokens (content ?s)). one_colour x"
    using Cons.prems by simp_all
  show ?case using Cons.IH [OF well_formed_press [OF w] one_colour_press [OF w o]] by (simp add: p)
qed

text \<open>
  Choosing a colour takes the other colours off the whole selection, puts the chosen one
  on the selection without the white space at its ends (when it touches a textblock), and
  changes nothing else: not the text, the structure or the other marks, and not the colours
  outside the selection.
\<close>

theorem colour_is_put_on_selection:
  assumes "well_formed (content s)" and "toggle_colour_cmd (Colour k) s = Some s'"
  shows "map uncoloured (tokens (content s')) = map uncoloured (tokens (content s))
    \<and> (\<forall>i < frag_size (content s). types_of (tokens (content s') ! i) =
         types_of (tokens (content s) ! i)
           - (if in_range (sel_from s, sel_to s) i then {t. is_colour t} - {Colour k} else {})
         \<union> (if mark_applies s \<and> in_range (trimmed_range s) i \<and> inline_token (tokens (content s) ! i)
            then {Colour k} else {}))"
proof -
  have s': "content s' = fold (colour_turn s (Colour k)) color_marks (content s)"
    using assms(2) by (auto simp: toggle_colour_cmd_def split: if_splits)
  have "map uncoloured (tokens (content s')) = map uncoloured (tokens (content s))"
    by (rule nth_equalityI) (simp_all add: s' turns_uncoloured colour_list)
  with turn_token_types [OF assms(1), of _ "Colour k"] show ?thesis by (simp add: s')
qed

text \<open>
  A colour is never toggled off: what has the chosen colour keeps it, although the other
  mark buttons take a mark off when the selection has it.
\<close>

theorem colour_is_never_toggled_off:
  assumes "well_formed (content s)" and "toggle_colour_cmd (Colour k) s = Some s'"
    and "i < frag_size (content s)" and "Colour k \<in> types_of (tokens (content s) ! i)"
  shows "Colour k \<in> types_of (tokens (content s') ! i)"
proof -
  have "content s' = fold (colour_turn s (Colour k)) color_marks (content s)"
    using assms(2) by (auto simp: toggle_colour_cmd_def split: if_splits)
  then show ?thesis using turn_token_types [OF assms(1,3), of "Colour k"] assms(4) by auto
qed

text \<open>A paragraph \<open>ab c\<close>, \<open>ab\<close> in red, with all of it selected.\<close>

definition example_ed :: ed_state where
  "example_ed = \<lparr>content = [NodeN Paragraph [] [] [TextN [Ch CHR ''a'', Ch CHR ''b''] [Mark (Colour Red) []],
       TextN [Ch CHR '' '', Ch CHR ''c''] []]], sel = TextSel 1 5, stored_marks = None\<rparr>"

lemma example_ed_ok:
  "well_formed (content example_ed)" "\<forall>x \<in> set (tokens (content example_ed)). one_colour x"
  by (simp_all add: example_ed_def leaf_type_def one_colour_def types_of_def)

theorem colours_stay_exclusive_witness:
  "list_all one_colour (tokens (content (fold (\<lambda>(r, b) s. press_colour b (s\<lparr>sel := r\<rparr>))
      [(TextSel 2 5, Some Green), (TextSel 1 3, Some Yellow), (TextSel 1 5, None)] example_ed)))"
  unfolding list_all_iff by (rule colours_stay_exclusive [OF example_ed_ok])

theorem colour_is_put_on_selection_witness:
  "\<exists>s'. toggle_colour_cmd (Colour Green) example_ed = Some s'
     \<and> types_of (tokens (content s') ! 1) = {Colour Green}"
proof -
  obtain s' where s': "toggle_colour_cmd (Colour Green) example_ed = Some s'"
    by (simp add: toggle_colour_cmd_def sel_empty_def sel_from.simps sel_to.simps example_ed_def)
  have i: "1 < frag_size (content example_ed)" by (simp add: example_ed_def leaf_type_def)
  have r: "in_range (trimmed_range example_ed) 1" "in_range (sel_from example_ed, sel_to example_ed) 1"
    by (simp_all add: example_ed_def leaf_type_def in_range_def trimmed_range_def sel_from.simps sel_to.simps
        Let_def is_space_def)
  have m: "mark_applies example_ed" "tokens (content example_ed) ! 1 = Chr (Ch CHR ''a'') [Mark (Colour Red) []]"
    by (simp_all add: example_ed_def mark_applies_def textblock_def leaf_type_def sel_from.simps sel_to.simps)
  have "types_of (tokens (content s') ! 1) = {Colour Green}"
    using conjunct2 [OF colour_is_put_on_selection [OF example_ed_ok(1) s'], rule_format, OF i] r m
    by (simp add: types_of_def)
  with s' show ?thesis by blast
qed

theorem colour_is_never_toggled_off_witness:
  "\<exists>s'. toggle_colour_cmd (Colour Red) example_ed = Some s' \<and> Colour Red \<in> types_of (tokens (content s') ! 1)"
proof -
  obtain s' where s': "toggle_colour_cmd (Colour Red) example_ed = Some s'"
    by (simp add: toggle_colour_cmd_def sel_empty_def sel_from.simps sel_to.simps example_ed_def)
  have "Colour Red \<in> types_of (tokens (content s') ! 1)"
    by (rule colour_is_never_toggled_off [OF example_ed_ok(1) s'])
      (simp_all add: example_ed_def leaf_type_def types_of_def)
  with s' show ?thesis by blast
qed

section \<open>Headings\<close>

text \<open>The type and attributes of \<open>$pos.node(1)\<close>, the block of the document a position is in.\<close>

definition node1 :: "nat \<Rightarrow> pm list \<Rightarrow> (node_type \<times> attrs) option" where
  "node1 pos c = (case ancestors 0 pos c of [] \<Rightarrow> None | (start, nt, a, kids) # _ \<Rightarrow> Some (nt, a))"

definition node_in_selection :: "ed_state \<Rightarrow> node_type \<Rightarrow> bool" where
  "node_in_selection s nt \<longleftrightarrow> map_option fst (node1 (sel_from s) (content s)) = Some nt"

definition level_of :: "attrs \<Rightarrow> int option" where
  "level_of a = (case map_of a ''level'' of Some (JNum n) \<Rightarrow> if n = 0 then None else Some n | _ \<Rightarrow> None)"

definition heading_in_selection :: "ed_state \<Rightarrow> int \<Rightarrow> bool" where
  "heading_in_selection s level =
     (case last (path_of (content s) (sel_from s)) of (start, nt, a, kids) \<Rightarrow>
        (case level_of a of Some n \<Rightarrow> n = level | None \<Rightarrow> level = 0))"

definition heading_level_at_cursor :: "ed_state \<Rightarrow> int" where
  "heading_level_at_cursor s =
     (case get_cursor s of
        None \<Rightarrow> 0
      | Some p \<Rightarrow> (case node1 p (content s) of
            Some (Heading, a) \<Rightarrow> (case level_of a of Some n \<Rightarrow> n | None \<Rightarrow> 1)
          | _ \<Rightarrow> 0))"

text \<open>A newline of a text becomes a space when the type of its block changes.\<close>

fun space_newlines :: "utext \<Rightarrow> utext" where
  "space_newlines [] = []"
| "space_newlines (u # us) =
     (if u = Ch CHR 0x0D then
        (case us of v # vs \<Rightarrow> if v = Ch CHR 0x0A then Ch CHR '' '' # space_newlines vs
                              else Ch CHR '' '' # space_newlines us
         | [] \<Rightarrow> [Ch CHR '' ''])
      else if u = Ch CHR 0x0A then Ch CHR '' '' # space_newlines us
      else u # space_newlines us)"

fun clear_newlines :: "pm \<Rightarrow> pm" where
  "clear_newlines (TextN s ms) = TextN (space_newlines s) ms"
| "clear_newlines n = n"

text \<open>The textblocks a range touches that do not have the type and attributes yet take them.\<close>

function set_block_type :: "node_type \<Rightarrow> attrs \<Rightarrow> nat \<Rightarrow> nat \<Rightarrow> pm list \<Rightarrow> pm list" where
  "set_block_type nt a lo hi [] = []"
| "set_block_type nt a lo hi (TextN s ms # ns) =
     TextN s ms # set_block_type nt a (lo - length s) (hi - length s) ns"
| "set_block_type nt a lo hi (NodeN nt1 a1 ms c # ns) =
     (let size = node_size (NodeN nt1 a1 ms c)
      in if hi = 0 then NodeN nt1 a1 ms c # ns
         else (if size \<le> lo then NodeN nt1 a1 ms c
               else if textblock nt1 then
                 (if nt1 = nt \<and> a1 = a then NodeN nt1 a1 ms c else NodeN nt a ms (map clear_newlines c))
               else NodeN nt1 a1 ms (set_block_type nt a (lo - 1) (min (frag_size c) (hi - 1)) c))
              # set_block_type nt a (lo - size) (hi - size) ns)"
  by pat_completeness auto
termination by (relation "measure (\<lambda>(nt, a, lo, hi, c). size_list size c)") auto

definition set_block_cmd :: "node_type \<Rightarrow> attrs \<Rightarrow> ed_state \<Rightarrow> ed_state option" where
  "set_block_cmd nt a s =
     (let d = set_block_type nt a (sel_from s) (sel_to s) (content s)
      in if d = content s then None else Some (s\<lparr>content := d, stored_marks := None\<rparr>))"

text \<open>
  \<open>makeHeadlineCmd\<close>: the check of the level (\<open>level < 0 && level > 6\<close>) never holds, so it is
  no branch; level 0 is a plain paragraph.
\<close>

definition make_headline_cmd :: "int \<Rightarrow> ed_state \<Rightarrow> ed_state option" where
  "make_headline_cmd level =
     (if level = 0 then set_block_cmd Paragraph [] else set_block_cmd Heading [(''level'', JNum level)])"

definition at_block_start :: "ed_state \<Rightarrow> bool" where
  "at_block_start s =
     (case get_cursor s of None \<Rightarrow> False | Some p \<Rightarrow> fst (parent_content p (content s)) = 0)"

definition remove_block_if_at_start_cmd :: "ed_state \<Rightarrow> ed_state option" where
  "remove_block_if_at_start_cmd s = (if at_block_start s then set_block_cmd Paragraph [] s else None)"

section \<open>Lists\<close>

text \<open>The index of the child a position of a fragment is in, or before.\<close>

fun child_index :: "nat \<Rightarrow> pm list \<Rightarrow> nat" where
  "child_index pos [] = 0"
| "child_index pos (n # ns) = (if pos < node_size n then 0 else Suc (child_index (pos - node_size n) ns))"

text \<open>
  \<open>blockRange\<close>: the depth of the innermost node around both ends that satisfies a predicate on
  its children, a textblock itself excepted.
\<close>

definition block_range :: "(pm list \<Rightarrow> bool) \<Rightarrow> ed_state \<Rightarrow> nat option" where
  "block_range pred s =
     (let path = path_of (content s) (sel_from s);
          top = length path - (if textblock (fst (snd (last path))) \<or> sel_empty s then 1 else 0)
      in find (\<lambda>d. case path ! d of (start, nt, a, kids) \<Rightarrow> sel_to s \<le> start + frag_size kids \<and> pred kids)
              (rev [0..<top]))"

definition index_after :: "nat \<Rightarrow> nat \<Rightarrow> pm list \<Rightarrow> nat" where
  "index_after d pos c =
     (let path = path_of c pos
      in case path ! d of (start, nt, a, kids) \<Rightarrow>
           child_index (pos - start) kids
             + (if Suc d = length path \<and> \<not> inside_text pos c then 0 else 1))"

fun type_of_node :: "pm \<Rightarrow> node_type option" where
  "type_of_node (TextN s ms) = None"
| "type_of_node (NodeN nt a ms c) = Some nt"

definition can_toggle_list :: "ed_state \<Rightarrow> bool" where
  "can_toggle_list s =
     (case block_range (\<lambda>kids. True) s of
        None \<Rightarrow> False
      | Some d \<Rightarrow>
          (case path_of (content s) (sel_from s) ! d of (start, nt, a, kids) \<Rightarrow>
             let i = child_index (sel_from s - start) kids; j = index_after d (sel_to s) (content s)
             in list_all (\<lambda>n. \<forall>l \<in> set list_nodes. type_of_node n \<noteq> Some l) (take (j - i) (drop i kids))))"

definition first_child_is :: "node_type \<Rightarrow> pm list \<Rightarrow> bool" where
  "first_child_is nt kids = (case kids of [] \<Rightarrow> False | n # _ \<Rightarrow> type_of_node n = Some nt)"

text \<open>
  What becomes of a command: an exception, a refusal, or what is dispatched. A command that goes on
  with what another gives stops where that stops.
\<close>

datatype 'a command_result = Raised | Refused | Dispatched 'a

fun and_then :: "'a command_result \<Rightarrow> ('a \<Rightarrow> 'b command_result) \<Rightarrow> 'b command_result" where
  "and_then Raised f = Raised"
| "and_then Refused f = Refused"
| "and_then (Dispatched x) f = f x"

text \<open>
  \<open>liftListItemTr\<close> refuses when no list of such items is around the selection; what it then
  does to the tree, and wrapping and joining, are arguments here, and given in \<open>Prose_Lists\<close>.
\<close>

definition lift_list_item_tr :: "(nat \<Rightarrow> ed_state \<Rightarrow> ed_state command_result) \<Rightarrow> node_type \<Rightarrow> ed_state \<Rightarrow> ed_state command_result" where
  "lift_list_item_tr lift item s =
     (case block_range (first_child_is item) s of None \<Rightarrow> Refused | Some d \<Rightarrow> lift d s)"

definition list_item_of :: "node_type \<Rightarrow> node_type" where
  "list_item_of nt = (if nt = Task_list then Task_list_item else List_item)"

definition toggle_list_cmd ::
  "(nat \<Rightarrow> ed_state \<Rightarrow> ed_state command_result) \<Rightarrow> (node_type \<Rightarrow> ed_state \<Rightarrow> ed_state command_result)
    \<Rightarrow> (node_type \<Rightarrow> ed_state \<Rightarrow> ed_state command_result) \<Rightarrow> node_type \<Rightarrow> node_type \<Rightarrow> ed_state \<Rightarrow> ed_state command_result" where
  "toggle_list_cmd lift wrap join mt item s =
     (if \<not> can_toggle_list s then Refused
      else case node1 (sel_from s) (content s) of
             None \<Rightarrow> Raised
           | Some (inner, a) \<Rightarrow>
               if inner = mt then lift_list_item_tr lift item s
               else and_then (if inner \<in> set list_nodes then lift_list_item_tr lift item s else Dispatched s)
                      (\<lambda>s1. and_then (wrap mt s1) (join mt)))"

text \<open>What the schema says of the children of a node.\<close>

definition item_type :: "node_type \<Rightarrow> bool" where
  "item_type nt \<longleftrightarrow> nt \<in> {List_item, Task_list_item}"

definition kids_fit :: "node_type \<Rightarrow> pm list \<Rightarrow> bool" where
  "kids_fit nt kids \<longleftrightarrow>
     (\<forall>n \<in> set kids. case type_of_node n of
          None \<Rightarrow> textblock nt
        | Some k \<Rightarrow> if nt \<in> set list_nodes then k = list_item_of nt else \<not> item_type k)"

text \<open>
  C17: The kind of a list is not switched between check lists and the others: with the selection in a
  list at the top level of the document (the outermost block around its start is a list) whose items
  are of the other kind, and in no list of the wanted kind around it, the button of the wanted list
  does nothing. \<open>toggleListCmd\<close> looks for items of the wanted list where it means to take the selection
  out of the list it is in. (For a list inside a quote the outermost block is the quote, and the
  command goes on to wrap the selection; that is outside of this property.)
\<close>

theorem other_list_kind_is_refused:
  assumes "\<forall>(start, nt, a, kids) \<in> set (path_of (content s) (sel_from s)).
      kids_fit nt kids \<and> (nt \<in> set list_nodes \<longrightarrow> list_item_of nt \<noteq> list_item_of mt)"
    and "node1 (sel_from s) (content s) = Some (inner, a)" and "inner \<in> set list_nodes"
  shows "toggle_list_cmd lift wrap join mt (list_item_of mt) s = Refused"
proof -
  have "inner \<noteq> mt"
    using assms by (auto simp: node1_def path_of_def split: list.splits)
  have item: "item_type (list_item_of mt)" by (simp add: item_type_def list_item_of_def)
  have no: "\<not> first_child_is (list_item_of mt) kids"
    if "(start, nt, b, kids) \<in> set (path_of (content s) (sel_from s))" for start nt b kids
  proof (cases kids)
    case (Cons n ns)
    have "kids_fit nt kids" "nt \<in> set list_nodes \<longrightarrow> list_item_of nt \<noteq> list_item_of mt"
      using assms(1) that by auto
    then show ?thesis using item Cons
      by (auto simp: kids_fit_def first_child_is_def split: option.splits if_splits)
  qed (simp add: first_child_is_def)
  let ?path = "path_of (content s) (sel_from s)"
  have "\<not> (case ?path ! d of (start, nt, b, kids) \<Rightarrow>
      sel_to s \<le> start + frag_size kids \<and> first_child_is (list_item_of mt) kids)" if "d < length ?path" for d
    using no nth_mem [OF that] by (cases "?path ! d") auto
  then have "block_range (first_child_is (list_item_of mt)) s = None"
    by (auto simp: block_range_def Let_def find_None_iff)
  then show ?thesis
    using assms(2,3) \<open>inner \<noteq> mt\<close> by (simp add: toggle_list_cmd_def lift_list_item_tr_def)
qed

text \<open>A check list with one item, the cursor in its text.\<close>

definition example_checks :: ed_state where
  "example_checks = \<lparr>content = [NodeN Task_list [] [] [NodeN Task_list_item [(''checked'', JBool True)] []
       [NodeN Paragraph [] [] [TextN [Ch CHR ''m''] []]]]], sel = TextSel 4 4, stored_marks = None\<rparr>"

theorem other_list_kind_is_refused_witness:
  "\<forall>lift wrap join. toggle_list_cmd lift wrap join Bullet_list (list_item_of Bullet_list) example_checks = Refused"
proof (intro allI)
  fix lift wrap join
  show "toggle_list_cmd lift wrap join Bullet_list (list_item_of Bullet_list) example_checks = Refused"
    by (rule other_list_kind_is_refused [where inner = Task_list and a = "[]"])
      (simp_all add: example_checks_def path_of_def leaf_type_def kids_fit_def list_nodes_def list_item_of_def
        textblock_def item_type_def node1_def sel_from.simps Let_def)
qed

section \<open>The level that is set is the level that is read\<close>

lemma set_block_hi_0 [simp]: "set_block_type nt a lo 0 c = c"
  by (induction c arbitrary: lo rule: frag_induct) auto

lemma set_block_past: "frag_size c \<le> lo \<Longrightarrow> set_block_type nt a lo hi c = c"
  by (induction c arbitrary: lo hi rule: frag_induct) (auto simp: Let_def)

lemma set_block_append:
  "set_block_type nt a lo hi (xs @ ys) =
     set_block_type nt a lo hi xs @ set_block_type nt a (lo - frag_size xs) (hi - frag_size xs) ys"
  by (induction xs arbitrary: lo hi rule: frag_induct) (auto simp: Let_def)

lemma length_space_newlines: "length (space_newlines s) \<le> length s"
  by (induction s rule: space_newlines.induct) (auto split: list.splits)

lemma ancestors_append:
  "frag_size xs \<le> pos \<Longrightarrow> ancestors base pos (xs @ ys) = ancestors (base + frag_size xs) (pos - frag_size xs) ys"
  by (induction xs arbitrary: base pos rule: frag_induct) (auto simp: Let_def algebra_simps)

lemma node1_block:
  "frag_size pre < p \<Longrightarrow> p < frag_size pre + node_size (NodeN nt a ms c) \<Longrightarrow>
     node1 p (pre @ NodeN nt a ms c # post) = Some (nt, a)"
proof -
  assume "frag_size pre < p" and "p < frag_size pre + node_size (NodeN nt a ms c)"
  then have "0 < p - frag_size pre" "p - frag_size pre < node_size (NodeN nt a ms c)" "frag_size pre \<le> p" by linarith+
  then show ?thesis by (simp add: node1_def ancestors_append Let_def del: frag_size.simps(3))
qed

text \<open>
  The level at the cursor is that of the outermost block, \<open>$cursor.node(1)\<close>: inside of a quote or a list
  it is 0, whatever heading the cursor is in.
\<close>

lemma level_in_quote_is_not_read:
  assumes "content s = pre @ NodeN nt a ms c # post" and "nt \<noteq> Heading" and "sel s = TextSel p p"
    and "frag_size pre < p" and "p < frag_size pre + node_size (NodeN nt a ms c)"
  shows "heading_level_at_cursor s = 0"
proof -
  have "node1 p (content s) = Some (nt, a)" using node1_block [OF assms(4,5)] assms(1) by simp
  then show ?thesis using assms(2,3) by (cases nt) (simp_all add: heading_level_at_cursor_def get_cursor_def)
qed

text \<open>
  C18: At a cursor in a block of text at the top level of the document, whose texts have no line
  breaks in them, the level a heading button sets is the one that is read back (0 for plain text),
  whatever the level: also one that the schema does not render. (Inside of a quote or a list the
  level is not read back, lemma \<open>level_in_quote_is_not_read\<close>.)
\<close>

theorem headline_level_is_read:
  assumes "content s = pre @ NodeN nt a ms c # post" and "textblock nt" and "sel s = TextSel p p"
    and "frag_size pre < p" and "p < frag_size pre + node_size (NodeN nt a ms c)"
    and "list_all inline_node c" and "tokens (map clear_newlines c) = tokens c"
  shows "heading_level_at_cursor (case make_headline_cmd level s of None \<Rightarrow> s | Some s' \<Rightarrow> s') = level"
proof -
  let ?nt = "if level = 0 then Paragraph else Heading" and ?a = "if level = 0 then [] else [(''level'', JNum level)]"
  have lo: "sel_from s = p" "sel_to s = p" using assms(3) by (simp_all add: sel_from.simps sel_to.simps)
  obtain c' ms' where d: "set_block_type ?nt ?a p p (content s) = pre @ NodeN ?nt ?a ms' c' # post"
    and size: "frag_size c' = frag_size c"
  proof (cases "nt = ?nt \<and> a = ?a")
    case True
    with that [of ms c] assms show ?thesis
      by (simp add: set_block_append set_block_past Let_def)
  next
    case False
    have "frag_size (map clear_newlines c) = frag_size c" using assms(7) by (metis length_tokens)
    moreover have "set_block_type ?nt ?a (p - frag_size pre) (p - frag_size pre) (NodeN nt a ms c # post)
        = NodeN ?nt ?a ms (map clear_newlines c) # post"
      using False assms(2,4,5) by (auto simp: Let_def set_block_past)
    ultimately show ?thesis using that [of ms "map clear_newlines c"] assms(1,4)
      by (simp add: set_block_append set_block_past)
  qed
  have nl: "\<not> leaf_type nt" "\<not> leaf_type ?nt" using assms(2) by (auto simp: textblock_def leaf_type_def)
  have n1: "node1 p (pre @ NodeN ?nt ?a ms' c' # post) = Some (?nt, ?a)"
    by (rule node1_block) (use assms(4,5) size nl in auto)
  have "make_headline_cmd level s = set_block_cmd ?nt ?a s" by (simp add: make_headline_cmd_def)
  then have "(case make_headline_cmd level s of None \<Rightarrow> s | Some s' \<Rightarrow> s') = s\<lparr>content := pre @ NodeN ?nt ?a ms' c' # post\<rparr>
      \<or> (case make_headline_cmd level s of None \<Rightarrow> s | Some s' \<Rightarrow> s')
          = s\<lparr>content := pre @ NodeN ?nt ?a ms' c' # post, stored_marks := None\<rparr>"
    using d lo by (auto simp: set_block_cmd_def Let_def)
  then show ?thesis using n1 assms(3) by (auto simp: heading_level_at_cursor_def get_cursor_def level_of_def)
qed

theorem headline_level_is_read_witness:
  "heading_level_at_cursor (case make_headline_cmd 2 (example_ed\<lparr>sel := TextSel 2 2\<rparr>) of
      None \<Rightarrow> example_ed\<lparr>sel := TextSel 2 2\<rparr> | Some s' \<Rightarrow> s') = 2"
  by (rule headline_level_is_read [where pre = "[]" and post = "[]" and p = 2 and nt = Paragraph and a = "[]"
        and ms = "[]" and c = "[TextN [Ch CHR ''a'', Ch CHR ''b''] [Mark (Colour Red) []],
          TextN [Ch CHR '' '', Ch CHR ''c''] []]"])
    (simp_all add: example_ed_def textblock_def leaf_type_def)

section \<open>Emphasis\<close>

lemma remove_added:
  assumes "t \<notin> mark_type ` set ms"
  shows "remove_type t (add_to_set (Mark t a) ms) = ms"
proof -
  have "filter (\<lambda>m. mark_type m \<noteq> t) ms = ms" using assms by (auto intro: filter_True)
  then show ?thesis
    using filter_add_loop [of "\<lambda>ty. ty \<noteq> t" "Mark t a" False ms] by (simp add: remove_type_def add_to_set_def)
qed

lemma token_remove_added:
  "t \<notin> types_of x \<Longrightarrow> with_marks (remove_type t) (with_marks (add_to_set (Mark t a)) x) = x"
  by (cases x) (simp_all add: types_of_def remove_added)

lemma token_remove_none: "t \<notin> types_of x \<Longrightarrow> with_marks (remove_type t) x = x"
  by (cases x) (auto simp: types_of_def remove_type_def intro!: filter_True)

text \<open>
  C20: Making a selection of text that was made forwards (its anchor before its head) bold, italic or
  underlined that has none of it, and pressing the button again, gives back the document as it was:
  every character with its marks.
\<close>

theorem emphasis_toggles_back:
  assumes "well_formed (content s)" and "sel s = TextSel lo hi" and "lo < hi" and "\<not> mark_in_selection s t"
    and "toggle_mark t s = Some s1" and "mark_in_selection s1 t" and "toggle_mark t s1 = Some s2"
  shows "tokens (content s2) = tokens (content s)"
proof -
  have s1: "s1 = s\<lparr>content := add_mark (fst (trimmed_range s)) (snd (trimmed_range s)) (Mark t []) (content s),
      stored_marks := None\<rparr>"
    using assms(2-5) by (auto simp: toggle_mark_def get_cursor_def split: if_splits)
  have ends: "sel_from s1 = sel_from s" "sel_to s1 = sel_to s" "get_cursor s1 = None"
    using assms(2,3) by (simp_all add: s1 sel_from.simps sel_to.simps get_cursor_def)
  have s2: "content s2 = remove_mark (sel_from s) (sel_to s) t (content s1)"
    using assms(6,7) ends by (auto simp: toggle_mark_def split: if_splits)
  have n1: "frag_size (content s1) = frag_size (content s)"
    using length_tokens [of "content s1"] length_tokens [of "content s"] by (simp add: s1 add_mark_def del: length_tokens)
  have n: "frag_size (content s2) = frag_size (content s)"
    using length_tokens [of "content s2"] length_tokens [of "content s1"] n1 by (simp add: s2 remove_mark_def del: length_tokens)
  show ?thesis
  proof (rule nth_equalityI)
    show "length (tokens (content s2)) = length (tokens (content s))" using n by simp
    fix i assume "i < length (tokens (content s2))"
    then have i: "i < frag_size (content s)" "i < frag_size (content s1)" using n n1 by simp_all
    let ?x = "tokens (content s) ! i"
    have un: "in_range (sel_from s, sel_to s) i \<Longrightarrow> t \<notin> types_of ?x"
      using unmarked_selection [OF assms(1,4) i(1)] by (simp add: in_range_def)
    have x1: "tokens (content s1) ! i = (if in_range (trimmed_range s) i then with_marks (add_to_set (Mark t [])) ?x else ?x)"
      using i(1) by (simp add: s1 token_add)
    have "in_range (trimmed_range s) i \<Longrightarrow> in_range (sel_from s, sel_to s) i"
      using in_trimmed [of s i] by (simp add: in_range_def)
    with un x1 show "tokens (content s2) ! i = ?x"
      using i(2) by (auto simp: s2 token_remove token_remove_added token_remove_none)
  qed
qed

theorem emphasis_toggles_back_witness:
  "\<exists>s1 s2. toggle_mark Strong example_ed = Some s1 \<and> toggle_mark Strong s1 = Some s2
     \<and> tokens (content s2) = tokens (content example_ed)"
proof -
  have "case toggle_mark Strong example_ed of None \<Rightarrow> False
      | Some s1 \<Rightarrow> mark_in_selection s1 Strong \<and> toggle_mark Strong s1 \<noteq> None" by code_simp
  then obtain s1 s2 where s: "toggle_mark Strong example_ed = Some s1" "mark_in_selection s1 Strong"
      "toggle_mark Strong s1 = Some s2"
    by (auto split: option.splits)
  have u: "\<not> mark_in_selection example_ed Strong" by code_simp
  have "sel example_ed = TextSel 1 5" by (simp add: example_ed_def)
  from emphasis_toggles_back [OF example_ed_ok(1) this _ u s] s show ?thesis by auto
qed

end
