(* ===== verification/Markdown.thy ===== *)
theory Markdown
  imports Prose_Commands
begin

text \<open>
  The input rules of the text editor (\<open>components.js\<close>): a Markdown prefix that is typed turns its
  paragraph into a heading, a list, a block or a quote; stars and underscores around a text
  make it emphatic; an at sign opens the search for a pill. Each regular expression is a function
  on the text before the cursor; what a rule that wraps the paragraph does to the tree is left to
  the document library, and is an outcome of the rule here.
\<close>

section \<open>The text before the cursor\<close>

function text_between :: "nat \<Rightarrow> nat \<Rightarrow> pm list \<Rightarrow> utext" where
  "text_between lo hi [] = []"
| "text_between lo hi (TextN s ms # ns) =
     (if hi = 0 then [] else drop lo (take hi s) @ text_between (lo - length s) (hi - length s) ns)"
| "text_between lo hi (NodeN nt a ms c # ns) =
     (let size = node_size (NodeN nt a ms c)
      in if hi = 0 then []
         else (if lo < size
               then if leaf_type nt then [Obj] else text_between (lo - 1) (min (frag_size c) (hi - 1)) c
               else [])
           @ text_between (lo - size) (hi - size) ns)"
  by pat_completeness auto
termination by (relation "measure (\<lambda>(lo, hi, c). size_list size c)") auto

definition max_match :: nat where
  "max_match = 500"

definition text_before :: "ed_state \<Rightarrow> nat \<Rightarrow> utext \<Rightarrow> utext" where
  "text_before s from typed =
     (let (offset, kids) = parent_content from (content s)
      in text_between (offset - max_match) offset kids @ typed)"

section \<open>The patterns\<close>

abbreviation chs :: "string \<Rightarrow> utext" where
  "chs \<equiv> map Ch"

text \<open>\<open>/^(#{1,6}) $/\<close>: the number of signs.\<close>

definition heading_match :: "utext \<Rightarrow> nat option" where
  "heading_match t =
     (let n = length (takeWhile (\<lambda>u. u = Ch CHR ''#'') t)
      in if 1 \<le> n \<and> n \<le> 6 \<and> drop n t = chs '' '' then Some n else None)"

text \<open>\<open>/^([\-\*\+]) $/\<close>\<close>

definition bullet_match :: "utext \<Rightarrow> bool" where
  "bullet_match t \<longleftrightarrow> t \<in> {chs ''- '', chs ''* '', chs ''+ ''}"

text \<open>\<open>/^(\d+)([\.\)]) $/\<close>: the digits.\<close>

fun unit_char :: "uchar \<Rightarrow> char option" where
  "unit_char (Ch c) = Some c"
| "unit_char Obj = None"

definition digit_unit :: "uchar \<Rightarrow> bool" where
  "digit_unit u = (case u of Ch c \<Rightarrow> digit_value 10 c \<noteq> None | Obj \<Rightarrow> False)"

definition ordered_match :: "utext \<Rightarrow> string option" where
  "ordered_match t =
     (let ds = takeWhile digit_unit t
      in if ds \<noteq> [] \<and> drop (length ds) t \<in> {chs ''. '', chs '') ''}
         then Some (List.map_filter unit_char ds) else None)"

text \<open>\<open>/^\[([\ x]?)\] $/\<close>: whether the box is checked.\<close>

definition task_match :: "utext \<Rightarrow> bool option" where
  "task_match t =
     (if t = chs ''[x] '' then Some True
      else if t = chs ''[ ] '' \<or> t = chs ''[] '' then Some False else None)"

definition pre_match :: "utext \<Rightarrow> bool" where
  "pre_match t \<longleftrightarrow> t = chs ''```''"

definition quote_match :: "utext \<Rightarrow> bool" where
  "quote_match t \<longleftrightarrow> t = chs ''> ''"

text \<open>
  \<open>/(\*{1,3})([^\*]+)(\*{1,3})$/\<close> and the same with underscores. What is between the two runs
  of the sign has none, so at a place the runs and the text between them are determined; the
  first place where they fit is taken.
\<close>

definition emphasis_at :: "uchar \<Rightarrow> utext \<Rightarrow> (nat \<times> utext \<times> nat) option" where
  "emphasis_at q t =
     (let n = length (takeWhile (\<lambda>u. u = q) t);
          c = takeWhile (\<lambda>u. u \<noteq> q) (drop n t);
          close = drop (n + length c) t
      in if 1 \<le> n \<and> n \<le> 3 \<and> c \<noteq> [] \<and> 1 \<le> length close \<and> length close \<le> 3
            \<and> list_all (\<lambda>u. u = q) close
         then Some (n, c, length close) else None)"

fun emphasis_match :: "uchar \<Rightarrow> utext \<Rightarrow> (nat \<times> nat \<times> utext \<times> nat) option" where
  "emphasis_match q [] = None"
| "emphasis_match q (u # us) =
     (case emphasis_at q (u # us) of
        Some (n, c, m) \<Rightarrow> Some (0, n, c, m)
      | None \<Rightarrow> map_option (\<lambda>(i, r). (Suc i, r)) (emphasis_match q us))"

text \<open>\<open>/\ @$|^@$/\<close>: the length of the match.\<close>

definition search_match :: "utext \<Rightarrow> nat option" where
  "search_match t =
     (if suffix (chs '' @'') t then Some 2 else if t = chs ''@'' then Some 1 else None)"

section \<open>The rules\<close>

datatype rule_outcome =
    NewState ed_state
  | SetBlock node_type attrs nat nat
  | WrapIn node_type attrs nat nat

definition heading_rule :: "ed_state \<Rightarrow> utext \<Rightarrow> nat \<Rightarrow> nat \<Rightarrow> rule_outcome option" where
  "heading_rule s t start to =
     map_option (\<lambda>n. SetBlock Heading [(''level'', JNum (int n))] start to) (heading_match t)"

text \<open>A number of more than three digits is not used.\<close>

definition order_attrs :: "string \<Rightarrow> attrs" where
  "order_attrs ds =
     (case parse_int ds of
        None \<Rightarrow> []
      | Some n \<Rightarrow> if length ds > 3 then [] else [(''order'', JNum n)])"

definition ordered_rule :: "ed_state \<Rightarrow> utext \<Rightarrow> nat \<Rightarrow> nat \<Rightarrow> rule_outcome option" where
  "ordered_rule s t start to =
     map_option (\<lambda>ds. WrapIn Ordered_list (order_attrs ds) start to) (ordered_match t)"

definition bullet_rule :: "ed_state \<Rightarrow> utext \<Rightarrow> nat \<Rightarrow> nat \<Rightarrow> rule_outcome option" where
  "bullet_rule s t start to = (if bullet_match t then Some (WrapIn Bullet_list [] start to) else None)"

definition task_rule :: "ed_state \<Rightarrow> utext \<Rightarrow> nat \<Rightarrow> nat \<Rightarrow> rule_outcome option" where
  "task_rule s t start to =
     map_option (\<lambda>b. WrapIn Task_list_item (if b then [(''checked'', JBool True)] else []) start to) (task_match t)"

definition pre_rule :: "ed_state \<Rightarrow> utext \<Rightarrow> nat \<Rightarrow> nat \<Rightarrow> rule_outcome option" where
  "pre_rule s t start to = (if pre_match t then Some (WrapIn Pre [] start to) else None)"

definition quote_rule :: "ed_state \<Rightarrow> utext \<Rightarrow> nat \<Rightarrow> nat \<Rightarrow> rule_outcome option" where
  "quote_rule s t start to = (if quote_match t then Some (WrapIn Blockquote [] start to) else None)"

text \<open>Nodes are compared by identity: by where they start.\<close>

definition span_multiple_nodes :: "ed_state \<Rightarrow> nat \<Rightarrow> nat \<Rightarrow> bool" where
  "span_multiple_nodes s start to =
     (case node_at 0 to (content s) of
        None \<Rightarrow> False
      | Some (b, n) \<Rightarrow> map_option fst (node_at 0 start (content s)) \<noteq> Some b)"

definition emphasis_marks :: "nat \<Rightarrow> mark list" where
  "emphasis_marks n =
     (if n = 1 then [Mark Em []] else if n = 2 then [Mark Strong []] else [Mark Em [], Mark Strong []])"

definition emphasis_rule :: "uchar \<Rightarrow> ed_state \<Rightarrow> utext \<Rightarrow> nat \<Rightarrow> nat \<Rightarrow> rule_outcome option" where
  "emphasis_rule q s t start to =
     (case emphasis_match q t of
        None \<Rightarrow> None
      | Some (i, n, c, m) \<Rightarrow>
          if span_multiple_nodes s start to \<or> n \<noteq> m then None
          else map_option
            (\<lambda>d. NewState (s\<lparr>content := d, sel := TextSel (start + length c) (start + length c), stored_marks := None\<rparr>))
            (replace_in start to [TextN c (emphasis_marks n)] (content s)))"

text \<open>How long the match of a rule is, the start of its range coming from it.\<close>

definition emphasis_length :: "uchar \<Rightarrow> utext \<Rightarrow> nat" where
  "emphasis_length q t = (case emphasis_match q t of Some (i, r) \<Rightarrow> length t - i | None \<Rightarrow> 0)"

text \<open>
  The marks a text takes that replaces a range: those at the cursor, or those of what the range
  starts with.
\<close>

definition marks_across :: "nat \<Rightarrow> nat \<Rightarrow> pm list \<Rightarrow> mark list" where
  "marks_across lo hi c =
     (case node_after lo c of
        None \<Rightarrow> []
      | Some n \<Rightarrow>
          if inline_node n
          then filter (\<lambda>m. mark_type m \<noteq> Link
                 \<or> (case node_after hi c of None \<Rightarrow> False | Some k \<Rightarrow> m \<in> set (node_marks k))) (node_marks n)
          else [])"

definition inherited_marks :: "ed_state \<Rightarrow> mark list" where
  "inherited_marks s =
     (case stored_marks s of
        Some ms \<Rightarrow> ms
      | None \<Rightarrow> if sel_empty s then marks_at (sel_from s) (content s)
                else marks_across (sel_from s) (sel_to s) (content s))"

text \<open>\<open>tr.insertText(text)\<close>: the selection is replaced.\<close>

definition insert_text :: "utext \<Rightarrow> ed_state \<Rightarrow> ed_state option" where
  "insert_text t s =
     map_option (\<lambda>d. s\<lparr>content := d, sel := TextSel (sel_from s + length t) (sel_from s + length t), stored_marks := None\<rparr>)
       (replace_in (sel_from s) (sel_to s) [TextN t (inherited_marks s)] (content s))"

text \<open>
  The search pill replaces the at sign, which is not in the document yet. The space before the
  sign is there already; the rule inserts one more, which ends up after the pill. The flag of
  this feature is a promise that is not waited for, so it is true for the condition.
\<close>

definition search_pill :: pm where
  "search_pill = NodeN Search_pill [] [] []"

definition search_rule :: "ed_state \<Rightarrow> utext \<Rightarrow> nat \<Rightarrow> nat \<Rightarrow> rule_outcome option" where
  "search_rule s t start to =
     (if search_match t = None then None
      else case (if start < to then insert_text (chs '' '') s else Some s) of
             None \<Rightarrow> None
           | Some s1 \<Rightarrow>
               map_option (\<lambda>d. NewState (s1\<lparr>content := d, sel := NodeSel to, stored_marks := None\<rparr>))
                 (replace_in to to [search_pill] (content s1)))"

fun first_some :: "'a option list \<Rightarrow> 'a option" where
  "first_some [] = None"
| "first_some (Some x # xs) = Some x"
| "first_some (None # xs) = first_some xs"

text \<open>\<open>run\<close>: the first rule that gives a transaction; \<open>typed\<close> is the character, not in the document yet.\<close>

definition run_rules :: "ed_state \<Rightarrow> nat \<Rightarrow> nat \<Rightarrow> utext \<Rightarrow> rule_outcome option" where
  "run_rules s from to typed =
     (let t = text_before s from typed;
          start = (\<lambda>len. from + length typed - len);
          whole = start (length t);
          star = Ch CHR ''*''; underscore = Ch CHR ''_''
      in first_some
           [heading_rule s t whole to, ordered_rule s t whole to, bullet_rule s t whole to,
            emphasis_rule star s t (start (emphasis_length star t)) to,
            emphasis_rule underscore s t (start (emphasis_length underscore t)) to,
            task_rule s t whole to, pre_rule s t whole to, quote_rule s t whole to,
            search_rule s t (start (case search_match t of Some n \<Rightarrow> n | None \<Rightarrow> 0)) to])"

section \<open>The patterns as languages\<close>

lemma heading_match_iff:
  "heading_match t = Some n \<longleftrightarrow> 1 \<le> n \<and> n \<le> 6 \<and> t = replicate n (Ch CHR ''#'') @ chs '' ''"
proof
  assume "heading_match t = Some n"
  then have "1 \<le> n \<and> n \<le> 6" and d: "drop n t = chs '' ''" and n: "n = length (takeWhile (\<lambda>u. u = Ch CHR ''#'') t)"
    by (auto simp: heading_match_def Let_def split: if_splits)
  moreover have "take n t = replicate n (Ch CHR ''#'')"
    unfolding n takeWhile_eq_take [symmetric]
    by (rule replicate_eqI) (auto dest: set_takeWhileD)
  ultimately show "1 \<le> n \<and> n \<le> 6 \<and> t = replicate n (Ch CHR ''#'') @ chs '' ''"
    using append_take_drop_id [of n t] by simp
next
  assume a: "1 \<le> n \<and> n \<le> 6 \<and> t = replicate n (Ch CHR ''#'') @ chs '' ''"
  have "takeWhile (\<lambda>u. u = Ch CHR ''#'') (replicate n (Ch CHR ''#'') @ chs '' '') = replicate n (Ch CHR ''#'')"
    by (induction n) auto
  then have "length (takeWhile (\<lambda>u. u = Ch CHR ''#'') t) = n" using a by simp
  then show "heading_match t = Some n" using a by (simp add: heading_match_def Let_def)
qed

text \<open>A match of an emphasis pattern at a place, as a decomposition of the text.\<close>

definition emphasis_text :: "uchar \<Rightarrow> nat \<Rightarrow> utext \<Rightarrow> nat \<Rightarrow> utext" where
  "emphasis_text q n c m = replicate n q @ c @ replicate m q"

lemma takeWhile_all_replicate: "takeWhile (\<lambda>u. u = q) t = replicate (length (takeWhile (\<lambda>u. u = q) t)) q"
  by (rule replicate_eqI) (auto dest: set_takeWhileD)

lemma emphasis_at_iff:
  "emphasis_at q t = Some (n, c, m) \<longleftrightarrow>
     1 \<le> n \<and> n \<le> 3 \<and> c \<noteq> [] \<and> q \<notin> set c \<and> 1 \<le> m \<and> m \<le> 3 \<and> t = emphasis_text q n c m"
  (is "?l \<longleftrightarrow> ?r")
proof
  assume l: ?l
  let ?w = "takeWhile (\<lambda>u. u = q) t"
  have n: "n = length ?w" and c: "c = takeWhile (\<lambda>u. u \<noteq> q) (drop n t)"
    and b: "1 \<le> n" "n \<le> 3" "c \<noteq> []" "1 \<le> m" "m \<le> 3"
    and all: "list_all (\<lambda>u. u = q) (drop (n + length c) t)" and m: "m = length (drop (n + length c) t)"
    using l by (auto simp: emphasis_at_def Let_def split: if_splits)
  have w: "take n t = replicate n q"
    unfolding n takeWhile_eq_take [symmetric] by (rule takeWhile_all_replicate)
  have "take (length c) (drop n t) = c" unfolding c by (metis takeWhile_eq_take)
  then have "drop n t = c @ drop (n + length c) t"
    by (metis append_take_drop_id drop_drop add.commute)
  moreover have "drop (n + length c) t = replicate m q"
    unfolding m by (rule replicate_eqI) (use all in \<open>auto simp: list_all_iff\<close>)
  ultimately have "t = emphasis_text q n c m"
    unfolding emphasis_text_def using w append_take_drop_id [of n t] by simp
  moreover have "q \<notin> set c" unfolding c by (auto dest: set_takeWhileD)
  ultimately show ?r using b by blast
next
  assume r: ?r
  then obtain u us where c: "c = u # us" "u \<noteq> q" by (cases c) auto
  have tw: "takeWhile (\<lambda>u. u = q) t = replicate n q"
  proof -
    have "takeWhile (\<lambda>u. u = q) (replicate n q @ u # us @ replicate m q) = replicate n q"
      using c(2) by (induction n) auto
    then show ?thesis using r c(1) by (simp add: emphasis_text_def)
  qed
  obtain k where k: "m = Suc k" using r by (cases m) auto
  have "takeWhile (\<lambda>u. u \<noteq> q) (c @ replicate m q) = c"
    using r by (subst takeWhile_append2) (auto simp: k)
  then show ?l using r tw by (simp add: emphasis_at_def emphasis_text_def Let_def list_all_iff)
qed

lemma emphasis_match_Some:
  "emphasis_match q t = Some (i, n, c, m) \<Longrightarrow> i \<le> length t \<and> emphasis_at q (drop i t) = Some (n, c, m)
     \<and> (\<forall>j < i. emphasis_at q (drop j t) = None)"
proof (induction t arbitrary: i)
  case Nil
  then show ?case by simp
next
  case (Cons u us)
  show ?case
  proof (cases "emphasis_at q (u # us)")
    case None
    then obtain k where k: "i = Suc k" "emphasis_match q us = Some (k, n, c, m)" using Cons.prems by auto
    from Cons.IH [OF k(2)] show ?thesis using None by (auto simp: k(1) less_Suc_eq_0_disj)
  next
    case (Some r)
    then show ?thesis using Cons.prems by (cases r) auto
  qed
qed

section \<open>Properties\<close>

text \<open>Which patterns a text matches, in the order of the rules.\<close>

definition rule_hits :: "utext \<Rightarrow> bool list" where
  "rule_hits t =
     [heading_match t \<noteq> None, ordered_match t \<noteq> None, bullet_match t,
      emphasis_match (Ch CHR ''*'') t \<noteq> None, emphasis_match (Ch CHR ''_'') t \<noteq> None,
      task_match t \<noteq> None, pre_match t, quote_match t, search_match t \<noteq> None]"

lemma emphasis_match_last:
  assumes "emphasis_match q t = Some r"
  shows "t \<noteq> [] \<and> last t = q"
proof -
  obtain i n c m where r: "r = (i, n, c, m)" by (cases r)
  have d: "drop i t = emphasis_text q n c m" and m: "1 \<le> m"
    using emphasis_match_Some [of q t i n c m] assms emphasis_at_iff by (auto simp: r)
  obtain k where "m = Suc k" using m by (cases m) auto
  then have "drop i t \<noteq> []" "last (drop i t) = q" using d by (simp_all add: emphasis_text_def)
  then show ?thesis by (metis drop_Nil last_drop length_drop length_greater_0_conv zero_less_diff)
qed

lemma ordered_match_ends:
  assumes "ordered_match t = Some ds"
  shows "t \<noteq> [] \<and> digit_unit (hd t) \<and> last t = Ch CHR '' ''"
proof -
  let ?d = "takeWhile digit_unit t"
  have d: "?d \<noteq> []" and r: "drop (length ?d) t = chs ''. '' \<or> drop (length ?d) t = chs '') ''"
    using assms by (auto simp: ordered_match_def Let_def split: if_splits)
  obtain u us where t: "t = u # us" using d by (cases t) auto
  have "drop (length ?d) t \<noteq> []" by (rule disjE [OF r]; erule ssubst; simp)
  then have "length ?d < length t" using leI drop_eq_Nil by blast
  then have l: "last t = last (drop (length ?d) t)" by (simp add: last_drop)
  have "last t = Ch CHR '' ''" unfolding l by (rule disjE [OF r]; erule ssubst; simp)
  moreover have "digit_unit u" using d unfolding t by (cases "digit_unit u") simp_all
  ultimately show ?thesis by (simp add: t)
qed

lemma heading_match_ends: "heading_match t = Some n \<Longrightarrow> t \<noteq> [] \<and> hd t = Ch CHR ''#'' \<and> last t = Ch CHR '' ''"
  by (cases n) (auto simp: heading_match_iff)

lemma one_hit:
  fixes n :: nat
  assumes "a \<Longrightarrow> n = 1" "b \<Longrightarrow> n = 2" "c \<Longrightarrow> n = 3" "d \<Longrightarrow> n = 4" "e \<Longrightarrow> n = 5"
  shows "length (filter id [a, b, c, d, e]) \<le> 1"
  using assms by (cases a; cases b; cases c; cases d; cases e; simp)

lemma search_match_ends: "search_match t = Some n \<Longrightarrow> t \<noteq> [] \<and> last t = Ch CHR ''@''"
  by (auto simp: search_match_def suffix_def split: if_splits)

lemma hit_ends:
  assumes "t \<noteq> []"
  shows
    "heading_match t \<noteq> None \<Longrightarrow> hd t = Ch CHR ''#'' \<and> last t = Ch CHR '' ''"
    "ordered_match t \<noteq> None \<Longrightarrow> digit_unit (hd t) \<and> last t = Ch CHR '' ''"
    "bullet_match t \<Longrightarrow> hd t \<in> set (chs ''-*+'') \<and> last t = Ch CHR '' ''"
    "emphasis_match (Ch CHR ''*'') t \<noteq> None \<Longrightarrow> last t = Ch CHR ''*''"
    "emphasis_match (Ch CHR ''_'') t \<noteq> None \<Longrightarrow> last t = Ch CHR ''_''"
    "task_match t \<noteq> None \<Longrightarrow> hd t = Ch CHR ''['' \<and> last t = Ch CHR '' ''"
    "pre_match t \<Longrightarrow> last t = Ch CHR ''`''"
    "quote_match t \<Longrightarrow> hd t = Ch CHR ''>'' \<and> last t = Ch CHR '' ''"
    "search_match t \<noteq> None \<Longrightarrow> last t = Ch CHR ''@''"
  using heading_match_ends ordered_match_ends emphasis_match_last search_match_ends assms
  by (fastforce simp: bullet_match_def task_match_def pre_match_def quote_match_def split: if_splits)+

text \<open>A text that ends in a space is for a rule of the paragraph, and its first character says which.\<close>

lemma one_hit_space:
  assumes "t \<noteq> []" and l: "last t = Ch CHR '' ''"
  shows "length (filter id (rule_hits t)) \<le> 1"
proof -
  note ends = hit_ends [OF assms(1)]
  let ?h = "hd t"
  have digits: "\<not> digit_unit (Ch CHR ''#'')" "\<not> digit_unit (Ch CHR ''-'')" "\<not> digit_unit (Ch CHR ''*'')"
    "\<not> digit_unit (Ch CHR ''+'')" "\<not> digit_unit (Ch CHR ''['')" "\<not> digit_unit (Ch CHR ''>'')"
    by (simp_all add: digit_unit_def digit_value_def Let_def)
  have hits: "filter id (rule_hits t) = filter id [heading_match t \<noteq> None, ordered_match t \<noteq> None, bullet_match t,
      task_match t \<noteq> None, quote_match t]"
    using ends(4,5,7,9) l by (auto simp: rule_hits_def)
  let ?kind = "if ?h = Ch CHR ''#'' then 1 else if digit_unit ?h then 2
    else if ?h \<in> set (chs ''-*+'') then 3 else if ?h = Ch CHR ''['' then 4 else (5::nat)"
  show ?thesis
    unfolding hits
  proof (rule one_hit [where n = ?kind])
    show "heading_match t \<noteq> None \<Longrightarrow> ?kind = 1" by (drule ends(1)) simp
    show "ordered_match t \<noteq> None \<Longrightarrow> ?kind = 2" by (drule ends(2)) (use digits in auto)
    show "bullet_match t \<Longrightarrow> ?kind = 3" by (drule ends(3)) (use digits in auto)
    show "task_match t \<noteq> None \<Longrightarrow> ?kind = 4" by (drule ends(6)) (use digits in auto)
    show "quote_match t \<Longrightarrow> ?kind = 5" by (drule ends(8)) (use digits in auto)
  qed
qed

text \<open>Any other text is told by its last character.\<close>

lemma one_hit_other:
  assumes "t \<noteq> []" and l: "last t \<noteq> Ch CHR '' ''"
  shows "length (filter id (rule_hits t)) \<le> 1"
proof -
  note ends = hit_ends [OF assms(1)]
  let ?l = "last t"
  have "heading_match t = None" "ordered_match t = None" "\<not> bullet_match t" "task_match t = None" "\<not> quote_match t"
    using ends(1,2,3,6,8) l by blast+
  then have hits: "filter id (rule_hits t) = filter id [emphasis_match (Ch CHR ''*'') t \<noteq> None,
      emphasis_match (Ch CHR ''_'') t \<noteq> None, pre_match t, search_match t \<noteq> None, False]"
    by (simp add: rule_hits_def del: not_None_eq)
  let ?kind = "if ?l = Ch CHR ''*'' then 1 else if ?l = Ch CHR ''_'' then 2
    else if ?l = Ch CHR ''`'' then 3 else (4::nat)"
  show ?thesis
    unfolding hits
  proof (rule one_hit [where n = ?kind])
    show "emphasis_match (Ch CHR ''*'') t \<noteq> None \<Longrightarrow> ?kind = 1" by (drule ends(4)) simp
    show "emphasis_match (Ch CHR ''_'') t \<noteq> None \<Longrightarrow> ?kind = 2" by (drule ends(5)) simp
    show "pre_match t \<Longrightarrow> ?kind = 3" by (drule ends(7)) simp
    show "search_match t \<noteq> None \<Longrightarrow> ?kind = 4" by (drule ends(9)) simp
  qed simp
qed

text \<open>
  The patterns of the input rules exclude each other: whatever is before the cursor and
  whatever is typed, at most one rule applies, so the order of the rules does not matter.
\<close>

theorem rules_exclude_each_other:
  shows "length (filter id (rule_hits t)) \<le> 1"
proof (cases "t = []")
  case True
  then show ?thesis
    by (simp add: rule_hits_def heading_match_def ordered_match_def bullet_match_def task_match_def
        pre_match_def quote_match_def search_match_def)
next
  case False
  then show ?thesis
    by (cases "last t = Ch CHR '' ''") (rule one_hit_space, assumption+, rule one_hit_other, assumption+)
qed

text \<open>
  An emphasis rule finds a text between two runs of one to three signs, the runs equally
  long, and the document it makes has that text instead, with emphasis for one sign, strong for
  two and both for three; the rest is unchanged.
\<close>

theorem emphasis_rule_effect:
  assumes "emphasis_rule q s t start to = Some out" and "start \<le> to"
  shows "\<exists>i n c s'. out = NewState s' \<and> drop i t = emphasis_text q n c n \<and> 1 \<le> n \<and> n \<le> 3 \<and> c \<noteq> [] \<and> q \<notin> set c
    \<and> tokens (content s') = take start (tokens (content s)) @ map (\<lambda>u. Chr u (emphasis_marks n)) c
        @ drop to (tokens (content s))"
proof -
  obtain i n c d where m: "emphasis_match q t = Some (i, n, c, n)"
    and d: "replace_in start to [TextN c (emphasis_marks n)] (content s) = Some d"
    and out: "out = NewState (s\<lparr>content := d, sel := TextSel (start + length c) (start + length c), stored_marks := None\<rparr>)"
    using assms(1) by (auto simp: emphasis_rule_def split: option.splits if_splits)
  from emphasis_match_Some [OF m] have "emphasis_at q (drop i t) = Some (n, c, n)" by blast
  with tokens_replace_in [OF d assms(2)] show ?thesis
    unfolding emphasis_at_iff out by (intro exI [of _ i] exI [of _ n] exI [of _ c]) simp
qed

fun leaf_token :: "token \<Rightarrow> bool" where
  "leaf_token (Leaf nt a ms) = True"
| "leaf_token _ = False"

text \<open>
  C19: The pills between the two signs are lost: the rule puts back the text it has read, where
  a pill is only a replacement character. (The check that is meant to prevent it looks at the
  node after the cursor, and finds none at the end of a paragraph.)
\<close>

theorem emphasis_loses_pills:
  assumes "emphasis_rule q s t start to = Some (NewState s')" and "start \<le> to"
  shows "filter leaf_token (tokens (content s'))
    = filter leaf_token (take start (tokens (content s))) @ filter leaf_token (drop to (tokens (content s)))"
proof -
  obtain i n c where "tokens (content s') = take start (tokens (content s))
      @ map (\<lambda>u. Chr u (emphasis_marks n)) c @ drop to (tokens (content s))"
    using emphasis_rule_effect [OF assms] by blast
  then show ?thesis by (simp add: filter_map comp_def)
qed

section \<open>Witnesses\<close>

text \<open>A star, a pill and a letter, with the cursor behind them, where a second star is typed.\<close>

definition example_stars :: ed_state where
  "example_stars = \<lparr>content = [NodeN Paragraph [] []
      [TextN [Ch CHR ''*''] [], NodeN Pill [(''id'', JStr ''7'')] [] [], TextN [Ch CHR ''a''] []]],
     sel = TextSel 4 4, stored_marks = None\<rparr>"

lemma example_stars_text: "text_before example_stars 4 (chs ''*'') = [Ch CHR ''*'', Obj, Ch CHR ''a'', Ch CHR ''*'']"
  by code_simp

lemma example_stars_rule:
  "\<exists>s'. emphasis_rule (Ch CHR ''*'') example_stars (text_before example_stars 4 (chs ''*'')) 1 4 = Some (NewState s')"
proof -
  have "case emphasis_rule (Ch CHR ''*'') example_stars (text_before example_stars 4 (chs ''*'')) 1 4 of
      Some (NewState s') \<Rightarrow> True | _ \<Rightarrow> False"
    by code_simp
  then show ?thesis by (auto split: option.splits rule_outcome.splits)
qed

theorem emphasis_rule_effect_witness:
  "\<exists>out i n c s'. emphasis_rule (Ch CHR ''*'') example_stars (text_before example_stars 4 (chs ''*'')) 1 4 = Some out
     \<and> out = NewState s' \<and> 1 \<le> n \<and> drop i (text_before example_stars 4 (chs ''*'')) = emphasis_text (Ch CHR ''*'') n c n
     \<and> length (tokens (content s')) = 2 + length c"
proof -
  obtain s1 where e: "emphasis_rule (Ch CHR ''*'') example_stars (text_before example_stars 4 (chs ''*'')) 1 4
      = Some (NewState s1)" using example_stars_rule by blast
  have l: "length (tokens (content example_stars)) = 5" by code_simp
  obtain i n c where r: "drop i (text_before example_stars 4 (chs ''*'')) = emphasis_text (Ch CHR ''*'') n c n" "1 \<le> n"
      "tokens (content s1) = take 1 (tokens (content example_stars)) @ map (\<lambda>u. Chr u (emphasis_marks n)) c
        @ drop 4 (tokens (content example_stars))"
    using emphasis_rule_effect [OF e] by auto
  have "length (tokens (content s1)) = 2 + length c" unfolding r(3) using l by (simp del: length_tokens)
  with e r show ?thesis by blast
qed

theorem emphasis_loses_pills_witness:
  "\<exists>s'. emphasis_rule (Ch CHR ''*'') example_stars (text_before example_stars 4 (chs ''*'')) 1 4 = Some (NewState s')
     \<and> filter leaf_token (tokens (content example_stars)) = [Leaf Pill [(''id'', JStr ''7'')] []]
     \<and> filter leaf_token (tokens (content s')) = []"
proof -
  obtain s1 where e: "emphasis_rule (Ch CHR ''*'') example_stars (text_before example_stars 4 (chs ''*'')) 1 4
      = Some (NewState s1)" using example_stars_rule by blast
  have t: "tokens (content example_stars) = [Open Paragraph [], Chr (Ch CHR ''*'') [], Leaf Pill [(''id'', JStr ''7'')] [],
      Chr (Ch CHR ''a'') [], Close]" by code_simp
  from emphasis_loses_pills [OF e] have "filter leaf_token (tokens (content s1)) = []" by (simp add: t)
  with e show ?thesis by (simp add: t)
qed

end
