(* ===== verification/Pills.thy ===== *)
theory Pills
  imports Markdown Notebook_Events Api Template "HOL-Library.Multiset"
begin

text \<open>
  Pills, the entities inside the text of the editor (\<open>components.js\<close>): dragging them, the search
  pill that is replaced by one, the refreshing of their data, and the views of the nodes that have
  one of their own. The text of an entity (\<open>JSON.stringify\<close>) is represented by the entity.
\<close>

section \<open>Dragging\<close>

definition has_pill_data :: "file_transfer option \<Rightarrow> bool" where
  "has_pill_data ev \<longleftrightarrow> has_pivot_data (map_option as_transfer ev) \<or> has_cell_data ev"

definition accept_pill_drop :: "file_transfer option \<Rightarrow> bool \<times> effect list" where
  "accept_pill_drop ev = accept_drop ev (Some has_pill_data)"

datatype pill_error = DragData pivot_error | NeitherPivotNorCell | BadPillType

definition pill_attrs :: "string \<Rightarrow> json \<Rightarrow> attrs" where
  "pill_attrs ty j = [(''data-entity-json'', j), (''data-type'', JStr ty)]"

definition entity_or_null :: "json option \<Rightarrow> json" where
  "entity_or_null j = (case j of Some x \<Rightarrow> x | None \<Rightarrow> JNull)"

definition get_pill_attrs :: "file_transfer option \<Rightarrow> pill_error + attrs" where
  "get_pill_attrs ev =
     (if has_pivot_data (map_option as_transfer ev)
      then (case get_pivot_drag_data (map_option as_transfer ev) of
              Inl e \<Rightarrow> Inl (DragData e)
            | Inr j \<Rightarrow> Inr (pill_attrs ''pivot'' (entity_or_null j)))
      else if has_cell_data ev
      then (case get_cell_drag_data ev of
              Inl e \<Rightarrow> Inl (DragData e)
            | Inr j \<Rightarrow> Inr (pill_attrs ''cell'' (entity_or_null j)))
      else Inl NeitherPivotNorCell)"

text \<open>
  What a change of the document gives: \<open>Refitted\<close> stands for a change whose content does not fit
  where it is put, so that the document library looks for another place.
\<close>

datatype 'a edit = Edited 'a | Refitted | RangeError

fun bind_edit :: "'a edit \<Rightarrow> ('a \<Rightarrow> 'b edit) \<Rightarrow> 'b edit" where
  "bind_edit (Edited x) f = f x"
| "bind_edit Refitted f = Refitted"
| "bind_edit RangeError f = RangeError"

text \<open>A position outside of the document is an error when it is resolved.\<close>

definition replace_at :: "int \<Rightarrow> int \<Rightarrow> pm list \<Rightarrow> pm list \<Rightarrow> pm list edit" where
  "replace_at lo hi ins c =
     (if lo < 0 \<or> int (frag_size c) < hi then RangeError
      else case replace_in (nat lo) (nat hi) ins c of None \<Rightarrow> Refitted | Some d \<Rightarrow> Edited d)"

definition pill_node :: "attrs \<Rightarrow> pm" where
  "pill_node a = NodeN Pill a [] []"

definition move_pill_cmd :: "int \<Rightarrow> int \<Rightarrow> file_transfer option \<Rightarrow> pm list \<Rightarrow> pill_error + pm list edit" where
  "move_pill_cmd drag drp ev c =
     (case get_pill_attrs ev of
        Inl e \<Rightarrow> Inl e
      | Inr a \<Rightarrow> Inr (bind_edit (replace_at drag (drag + 1) [] c) (replace_at drp drp [pill_node a])))"

definition insert_pill_cmd :: "int \<Rightarrow> file_transfer option \<Rightarrow> pm list \<Rightarrow> pill_error + pm list edit" where
  "insert_pill_cmd pos ev c =
     (case get_pill_attrs ev of
        Inl e \<Rightarrow> Inl e
      | Inr a \<Rightarrow> Inr (replace_at pos pos [pill_node a] c))"

text \<open>
  The controller. \<open>posAtCoords\<close> is an argument: a position, and that of the innermost node there,
  which is -1 outside of every block.
\<close>

record drag_state =
  dragging_within :: "int option"
  is_dragging :: bool

definition initial_drag :: drag_state where
  "initial_drag = \<lparr>dragging_within = None, is_dragging = False\<rparr>"

definition enter_drag :: "drag_state \<Rightarrow> drag_state" where
  "enter_drag d = d\<lparr>is_dragging := True\<rparr>"

definition reset_drag :: "drag_state \<Rightarrow> drag_state" where
  "reset_drag d = d\<lparr>dragging_within := None, is_dragging := False\<rparr>"

record coords_pos =
  coord_pos :: int
  coord_inside :: int

definition pill_drag_start :: "file_transfer option \<Rightarrow> coords_pos option \<Rightarrow> drag_state \<Rightarrow> drag_state \<times> bool" where
  "pill_drag_start ev p d =
     (if \<not> has_pill_data ev then (d, False)
      else case p of
             None \<Rightarrow> (d, False)
           | Some q \<Rightarrow> (d\<lparr>dragging_within := Some (coord_inside q)\<rparr>, True))"

text \<open>What a drop does to the document: \<open>None\<close> when the handler leaves it alone.\<close>

definition drop_pos :: "coords_pos \<Rightarrow> int" where
  "drop_pos q = (if coord_inside q < 0 then coord_pos q - 1 else coord_pos q)"

definition pill_drop :: "file_transfer option \<Rightarrow> coords_pos option \<Rightarrow> drag_state \<Rightarrow> pm list
    \<Rightarrow> drag_state \<times> (pill_error + pm list edit) option \<times> effect list" where
  "pill_drop ev p d c =
     (let (ok, effs) = accept_pill_drop ev
      in (reset_drag d,
          if \<not> ok then (None, effs)
          else case p of
                 None \<Rightarrow> (None, effs @ [ConsoleWarn ''no valid position for drop event''])
               | Some q \<Rightarrow>
                   (Some (case dragging_within d of
                      Some drag \<Rightarrow> move_pill_cmd drag (drop_pos q) ev c
                    | None \<Rightarrow> insert_pill_cmd (drop_pos q) ev c), effs)))"

lemma replace_at_tokens:
  "replace_at lo hi ins c = Edited d \<Longrightarrow> lo \<le> hi \<Longrightarrow> 0 \<le> lo \<and> hi \<le> int (frag_size c)
     \<and> tokens d = take (nat lo) (tokens c) @ tokens ins @ drop (nat hi) (tokens c)"
  using tokens_replace_in [of "nat lo" "nat hi" ins c d]
  by (auto simp: replace_at_def split: if_splits option.splits)

lemma bind_edit_Edited: "bind_edit e f = Edited y \<longleftrightarrow> (\<exists>x. e = Edited x \<and> f x = Edited y)"
  by (cases e) auto

lemma tokens_pill [simp]: "tokens [pill_node a] = [Leaf Pill a []]"
  by (simp add: pill_node_def leaf_type_def)

lemma move_pill_two_steps:
  assumes "move_pill_cmd (int drag) (int drp) ev c = Inr (Edited c')"
  shows "\<exists>a. get_pill_attrs ev = Inr a \<and> drag < frag_size c \<and> drp < frag_size c
    \<and> tokens c' = take drp (take drag (tokens c) @ drop (Suc drag) (tokens c)) @ [Leaf Pill a []]
        @ drop drp (take drag (tokens c) @ drop (Suc drag) (tokens c))"
proof -
  obtain a d where a: "get_pill_attrs ev = Inr a"
    and d: "replace_at (int drag) (int drag + 1) [] c = Edited d"
    and c': "replace_at (int drp) (int drp) [pill_node a] d = Edited c'"
    using assms by (auto simp: move_pill_cmd_def bind_edit_Edited split: sum.splits)
  have s: "drag < frag_size c" "tokens d = take drag (tokens c) @ drop (Suc drag) (tokens c)"
    using replace_at_tokens [OF d] by (simp_all add: nat_add_distrib)
  have "frag_size d < frag_size c" using s length_tokens [of d] by simp
  then show ?thesis using replace_at_tokens [OF c'] a s by auto
qed

lemma take_drop_at: "n < length xs \<Longrightarrow> take n xs @ xs ! n # drop (Suc n) xs = xs"
  by (simp add: Cons_nth_drop_Suc)

lemma insert_after_removal:
  assumes "drag < length T"
  shows "take drp (take drag T @ drop (Suc drag) T) @ P @ drop drp (take drag T @ drop (Suc drag) T)
    = (if drp \<le> drag then take drp T @ P @ drop drp (take drag T) @ drop (Suc drag) T
       else take drag T @ drop (Suc drag) (take (Suc drp) T) @ P @ drop (Suc drp) T)"
  using assms by (auto simp: min_def take_drop)

text \<open>
  Where a dragged pill lands. Dropped to the left of where it was, it is put at the position
  under the pointer; dropped to the right, it is put one place further, behind what was at that
  position, since the position is not corrected for the pill that has been taken out.
\<close>

theorem dropped_pill_place:
  assumes "move_pill_cmd (int drag) (int drp) ev c = Inr (Edited c')"
  shows "\<exists>a. get_pill_attrs ev = Inr a \<and> tokens c' =
    (if drp \<le> drag
     then take drp (tokens c) @ [Leaf Pill a []] @ drop drp (take drag (tokens c)) @ drop (Suc drag) (tokens c)
     else take drag (tokens c) @ drop (Suc drag) (take (Suc drp) (tokens c)) @ [Leaf Pill a []]
       @ drop (Suc drp) (tokens c))"
proof -
  obtain a where a: "get_pill_attrs ev = Inr a" "drag < length (tokens c)"
    and t: "tokens c' = take drp (take drag (tokens c) @ drop (Suc drag) (tokens c)) @ [Leaf Pill a []]
        @ drop drp (take drag (tokens c) @ drop (Suc drag) (tokens c))"
    using move_pill_two_steps [OF assms] by auto
  show ?thesis unfolding t insert_after_removal [OF a(2)] using a(1) by blast
qed

text \<open>
  Moving a pill neither loses nor duplicates anything: if the pill that is carried is the one
  where the drag began, the document is the same up to order.
\<close>

lemma moved_pill_is_kept:
  assumes "move_pill_cmd (int drag) (int drp) ev c = Inr (Edited c')"
    and "get_pill_attrs ev = Inr a" and "tokens c ! drag = Leaf Pill a []"
  shows "mset (tokens c') = mset (tokens c)"
proof -
  have d: "drag < length (tokens c)" and t: "tokens c' = take drp (take drag (tokens c) @ drop (Suc drag) (tokens c))
      @ [Leaf Pill a []] @ drop drp (take drag (tokens c) @ drop (Suc drag) (tokens c))"
    using move_pill_two_steps [OF assms(1)] assms(2) by auto
  let ?r = "take drag (tokens c) @ drop (Suc drag) (tokens c)"
  have "mset (tokens c') = add_mset (tokens c ! drag) (mset (take drp ?r @ drop drp ?r))"
    unfolding t assms(3) by simp
  also have "\<dots> = add_mset (tokens c ! drag) (mset ?r)" by (simp only: append_take_drop_id)
  also have "\<dots> = mset (take drag (tokens c) @ tokens c ! drag # drop (Suc drag) (tokens c))" by simp
  also have "\<dots> = mset (tokens c)" by (simp only: take_drop_at [OF d])
  finally show ?thesis .
qed

text \<open>A drop or the end of a drag forgets the drag; a drag begun outside of the blocks fails when it is dropped.\<close>

lemma drop_resets: "fst (pill_drop ev p d c) = reset_drag d"
  by (simp add: pill_drop_def Let_def split: prod.split)

lemma drag_from_outside_fails:
  assumes "get_pill_attrs ev = Inr a"
  shows "move_pill_cmd (-1) drp ev c = Inr RangeError"
  using assms by (simp add: move_pill_cmd_def replace_at_def)

text \<open>A paragraph \<open>a\<close>, pill, \<open>b\<close>, \<open>c\<close>, and the transfer of the pill.\<close>

definition example_pivot :: json where
  "example_pivot = JObj [(''pivotid'', JStr ''1''), (''value'', JStr ''x'')]"

definition example_drag :: "file_transfer option" where
  "example_drag = Some \<lparr>dt_data = [(pivot_data_format, Parses example_pivot)], effect_allowed = ''copy'',
     drag_image = None, dt_items = None, dt_files = []\<rparr>"

definition example_pilled :: "pm list" where
  "example_pilled = [NodeN Paragraph [] [] [TextN [Ch CHR ''a''] [], pill_node (pill_attrs ''pivot'' example_pivot),
     TextN [Ch CHR ''b'', Ch CHR ''c''] []]]"

lemma example_drag_attrs: "get_pill_attrs example_drag = Inr (pill_attrs ''pivot'' example_pivot)"
  by code_simp

lemma example_pilled_tokens:
  "tokens example_pilled = [Open Paragraph [], Chr (Ch CHR ''a'') [], Leaf Pill (pill_attrs ''pivot'' example_pivot) [],
     Chr (Ch CHR ''b'') [], Chr (Ch CHR ''c'') [], Close]"
  by (simp add: example_pilled_def leaf_type_def pill_node_def)

lemma example_move: "\<exists>c'. move_pill_cmd (int 2) (int 3) example_drag example_pilled = Inr (Edited c')"
proof -
  have "case move_pill_cmd 2 3 example_drag example_pilled of Inr (Edited c') \<Rightarrow> True | _ \<Rightarrow> False"
    by code_simp
  then show ?thesis by (auto split: sum.splits edit.splits)
qed

theorem dropped_pill_place_witness:
  "\<exists>c' a. move_pill_cmd (int 2) (int 3) example_drag example_pilled = Inr (Edited c')
     \<and> tokens c' = [Open Paragraph [], Chr (Ch CHR ''a'') [], Chr (Ch CHR ''b'') [], Leaf Pill a [],
         Chr (Ch CHR ''c'') [], Close]"
proof -
  obtain c' where c': "move_pill_cmd (int 2) (int 3) example_drag example_pilled = Inr (Edited c')"
    using example_move by blast
  from dropped_pill_place [OF c'] c' show ?thesis by (auto simp: example_pilled_tokens eval_nat_numeral)
qed

section \<open>The search pill\<close>

text \<open>The transaction is dropped when there is no search pill at the position.\<close>

definition remove_search_pill_tr :: "nat \<Rightarrow> ed_state \<Rightarrow> ed_state option" where
  "remove_search_pill_tr pos s =
     (case node_at 0 pos (content s) of
        Some (b, NodeN Search_pill a ms c) \<Rightarrow>
          map_option (\<lambda>d. s\<lparr>content := d, sel := TextSel pos pos, stored_marks := None\<rparr>)
            (replace_in pos (pos + 1) [] (content s))
      | _ \<Rightarrow> None)"

definition create_pill_from_value :: "string \<Rightarrow> json \<Rightarrow> pill_error + pm" where
  "create_pill_from_value ty v =
     (if ty = ''users'' then Inr (pill_node (pill_attrs ''user'' v))
      else if ty = ''playbooks'' then Inr (pill_node (pill_attrs ''playbook'' v))
      else Inl BadPillType)"

text \<open>
  The handlers get the position of the node, if it is still in the document, and give the state
  that is dispatched, if any.
\<close>

definition remove_node_and_leave_at :: "nat option \<Rightarrow> ed_state \<Rightarrow> ed_state option" where
  "remove_node_and_leave_at pos s =
     (case pos of
        None \<Rightarrow> None
      | Some p \<Rightarrow> Option.bind (remove_search_pill_tr p s) (insert_text (chs ''@'')))"

definition remove_node :: "bool \<Rightarrow> nat option \<Rightarrow> ed_state \<Rightarrow> ed_state option" where
  "remove_node focus_stays pos s =
     (if focus_stays then None
      else case pos of None \<Rightarrow> None | Some p \<Rightarrow> remove_search_pill_tr p s)"

definition focus_if :: "'a option \<Rightarrow> effect list" where
  "focus_if r = (if r = None then [] else [DomCall ''focus'' []])"

definition search_keydown :: "string \<Rightarrow> string \<Rightarrow> nat option \<Rightarrow> ed_state \<Rightarrow> ed_state option \<times> effect list" where
  "search_keydown key input pos s =
     (if key = ''Backspace'' then
        (if input = [] then (let r = remove_node_and_leave_at pos s in (r, focus_if r @ [PreventDefault]))
         else (None, []))
      else if key = ''Enter'' then
        (let r = remove_node False pos s in (r, focus_if r @ [PreventDefault, PreventDefault]))
      else (None, []))"

definition select_item :: "string \<Rightarrow> json \<Rightarrow> nat option \<Rightarrow> ed_state \<Rightarrow> pill_error + ed_state option \<times> effect list" where
  "select_item ty v pos s =
     (case pos of
        None \<Rightarrow> Inr (None, [])
      | Some p \<Rightarrow>
          (case create_pill_from_value ty v of
             Inl e \<Rightarrow> Inl e
           | Inr n \<Rightarrow>
               (let r = map_option (\<lambda>d. s\<lparr>content := d, sel := TextSel (p + 1) (p + 1), stored_marks := None\<rparr>)
                      (replace_in p (p + 1) [n] (content s))
                in Inr (r, focus_if r))))"

text \<open>\<open>encodeURIComponent\<close>, on the ASCII range.\<close>

definition uri_char :: "char \<Rightarrow> string" where
  "uri_char c =
     (let n = of_char c :: nat
      in if 48 \<le> n \<and> n \<le> 57 \<or> 65 \<le> n \<and> n \<le> 90 \<or> 97 \<le> n \<and> n \<le> 122
            \<or> c \<in> set ''-_.!~*'' \<or> n = 39 \<or> c \<in> set ''()''
         then [c] else (let h = (\<lambda>d. if d < 10 then char_of (48 + d) else char_of (55 + d)) in [CHR ''%'', h (n div 16), h (n mod 16)]))"

definition encode_uri_component :: "string \<Rightarrow> string" where
  "encode_uri_component s = concat (map uri_char s)"

text \<open>
  The results: not set, or the users and the playbooks; the playbooks are whatever the answer has
  for \<open>results\<close>, which may be nothing. \<open>search\<close> up to its \<open>await\<close>, and after it.
\<close>

type_synonym pill_results = "(json \<times> json option) option"

definition pill_search_input :: "string \<Rightarrow> pill_results \<times> effect list" where
  "pill_search_input query =
     (None, StopPropagation #
       (if query = [] then []
        else [Fetch (post_json ''/search/query'' (JObj [(''query'', JStr query)])),
              Fetch (http_get (''/search/users?q='' @ encode_uri_component query))]))"

text \<open>A request that failed counts as one without results; a body that is not JSON is an error.\<close>

definition pill_search_answered :: "response option \<Rightarrow> response option \<Rightarrow> pill_results \<Rightarrow> pill_results \<times> effect list" where
  "pill_search_answered playbooks users res =
     (let ok = (\<lambda>r. case r of Some x \<Rightarrow> resp_ok x | None \<Rightarrow> False);
          bad = (\<lambda>r. ok r \<and> payload (the r) = None)
      in if bad playbooks \<or> bad users then (res, [ConsoleError ''invalid json''])
         else (Some (if ok users \<and> truthy (the (payload (the users))) then the (payload (the users)) else JArr [],
                     if ok playbooks then jget (the (payload (the playbooks))) ''results'' else Some (JArr [])), []))"

text \<open>
  What is mapped over: a list, or nothing when the value has no length; null, undefined and a text
  that is not empty give an exception.
\<close>

fun list_of :: "json option \<Rightarrow> json list option" where
  "list_of None = None"
| "list_of (Some JNull) = None"
| "list_of (Some (JArr xs)) = Some xs"
| "list_of (Some (JStr t)) = (if t = [] then Some [] else None)"
| "list_of (Some j) = Some []"

text \<open>What is shown: nothing, the entries, or an exception (\<open>None\<close>) for a list that is not there.\<close>

definition render_pill_results :: "pill_results \<Rightarrow> (string \<times> json) list option" where
  "render_pill_results res =
     (case res of
        None \<Rightarrow> Some []
      | Some (users, playbooks) \<Rightarrow>
          (case (list_of (Some users), list_of playbooks) of
             (Some us, Some ps) \<Rightarrow> Some (map (Pair ''users'') us @ map (Pair ''playbooks'') ps)
           | _ \<Rightarrow> None))"

lemma insert_text_tokens:
  assumes "insert_text t s = Some s'" and "sel s = TextSel p p"
  shows "p \<le> frag_size (content s) \<and> sel s' = TextSel (p + length t) (p + length t)
    \<and> tokens (content s') = take p (tokens (content s)) @ map (\<lambda>u. Chr u (inherited_marks s)) t
        @ drop p (tokens (content s))"
  using assms by (auto simp: insert_text_def sel_from.simps sel_to.simps dest: tokens_replace_in replace_in_bounds)

lemma remove_search_pill_tokens:
  assumes "remove_search_pill_tr p s = Some s'"
  shows "sel s' = TextSel p p \<and> tokens (content s') = take p (tokens (content s)) @ drop (Suc p) (tokens (content s))"
  using assms by (auto simp: remove_search_pill_tr_def split: option.splits prod.splits pm.splits node_type.splits
      dest: tokens_replace_in)

text \<open>
  C26: A search that is given up with Backspace leaves the at sign where it was typed, and what
  was there before; if the sign followed a space, one more space is left behind it.
\<close>

theorem abandoned_search_leaves_sign:
  assumes "sel s = TextSel p p" and "search_rule s t start p = Some (NewState s1)"
    and "remove_node_and_leave_at (Some p) s1 = Some s2"
  shows "\<exists>ms ms'. tokens (content s2) = take p (tokens (content s)) @ [Chr (Ch CHR ''@'') ms]
      @ (if start < p then [Chr (Ch CHR '' '') ms'] else []) @ drop p (tokens (content s))
    \<and> sel s2 = TextSel (p + 1) (p + 1)"
proof -
  obtain s0 d where s0: "(if start < p then insert_text (chs '' '') s else Some s) = Some s0"
    and d: "replace_in p p [search_pill] (content s0) = Some d"
    and s1: "s1 = s0\<lparr>content := d, sel := NodeSel p, stored_marks := None\<rparr>"
    using assms(2) by (auto simp: search_rule_def split: option.splits if_splits)
  obtain r where r: "remove_search_pill_tr p s1 = Some r" and ins: "insert_text (chs ''@'') r = Some s2"
    using assms(3) by (auto simp: remove_node_and_leave_at_def split: bind_splits)
  let ?T = "tokens (content s)" and ?ms' = "inherited_marks s"
  have t0: "tokens (content s0) = take p ?T @ (if start < p then [Chr (Ch CHR '' '') ?ms'] else []) @ drop p ?T"
    using insert_text_tokens [OF _ assms(1), of "chs '' ''" s0] s0 by (auto split: if_splits)
  have p: "p \<le> length ?T" 
    using replace_in_bounds [OF d] insert_text_tokens [OF _ assms(1), of "chs '' ''" s0] s0 by (auto split: if_splits)
  have "tokens (content s1) = take p (tokens (content s0)) @ tokens [search_pill] @ drop p (tokens (content s0))"
    using tokens_replace_in [OF d] by (simp add: s1)
  then have r': "tokens (content r) = take p ?T @ (if start < p then [Chr (Ch CHR '' '') ?ms'] else []) @ drop p ?T"
    using remove_search_pill_tokens [OF r] p by (simp add: t0 search_pill_def leaf_type_def)
  have s2: "sel s2 = TextSel (p + 1) (p + 1)" "tokens (content s2) = take p (tokens (content r))
      @ [Chr (Ch CHR ''@'') (inherited_marks r)] @ drop p (tokens (content r))"
    using insert_text_tokens [OF ins] remove_search_pill_tokens [OF r] by simp_all
  show ?thesis
    unfolding s2 r' using p
    by (intro exI [of _ "inherited_marks r"] exI [of _ ?ms']) simp
qed

text \<open>A letter and a space, with the cursor behind them, where an at sign is typed.\<close>

definition example_space :: ed_state where
  "example_space = \<lparr>content = [NodeN Paragraph [] [] [TextN (chs ''a '') []]], sel = TextSel 3 3, stored_marks = None\<rparr>"

theorem abandoned_search_leaves_sign_witness:
  "\<exists>s1 s2. search_rule example_space (chs ''a @'') 2 3 = Some (NewState s1)
     \<and> remove_node_and_leave_at (Some 3) s1 = Some s2 \<and> length (tokens (content s2)) = 6"
proof -
  have "case search_rule example_space (chs ''a @'') 2 3 of
      Some (NewState s1) \<Rightarrow> remove_node_and_leave_at (Some 3) s1 \<noteq> None | _ \<Rightarrow> False"
    by code_simp
  then obtain s1 s2 where s: "search_rule example_space (chs ''a @'') 2 3 = Some (NewState s1)"
      "remove_node_and_leave_at (Some 3) s1 = Some s2"
    by (auto split: option.splits rule_outcome.splits)
  have l: "length (tokens (content example_space)) = 4" by code_simp
  have "sel example_space = TextSel 3 3" by (simp add: example_space_def)
  from abandoned_search_leaves_sign [OF this s] l have "length (tokens (content s2)) = 6"
    by (auto simp del: length_tokens)
  with s show ?thesis by blast
qed

text \<open>A selected item takes the place of the search pill, with the cursor behind it.\<close>

lemma selected_item_replaces_search:
  assumes "select_item ty v (Some p) s = Inr (Some s', effs)"
  shows "\<exists>a. a \<in> {pill_attrs ''user'' v, pill_attrs ''playbook'' v} \<and> sel s' = TextSel (p + 1) (p + 1)
    \<and> tokens (content s') = take p (tokens (content s)) @ [Leaf Pill a []] @ drop (Suc p) (tokens (content s))"
  using assms tokens_replace_in [of p "p + 1" _ "content s"]
  by (auto simp: select_item_def create_pill_from_value_def Let_def split: if_splits sum.splits)

text \<open>
  An answer is shown whatever has been typed since; one without results for the playbooks makes
  the next rendering fail.
\<close>

lemma late_results_are_shown:
  "fst (pill_search_answered p u (fst (pill_search_input q))) = fst (pill_search_answered p u (fst (pill_search_input [])))"
  by (simp add: pill_search_input_def)

lemma missing_results_break_render:
  assumes "resp_ok r" "payload r = Some j" "jget j ''results'' = None"
  shows "render_pill_results (fst (pill_search_answered (Some r) None None)) = None"
  using assms by (simp add: pill_search_answered_def render_pill_results_def)

section \<open>Refreshing\<close>

text \<open>What \<open>fetchData\<close> gives: \<open>false\<close>, \<open>null\<close>, or the data.\<close>

datatype refresh = NothingToDo | NotFound | Fresh json

definition pivot_refresh :: "json \<Rightarrow> string \<Rightarrow> response \<Rightarrow> refresh \<times> effect list" where
  "pivot_refresh pivot pid r =
     (if jget pivot ''pivotid'' = Some (JStr empty_ulid) then (NothingToDo, [])
      else let (p, effs) = fetch_pivot_response pid r
           in (case p of Some j \<Rightarrow> if truthy j then Fresh j else NotFound | None \<Rightarrow> NotFound,
               Fetch (fetch_pivot_request pid) # effs))"

definition playbook_refresh :: "json \<Rightarrow> response \<Rightarrow> refresh \<times> effect list" where
  "playbook_refresh pid r =
     (let req = Fetch (post_json ''/api/notebook?action=read'' (JObj [(''ID'', pid)]))
      in if status r \<noteq> 200
         then (NotFound, [req, Notify (case pid of JStr s \<Rightarrow> s | _ \<Rightarrow> []) ''the notebook could not be retrieved, retrying usually helps'' True])
         else case payload r of
                None \<Rightarrow> (NotFound, [req, ConsoleError ''Could not read response''])
              | Some JNull \<Rightarrow> (NotFound, [req, ConsoleError ''Could not read response''])
              | Some j \<Rightarrow>
                  (Fresh (JObj ((''Title'', if otruthy (jget j ''Title'') then the (jget j ''Title'') else JStr [])
                     # (case jget j ''ID'' of Some i \<Rightarrow> [(''ID'', i)] | None \<Rightarrow> []))), [req]))"

definition update_pill_entity :: "nat option \<Rightarrow> json \<Rightarrow> pm list \<Rightarrow> pm list option \<times> effect list" where
  "update_pill_entity pos d c =
     (case pos of
        None \<Rightarrow> (None, [ConsoleWarn ''no position found for pivot''])
      | Some p \<Rightarrow> (set_node_attribute p ''data-entity-json'' d c, []))"

text \<open>\<open>hostConnected\<close> after its \<open>await\<close>: whether the refresh failed, and the document it dispatches.\<close>

definition host_connected :: "refresh \<Rightarrow> nat option \<Rightarrow> pm list \<Rightarrow> bool \<times> pm list option \<times> effect list" where
  "host_connected r pos c =
     (case r of
        NothingToDo \<Rightarrow> (False, None, [])
      | NotFound \<Rightarrow> (True, None, [])
      | Fresh d \<Rightarrow> (False, update_pill_entity pos d c))"

text \<open>\<open>setNodeAttribute\<close> on the sequence of positions.\<close>

fun set_attr_token :: "string \<Rightarrow> json \<Rightarrow> token \<Rightarrow> token" where
  "set_attr_token k v (Open nt a) = Open nt (jset k v a)"
| "set_attr_token k v (Leaf nt a ms) = Leaf nt (jset k v a) ms"
| "set_attr_token k v t = t"

lemma set_node_attribute_tokens:
  "set_node_attribute pos k v c = Some c' \<Longrightarrow>
     pos < frag_size c \<and> tokens c' = (tokens c)[pos := set_attr_token k v (tokens c ! pos)]"
proof (induction c arbitrary: pos c' rule: frag_induct)
  case Nil
  then show ?case by simp
next
  case (Text s ms ns)
  then obtain d where d: "length s \<le> pos" "set_node_attribute (pos - length s) k v ns = Some d" "c' = TextN s ms # d"
    by (auto split: if_splits)
  from Text.IH [OF d(2)] d(1,3) show ?case by (auto simp: list_update_append nth_append)
next
  case (Node nt a ms c ns)
  let ?size = "node_size (NodeN nt a ms c)"
  consider "pos = 0" | "0 < pos" "pos < ?size" | "0 < pos" "?size \<le> pos" by linarith
  then show ?case
  proof cases
    case 1
    with Node.prems show ?thesis by auto
  next
    case 2
    then have nl: "\<not> leaf_type nt" and b: "pos - 1 < frag_size c + 1" by (auto split: if_splits)
    obtain d where d: "set_node_attribute (pos - 1) k v c = Some d" "c' = NodeN nt a ms d # ns"
      using Node.prems 2 by (auto simp: Let_def)
    from Node.IH(1) [OF d(1)] 2 nl d(2) show ?thesis
      by (cases pos) (auto simp: list_update_append nth_append)
  next
    case 3
    obtain d where d: "set_node_attribute (pos - ?size) k v ns = Some d" "c' = NodeN nt a ms c # d"
      using Node.prems 3 by (auto simp: Let_def)
    from Node.IH(2) [OF d(1)] 3 d(2) show ?thesis
      by (auto simp: list_update_append nth_append nth_Cons' split: if_splits nat.splits)
  qed
qed

text \<open>
  Refreshing a pill changes nothing but the data of that pill: every other position of the
  document stays as it is, and so do the pill's other attributes.
\<close>

theorem refresh_changes_one_pill:
  assumes "host_connected (Fresh d) (Some p) c = (failed, Some c', effs)" and "tokens c ! p = Leaf Pill (pill_attrs ty v) ms"
  shows "\<not> failed \<and> tokens c' = (tokens c)[p := Leaf Pill (pill_attrs ty d) ms]"
  using assms set_node_attribute_tokens [of p "''data-entity-json''" d c c']
  by (auto simp: host_connected_def update_pill_entity_def pill_attrs_def)

theorem refresh_changes_one_pill_witness:
  "\<exists>c'. host_connected (Fresh JNull) (Some 2) example_pilled = (False, Some c', [])
     \<and> tokens c' = [Open Paragraph [], Chr (Ch CHR ''a'') [], Leaf Pill (pill_attrs ''pivot'' JNull) [],
         Chr (Ch CHR ''b'') [], Chr (Ch CHR ''c'') [], Close]"
proof -
  have "set_node_attribute 2 ''data-entity-json'' JNull example_pilled \<noteq> None" by code_simp
  then obtain c' where c': "host_connected (Fresh JNull) (Some 2) example_pilled = (False, Some c', [])"
    by (auto simp: host_connected_def update_pill_entity_def)
  have "tokens example_pilled ! 2 = Leaf Pill (pill_attrs ''pivot'' example_pivot) []"
    by (simp add: example_pilled_tokens)
  from refresh_changes_one_pill [OF c' this] c' show ?thesis by (simp add: example_pilled_tokens eval_nat_numeral)
qed

text \<open>
  \<open>NodeViewDesc.update\<close> keeps the element of a node with the same attributes. A pill whose data
  have changed gets a new element, which is connected, and fetches the data again: the attributes
  after the answers that arrive, and how many transactions that makes.
\<close>

definition view_survives :: "attrs \<Rightarrow> attrs \<Rightarrow> bool" where
  "view_survives a b \<longleftrightarrow> a = b"

fun refreshes :: "attrs \<Rightarrow> json list \<Rightarrow> attrs \<times> nat" where
  "refreshes a [] = (a, 0)"
| "refreshes a (d # ds) =
     (let b = jset ''data-entity-json'' d a
      in if view_survives a b then (b, 1) else let (r, n) = refreshes b ds in (r, Suc n))"

text \<open>
  With a server that always gives the same data the refreshing of a pill ends: after one
  transaction when the data were fresh already, after two otherwise.
\<close>

theorem refreshing_settles:
  shows "refreshes (pill_attrs ty v) (replicate (Suc (Suc n)) d) = (pill_attrs ty d, if v = d then 1 else 2)"
  by (auto simp: pill_attrs_def view_survives_def)

text \<open>With data that differ every time it does not: each answer is a transaction, and asks again.\<close>

lemma refreshing_goes_on:
  "distinct_adj (v # ds) \<Longrightarrow> snd (refreshes (pill_attrs ty v) ds) = length ds"
proof (induction ds arbitrary: v)
  case (Cons d ds)
  have "pill_attrs ty d \<noteq> pill_attrs ty v" using Cons.prems by (auto simp: pill_attrs_def)
  moreover have "jset ''data-entity-json'' d (pill_attrs ty v) = pill_attrs ty d" by (simp add: pill_attrs_def)
  ultimately show ?case
    using Cons.IH [of d] Cons.prems by (simp add: view_survives_def Let_def case_prod_beta)
qed simp

section \<open>The box of a task\<close>

text \<open>
  \<open>TaskListItemView\<close>: the state of its node, the state the click handler has in its closure, and
  the box. The document library calls \<open>update\<close> when the node has changed; when that gives false
  the view is made anew.
\<close>

record task_view =
  node_checked :: bool
  closure_checked :: bool
  box_checked :: bool

definition new_task_view :: "bool \<Rightarrow> task_view" where
  "new_task_view b = \<lparr>node_checked = b, closure_checked = b, box_checked = b\<rparr>"

definition update_input :: "bool \<Rightarrow> bool \<Rightarrow> bool \<times> bool" where
  "update_input node box =
     (if node \<and> \<not> box then (True, True) else if \<not> node \<and> box then (False, True) else (box, False))"

definition view_update :: "bool \<Rightarrow> bool \<Rightarrow> task_view \<Rightarrow> task_view \<times> bool" where
  "view_update checked edited v =
     (if checked = node_checked v \<and> \<not> edited then (v, True)
      else let (box, kept) = update_input checked (box_checked v)
           in if kept then (v\<lparr>node_checked := checked, box_checked := box\<rparr>, True)
              else (new_task_view checked, False))"

text \<open>
  A click: the browser flips the box before the handler runs, and, since the handler prevents the
  default, puts it back after. What else changes the node: an undo, or another client (\<open>Change\<close>),
  and typing in the item (\<open>Typing\<close>).
\<close>

datatype task_event = Click | Change bool | Typing

definition task_click :: "task_view \<Rightarrow> task_view" where
  "task_click v =
     (let (w, kept) = view_update (\<not> closure_checked v) False (v\<lparr>box_checked := \<not> box_checked v\<rparr>)
      in if kept then w\<lparr>box_checked := box_checked v\<rparr> else w)"

fun task_step :: "task_event \<Rightarrow> task_view \<Rightarrow> task_view" where
  "task_step Click v = task_click v"
| "task_step (Change b) v = fst (view_update b False v)"
| "task_step Typing v = fst (view_update (node_checked v) True v)"

text \<open>
  The box shows the state of its task at every moment, whatever is clicked, typed or changed.
\<close>

theorem box_shows_task:
  shows "box_checked (fold task_step es (new_task_view b)) = node_checked (fold task_step es (new_task_view b))"
proof -
  have "box_checked (task_step e v) = node_checked (task_step e v)" if "box_checked v = node_checked v" for e v
    using that by (cases e) (auto simp: task_click_def view_update_def update_input_def new_task_view_def Let_def)
  then have "box_checked v = node_checked v \<Longrightarrow> box_checked (fold task_step es v) = node_checked (fold task_step es v)" for v
    by (induction es arbitrary: v) auto
  then show ?thesis by (simp add: new_task_view_def)
qed

text \<open>Clicking a fresh view toggles the task, and leaves a fresh view.\<close>

lemma click_toggles: "task_click (new_task_view b) = new_task_view (\<not> b)"
  by (simp add: task_click_def view_update_def update_input_def new_task_view_def)

lemma clicks_toggle: "fold task_step (replicate n Click) (new_task_view b) = new_task_view (if even n then b else \<not> b)"
  by (induction n arbitrary: b) (simp_all add: click_toggles)

text \<open>
  After the state of a task has been changed from outside, its box is dead: the view is kept,
  its handler still has the old state, and however often it is clicked the task stays as it is,
  until something is typed in it.
\<close>

theorem changed_task_ignores_clicks:
  shows "node_checked (fold task_step (replicate n Click) (task_step (Change (\<not> b)) (new_task_view b))) = (\<not> b)
    \<and> node_checked (fold task_step [Typing, Click] (fold task_step (replicate n Click) (task_step (Change (\<not> b)) (new_task_view b)))) = b"
proof -
  let ?v = "task_step (Change (\<not> b)) (new_task_view b)"
  have v: "?v = \<lparr>node_checked = \<not> b, closure_checked = b, box_checked = \<not> b\<rparr>"
    by (simp add: view_update_def update_input_def new_task_view_def)
  have "task_click ?v = ?v"
    unfolding v by (simp add: task_click_def view_update_def)
  then have clicks: "fold task_step (replicate n Click) ?v = ?v" by (induction n) auto
  show ?thesis
    unfolding clicks unfolding v by (simp add: task_click_def view_update_def update_input_def new_task_view_def)
qed

section \<open>The views of the nodes\<close>

datatype pill_element = PivotPill json | CellPill json | UserPill json | PlaybookPill json

definition pill_view :: "attrs \<Rightarrow> pill_error + pill_element" where
  "pill_view a =
     (let j = entity_or_null (map_of a ''data-entity-json'');
          ty = map_of a ''data-type''
      in if ty = Some (JStr ''pivot'') then Inr (PivotPill j)
         else if ty = Some (JStr ''cell'') then Inr (CellPill j)
         else if ty = Some (JStr ''user'') then Inr (UserPill j)
         else if ty = Some (JStr ''playbook'') then Inr (PlaybookPill j)
         else Inl BadPillType)"

datatype node_view = TaskView task_view | SearchView | PillView pill_element | DefaultView

definition node_view_of :: "node_type \<Rightarrow> attrs \<Rightarrow> pill_error + node_view" where
  "node_view_of nt a =
     (if nt = Task_list_item then Inr (TaskView (new_task_view (otruthy (map_of a ''checked''))))
      else if nt = Search_pill then Inr SearchView
      else if nt = Pill then (case pill_view a of Inl e \<Rightarrow> Inl e | Inr p \<Rightarrow> Inr (PillView p))
      else Inr DefaultView)"

text \<open>Every pill the editor makes can be shown.\<close>

lemma made_pills_are_shown:
  "get_pill_attrs ev = Inr a \<Longrightarrow> \<exists>p. pill_view a = Inr p"
  "create_pill_from_value ty v = Inr (pill_node a) \<Longrightarrow> \<exists>p. pill_view a = Inr p"
  by (auto simp: get_pill_attrs_def create_pill_from_value_def pill_node_def pill_view_def pill_attrs_def Let_def
      split: if_splits sum.splits)

section \<open>The elements of the pills\<close>

text \<open>Reading a field of null fails; the text of a field that is not there is empty.\<close>

definition field_text :: "json \<Rightarrow> string \<Rightarrow> string" where
  "field_text j k = (case jget j k of Some (JStr s) \<Rightarrow> s | Some (JNum n) \<Rightarrow> show_int n | _ \<Rightarrow> [])"

datatype pill_action = DragPivot json | DragCell json | OpenCell json

definition render_pivot_pill :: "json \<Rightarrow> bool \<Rightarrow> pill_action ui list" where
  "render_pivot_pill pivot failed =
     [when_ui failed (Elem ''span'' [(''title'', ''We couldn't find this item in the database, we display its latest known value.'')] [] []),
      Elem ''wt-pivot-pill'' [] [(''dragstart'', DragPivot pivot)] []]"

definition open_cell_detail :: "json \<Rightarrow> json" where
  "open_cell_detail cell = JObj (map (\<lambda>(k, f). (k, entity_or_null (jget cell f))) [(''title'', ''Title''), (''dataSource'', ''DataSource'')])"

definition render_cell_pill :: "json \<Rightarrow> pill_action ui" where
  "render_cell_pill cell =
     Elem ''span'' [(''draggable'', ''true'')] [(''dragstart'', DragCell cell), (''dblclick'', OpenCell (open_cell_detail cell))]
       [plain ''svg'' [], TextNode (field_text cell ''Title'')]"

definition render_user_pill :: "json \<Rightarrow> pill_action ui" where
  "render_user_pill user = plain ''span'' [plain ''svg'' [], TextNode (field_text user ''Name'')]"

definition render_playbook_pill :: "json \<Rightarrow> bool \<Rightarrow> pill_action ui list" where
  "render_playbook_pill playbook failed =
     [when_ui failed (Elem ''span'' [(''title'', ''We couldn't find this item in the database, we display its latest known value.'')] [] []),
      plain ''span'' [plain ''svg'' [],
        Elem ''a'' [(''href'', ''/notebook/'' @ field_text playbook ''ID'')] []
          [TextNode (str_or (field_text playbook ''Title'') (field_text playbook ''ID''))]]]"

end
