(* ===== verification/Clipboard.thy ===== *)
theory Clipboard
  imports Pills
begin

text \<open>
  Copying and pasting in the text editor (\<open>components.js\<close>): the nodes and marks of the schema as
  elements (\<open>toDOM\<close>), and the rules that read elements back (\<open>parseDOM\<close>), in the order of the
  schema, the first that matches being taken. The attributes of an element are texts; the text of
  an entity is represented by the entity, as in the nodes. How the parser puts the nodes it has
  read into a document is left to the document library.
\<close>

section \<open>Attributes\<close>

datatype attr_default = Required | Default json

definition common_attributes :: "(string \<times> attr_default) list" where
  "common_attributes = [(''style'', Default JNull), (''class'', Default JNull), (''id'', Default JNull)]"

fun attr_spec :: "node_type \<Rightarrow> (string \<times> attr_default) list" where
  "attr_spec Heading = [(''level'', Default (JNum 1))]"
| "attr_spec Image = [(''src'', Required), (''alt'', Default JNull), (''title'', Default JNull)]"
| "attr_spec Task_list = common_attributes"
| "attr_spec Task_list_item = common_attributes @ [(''checked'', Default (JBool False))]"
| "attr_spec Ordered_list = common_attributes @ [(''type'', Default JNull), (''order'', Default (JNum 1))]"
| "attr_spec Bullet_list = common_attributes"
| "attr_spec List_item = common_attributes"
| "attr_spec Pill = [(''data-entity-json'', Required), (''data-type'', Required)]"
| "attr_spec _ = []"

definition link_spec :: "(string \<times> attr_default) list" where
  "link_spec = [(''href'', Required), (''title'', Default JNull), (''contentEditable'', Default (JBool False))]"

text \<open>An attribute that is not given takes its default; one without a default is an error.\<close>

fun compute_attrs :: "(string \<times> attr_default) list \<Rightarrow> (string \<Rightarrow> json option) \<Rightarrow> attrs option" where
  "compute_attrs [] given = Some []"
| "compute_attrs ((k, d) # ds) given =
     (case given k of
        Some v \<Rightarrow> map_option ((#) (k, v)) (compute_attrs ds given)
      | None \<Rightarrow>
          (case d of
             Required \<Rightarrow> None
           | Default v \<Rightarrow> map_option ((#) (k, v)) (compute_attrs ds given)))"

definition omit :: "attrs \<Rightarrow> string \<Rightarrow> attrs" where
  "omit a exclude = filter (\<lambda>(k, v). k \<noteq> [] \<and> v \<noteq> JNull \<and> k \<noteq> exclude) a"

definition has_attrs :: "attrs \<Rightarrow> string \<Rightarrow> bool" where
  "has_attrs a exclude = list_ex (\<lambda>(k, v). k \<noteq> [] \<and> v \<noteq> JNull \<and> k \<noteq> exclude) a"

section \<open>Elements\<close>

record html =
  tag_name :: string
  html_attrs :: attrs

fun attr_value :: "json \<Rightarrow> json" where
  "attr_value (JNum n) = JStr (show_int n)"
| "attr_value (JBool b) = JStr (if b then ''true'' else ''false'')"
| "attr_value j = j"

text \<open>\<open>renderSpec\<close>: an attribute that is null is not set. The text of an entity is never null.\<close>

definition html_of :: "string \<Rightarrow> attrs \<Rightarrow> html" where
  "html_of tag a = \<lparr>tag_name = tag,
     html_attrs = map (\<lambda>(k, v). (k, attr_value v)) (filter (\<lambda>(k, v). v \<noteq> JNull \<or> k = ''data-entity-json'') a)\<rparr>"

definition attr_or_null :: "attrs \<Rightarrow> string \<Rightarrow> json" where
  "attr_or_null a k = (case map_of a k of Some v \<Rightarrow> v | None \<Rightarrow> JNull)"

definition get_attribute :: "html \<Rightarrow> string \<Rightarrow> json" where
  "get_attribute h k = attr_or_null (html_attrs h) k"

text \<open>The classes of an element are separated by ASCII white space (tab, line feed, form feed, return, space).\<close>

definition class_space :: "char \<Rightarrow> bool" where
  "class_space c \<longleftrightarrow> of_char c \<in> {9, 10, 12, 13, 32 :: nat}"

definition class_words :: "string \<Rightarrow> string list" where
  "class_words s = filter (\<lambda>w. w \<noteq> []) (split_on (CHR '' '') (map (\<lambda>c. if class_space c then CHR '' '' else c) s))"

definition class_list :: "html \<Rightarrow> string list" where
  "class_list h = (case get_attribute h ''class'' of JStr s \<Rightarrow> class_words s | _ \<Rightarrow> [])"

section \<open>Nodes\<close>

text \<open>
  The level of a heading is a number. The document itself is not copied as an element, and a
  search pill has no \<open>toDOM\<close>: rendering it is an error (\<open>None\<close>).
\<close>

definition heading_tag :: "attrs \<Rightarrow> string option" where
  "heading_tag a =
     (case map_of a ''level'' of
        Some (JNum n) \<Rightarrow> Some (if n < 1 \<or> 6 < n then ''p'' else ''h'' @ show_int n)
      | _ \<Rightarrow> None)"

definition list_html :: "string \<Rightarrow> attrs \<Rightarrow> html" where
  "list_html tag a = (if has_attrs a [] then html_of tag (omit a []) else html_of tag [])"

fun to_dom :: "node_type \<Rightarrow> attrs \<Rightarrow> html option" where
  "to_dom Doc a = None"
| "to_dom Paragraph a = Some (html_of ''p'' [])"
| "to_dom Pre a = Some (html_of ''pre'' [(''class'', JStr ''px-1 bg-zinc-200 dark:bg-zinc-700'')])"
| "to_dom Blockquote a = Some (html_of ''blockquote'' [(''class'', JStr ''pl-2 border-l-2 border-zinc-200'')])"
| "to_dom Heading a = map_option (\<lambda>t. html_of t []) (heading_tag a)"
| "to_dom Image a = Some (html_of ''img''
     (map (\<lambda>k. (k, attr_or_null a k)) [''src'', ''alt'', ''title'']))"
| "to_dom Hard_break a = Some (html_of ''br'' [])"
| "to_dom Task_list a = Some (html_of ''ul'' [(''class'', JStr ''tasklist'')])"
| "to_dom Task_list_item a = Some (html_of ''li'' [(''class'', JStr ''tasklist_item'')])"
| "to_dom Ordered_list a =
     Some (if attr_or_null a ''order'' = JNum 1
           then (if has_attrs a ''order'' then html_of ''ol'' (omit a ''order'') else html_of ''ol'' [])
           else html_of ''ol'' (omit a ''order'' @ [(''start'', attr_or_null a ''order'')]))"
| "to_dom Bullet_list a = Some (list_html ''ul'' a)"
| "to_dom List_item a = Some (list_html ''li'' a)"
| "to_dom Pill a = Some (html_of ''wt-clipboard-datapill''
     (map (\<lambda>k. (k, attr_or_null a k)) [''data-type'', ''data-entity-json'']))"
| "to_dom Search_pill a = None"

definition build :: "node_type \<Rightarrow> (string \<Rightarrow> json option) \<Rightarrow> (node_type \<times> attrs) option" where
  "build nt given = map_option (Pair nt) (compute_attrs (attr_spec nt) given)"

text \<open>\<open>parseInt(start || "1", 10)\<close>\<close>

definition list_start :: "html \<Rightarrow> json" where
  "list_start h =
     (case get_attribute h ''start'' of
        JStr s \<Rightarrow> (case parse_int (if s = [] then ''1'' else s) of Some n \<Rightarrow> JNum n | None \<Rightarrow> JNull)
      | _ \<Rightarrow> JNum 1)"

definition from_dom :: "html \<Rightarrow> (node_type \<times> attrs) option" where
  "from_dom h =
     (let t = tag_name h; given = map_of (html_attrs h); none = (\<lambda>k. None)
      in if t = ''p'' then build Paragraph none
         else if t = ''pre'' then build Pre none
         else if t = ''blockquote'' then build Blockquote none
         else if t = ''h1'' then build Heading [''level'' \<mapsto> JNum 1]
         else if t = ''h2'' then build Heading [''level'' \<mapsto> JNum 2]
         else if t = ''h3'' then build Heading [''level'' \<mapsto> JNum 3]
         else if t = ''img'' \<and> given ''src'' \<noteq> None
         then build Image (map_of (map (\<lambda>k. (k, get_attribute h k)) [''src'', ''title'', ''alt'']))
         else if t = ''br'' then build Hard_break none
         else if t = ''ul'' then (if ''tasklist'' \<in> set (class_list h) then build Task_list given else build Bullet_list given)
         else if t = ''li'' then (if ''tasklist-item'' \<in> set (class_list h) then build Task_list_item given else build List_item given)
         else if t = ''ol'' then build Ordered_list (given(''order'' \<mapsto> list_start h))
         else if t = ''wt-clipboard-datapill''
         then build Pill (map_of (map (\<lambda>k. (k, get_attribute h k)) [''data-entity-json'', ''data-type'']))
         else None)"

section \<open>Marks\<close>

fun color_class :: "colour \<Rightarrow> string" where
  "color_class Yellow = ''text-qualitative-yellow''"
| "color_class Red = ''text-qualitative-red''"
| "color_class Green = ''text-qualitative-green''"

fun mark_to_dom :: "mark \<Rightarrow> html" where
  "mark_to_dom (Mark Link a) = html_of ''a'' [(''contenteditable'', attr_or_null a ''contentEditable''),
     (''href'', attr_or_null a ''href''), (''title'', attr_or_null a ''title'')]"
| "mark_to_dom (Mark Em a) = html_of ''em'' []"
| "mark_to_dom (Mark Strong a) = html_of ''strong'' []"
| "mark_to_dom (Mark Underline a) = html_of ''u'' []"
| "mark_to_dom (Mark (Colour c) a) = html_of ''span'' [(''class'', JStr (color_class c))]"

definition match_color_attrs :: "colour \<Rightarrow> html \<Rightarrow> bool" where
  "match_color_attrs c h \<longleftrightarrow> color_class c \<in> set (class_list h)"

text \<open>The weight of a \<open>b\<close> element, from its style, is an argument.\<close>

definition mark_from_dom :: "string \<Rightarrow> html \<Rightarrow> mark option" where
  "mark_from_dom weight h =
     (let t = tag_name h; plain_mark = (\<lambda>ty. Some (Mark ty []))
      in if t = ''a'' \<and> map_of (html_attrs h) ''href'' \<noteq> None
         then map_option (Mark Link) (compute_attrs link_spec
           [''contentEditable'' \<mapsto> get_attribute h ''contenteditable'', ''href'' \<mapsto> get_attribute h ''href'',
            ''title'' \<mapsto> get_attribute h ''title''])
         else if t = ''i'' \<or> t = ''em'' then plain_mark Em
         else if t = ''strong'' then plain_mark Strong
         else if t = ''b'' then (if weight \<noteq> ''normal'' then plain_mark Strong else None)
         else if t = ''u'' then plain_mark Underline
         else if t = ''span'' then
           (if match_color_attrs Red h then plain_mark (Colour Red)
            else if match_color_attrs Yellow h then plain_mark (Colour Yellow)
            else if match_color_attrs Green h then plain_mark (Colour Green) else None)
         else None)"

text \<open>
  The text of a pill outside of the editor; reading a field of null is an error (\<open>None\<close>). A field
  that is not there is undefined, which makes an empty text.
\<close>

definition get_pill_text :: "attrs \<Rightarrow> json option option" where
  "get_pill_text a =
     (let j = entity_or_null (map_of a ''data-entity-json'');
          ty = map_of a ''data-type'';
          field = (\<lambda>v. if j = JNull then None else Some v)
      in if ty = Some (JStr ''pivot'') then field (jget j ''value'')
         else if ty = Some (JStr ''cell'') then field (jget j ''Title'')
         else if ty = Some (JStr ''user'') then field (jget j ''Name'')
         else if ty = Some (JStr ''playbook'') then field (js_or (jget j ''Title'') (jget j ''ID''))
         else Some (Some (JStr ''datapill'')))"

section \<open>Round trips\<close>

definition plain_text :: "json \<Rightarrow> bool" where
  "plain_text j \<longleftrightarrow> (case j of JNull \<Rightarrow> True | JStr s \<Rightarrow> True | _ \<Rightarrow> False)"

text \<open>
  The nodes that survive being copied, with the attributes they may have: texts or null, in the order
  of the schema. Not among them are a heading of a level above 3, the tasks, a plain list with the class
  \<open>tasklist\<close> and an item of one with the class \<open>tasklist-item\<close> (which are read as tasks), an image
  without \<open>src\<close>, and an ordered list that starts below 0.
\<close>

definition common_ok :: "attrs \<Rightarrow> bool" where
  "common_ok a \<longleftrightarrow> map fst a = [''style'', ''class'', ''id''] \<and> list_all (plain_text \<circ> snd) a"

definition without_class :: "string \<Rightarrow> attrs \<Rightarrow> bool" where
  "without_class c a \<longleftrightarrow> (case map_of a ''class'' of Some (JStr s) \<Rightarrow> c \<notin> set (class_words s) | _ \<Rightarrow> True)"

fun copyable :: "node_type \<Rightarrow> attrs \<Rightarrow> bool" where
  "copyable Paragraph a \<longleftrightarrow> a = []"
| "copyable Pre a \<longleftrightarrow> a = []"
| "copyable Blockquote a \<longleftrightarrow> a = []"
| "copyable Hard_break a \<longleftrightarrow> a = []"
| "copyable Heading a \<longleftrightarrow> a \<in> {[(''level'', JNum 1)], [(''level'', JNum 2)], [(''level'', JNum 3)]}"
| "copyable Image a \<longleftrightarrow> map fst a = [''src'', ''alt'', ''title''] \<and> list_all (plain_text \<circ> snd) a
     \<and> attr_or_null a ''src'' \<noteq> JNull"
| "copyable Ordered_list a \<longleftrightarrow> common_ok (take 3 a) \<and> map fst (drop 3 a) = [''type'', ''order'']
     \<and> plain_text (attr_or_null a ''type'') \<and> (case attr_or_null a ''order'' of JNum n \<Rightarrow> 0 \<le> n | _ \<Rightarrow> False)"
| "copyable Bullet_list a \<longleftrightarrow> common_ok a \<and> without_class ''tasklist'' a"
| "copyable List_item a \<longleftrightarrow> common_ok a \<and> without_class ''tasklist-item'' a"
| "copyable Pill a \<longleftrightarrow> map fst a = [''data-entity-json'', ''data-type'']
     \<and> (case attr_or_null a ''data-type'' of JStr s \<Rightarrow> True | _ \<Rightarrow> False)
     \<and> (case attr_or_null a ''data-entity-json'' of JNum n \<Rightarrow> False | JBool b \<Rightarrow> False | _ \<Rightarrow> True)"
| "copyable _ a \<longleftrightarrow> False"

lemma plain_text_cases: "plain_text j \<Longrightarrow> j = JNull \<or> (\<exists>s. j = JStr s)"
  by (cases j) (auto simp: plain_text_def)

lemma plain_text_attr [simp]: "plain_text j \<Longrightarrow> attr_value j = j"
  by (auto dest: plain_text_cases)

lemma common_okE:
  assumes "common_ok a"
  obtains s c i where "a = [(''style'', s), (''class'', c), (''id'', i)]" "plain_text s" "plain_text c" "plain_text i"
  using assms by (auto simp: common_ok_def comp_def)

lemma show_int_nat: "0 \<le> n \<Longrightarrow> show_int n = show_nat (nat n)"
  by (simp add: show_int_def)

text \<open>Reading the attributes that are set, and taking the defaults for the others, gives them all back.\<close>

lemma given_or_null: "map_of (filter (\<lambda>(k, v). v \<noteq> JNull) kvs) k = Some v \<Longrightarrow> v \<noteq> JNull"
  by (auto dest: map_of_SomeD)

lemma copy_common:
  assumes "common_ok a"
  shows "compute_attrs common_attributes (map_of (html_attrs (list_html t a))) = Some a"
  using assms
  by (elim common_okE) (auto simp: list_html_def has_attrs_def omit_def html_of_def common_attributes_def dest!: plain_text_cases)

lemma class_list_common:
  assumes "common_ok a"
  shows "c \<notin> set (class_list (list_html t a)) \<longleftrightarrow> without_class c a"
  using assms
  by (elim common_okE) (auto simp: list_html_def has_attrs_def omit_def html_of_def class_list_def get_attribute_def
      attr_or_null_def without_class_def dest!: plain_text_cases)

lemma tag_list_html [simp]: "tag_name (list_html t a) = t"
  by (simp add: list_html_def html_of_def)

lemma from_dom_ol: "tag_name h = ''ol'' \<Longrightarrow> from_dom h = build Ordered_list ((map_of (html_attrs h))(''order'' \<mapsto> list_start h))"
  by (simp add: from_dom_def)

lemma copy_heading:
  "to_dom Heading [(''level'', JNum 1)] = Some (html_of ''h1'' [])"
  "to_dom Heading [(''level'', JNum 2)] = Some (html_of ''h2'' [])"
  "to_dom Heading [(''level'', JNum 3)] = Some (html_of ''h3'' [])"
  "from_dom (html_of ''h1'' []) = Some (Heading, [(''level'', JNum 1)])"
  "from_dom (html_of ''h2'' []) = Some (Heading, [(''level'', JNum 2)])"
  "from_dom (html_of ''h3'' []) = Some (Heading, [(''level'', JNum 3)])"
  by code_simp+

lemma copy_ordered:
  assumes "copyable Ordered_list a"
  shows "from_dom (the (to_dom Ordered_list a)) = Some (Ordered_list, a)"
proof -
  obtain s c i ty n where a: "a = [(''style'', s), (''class'', c), (''id'', i), (''type'', ty), (''order'', JNum n)]"
    and p: "plain_text s" "plain_text c" "plain_text i" "plain_text ty" and n: "0 \<le> n"
  proof -
    from assms obtain s c i where t: "take 3 a = [(''style'', s), (''class'', c), (''id'', i)]"
        "plain_text s" "plain_text c" "plain_text i"
      by (auto elim: common_okE)
    from assms obtain ty o' where d: "drop 3 a = [(''type'', ty), (''order'', o')]" by auto
    have a: "a = [(''style'', s), (''class'', c), (''id'', i), (''type'', ty), (''order'', o')]"
      using append_take_drop_id [of 3 a] unfolding t(1) d by simp
    with assms obtain n where "o' = JNum n" "0 \<le> n" "plain_text ty"
      by (auto simp: attr_or_null_def split: json.splits)
    with that a t show ?thesis by blast
  qed
  have start: "parse_int (show_int n) = Some n" "show_int n \<noteq> []"
    using n by (simp_all add: show_int_nat parse_int_show_nat)
  let ?b = "if n = 1 then [] else [(''start'', JNum n)]"
  have h: "to_dom Ordered_list a = Some (html_of ''ol'' (omit a ''order'' @ ?b))"
    by (auto simp: a attr_or_null_def has_attrs_def omit_def)
  have attrs: "html_attrs (html_of ''ol'' (omit a ''order'' @ ?b)) = omit a ''order'' @ map (\<lambda>(k, v). (k, attr_value v)) ?b"
    using p by (auto simp: html_of_def omit_def a)
  have st: "list_start (html_of ''ol'' (omit a ''order'' @ ?b)) = JNum n"
    unfolding list_start_def get_attribute_def attrs using start by (simp add: attr_or_null_def omit_def a)
  have "compute_attrs (attr_spec Ordered_list)
      ((map_of (html_attrs (html_of ''ol'' (omit a ''order'' @ ?b))))(''order'' \<mapsto> JNum n)) = Some a"
    unfolding attrs using p by (auto simp: omit_def a common_attributes_def)
  then have "build Ordered_list ((map_of (html_attrs (html_of ''ol'' (omit a ''order'' @ ?b))))(''order'' \<mapsto> JNum n))
      = Some (Ordered_list, a)" by (simp add: build_def)
  then have "from_dom (html_of ''ol'' (omit a ''order'' @ ?b)) = Some (Ordered_list, a)"
    by (subst from_dom_ol) (simp_all only: st, simp add: html_of_def)
  then show ?thesis unfolding h by (simp only: option.sel)
qed



text \<open>The marks that survive: all but a link whose \<open>contentEditable\<close> is the default.\<close>

fun copyable_mark :: "mark \<Rightarrow> bool" where
  "copyable_mark (Mark Link a) \<longleftrightarrow> map fst a = [''href'', ''title'', ''contentEditable''] \<and> list_all (plain_text \<circ> snd) a
     \<and> attr_or_null a ''href'' \<noteq> JNull"
| "copyable_mark (Mark t a) \<longleftrightarrow> a = []"

lemma color_words: "class_words (color_class c) = [color_class c]"
  by (cases c) (simp; code_simp)+

text \<open>
  Copying and pasting keeps the marks: emphasis, underlines, the three colours, which are told
  apart by their classes, and links with their attributes.
\<close>

theorem copied_mark_is_pasted:
  assumes "copyable_mark m"
  shows "mark_from_dom weight (mark_to_dom m) = Some m"
proof (cases m)
  case (Mark t a)
  show ?thesis
  proof (cases t)
    case Link
    with assms Mark obtain r i e where a: "a = [(''href'', r), (''title'', i), (''contentEditable'', e)]"
        "plain_text r" "plain_text i" "plain_text e" "r \<noteq> JNull"
      by (auto simp: comp_def attr_or_null_def)
    with Mark Link show ?thesis
      by (auto simp: mark_from_dom_def html_of_def attr_or_null_def get_attribute_def link_spec_def dest!: plain_text_cases)
  next
    case (Colour c)
    with assms Mark show ?thesis
      by (cases c) (simp_all add: mark_from_dom_def html_of_def match_color_attrs_def class_list_def get_attribute_def
          attr_or_null_def color_words [of Yellow, simplified] color_words [of Red, simplified]
          color_words [of Green, simplified])
  qed (use assms Mark in \<open>simp_all add: mark_from_dom_def html_of_def\<close>)
qed

theorem copied_mark_is_pasted_witness:
  "mark_from_dom ''normal'' (mark_to_dom (Mark (Colour Green) [])) = Some (Mark (Colour Green) [])"
  by (rule copied_mark_is_pasted) simp

text \<open>
  A task that is copied is not pasted as a task: its element has the class \<open>tasklist_item\<close>, the
  rule asks for \<open>tasklist-item\<close>, and the next rule takes it for an item of a plain list; whether it
  was checked is lost as well. A heading of the levels 4 to 6, which the heading rule makes, is not
  recognised at all.
\<close>

theorem copied_task_becomes_plain:
  shows "Option.bind (to_dom Task_list_item a) from_dom
      = Some (List_item, [(''style'', JNull), (''class'', JStr ''tasklist_item''), (''id'', JNull)])
    \<and> Option.bind (to_dom Heading [(''level'', JNum 4)]) from_dom = None
    \<and> Option.bind (to_dom Heading [(''level'', JNum 5)]) from_dom = None
    \<and> Option.bind (to_dom Heading [(''level'', JNum 6)]) from_dom = None"
proof -
  have "from_dom (html_of ''li'' [(''class'', JStr ''tasklist_item'')])
      = Some (List_item, [(''style'', JNull), (''class'', JStr ''tasklist_item''), (''id'', JNull)])"
    by code_simp
  moreover have "Option.bind (to_dom Heading [(''level'', JNum 4)]) from_dom = None"
    "Option.bind (to_dom Heading [(''level'', JNum 5)]) from_dom = None"
    "Option.bind (to_dom Heading [(''level'', JNum 6)]) from_dom = None"
    by code_simp+
  ultimately show ?thesis by simp
qed

text \<open>A link with the default \<open>contentEditable\<close> comes back with the text of it instead.\<close>

lemma copied_link_differs:
  "mark_from_dom w (mark_to_dom (Mark Link [(''href'', JStr ''u''), (''title'', JNull), (''contentEditable'', JBool False)]))
     = Some (Mark Link [(''href'', JStr ''u''), (''title'', JNull), (''contentEditable'', JStr ''false'')])"
  by (simp add: mark_from_dom_def html_of_def attr_or_null_def get_attribute_def link_spec_def)

text \<open>A plain list that happens to have the class of a task list is read as one.\<close>

lemma plain_list_with_task_class:
  "Option.bind (to_dom Bullet_list [(''style'', JNull), (''class'', JStr ''tasklist''), (''id'', JNull)]) from_dom
     = Some (Task_list, [(''style'', JNull), (''class'', JStr ''tasklist''), (''id'', JNull)])"
  by code_simp

end
