(* ===== verification/Text_Editor.thy ===== *)
theory Text_Editor
  imports Clipboard Utils
begin

text \<open>
  The element of the text editor (\<open>components.js\<close>): the state of the mouse and the focus, the menu,
  the reading and the saving of the document, the commands behind the buttons and the keys.
\<close>

section \<open>Mouse and focus\<close>

record mouse =
  isup :: bool
  isdown :: bool

definition initial_mouse :: mouse where
  "initial_mouse = \<lparr>isup = True, isdown = False\<rparr>"

definition mouse_down :: "mouse \<Rightarrow> mouse" where
  "mouse_down m = m\<lparr>isup := False, isdown := True\<rparr>"

text \<open>With whether the host is updated.\<close>

definition mouse_up :: "mouse \<Rightarrow> mouse \<times> bool" where
  "mouse_up m = (if isdown m then (m\<lparr>isup := True, isdown := False\<rparr>, True) else (m\<lparr>isup := True\<rparr>, False))"

text \<open>
  A blur event that goes to an element inside the host, like a button of the menu, keeps the focus;
  \<open>related\<close> is whether the element is inside, if there is one.
\<close>

definition focus_lost :: "bool option \<Rightarrow> bool \<Rightarrow> bool \<times> bool" where
  "focus_lost related hasfocus = (if related = Some True then (hasfocus, False) else (False, True))"

lemma one_button: "isup m \<longleftrightarrow> \<not> isdown m \<Longrightarrow> m' \<in> {mouse_down m, fst (mouse_up m)} \<Longrightarrow> isup m' \<longleftrightarrow> \<not> isdown m'"
  by (auto simp: mouse_down_def mouse_up_def)

section \<open>The menu\<close>

datatype menu_state = NoMenu | Tooltip | HeadingMenu | ColorMenu

definition open_menu :: "menu_state \<Rightarrow> menu_state" where
  "open_menu m = (if m \<noteq> NoMenu then m else Tooltip)"

definition close_menu :: "menu_state \<Rightarrow> menu_state" where
  "close_menu m = NoMenu"

definition reset_menu :: "menu_state \<Rightarrow> menu_state" where
  "reset_menu m = Tooltip"

definition toggle_sub_menu :: "menu_state \<Rightarrow> menu_state \<Rightarrow> menu_state" where
  "toggle_sub_menu sm m = (if m = sm then Tooltip else sm)"

definition menu_visible :: "menu_state \<Rightarrow> bool" where
  "menu_visible m \<longleftrightarrow> m \<noteq> NoMenu"

definition has_highlight :: "mouse \<Rightarrow> bool \<Rightarrow> ed_state \<Rightarrow> bool" where
  "has_highlight ms hasfocus s \<longleftrightarrow> isup ms \<and> \<not> sel_empty s \<and> hasfocus"

definition manage_menu_visibility :: "mouse \<Rightarrow> bool \<Rightarrow> ed_state \<Rightarrow> menu_state \<Rightarrow> menu_state" where
  "manage_menu_visibility ms hasfocus s m =
     (if has_highlight ms hasfocus s \<and> \<not> is_pill_selection s then open_menu m else close_menu m)"

text \<open>
  The updates of the element: what the user has done to the mouse, the focus and the selection
  before an update, and the sub-menus that are asked for between two of them.
\<close>

datatype menu_event = Update mouse bool ed_state | ToggleColours | ToggleHeadings | ResetMenu

fun menu_step :: "menu_event \<Rightarrow> menu_state \<Rightarrow> menu_state" where
  "menu_step (Update ms f s) m = manage_menu_visibility ms f s m"
| "menu_step ToggleColours m = toggle_sub_menu ColorMenu m"
| "menu_step ToggleHeadings m = toggle_sub_menu HeadingMenu m"
| "menu_step ResetMenu m = reset_menu m"

fun asks_for_menu :: "menu_event \<Rightarrow> bool" where
  "asks_for_menu (Update ms f s) \<longleftrightarrow> has_highlight ms f s \<and> \<not> is_pill_selection s"
| "asks_for_menu _ \<longleftrightarrow> True"

lemma visible_after_step: "menu_visible (menu_step e m) = asks_for_menu e"
  by (cases e) (auto simp: manage_menu_visibility_def open_menu_def close_menu_def toggle_sub_menu_def reset_menu_def
      menu_visible_def)


section \<open>Reading\<close>

text \<open>
  What \<open>EditorState.create({schema})\<close> starts with. Reading the JSON of a document is left to the
  document library: \<open>parse\<close> is \<open>nodeFromJSON\<close>, \<open>None\<close> when it throws.
\<close>

definition empty_doc :: "pm list" where
  "empty_doc = [NodeN Paragraph [] [] []]"

definition doc_or_empty :: "pm list option \<Rightarrow> pm list \<times> effect list" where
  "doc_or_empty d =
     (case d of
        Some c \<Rightarrow> (c, [])
      | None \<Rightarrow> (empty_doc, [ConsoleWarn ''Warning: we found saved text editor content but it is not in a valid format.'']))"

definition playbook_read_request :: "string \<Rightarrow> request" where
  "playbook_read_request nb = http_get (''/api/notebook/editor?action=read&notebook='' @ nb)"

definition playbook_read :: "(json \<Rightarrow> pm list option) \<Rightarrow> response \<Rightarrow> pm list option \<times> effect list" where
  "playbook_read parse r =
     (if \<not> resp_ok r then (None, [ConsoleWarn ''Warning: we couldn't load the text editor content from server'' ])
      else if status r = 204 then (Some empty_doc, [])
      else (let (d, effs) = doc_or_empty (Option.bind (payload r) parse) in (Some d, effs)))"

definition playbook_save_request :: "(pm list \<Rightarrow> json) \<Rightarrow> string \<Rightarrow> pm list \<Rightarrow> request" where
  "playbook_save_request to_json nb d = post_json (''/api/notebook/editor?action=save&notebook='' @ nb) (to_json d)"

text \<open>
  The editor as a form control reads the text between its tags. A text that is not JSON throws
  outside of the \<open>try\<close>, and the editor is never filled in.
\<close>

definition input_read :: "(json \<Rightarrow> pm list option) \<Rightarrow> json_text option \<Rightarrow> pm list option \<times> effect list" where
  "input_read parse text0 =
     (case text0 of
        None \<Rightarrow> (Some empty_doc, [])
      | Some (Unparsable s) \<Rightarrow> if js_trim s = [] then (Some empty_doc, []) else (None, [])
      | Some (Parses j) \<Rightarrow>
          if \<not> truthy j then (Some empty_doc, [])
          else (let (d, effs) = doc_or_empty (parse j) in (Some d, effs)))"

section \<open>Saving\<close>

text \<open>
  The element: the document (\<open>edstate.doc\<close>), whether the view is editable, the flag behind the
  sync icon, the debounced \<open>doSave\<close> with its timers, and the saves that were sent, with their
  times. \<open>saved\<close> is what was last sent, or read; \<open>on_server\<close> what was last stored;
  \<open>changed_at\<close> when the document was last changed.
\<close>

record editor =
  ed_doc :: "pm list"
  editable :: bool
  need_sync :: bool
  last_save_call :: "time option"
  save_timers :: "time list"
  sent :: "(time \<times> pm list) list"
  saved :: "pm list"
  on_server :: "pm list"
  changed_at :: time
  clock :: time

definition new_editor :: "pm list \<Rightarrow> editor" where
  "new_editor stored = \<lparr>ed_doc = empty_doc, editable = False, need_sync = False, last_save_call = None,
     save_timers = [], sent = [], saved = empty_doc, on_server = stored, changed_at = 0, clock = 0\<rparr>"

definition save_delay :: time where
  "save_delay = 3000"

definition do_save :: "editor \<Rightarrow> editor" where
  "do_save e =
     (case debounce save_delay (clock e) () (last_save_call e) of
        (lc, None) \<Rightarrow> e\<lparr>last_save_call := lc\<rparr>
      | (lc, Some (due, args)) \<Rightarrow> e\<lparr>last_save_call := lc, save_timers := save_timers e @ [due]\<rparr>)"

text \<open>\<open>dispatchTransaction\<close>: every transaction, also one that only moves the selection.\<close>

definition dispatch_transaction :: "pm list \<Rightarrow> editor \<Rightarrow> editor" where
  "dispatch_transaction d e =
     do_save (e\<lparr>ed_doc := d, need_sync := True, changed_at := (if d = ed_doc e then changed_at e else clock e)\<rparr>)"

definition handle_blur :: "editor \<Rightarrow> editor" where
  "handle_blur e = do_save (e\<lparr>need_sync := True\<rparr>)"

text \<open>
  The timer: \<open>saveDistant\<close> sends the document of that moment and is not waited for.
\<close>

definition save_now :: "time \<Rightarrow> editor \<Rightarrow> editor" where
  "save_now due e = e\<lparr>save_timers := remove1 due (save_timers e), sent := sent e @ [(clock e, ed_doc e)],
     saved := ed_doc e, need_sync := False\<rparr>"

definition load_editor_content :: "pm list option \<Rightarrow> editor \<Rightarrow> editor" where
  "load_editor_content d e =
     (case d of None \<Rightarrow> e | Some c \<Rightarrow> e\<lparr>ed_doc := c, saved := c, editable := True, changed_at := clock e\<rparr>)"

definition save_answered :: "bool \<Rightarrow> pm list \<Rightarrow> editor \<Rightarrow> editor" where
  "save_answered ok d e = (if ok then e\<lparr>on_server := d\<rparr> else e)"

text \<open>
  The steps. Before the content was read nothing is dispatched to the handlers of the editor; the
  content is read once. A timer may run late, but not early. The element does nothing with the answer to
  a save (\<open>saveDistant\<close> is not waited for): the server has stored the document, or it has not.
\<close>

inductive editor_step :: "editor \<Rightarrow> editor \<Rightarrow> bool" where
  Pass: "editor_step e (e\<lparr>clock := clock e + k\<rparr>)"
| Read: "\<not> editable e \<Longrightarrow> editor_step e (load_editor_content d e)"
| Transaction: "editable e \<Longrightarrow> editor_step e (dispatch_transaction d e)"
| Blur: "editable e \<Longrightarrow> editor_step e (handle_blur e)"
| Fire: "due \<in> set (save_timers e) \<Longrightarrow> due \<le> clock e \<Longrightarrow> editor_step e (save_now due e)"
| Answer: "(t, d) \<in> set (sent e) \<Longrightarrow> editor_step e (save_answered ok d e)"

inductive_cases editor_stepE: "editor_step e e'"

inductive editor_reach :: "pm list \<Rightarrow> editor \<Rightarrow> bool" for stored where
  Start: "editor_reach stored (new_editor stored)"
| Step: "editor_reach stored e \<Longrightarrow> editor_step e e' \<Longrightarrow> editor_reach stored e'"

definition last_sent :: "editor \<Rightarrow> time" where
  "last_sent e = fst (last (sent e))"

text \<open>A save is on its way in time for the last change, or the change came in the instant of a save.\<close>

definition save_pending :: "editor \<Rightarrow> bool" where
  "save_pending e \<longleftrightarrow> list_ex (\<lambda>due. due \<le> changed_at e + save_delay) (save_timers e)"

definition missed_save :: "editor \<Rightarrow> bool" where
  "missed_save e \<longleftrightarrow> sent e \<noteq> [] \<and> last_sent e = changed_at e"

definition editor_ok :: "editor \<Rightarrow> bool" where
  "editor_ok e \<longleftrightarrow>
     (\<not> editable e \<longrightarrow> save_timers e = [] \<and> sent e = [] \<and> last_save_call e = None \<and> ed_doc e = saved e)
   \<and> changed_at e \<le> clock e \<and> (sent e \<noteq> [] \<longrightarrow> last_sent e \<le> clock e)
   \<and> (\<forall>lc. last_save_call e = Some lc \<longrightarrow> lc \<le> clock e
        \<and> (lc + save_delay \<in> set (save_timers e) \<or> sent e \<noteq> [] \<and> lc + save_delay \<le> last_sent e))
   \<and> (ed_doc e \<noteq> saved e \<longrightarrow> need_sync e \<and> (save_pending e \<or> missed_save e))"

lemma do_save_cases:
  obtains (starts) "do_save e = e\<lparr>last_save_call := Some (clock e), save_timers := save_timers e @ [clock e + save_delay]\<rparr>"
    | (dropped) lc where "do_save e = e" "last_save_call e = Some lc" "clock e \<le> lc + save_delay"
  by (cases "may_call save_delay (last_save_call e) (clock e)")
    (auto simp: do_save_def debounce_def may_call_def split: option.splits)

lemma changed_ok:
  assumes ok: "editor_ok e" and "editable e"
    and c: "c = (if d = ed_doc e then changed_at e else clock e)"
  shows "editor_ok (do_save (e\<lparr>ed_doc := d, need_sync := True, changed_at := c\<rparr>))"
proof (cases rule: do_save_cases [of "e\<lparr>ed_doc := d, need_sync := True, changed_at := c\<rparr>"])
  case starts
  then show ?thesis
    using assms by (auto simp: editor_ok_def save_pending_def missed_save_def last_sent_def)
next
  case (dropped lc)
  from ok dropped(2) have lc: "lc + save_delay \<in> set (save_timers e) \<or> sent e \<noteq> [] \<and> lc + save_delay \<le> last_sent e"
    and le: "lc \<le> clock e" "sent e \<noteq> [] \<longrightarrow> last_sent e \<le> clock e"
    by (simp_all add: editor_ok_def)
  have "d \<noteq> saved e \<longrightarrow> save_pending (e\<lparr>ed_doc := d, need_sync := True, changed_at := c\<rparr>)
      \<or> missed_save (e\<lparr>ed_doc := d, need_sync := True, changed_at := c\<rparr>)"
  proof (cases "d = ed_doc e")
    case True
    with ok c show ?thesis by (auto simp: editor_ok_def save_pending_def missed_save_def last_sent_def)
  next
    case False
    with c have c': "c = clock e" by simp
    from lc show ?thesis
    proof
      assume "lc + save_delay \<in> set (save_timers e)"
      then have "save_pending (e\<lparr>ed_doc := d, need_sync := True, changed_at := c\<rparr>)"
        using le(1) unfolding save_pending_def list_ex_iff c' by (intro bexI [of _ "lc + save_delay"]) simp_all
      then show ?thesis by blast
    next
      assume "sent e \<noteq> [] \<and> lc + save_delay \<le> last_sent e"
      with le(2) dropped(3) show ?thesis by (auto simp: missed_save_def last_sent_def c')
    qed
  qed
  with ok dropped(1) c \<open>editable e\<close> show ?thesis by (auto simp: editor_ok_def last_sent_def)
qed

lemma editor_ok_step:
  assumes "editor_step e e'" and ok: "editor_ok e"
  shows "editor_ok e'"
  using assms(1)
proof cases
  case (Pass k)
  with ok show ?thesis by (auto simp: editor_ok_def save_pending_def missed_save_def last_sent_def)
next
  case (Read d)
  with ok show ?thesis by (cases d) (auto simp: editor_ok_def load_editor_content_def save_pending_def missed_save_def last_sent_def)
next
  case (Transaction d)
  show ?thesis unfolding Transaction(1) dispatch_transaction_def by (rule changed_ok [OF ok Transaction(2) refl])
next
  case Blur
  from changed_ok [OF ok Blur(2), of "changed_at e" "ed_doc e"] show ?thesis by (simp add: Blur(1) handle_blur_def)
next
  case (Fire due)
  then have "editable e" using ok by (auto simp: editor_ok_def)
  with Fire ok show ?thesis
    by (auto simp: editor_ok_def save_now_def last_sent_def)
next
  case (Answer t d b)
  with ok show ?thesis by (auto simp: editor_ok_def save_answered_def save_pending_def missed_save_def last_sent_def)
qed

lemma editor_ok_reach: "editor_reach stored e \<Longrightarrow> editor_ok e"
proof (induction rule: editor_reach.induct)
  case Start
  then show ?case by (simp add: editor_ok_def new_editor_def)
next
  case (Step e e')
  then show ?case using editor_ok_step by blast
qed


text \<open>
  The element as it handles events. The dummy view of the start is not editable and hands its transactions to nobody, and
  the listener for blur is added once the content was read; until then what the user does has no effect.
\<close>

datatype editor_event = Passes nat | ReadAnswered response | Types "pm list" | Leaves | TimerRuns time

fun handle_event :: "(json \<Rightarrow> pm list option) \<Rightarrow> editor_event \<Rightarrow> editor \<Rightarrow> editor" where
  "handle_event parse (Passes k) e = e\<lparr>clock := clock e + k\<rparr>"
| "handle_event parse (ReadAnswered r) e = (if editable e then e else load_editor_content (fst (playbook_read parse r)) e)"
| "handle_event parse (Types d) e = (if editable e then dispatch_transaction d e else e)"
| "handle_event parse Leaves e = (if editable e then handle_blur e else e)"
| "handle_event parse (TimerRuns due) e = (if due \<in> set (save_timers e) \<and> due \<le> clock e then save_now due e else e)"

lemma handled_event_is_step:
  "handle_event parse ev e = e \<or> editor_step e (handle_event parse ev e)"
  by (cases ev) (auto intro: editor_step.intros)


text \<open>
  Nobody looks at the answer to a save: the icon goes when it is sent, and a save that fails is not sent again.
\<close>

lemma failed_save_is_forgotten:
  assumes "editor_reach stored e" and "due \<in> set (save_timers e)" and "due \<le> clock e"
  shows "editor_reach stored (save_now due e) \<and> \<not> need_sync (save_now due e) \<and> on_server (save_now due e) = on_server e
    \<and> size (save_timers (save_now due e)) < size (save_timers e)"
proof -
  have "editor_reach stored (save_now due e)"
    using editor_reach.Step [OF assms(1) editor_step.Fire] assms(2,3) by blast
  moreover have "size (save_timers (save_now due e)) < size (save_timers e)"
    using assms(2) length_pos_if_in_set [OF assms(2)] by (simp add: save_now_def length_remove1)
  ultimately show ?thesis by (simp add: save_now_def)
qed

text \<open>
  Stored content that cannot be read is overwritten without an edit: the editor starts empty,
  and leaving it is enough for the empty document to be sent three seconds later.
\<close>

theorem unreadable_content_is_overwritten:
  assumes "resp_ok r" and "status r \<noteq> 204" and "Option.bind (payload r) parse = None"
  shows "ed_doc (load_editor_content (fst (playbook_read parse r)) (new_editor stored)) = empty_doc
    \<and> sent (save_now save_delay (handle_blur (load_editor_content (fst (playbook_read parse r)) (new_editor stored))\<lparr>clock := save_delay\<rparr>))
      = [(save_delay, empty_doc)]"
  using assms by (simp add: playbook_read_def doc_or_empty_def load_editor_content_def new_editor_def handle_blur_def
      do_save_def debounce_def may_call_def save_now_def)

text \<open>The branches of the reading.\<close>

lemma reading_branches:
  "\<not> resp_ok r \<Longrightarrow> fst (playbook_read parse r) = None"
  "resp_ok r \<Longrightarrow> status r = 204 \<Longrightarrow> fst (playbook_read parse r) = Some empty_doc"
  "resp_ok r \<Longrightarrow> status r \<noteq> 204 \<Longrightarrow> payload r = Some j \<Longrightarrow> parse j = Some d \<Longrightarrow> fst (playbook_read parse r) = Some d"
  by (simp_all add: playbook_read_def doc_or_empty_def)

text \<open>A text that is not JSON leaves the form control empty and not editable, whatever comes after.\<close>

lemma malformed_input_is_not_loaded:
  "js_trim s \<noteq> [] \<Longrightarrow> load_editor_content (fst (input_read parse (Some (Unparsable s)))) e = e"
  by (simp add: input_read_def load_editor_content_def)

text \<open>An edit at one second, and the save that is due three seconds later.\<close>

definition example_typed :: "pm list" where
  "example_typed = [NodeN Paragraph [] [] [TextN (chs ''a'') []]]"

definition example_edited :: editor where
  "example_edited = dispatch_transaction example_typed
     ((load_editor_content (Some empty_doc) (new_editor empty_doc))\<lparr>clock := 1000\<rparr>)"

lemma example_edited_reach: "editor_reach empty_doc (example_edited\<lparr>clock := clock example_edited + k\<rparr>)"
proof -
  let ?e0 = "load_editor_content (Some empty_doc) (new_editor empty_doc)"
  have "editor_reach empty_doc ?e0"
    by (rule editor_reach.Step [OF editor_reach.Start editor_step.Read]) (simp add: new_editor_def)
  then have "editor_reach empty_doc (?e0\<lparr>clock := clock ?e0 + 1000\<rparr>)"
    by (rule editor_reach.Step) (rule editor_step.Pass)
  then have "editor_reach empty_doc example_edited"
    unfolding example_edited_def
    by (intro editor_reach.Step [OF _ editor_step.Transaction]) (simp_all add: load_editor_content_def new_editor_def)
  then show ?thesis by (rule editor_reach.Step) (rule editor_step.Pass)
qed

lemma example_edited_simps:
  "ed_doc example_edited = example_typed" "saved example_edited = empty_doc" "save_timers example_edited = [4000]"
  "changed_at example_edited = 1000" "clock example_edited = 1000" "sent example_edited = []" "on_server example_edited = empty_doc"
  "example_typed \<noteq> empty_doc"
  by (simp_all add: example_edited_def dispatch_transaction_def load_editor_content_def new_editor_def do_save_def
      debounce_def may_call_def save_delay_def example_typed_def empty_doc_def)



theorem unreadable_content_is_overwritten_witness:
  "sent (save_now save_delay (handle_blur (load_editor_content
      (fst (playbook_read (\<lambda>j. None) \<lparr>status = 200, payload = Some JNull\<rparr>)) (new_editor example_typed))\<lparr>clock := save_delay\<rparr>))
    = [(save_delay, empty_doc)]"
  using unreadable_content_is_overwritten [of "\<lparr>status = 200, payload = Some JNull\<rparr>" "\<lambda>j. None" example_typed]
  by (simp add: resp_ok_def)

section \<open>Commands and buttons\<close>

text \<open>\<open>doCommand\<close>: one command after the other, each on the state the ones before have left.\<close>

definition do_command :: "(ed_state \<Rightarrow> ed_state option) list \<Rightarrow> ed_state \<Rightarrow> ed_state" where
  "do_command cmds s = fold (\<lambda>c t. case c t of None \<Rightarrow> t | Some t' \<Rightarrow> t') cmds s"

datatype editor_action = ToggleMark mark_type | OpenColours | OpenHeadings | ToggleList node_type
  | PressColour "colour option" | MakeHeadline int

fun mark_name :: "mark_type \<Rightarrow> string" where
  "mark_name Link = ''link''"
| "mark_name Em = ''em''"
| "mark_name Strong = ''strong''"
| "mark_name Underline = ''underline''"
| "mark_name (Colour Red) = ''colour_red''"
| "mark_name (Colour Yellow) = ''colour_yellow''"
| "mark_name (Colour Green) = ''colour_green''"

fun list_name :: "node_type \<Rightarrow> string" where
  "list_name Bullet_list = ''bullet_list''"
| "list_name Ordered_list = ''ordered_list''"
| "list_name _ = ''task_list''"

definition bool_text :: "bool \<Rightarrow> string" where
  "bool_text b = (if b then ''true'' else ''false'')"

definition menu_button :: "string \<Rightarrow> bool option \<Rightarrow> editor_action \<Rightarrow> editor_action ui list \<Rightarrow> editor_action ui" where
  "menu_button label0 selected act ks =
     Elem ''button'' ((if label0 = [] then [] else [(''aria-label'', label0)])
       @ (case selected of None \<Rightarrow> [] | Some b \<Rightarrow> [(''aria-selected'', bool_text b)])) [(''click'', act)] ks"

definition mark_buttons :: "ed_state \<Rightarrow> editor_action ui list" where
  "mark_buttons s = map (\<lambda>t. menu_button (''Make text '' @ mark_name t) (Some (mark_in_selection s t)) (ToggleMark t) [])
     [Strong, Em, Underline]"

definition list_buttons :: "ed_state \<Rightarrow> editor_action ui list" where
  "list_buttons s =
     (if can_toggle_list s
      then map (\<lambda>l. menu_button (list_name l) (Some (node_in_selection s l)) (ToggleList l) []) list_nodes
      else [])"

definition color_buttons :: "ed_state \<Rightarrow> editor_action ui list" where
  "color_buttons s =
     map (\<lambda>(c, nm). plain ''li'' [menu_button [] (Some (mark_in_selection s (Colour c))) (PressColour (Some c)) [TextNode nm]])
       [(Red, ''Red''), (Yellow, ''Yellow''), (Green, ''Green'')]
     @ [plain ''li'' [menu_button [] (Some (\<not> has_colour s)) (PressColour None) [TextNode ''Default'']]]"

definition title_buttons :: "ed_state \<Rightarrow> editor_action ui list" where
  "title_buttons s =
     map (\<lambda>(l, nm). plain ''li'' [menu_button [] (Some (heading_in_selection s l)) (MakeHeadline l) [TextNode nm]])
       [(1, ''Heading 1''), (2, ''Heading 2''), (3, ''Heading 3''), (0, ''Text'')]"

definition render_tooltip_menu :: "ed_state \<Rightarrow> menu_state \<Rightarrow> editor_action ui" where
  "render_tooltip_menu s m =
     Elem ''wt-editor-tooltip'' [(''visible'', bool_text (menu_visible m))] []
       (mark_buttons s @ [menu_button ''Change text color'' None OpenColours [], menu_button [] None OpenHeadings []]
        @ list_buttons s
        @ [Elem ''ul'' [(''class'', class_map [(''tooltip-submenu'', True), (''invisible'', m \<noteq> ColorMenu)])] [] (color_buttons s),
           Elem ''ul'' [(''class'', class_map [(''invisible'', m \<noteq> HeadingMenu)])] [] (title_buttons s)])"

definition render_editor :: "ed_state \<Rightarrow> menu_state \<Rightarrow> bool \<Rightarrow> bool \<Rightarrow> bool \<Rightarrow> editor_action ui list" where
  "render_editor s m need dragging hasfocus =
     [render_tooltip_menu s m, when_ui need (plain ''div'' [TextNode ''sync'']), plain ''div'' [],
      when_ui (\<not> dragging \<and> hasfocus) (plain ''wt-editor-smart-cursor'' []), plain ''slot'' []]"

text \<open>
  What a click does to the menu and to the document. The list command takes the operations of the
  document library as its arguments.
\<close>

definition run_action :: "(node_type \<Rightarrow> ed_state \<Rightarrow> ed_state option) \<Rightarrow> editor_action \<Rightarrow> menu_state \<Rightarrow> ed_state
    \<Rightarrow> menu_state \<times> ed_state" where
  "run_action list_cmd a m s =
     (case a of
        ToggleMark t \<Rightarrow> (reset_menu m, do_command [toggle_mark t] s)
      | OpenColours \<Rightarrow> (toggle_sub_menu ColorMenu m, s)
      | OpenHeadings \<Rightarrow> (toggle_sub_menu HeadingMenu m, s)
      | ToggleList l \<Rightarrow> (reset_menu m, do_command [list_cmd l] s)
      | PressColour b \<Rightarrow> (m, press_colour b s)
      | MakeHeadline l \<Rightarrow> (m, do_command [make_headline_cmd l] s))"

text \<open>
  A button of the menu for a kind of emphasis shows whether the selection has it, and a press
  turns that over, wherever the selection holds a character that is not space around it.
\<close>

theorem emphasis_button_flips:
  assumes "well_formed (content s)" and "sel s = TextSel lo hi" and "lo < hi" and "mark_applies s"
    and "i < frag_size (content s)" and "in_range (trimmed_range s) i" and "inline_token (tokens (content s) ! i)"
  shows "mark_in_selection (snd (run_action cmd (ToggleMark t) m s)) t \<longleftrightarrow> \<not> mark_in_selection s t"
proof -
  have r: "get_cursor s = None" "\<not> sel_empty s" "sel_from s = lo" "sel_to s = hi"
    using assms(2,3) by (simp_all add: get_cursor_def sel_empty_def sel_from.simps sel_to.simps)
  show ?thesis
  proof (cases "mark_in_selection s t")
    case True
    let ?d = "remove_mark lo hi t (content s)"
    have s': "snd (run_action cmd (ToggleMark t) m s) = s\<lparr>content := ?d, stored_marks := None\<rparr>"
      using r True assms(4) by (simp add: run_action_def do_command_def toggle_mark_def)
    have wf: "well_formed ?d" using assms(1) by (simp add: remove_mark_def well_formed_mark_range)
    have n: "frag_size ?d = frag_size (content s)"
      using length_tokens [of ?d] length_tokens [of "content s"] by (simp add: remove_mark_def del: length_tokens)
    have "t \<notin> types_of (tokens ?d ! j)" if "j < frag_size ?d" "lo \<le> j" "j < hi" for j
      using that n by (simp add: token_remove in_range_def types_with_remove)
    then show ?thesis
      using True r assms(2,3) wf unfolding s'
      by (auto simp: mark_in_selection_def range_has_mark_tokens marked_in_types sel_from.simps sel_to.simps)
  next
    case False
    let ?d = "add_mark (fst (trimmed_range s)) (snd (trimmed_range s)) (Mark t []) (content s)"
    have s': "snd (run_action cmd (ToggleMark t) m s) = s\<lparr>content := ?d, stored_marks := None\<rparr>"
      using r False assms(4) by (simp add: run_action_def do_command_def toggle_mark_def)
    have wf: "well_formed ?d" using assms(1) by (simp add: add_mark_def well_formed_mark_range)
    have n: "frag_size ?d = frag_size (content s)"
      using length_tokens [of ?d] length_tokens [of "content s"] by (simp add: add_mark_def del: length_tokens)
    have "t \<in> types_of (tokens ?d ! i)" using assms(5-7) by (simp add: token_add types_with_add)
    moreover have "lo \<le> i" "i < hi" using in_trimmed [OF assms(6)] r by simp_all
    ultimately show ?thesis
      using False r assms(2,3,5) wf n unfolding s'
      by (auto simp: mark_in_selection_def range_has_mark_tokens marked_in_types sel_from.simps sel_to.simps)
  qed
qed

theorem emphasis_button_flips_witness:
  "mark_in_selection (snd (run_action (\<lambda>l s. None) (ToggleMark Em) Tooltip example_ed)) Em \<longleftrightarrow> \<not> mark_in_selection example_ed Em"
proof (rule emphasis_button_flips [where i = 1, OF example_ed_ok(1)])
  show "sel example_ed = TextSel 1 5" "(1::nat) < 5" by (simp_all add: example_ed_def)
  show "mark_applies example_ed" "1 < frag_size (content example_ed)" "in_range (trimmed_range example_ed) 1"
    "inline_token (tokens (content example_ed) ! 1)" by code_simp+
qed

section \<open>Keys\<close>

text \<open>\<open>split(/-(?!$)/)\<close>: at every dash but a last one.\<close>

fun split_key :: "string \<Rightarrow> string list" where
  "split_key [] = [[]]"
| "split_key (c # cs) =
     (if c = CHR ''-'' \<and> cs \<noteq> [] then [] # split_key cs
      else case split_key cs of w # ws \<Rightarrow> (c # w) # ws | [] \<Rightarrow> [[c]])"

record modifier_keys =
  alt_key :: bool
  ctrl_key :: bool
  meta_key :: bool
  shift_key :: bool

definition no_modifiers :: modifier_keys where
  "no_modifiers = \<lparr>alt_key = False, ctrl_key = False, meta_key = False, shift_key = False\<rparr>"

text \<open>\<open>modifiers\<close>, with the shift key if asked for.\<close>

definition with_modifiers :: "string \<Rightarrow> modifier_keys \<Rightarrow> bool \<Rightarrow> string" where
  "with_modifiers nm ev shift =
     (if shift \<and> shift_key ev then ''Shift-'' else []) @ (if meta_key ev then ''Meta-'' else [])
       @ (if ctrl_key ev then ''Ctrl-'' else []) @ (if alt_key ev then ''Alt-'' else []) @ nm"

definition add_modifier :: "bool \<Rightarrow> string \<Rightarrow> modifier_keys option \<Rightarrow> modifier_keys option" where
  "add_modifier mac m ev =
     (case ev of
        None \<Rightarrow> None
      | Some k \<Rightarrow>
          (let l = to_lower m
           in if l \<in> {''cmd'', ''meta'', ''m''} then Some (k\<lparr>meta_key := True\<rparr>)
              else if l \<in> {''a'', ''alt''} then Some (k\<lparr>alt_key := True\<rparr>)
              else if l \<in> {''c'', ''ctrl'', ''control''} then Some (k\<lparr>ctrl_key := True\<rparr>)
              else if l \<in> {''s'', ''shift''} then Some (k\<lparr>shift_key := True\<rparr>)
              else if l = ''mod'' then Some (if mac then k\<lparr>meta_key := True\<rparr> else k\<lparr>ctrl_key := True\<rparr>)
              else None))"

text \<open>An unknown modifier is an error.\<close>

definition normalize_key_name :: "bool \<Rightarrow> string \<Rightarrow> string option" where
  "normalize_key_name mac nm =
     (let parts = split_key nm; result = (if last parts = ''Space'' then '' '' else last parts)
      in map_option (\<lambda>k. with_modifiers result k True) (fold (add_modifier mac) (butlast parts) (Some no_modifiers)))"

datatype key_command = SplitItems "node_type list" | BreakLine | Undo | Redo | KeyMark mark_type | RemoveBlock

definition list_item_nodes :: "node_type list" where
  "list_item_nodes = [Task_list_item, List_item]"

definition build_keymap :: "bool \<Rightarrow> (string \<times> key_command) list" where
  "build_keymap mac =
     [(''Enter'', SplitItems list_item_nodes), (''Shift-Enter'', BreakLine), (''Mod-Enter'', BreakLine),
      (''Mod-z'', Undo), (''Mod-y'', Redo), (''Mod-b'', KeyMark Strong), (''Mod-i'', KeyMark Em),
      (''Mod-u'', KeyMark Underline), (''Backspace'', RemoveBlock)]
     @ (if mac then [(''Ctrl+Enter'', BreakLine)] else [])"

definition normalized_keymap :: "bool \<Rightarrow> (string option \<times> key_command) list" where
  "normalized_keymap mac = map (\<lambda>(k, c). (normalize_key_name mac k, c)) (build_keymap mac)"

text \<open>
  \<open>keydownHandler\<close>: the commands that are tried, in this order, until one accepts. \<open>base\<close> is the
  name of the key without modifiers, for a key code that has one.
\<close>

definition keydown_commands :: "bool \<Rightarrow> string \<Rightarrow> modifier_keys \<Rightarrow> string option \<Rightarrow> key_command list" where
  "keydown_commands mac nm ev base =
     (let find = (\<lambda>k. map_of (normalized_keymap mac) (Some k));
          direct = find (with_modifiers nm ev True);
          character = length nm = 1 \<and> nm \<noteq> '' '';
          no_shift = (if character \<and> shift_key ev then find (with_modifiers nm ev False) else None);
          from_code = (if character \<and> (shift_key ev \<or> alt_key ev \<or> meta_key ev)
            then (case base of Some b \<Rightarrow> if b \<noteq> nm then find (with_modifiers b ev True) else None | None \<Rightarrow> None)
            else None)
      in List.map_filter id [direct, no_shift, from_code])"

text \<open>Every name of the key map is understood, and the names stay different.\<close>

lemma keymap_is_valid:
  "list_all (\<lambda>(k, c). k \<noteq> None) (normalized_keymap mac) \<and> distinct (map fst (normalized_keymap mac))"
proof -
  have "list_all (\<lambda>(k, c). k \<noteq> None) (normalized_keymap b) \<and> distinct (map fst (normalized_keymap b))"
    if "b \<in> {True, False}" for b
    using that by (elim insertE emptyE; simp only:; code_simp)
  then show ?thesis by blast
qed

text \<open>The name of the key that is meant to be Ctrl and Enter on a Mac is not that of any event.\<close>

lemma with_modifiers_plus:
  "with_modifiers nm ev sh = ''Ctrl+Enter'' \<Longrightarrow> nm = ''Ctrl+Enter''"
  by (auto simp: with_modifiers_def split: if_splits)

text \<open>
  On a Mac, pressing Ctrl and Enter does nothing: the binding is written with a plus sign, which
  no key event ever has, while Cmd and Enter, Shift and Enter break the line.
\<close>

theorem mac_ctrl_enter_is_dead:
  shows "keydown_commands True ''Enter'' (no_modifiers\<lparr>ctrl_key := True\<rparr>) base = []
    \<and> keydown_commands True ''Enter'' (no_modifiers\<lparr>meta_key := True\<rparr>) base = [BreakLine]
    \<and> keydown_commands mac ''Enter'' (no_modifiers\<lparr>shift_key := True\<rparr>) base = [BreakLine]
    \<and> keydown_commands False ''Enter'' (no_modifiers\<lparr>ctrl_key := True\<rparr>) base = [BreakLine]"
proof -
  have m: "normalized_keymap True = [(Some ''Enter'', SplitItems list_item_nodes), (Some ''Shift-Enter'', BreakLine),
      (Some ''Meta-Enter'', BreakLine), (Some ''Meta-z'', Undo), (Some ''Meta-y'', Redo), (Some ''Meta-b'', KeyMark Strong),
      (Some ''Meta-i'', KeyMark Em), (Some ''Meta-u'', KeyMark Underline), (Some ''Backspace'', RemoveBlock),
      (Some ''Ctrl+Enter'', BreakLine)]"
    "normalized_keymap False = [(Some ''Enter'', SplitItems list_item_nodes), (Some ''Shift-Enter'', BreakLine),
      (Some ''Ctrl-Enter'', BreakLine), (Some ''Ctrl-z'', Undo), (Some ''Ctrl-y'', Redo), (Some ''Ctrl-b'', KeyMark Strong),
      (Some ''Ctrl-i'', KeyMark Em), (Some ''Ctrl-u'', KeyMark Underline), (Some ''Backspace'', RemoveBlock)]"
    by code_simp+
  show ?thesis
    by (cases mac) (simp_all add: keydown_commands_def m with_modifiers_def no_modifiers_def List.map_filter_def)
qed

end
