(* ===== verification/Smart_Cursor.thy ===== *)
theory Smart_Cursor
  imports Text_Editor Complex_Main
begin

text \<open>
  The cursor that the text editor draws itself, and the tooltip above the selection
  (\<open>components.js\<close>): where they are put, when the cursor is shown, and how it is hidden during a
  scroll. Coordinates are real numbers; what the browser measures is an argument.
\<close>

section \<open>Positions\<close>

record box =
  box_left :: real
  box_right :: real
  box_top :: real
  box_bottom :: real

record screen_cursor =
  cursor_width :: real
  cursor_height :: real
  left_px :: real
  top_px :: real
  out_of_bounds :: bool

text \<open>
  \<open>updateCursorScreenPosition\<close>: the coordinates of the cursor, the parent of the editor, and how far
  it is scrolled; the cursor is \<open>w\<close> wide. Without a cursor nothing changes.
\<close>

definition get_cursor_pos :: "ed_state \<Rightarrow> nat option" where
  "get_cursor_pos s = get_cursor s"

definition place_cursor :: "real \<Rightarrow> box \<Rightarrow> box \<Rightarrow> real \<times> real \<Rightarrow> screen_cursor" where
  "place_cursor w at_pos parent scroll =
     (let l = box_left at_pos - w / 2; r = box_left at_pos + w / 2;
          parent_left = box_left parent - fst scroll; parent_top = box_top parent - snd scroll;
          cw = r - l; ch = box_bottom at_pos - box_top at_pos;
          lp = l - parent_left; tp = box_top at_pos - parent_top
      in \<lparr>cursor_width = cw, cursor_height = ch, left_px = lp, top_px = tp,
          out_of_bounds = (lp < 0 \<or> tp < 0 \<or> box_right parent - box_left parent < lp + cw
            \<or> box_bottom parent - box_top parent < tp + ch)\<rparr>)"

definition update_cursor_screen_position ::
  "real \<Rightarrow> (nat \<Rightarrow> box) \<Rightarrow> box \<Rightarrow> real \<times> real \<Rightarrow> ed_state \<Rightarrow> screen_cursor \<Rightarrow> screen_cursor" where
  "update_cursor_screen_position w coords_at parent scroll s c =
     (case get_cursor_pos s of None \<Rightarrow> c | Some p \<Rightarrow> place_cursor w (coords_at p) parent scroll)"

definition clamp :: "real \<Rightarrow> real \<Rightarrow> real \<Rightarrow> real" where
  "clamp v lo hi = max (min v hi) lo"

definition selection_position :: "box \<Rightarrow> box \<Rightarrow> real \<times> real" where
  "selection_position sel_box view_box =
     (clamp (box_left sel_box) (box_left view_box) (box_right view_box),
      clamp (box_top sel_box) (box_top view_box) (box_bottom view_box))"

text \<open>The offsets that are set on the tooltip, from where its host is.\<close>

definition position_tooltip :: "box \<Rightarrow> real \<times> real \<Rightarrow> real \<times> real" where
  "position_tooltip host pos = (fst pos - box_left host, snd pos - box_top host - 5)"

section \<open>When the cursor is shown\<close>

definition has_non_empty_text_selection :: "ed_state \<Rightarrow> bool" where
  "has_non_empty_text_selection s = (case sel s of TextSel a h \<Rightarrow> a \<noteq> h | _ \<Rightarrow> False)"

definition selection_accepts_inline_content :: "ed_state \<Rightarrow> bool" where
  "selection_accepts_inline_content s =
     (case get_cursor_pos s of
        None \<Rightarrow> False
      | Some p \<Rightarrow> textblock (fst (snd (last (path_of (content s) p)))))"

definition should_show :: "bool \<Rightarrow> bool \<Rightarrow> ed_state \<Rightarrow> bool" where
  "should_show scrolling out_of s \<longleftrightarrow>
     get_cursor_pos s \<noteq> None \<and> \<not> has_non_empty_text_selection s \<and> selection_accepts_inline_content s
     \<and> \<not> scrolling \<and> \<not> out_of"

text \<open>The hints beside the cursor: the marks of the next character, and the level of a heading.\<close>

definition mark_hint :: "mark_type \<Rightarrow> string" where
  "mark_hint t = (if t = Strong then ''B'' else if t = Em then ''E'' else ''U'')"

definition cursor_hints :: "ed_state \<Rightarrow> string list" where
  "cursor_hints s =
     map mark_hint (filter (mark_at_cursor s) [Strong, Em, Underline])
     @ (if heading_level_at_cursor s \<noteq> 0 then [''h'' @ show_int (heading_level_at_cursor s)] else [])"

definition render_smart_cursor :: "bool \<Rightarrow> screen_cursor \<Rightarrow> ed_state \<Rightarrow> unit ui" where
  "render_smart_cursor scrolling c s =
     (if \<not> should_show scrolling (out_of_bounds c) s then Nothing
      else Elem ''div'' [(''class'', ''smart-cursor-wrapper'')] []
        [when_ui (cursor_hints s \<noteq> [])
           (Elem ''div'' [(''class'', ''smart-indicator'')] [] (map (\<lambda>h. plain ''span'' [TextNode h]) (cursor_hints s))),
         Elem ''div'' [(''class'', ''smart-cursor'')] [] []])"

section \<open>Scrolling\<close>

text \<open>
  The view is scrolled to \<open>scroll_offset\<close>; \<open>drawn_offset\<close> is the offset the cursor was last placed
  for. Both the throttled handler and the debounced one keep the time of their last call.
\<close>

record scroll_state =
  scrolling :: bool
  scroll_offset :: int
  drawn_offset :: int
  handler_call :: "time option"
  seen_call :: "time option"
  seen_timers :: "time list"
  scroll_clock :: time

definition initial_scroll :: scroll_state where
  "initial_scroll = \<lparr>scrolling = False, scroll_offset = 0, drawn_offset = 0, handler_call = None, seen_call = None,
     seen_timers = [], scroll_clock = 0\<rparr>"

definition seen_delay :: time where
  "seen_delay = 64"

definition handler_delay :: time where
  "handler_delay = 48"

text \<open>\<open>updated\<close>: after each rendering the cursor is placed again.\<close>

definition set_scrolling :: "bool \<Rightarrow> scroll_state \<Rightarrow> scroll_state" where
  "set_scrolling b s = (if scrolling s = b then s else s\<lparr>scrolling := b, drawn_offset := scroll_offset s\<rparr>)"

definition seen_scroll :: "scroll_state \<Rightarrow> scroll_state" where
  "seen_scroll s =
     (case debounce seen_delay (scroll_clock s) () (seen_call s) of
        (lc, None) \<Rightarrow> s\<lparr>seen_call := lc\<rparr>
      | (lc, Some (due, a)) \<Rightarrow> s\<lparr>seen_call := lc, seen_timers := seen_timers s @ [due]\<rparr>)"

definition handle_scroll :: "scroll_state \<Rightarrow> scroll_state" where
  "handle_scroll s =
     (case throttle handler_delay (scroll_clock s) () (handler_call s) of
        (lc, None) \<Rightarrow> s\<lparr>handler_call := lc\<rparr>
      | (lc, Some r) \<Rightarrow> seen_scroll (set_scrolling True (s\<lparr>handler_call := lc\<rparr>)))"

definition scroll_seen :: "time \<Rightarrow> scroll_state \<Rightarrow> scroll_state" where
  "scroll_seen due s =
     set_scrolling False (s\<lparr>seen_timers := remove1 due (seen_timers s), drawn_offset := scroll_offset s\<rparr>)"

text \<open>A timer runs after its time, as late as the browser likes.\<close>

inductive scroll_step :: "scroll_state \<Rightarrow> scroll_state \<Rightarrow> bool" where
  ScrollTo: "scroll_step s (handle_scroll (s\<lparr>scroll_offset := off\<rparr>))"
| ScrollWait: "scroll_step s (s\<lparr>scroll_clock := scroll_clock s + k\<rparr>)"
| ScrollSeen: "due \<in> set (seen_timers s) \<Longrightarrow> due < scroll_clock s \<Longrightarrow> scroll_step s (scroll_seen due s)"

inductive scroll_reach :: "scroll_state \<Rightarrow> bool" where
  ScrollStart: "scroll_reach initial_scroll"
| ScrollMore: "scroll_reach s \<Longrightarrow> scroll_step s t \<Longrightarrow> scroll_reach t"

definition scroll_ok :: "scroll_state \<Rightarrow> bool" where
  "scroll_ok s \<longleftrightarrow> (scrolling s \<longrightarrow> list_ex (\<lambda>due. due \<le> scroll_clock s + seen_delay) (seen_timers s))
     \<and> (\<forall>lc. seen_call s = Some lc \<longrightarrow> lc \<le> scroll_clock s
          \<and> (lc + seen_delay \<in> set (seen_timers s) \<or> lc + seen_delay < scroll_clock s))"

lemma seen_scroll_cases:
  obtains (starts) "seen_scroll s = s\<lparr>seen_call := Some (scroll_clock s), seen_timers := seen_timers s @ [scroll_clock s + seen_delay]\<rparr>"
    | (dropped) lc where "seen_scroll s = s" "seen_call s = Some lc" "scroll_clock s \<le> lc + seen_delay"
  by (cases "may_call seen_delay (seen_call s) (scroll_clock s)")
    (auto simp: seen_scroll_def debounce_def may_call_def split: option.splits)

lemma set_scrolling_simps [simp]:
  "seen_timers (set_scrolling b s) = seen_timers s" "seen_call (set_scrolling b s) = seen_call s"
  "scroll_clock (set_scrolling b s) = scroll_clock s" "scrolling (set_scrolling b s) = b"
  "scroll_offset (set_scrolling b s) = scroll_offset s"
  by (simp_all add: set_scrolling_def)

lemma seen_scroll_ok:
  assumes "\<forall>lc. seen_call s = Some lc \<longrightarrow> lc \<le> scroll_clock s
      \<and> (lc + seen_delay \<in> set (seen_timers s) \<or> lc + seen_delay < scroll_clock s)"
  shows "scroll_ok (seen_scroll s)"
proof (cases rule: seen_scroll_cases [of s])
  case starts
  then show ?thesis by (simp add: scroll_ok_def)
next
  case (dropped lc)
  with assms have lc: "lc \<le> scroll_clock s" "lc + seen_delay \<in> set (seen_timers s)" by auto
  then have "list_ex (\<lambda>due. due \<le> scroll_clock s + seen_delay) (seen_timers s)"
    unfolding list_ex_iff by (intro bexI [of _ "lc + seen_delay"]) simp_all
  with dropped assms show ?thesis by (simp add: scroll_ok_def)
qed

lemma pending_later: "list_ex (\<lambda>d. d \<le> a) ts \<Longrightarrow> a \<le> b \<Longrightarrow> list_ex (\<lambda>d. d \<le> (b::nat)) ts"
  by (auto simp: list_ex_iff intro: order_trans)

lemma scroll_ok_step:
  assumes "scroll_step s t" and ok: "scroll_ok s"
  shows "scroll_ok t"
  using assms(1)
proof cases
  case (ScrollTo off)
  show ?thesis
  proof (cases "may_call handler_delay (handler_call s) (scroll_clock s)")
    case True
    then have t: "t = seen_scroll (set_scrolling True (s\<lparr>scroll_offset := off, handler_call := Some (scroll_clock s)\<rparr>))"
      by (simp add: ScrollTo handle_scroll_def throttle_def)
    show ?thesis unfolding t by (rule seen_scroll_ok) (use ok in \<open>simp add: scroll_ok_def\<close>)
  next
    case False
    then have "t = s\<lparr>scroll_offset := off\<rparr>"
      by (simp add: ScrollTo handle_scroll_def throttle_def)
    with ok show ?thesis by (simp add: scroll_ok_def)
  qed
next
  case (ScrollWait k)
  have "list_ex (\<lambda>due. due \<le> scroll_clock s + k + seen_delay) (seen_timers s)" if "scrolling s"
  proof (rule pending_later)
    show "list_ex (\<lambda>due. due \<le> scroll_clock s + seen_delay) (seen_timers s)" using ok that by (simp add: scroll_ok_def)
  qed simp
  with ok show ?thesis by (auto simp: ScrollWait scroll_ok_def)
next
  case (ScrollSeen due)
  with ok show ?thesis by (auto simp: scroll_ok_def scroll_seen_def)
qed

lemma scroll_ok_reach: "scroll_reach s \<Longrightarrow> scroll_ok s"
proof (induction rule: scroll_reach.induct)
  case ScrollStart
  then show ?case by (simp add: scroll_ok_def initial_scroll_def)
next
  case (ScrollMore s t)
  then show ?case using scroll_ok_step by blast
qed

text \<open>
  A cursor that is hidden by a scroll comes back: as long as it is hidden a timer is pending
  that shows it again, due within the next 64 milliseconds.
\<close>

theorem hidden_cursor_returns:
  assumes "scroll_reach s" and "scrolling s"
  shows "\<exists>due \<in> set (seen_timers s). due \<le> scroll_clock s + seen_delay \<and> \<not> scrolling (scroll_seen due s)"
  using scroll_ok_reach [OF assms(1)] assms(2) by (auto simp: scroll_ok_def list_ex_iff scroll_seen_def)

text \<open>Scrolls at one, fifty and seventy milliseconds, with the timer of the first between the last two.\<close>

definition late_scroll :: scroll_state where
  "late_scroll =
     (let s1 = handle_scroll (initial_scroll\<lparr>scroll_clock := 1, scroll_offset := 10\<rparr>);
          s2 = handle_scroll (s1\<lparr>scroll_clock := 50, scroll_offset := 20\<rparr>);
          s3 = scroll_seen 65 (s2\<lparr>scroll_clock := 66\<rparr>)
      in handle_scroll (s3\<lparr>scroll_clock := 70, scroll_offset := 30\<rparr>))"

lemma scroll_at: "scroll_reach s \<Longrightarrow> scroll_reach (handle_scroll (s\<lparr>scroll_clock := scroll_clock s + k, scroll_offset := off\<rparr>))"
  using scroll_reach.ScrollMore [OF scroll_reach.ScrollMore [OF _ scroll_step.ScrollWait] scroll_step.ScrollTo] by simp

text \<open>
  The cursor can be left where it was before the last scroll: the timer of an earlier scroll
  shows it again while the view is still moving, and a scroll that follows within the 48
  milliseconds of the throttle is dropped. In the end nothing is pending, the cursor counts as
  placed, and the view is elsewhere.
\<close>

theorem cursor_left_behind:
  shows "scroll_reach late_scroll \<and> \<not> scrolling late_scroll \<and> seen_timers late_scroll = []
    \<and> drawn_offset late_scroll \<noteq> scroll_offset late_scroll"
proof -
  define s1 where "s1 = handle_scroll (initial_scroll\<lparr>scroll_clock := 1, scroll_offset := 10\<rparr>)"
  define s2 where "s2 = handle_scroll (s1\<lparr>scroll_clock := 50, scroll_offset := 20\<rparr>)"
  define s3 where "s3 = scroll_seen 65 (s2\<lparr>scroll_clock := 66\<rparr>)"
  note defs = handle_scroll_def throttle_def debounce_def may_call_def seen_scroll_def set_scrolling_def scroll_seen_def
    initial_scroll_def seen_delay_def handler_delay_def
  have s1: "s1 = \<lparr>scrolling = True, scroll_offset = 10, drawn_offset = 10, handler_call = Some 1, seen_call = Some 1,
      seen_timers = [65], scroll_clock = 1\<rparr>" by (simp add: s1_def defs)
  have s2: "s2 = \<lparr>scrolling = True, scroll_offset = 20, drawn_offset = 10, handler_call = Some 50, seen_call = Some 1,
      seen_timers = [65], scroll_clock = 50\<rparr>" by (simp add: s2_def s1 defs)
  have s3: "s3 = \<lparr>scrolling = False, scroll_offset = 20, drawn_offset = 20, handler_call = Some 50, seen_call = Some 1,
      seen_timers = [], scroll_clock = 66\<rparr>" by (simp add: s3_def s2 defs)
  have l: "late_scroll = handle_scroll (s3\<lparr>scroll_clock := 70, scroll_offset := 30\<rparr>)"
    by (simp add: late_scroll_def s1_def s2_def s3_def Let_def)
  have "scroll_reach s1" using scroll_at [OF scroll_reach.ScrollStart, where k = 1 and off = 10] by (simp add: s1_def initial_scroll_def)
  from scroll_at [OF this, where k = 49 and off = 20] have "scroll_reach s2" by (simp add: s2_def s1)
  then have "scroll_reach (s2\<lparr>scroll_clock := 66\<rparr>)" using scroll_reach.ScrollMore [OF _ scroll_step.ScrollWait, of s2 16]
    by (simp add: s2)
  then have "scroll_reach s3" unfolding s3_def by (rule scroll_reach.ScrollMore) (rule scroll_step.ScrollSeen, simp_all add: s2)
  from scroll_at [OF this, where k = 4 and off = 30] have "scroll_reach late_scroll" by (simp add: l s3)
  then show ?thesis by (simp add: l s3 defs)
qed

theorem hidden_cursor_returns_witness:
  "\<exists>due. due \<in> set (seen_timers (handle_scroll (initial_scroll\<lparr>scroll_clock := 1, scroll_offset := 10\<rparr>))) \<and> due \<le> 65"
proof -
  let ?s = "handle_scroll (initial_scroll\<lparr>scroll_clock := 1, scroll_offset := 10\<rparr>)"
  have r: "scroll_reach ?s" using scroll_at [OF scroll_reach.ScrollStart, where k = 1 and off = 10] by (simp add: initial_scroll_def)
  have s: "scrolling ?s" "scroll_clock ?s = 1"
    by (simp_all add: handle_scroll_def throttle_def debounce_def may_call_def seen_scroll_def set_scrolling_def initial_scroll_def)
  obtain due where "due \<in> set (seen_timers ?s)" "due \<le> 1 + seen_delay"
    using hidden_cursor_returns [OF r s(1)] unfolding s(2) by blast
  then show ?thesis by (intro exI [of _ due]) (simp add: seen_delay_def)
qed

section \<open>Bounds\<close>

text \<open>
  C27: The tooltip is hung on the point of the view of the editor that is nearest to the start of the selection: that
  start itself when it is in view, and otherwise the place on the edge that it left by. The tooltip is put five pixels
  above this point, so at most five pixels above the view.
\<close>

theorem tooltip_is_at_nearest_point:
  assumes "box_left v \<le> box_right v" and "box_top v \<le> box_bottom v"
  shows "\<exists>x y. x \<in> {box_left v .. box_right v} \<and> y \<in> {box_top v .. box_bottom v}
    \<and> (\<forall>x' y'. box_left v \<le> x' \<and> x' \<le> box_right v \<and> box_top v \<le> y' \<and> y' \<le> box_bottom v \<longrightarrow>
          \<bar>x - box_left b\<bar> \<le> \<bar>x' - box_left b\<bar> \<and> \<bar>y - box_top b\<bar> \<le> \<bar>y' - box_top b\<bar>)
    \<and> box_left host + fst (position_tooltip host (selection_position b v)) = x
    \<and> box_top host + snd (position_tooltip host (selection_position b v)) = y - 5"
proof -
  have near: "\<bar>clamp p lo hi - p\<bar> \<le> \<bar>q - p\<bar>" if "lo \<le> q" "q \<le> hi" for p lo hi q
    using that by (auto simp: clamp_def min_def max_def)
  have within: "clamp p lo hi \<in> {lo .. hi}" if "lo \<le> hi" for p lo hi
    using that by (auto simp: clamp_def)
  show ?thesis
    using near within assms
    by (intro exI [of _ "fst (selection_position b v)"] exI [of _ "snd (selection_position b v)"])
      (simp add: position_tooltip_def selection_position_def)
qed

theorem tooltip_is_at_nearest_point_witness:
  "\<exists>x y :: real. x \<in> {0 .. 100} \<and> y \<in> {0 .. 50} \<and> \<bar>x - 30\<bar> \<le> \<bar>30 - 30\<bar> \<and> \<bar>y - 900\<bar> \<le> \<bar>50 - 900\<bar>
    \<and> 7 + fst (position_tooltip \<lparr>box_left = 7, box_right = 9, box_top = 3, box_bottom = 4\<rparr>
          (selection_position \<lparr>box_left = 30, box_right = 31, box_top = 900, box_bottom = 910\<rparr>
            \<lparr>box_left = 0, box_right = 100, box_top = 0, box_bottom = 50\<rparr>)) = x
    \<and> 3 + snd (position_tooltip \<lparr>box_left = 7, box_right = 9, box_top = 3, box_bottom = 4\<rparr>
          (selection_position \<lparr>box_left = 30, box_right = 31, box_top = 900, box_bottom = 910\<rparr>
            \<lparr>box_left = 0, box_right = 100, box_top = 0, box_bottom = 50\<rparr>)) = y - 5"
proof -
  let ?v = "\<lparr>box_left = 0, box_right = 100, box_top = 0, box_bottom = 50\<rparr>"
    and ?h = "\<lparr>box_left = 7, box_right = 9, box_top = 3, box_bottom = 4\<rparr>"
    and ?b = "\<lparr>box_left = 30, box_right = 31, box_top = 900, box_bottom = 910\<rparr>"
  have le: "(0 :: real) \<le> 100" "(0 :: real) \<le> 50" by simp_all
  note near = tooltip_is_at_nearest_point [of ?v ?b ?h, unfolded box.simps, OF le]
  obtain x y where p: "x \<in> {0 .. 100}" "y \<in> {0 .. 50}"
      "\<forall>x' y'. 0 \<le> x' \<and> x' \<le> 100 \<and> 0 \<le> y' \<and> y' \<le> 50 \<longrightarrow> \<bar>x - 30\<bar> \<le> \<bar>x' - 30\<bar> \<and> \<bar>y - 900\<bar> \<le> \<bar>y' - 900\<bar>"
      "7 + fst (position_tooltip ?h (selection_position ?b ?v)) = x"
      "3 + snd (position_tooltip ?h (selection_position ?b ?v)) = y - 5"
    using near by (elim exE conjE) blast
  have "\<bar>x - 30\<bar> \<le> \<bar>30 - 30\<bar> \<and> \<bar>y - 900\<bar> \<le> \<bar>50 - 900\<bar>" by (rule p(3) [rule_format]) simp
  with p show ?thesis by blast
qed

text \<open>A cursor that is shown lies inside the box of the parent, and is as wide as it is asked to be.\<close>

lemma shown_cursor_in_parent:
  assumes "should_show b (out_of_bounds (place_cursor w p parent scroll)) s"
  shows "0 \<le> left_px (place_cursor w p parent scroll) \<and> 0 \<le> top_px (place_cursor w p parent scroll)
    \<and> left_px (place_cursor w p parent scroll) + w \<le> box_right parent - box_left parent
    \<and> cursor_width (place_cursor w p parent scroll) = w"
  using assms by (auto simp: should_show_def place_cursor_def Let_def not_less)

lemma hint_of_heading:
  "heading_level_at_cursor s = 0 \<Longrightarrow> \<not> mark_at_cursor s Strong \<Longrightarrow> \<not> mark_at_cursor s Em \<Longrightarrow> \<not> mark_at_cursor s Underline
    \<Longrightarrow> cursor_hints s = []"
  by (simp add: cursor_hints_def)

end
