(* ===== verification/Old_Editors.thy ===== *)
theory Old_Editors
  imports Text_Editor Pivot_Events Positioning
begin

text \<open>
  The two older text editors (\<open>webc/editor.js\<close>, \<open>webc/notebook-editor.js\<close>) with their controllers,
  schema and pills, the text of a search result (\<open>webc/search-result.js\<close>) and the older tooltip
  (\<open>webc/editor-tooltip.js\<close>). Here the document library is not part of the repository: what the
  elements ask of a state of it is an argument of the definitions.
\<close>

section \<open>The document library\<close>

datatype old_colour = ORed | OYellow | OGreen | OBlack | OWhite

datatype old_mark = OLink | OEm | OStrong | OUnderline | OColour old_colour

datatype old_node = ODoc | OParagraph | OBlockquote | OHeading | OImage | OHard_break | OOrdered_list
  | OBullet_list | OList_item | OPill

text \<open>
  \<open>toggleMark\<close>, \<open>setBlockType\<close>, \<open>wrapInList\<close> and \<open>liftListItem\<close> give the next state, or none when the
  command does not apply; \<open>lib_node1\<close> is the type of \<open>$from.node(1)\<close>, if there is one;
  \<open>lib_block_attrs\<close> are the attributes of the block around the selection.
\<close>

record 's doc_library =
  lib_toggle :: "old_mark \<Rightarrow> attrs \<Rightarrow> 's \<Rightarrow> 's option"
  lib_marked :: "old_mark \<Rightarrow> 's \<Rightarrow> bool"
  lib_node1 :: "'s \<Rightarrow> old_node option"
  lib_block_attrs :: "'s \<Rightarrow> attrs"
  lib_set_block :: "old_node \<Rightarrow> attrs \<Rightarrow> 's \<Rightarrow> 's option"
  lib_wrap :: "old_node \<Rightarrow> 's \<Rightarrow> 's option"
  lib_lift :: "old_node \<Rightarrow> 's \<Rightarrow> 's option"
  lib_empty :: "'s \<Rightarrow> bool"

definition old_command :: "('s \<Rightarrow> 's option) \<Rightarrow> 's \<Rightarrow> 's" where
  "old_command c s = (case c s of None \<Rightarrow> s | Some s' \<Rightarrow> s')"

section \<open>Mouse, focus and menus\<close>

text \<open>
  The button of the mouse: up at first in the newer of the two editors, not so in the older one.
  A release asks for an update, wherever the press was.
\<close>

definition old_mouse_start :: "bool \<Rightarrow> bool" where
  "old_mouse_start newer = newer"

definition old_mouse_down :: "bool \<Rightarrow> bool" where
  "old_mouse_down up = False"

definition old_mouse_up :: "bool \<Rightarrow> bool \<times> bool" where
  "old_mouse_up up = (True, True)"

definition old_focus_lost :: "bool option \<Rightarrow> bool \<Rightarrow> bool \<times> bool" where
  "old_focus_lost related hasfocus = (if related \<noteq> Some True then (False, True) else (hasfocus, False))"

record old_menus =
  menu_shown :: bool
  font_open :: bool
  link_open :: bool
  colour_open :: bool

definition old_will_update :: "'s doc_library \<Rightarrow> bool \<Rightarrow> bool \<Rightarrow> 's \<Rightarrow> old_menus \<Rightarrow> old_menus" where
  "old_will_update L up hasfocus s m =
     (if up \<and> \<not> lib_empty L s \<and> hasfocus then m\<lparr>menu_shown := True\<rparr>
      else m\<lparr>menu_shown := False, font_open := False, colour_open := False\<rparr>)"

definition toggle_font_size_menu :: "old_menus \<Rightarrow> old_menus" where
  "toggle_font_size_menu m = m\<lparr>link_open := False, colour_open := False, font_open := \<not> font_open m\<rparr>"

definition toggle_add_link_menu :: "old_menus \<Rightarrow> old_menus" where
  "toggle_add_link_menu m = m\<lparr>font_open := False, colour_open := False, link_open := \<not> link_open m\<rparr>"

definition toggle_colour_menu :: "old_menus \<Rightarrow> old_menus" where
  "toggle_colour_menu m = m\<lparr>link_open := False, font_open := False, colour_open := \<not> colour_open m\<rparr>"

definition at_most_one :: "old_menus \<Rightarrow> bool" where
  "at_most_one m \<longleftrightarrow> \<not> (font_open m \<and> link_open m) \<and> \<not> (font_open m \<and> colour_open m) \<and> \<not> (link_open m \<and> colour_open m)"

datatype 's old_menu_event = OldUpdate bool bool 's | OldFont | OldLink | OldColours

fun old_menu_step :: "'s doc_library \<Rightarrow> 's old_menu_event \<Rightarrow> old_menus \<Rightarrow> old_menus" where
  "old_menu_step L (OldUpdate up f s) m = old_will_update L up f s m"
| "old_menu_step L OldFont m = toggle_font_size_menu m"
| "old_menu_step L OldLink m = toggle_add_link_menu m"
| "old_menu_step L OldColours m = toggle_colour_menu m"

lemmas old_menu_defs = old_will_update_def toggle_font_size_menu_def toggle_add_link_menu_def toggle_colour_menu_def
  at_most_one_def

lemma at_most_one_step: "at_most_one m \<Longrightarrow> at_most_one (old_menu_step L e m)"
  by (cases e) (auto simp: old_menu_defs)

text \<open>
  Of the sub-menus of the older editors at most one is open, whatever the user does, and an update
  without a selection closes the menus that are shown.
\<close>

theorem old_sub_menus_exclude_each_other:
  assumes "at_most_one m"
  shows "at_most_one (fold (old_menu_step L) es m)
    \<and> \<not> (let m' = old_menu_step L (OldUpdate False f s) (fold (old_menu_step L) es m) in
          menu_shown m' \<or> font_open m' \<or> colour_open m')"
proof -
  have "at_most_one (fold (old_menu_step L) es m)"
    using assms by (induction es arbitrary: m) (auto intro: at_most_one_step)
  then show ?thesis by (simp add: old_will_update_def)
qed

section \<open>Commands\<close>

definition apply_style :: "'s doc_library \<Rightarrow> old_mark \<Rightarrow> 's \<Rightarrow> 's \<times> effect list" where
  "apply_style L t s = (old_command (lib_toggle L t []) s, [DomCall ''focus'' []])"

definition old_is_list :: "old_node \<Rightarrow> bool" where
  "old_is_list nt \<longleftrightarrow> nt = OBullet_list \<or> nt = OOrdered_list"

definition old_toggle_list :: "'s doc_library \<Rightarrow> old_node \<Rightarrow> 's \<Rightarrow> 's" where
  "old_toggle_list L nt s =
     (case lib_node1 L s of
        Some n \<Rightarrow> if old_is_list n then old_command (lib_lift L OList_item) s else old_command (lib_wrap L nt) s
      | None \<Rightarrow> old_command (lib_wrap L nt) s)"

definition old_make_headline :: "'s doc_library \<Rightarrow> int \<Rightarrow> 's \<Rightarrow> 's" where
  "old_make_headline L level s =
     (if level = 0 then old_command (lib_set_block L OParagraph []) s
      else old_command (lib_set_block L OHeading [(''level'', JNum level)]) s)"

definition old_colours :: "old_mark list" where
  "old_colours = map OColour [ORed, OYellow, OGreen, OBlack, OWhite]"

definition old_colour_turn :: "'s doc_library \<Rightarrow> old_mark \<Rightarrow> old_mark \<Rightarrow> 's \<Rightarrow> 's" where
  "old_colour_turn L mt t s =
     (if mt = t then old_command (lib_toggle L mt []) s
      else if lib_marked L t s then old_command (lib_toggle L t []) s
      else s)"

definition change_colour :: "'s doc_library \<Rightarrow> old_mark \<Rightarrow> 's \<Rightarrow> 's" where
  "change_colour L mt s = fold (old_colour_turn L mt) old_colours s"

text \<open>
  \<open>toggleLink\<close>, with the value of the link and whether the field for it is open. The attributes are
  also given when the mark is to be removed. A value that was never set is undefined.
\<close>

definition toggle_link :: "'s doc_library \<Rightarrow> string option \<Rightarrow> old_menus \<Rightarrow> 's \<Rightarrow> (string option \<times> old_menus \<times> 's) \<times> effect list" where
  "toggle_link L link_value m s =
     (let a = (if lib_marked L OLink s then []
               else (case link_value of Some v \<Rightarrow> [(''href'', JStr v)] | None \<Rightarrow> []))
      in ((Some [], m\<lparr>link_open := False\<rparr>, old_command (lib_toggle L OLink a) s), [StopImmediatePropagation]))"

definition set_link_value :: "string \<Rightarrow> string option \<Rightarrow> string option" where
  "set_link_value v link_value = Some v"

text \<open>The older editor reads the type of \<open>node(1)\<close> without looking whether there is one.\<close>

definition first_node_in_selection :: "'s doc_library \<Rightarrow> old_node \<Rightarrow> 's \<Rightarrow> bool option" where
  "first_node_in_selection L nt s = map_option (\<lambda>n. n = nt) (lib_node1 L s)"

definition second_node_in_selection :: "'s doc_library \<Rightarrow> old_node \<Rightarrow> 's \<Rightarrow> bool \<times> effect list" where
  "second_node_in_selection L nt s =
     (case lib_node1 L s of None \<Rightarrow> (False, [ConsoleWarn ''no node(1)'']) | Some n \<Rightarrow> (n = nt, []))"

definition old_heading_in_selection :: "'s doc_library \<Rightarrow> int \<Rightarrow> 's \<Rightarrow> bool" where
  "old_heading_in_selection L level s =
     (case level_of (lib_block_attrs L s) of Some n \<Rightarrow> n = level | None \<Rightarrow> level = 0)"

section \<open>Colours\<close>

text \<open>
  What \<open>toggleMark\<close> does to a selection: the mark is put on it or taken off, the other marks stay.
  \<open>ready\<close> are the states with a selection marks can be put on.
\<close>

definition toggles_marks :: "'s doc_library \<Rightarrow> ('s \<Rightarrow> bool) \<Rightarrow> bool" where
  "toggles_marks L ready \<longleftrightarrow>
     (\<forall>t a s. ready s \<longrightarrow> (\<exists>s'. lib_toggle L t a s = Some s' \<and> ready s'
        \<and> (\<forall>u. lib_marked L u s' \<longleftrightarrow> (if u = t then \<not> lib_marked L t s else lib_marked L u s))))"

lemma toggled:
  assumes "toggles_marks L ready" "ready s"
  shows "ready (old_command (lib_toggle L t a) s)"
    and "lib_marked L u (old_command (lib_toggle L t a) s) \<longleftrightarrow> (if u = t then \<not> lib_marked L t s else lib_marked L u s)"
proof -
  from assms obtain s' where "lib_toggle L t a s = Some s'" "ready s'"
    "\<forall>u. lib_marked L u s' \<longleftrightarrow> (if u = t then \<not> lib_marked L t s else lib_marked L u s)"
    unfolding toggles_marks_def by blast
  then show "ready (old_command (lib_toggle L t a) s)"
    and "lib_marked L u (old_command (lib_toggle L t a) s) \<longleftrightarrow> (if u = t then \<not> lib_marked L t s else lib_marked L u s)"
    by (simp_all add: old_command_def)
qed

lemma old_turn:
  assumes "toggles_marks L ready" "ready s"
  shows "ready (old_colour_turn L mt t s)"
    and "lib_marked L u (old_colour_turn L mt t s) \<longleftrightarrow>
      (if u = t then (if mt = t then \<not> lib_marked L t s else False) else lib_marked L u s)"
  using toggled [OF assms] assms(2) by (auto simp: old_colour_turn_def)

lemma old_turns:
  assumes "toggles_marks L ready" "ready s" "distinct ts"
  shows "lib_marked L u (fold (old_colour_turn L mt) ts s) \<longleftrightarrow>
    (if u \<in> set ts then (if u = mt then \<not> lib_marked L u s else False) else lib_marked L u s)"
  using assms(2,3)
proof (induction ts arbitrary: s)
  case (Cons t ts)
  from Cons.IH [OF old_turn(1) [OF assms(1) Cons.prems(1)]] Cons.prems old_turn(2) [OF assms(1) Cons.prems(1)]
  show ?case by auto
qed simp

text \<open>
  In the older editors a press on a colour turns it over, on or off, takes every other colour off
  the selection, and leaves emphasis and links alone.
\<close>

theorem old_colour_press:
  assumes "toggles_marks L ready" and "ready s"
  shows "(lib_marked L (OColour d) (change_colour L (OColour c) s) \<longleftrightarrow> d = c \<and> \<not> lib_marked L (OColour c) s)
    \<and> (u \<in> {OLink, OEm, OStrong, OUnderline} \<longrightarrow> lib_marked L u (change_colour L (OColour c) s) = lib_marked L u s)"
proof -
  have d: "distinct old_colours" and s: "OColour d \<in> set old_colours" for d
    by (simp_all add: old_colours_def) (cases d; simp)
  have n: "u \<in> {OLink, OEm, OStrong, OUnderline} \<Longrightarrow> u \<notin> set old_colours" by (auto simp: old_colours_def)
  show ?thesis using old_turns [OF assms d] s n by (auto simp: change_colour_def)
qed

text \<open>A library whose states are the marks of one selection.\<close>

definition flip_mark :: "old_mark \<Rightarrow> old_mark list \<Rightarrow> old_mark list" where
  "flip_mark t s = (if t \<in> set s then removeAll t s else t # s)"

definition mark_library :: "old_mark list doc_library" where
  "mark_library = \<lparr>lib_toggle = (\<lambda>t a s. Some (flip_mark t s)), lib_marked = (\<lambda>t s. t \<in> set s),
     lib_node1 = (\<lambda>s. Some OParagraph), lib_block_attrs = (\<lambda>s. []), lib_set_block = (\<lambda>nt a s. None),
     lib_wrap = (\<lambda>nt s. None), lib_lift = (\<lambda>nt s. None), lib_empty = (\<lambda>s. False)\<rparr>"

lemma mark_library_toggles: "toggles_marks mark_library (\<lambda>s. True)"
  by (auto simp: toggles_marks_def mark_library_def flip_mark_def)

theorem old_colour_press_witness:
  "lib_marked mark_library (OColour OGreen) (change_colour mark_library (OColour OGreen) [OColour ORed, OEm])
    \<and> \<not> lib_marked mark_library (OColour ORed) (change_colour mark_library (OColour OGreen) [OColour ORed, OEm])"
  using old_colour_press [OF mark_library_toggles, where s = "[OColour ORed, OEm]" and c = OGreen and d = OGreen and u = OEm]
    old_colour_press [OF mark_library_toggles, where s = "[OColour ORed, OEm]" and c = OGreen and d = ORed and u = OEm]
  by (simp add: mark_library_def)

definition closed_menus :: old_menus where
  "closed_menus = \<lparr>menu_shown = False, font_open = False, link_open = False, colour_open = False\<rparr>"

theorem old_sub_menus_exclude_each_other_witness:
  "at_most_one (fold (old_menu_step mark_library) [OldFont, OldColours, OldLink] closed_menus)"
  using old_sub_menus_exclude_each_other [where m = closed_menus and L = mark_library and es = "[OldFont, OldColours, OldLink]"]
  by (simp add: closed_menus_def at_most_one_def)

section \<open>Reading and saving\<close>

text \<open>
  The element around a document of type \<open>'d\<close>: the document of \<open>edstate\<close>; whether the state has the
  plugins (undo and the keys); whether the listeners of the element and its \<open>dispatchTransaction\<close> are
  in place; the answer to the request for the content, once the server has given it; whether it was
  read; the saves that are on their way, and what the server has stored.
\<close>

record 'd old_editor =
  o_doc :: 'd
  o_plugins :: bool
  o_listens :: bool
  o_answer :: "response option"
  o_read :: bool
  o_posts :: "json list"
  o_stored :: "json option"

definition first_editor :: "'d \<Rightarrow> json option \<Rightarrow> 'd old_editor" where
  "first_editor blank stored = \<lparr>o_doc = blank, o_plugins = True, o_listens = True, o_answer = None, o_read = False,
     o_posts = [], o_stored = stored\<rparr>"

definition second_editor :: "'d \<Rightarrow> json option \<Rightarrow> 'd old_editor" where
  "second_editor blank stored = \<lparr>o_doc = blank, o_plugins = False, o_listens = False, o_answer = None, o_read = False,
     o_posts = [], o_stored = stored\<rparr>"

definition old_read_request :: "string \<Rightarrow> request" where
  "old_read_request nb = http_get (''/api/notebook/editor?action=read&notebook='' @ nb)"

definition old_save_request :: "string \<Rightarrow> json \<Rightarrow> request" where
  "old_save_request nb j = post_json (''/api/notebook/editor?action=save&notebook='' @ nb) j"

text \<open>
  \<open>readExistingData\<close> of the older editor: the body is read whatever the status is, and anything that
  does not parse is an exception (\<open>None\<close>). The new state has no plugins.
\<close>

definition first_read :: "(json \<Rightarrow> 'd option) \<Rightarrow> response \<Rightarrow> 'd old_editor \<Rightarrow> 'd old_editor option" where
  "first_read parse r e =
     (case Option.bind (payload r) parse of
        None \<Rightarrow> None
      | Some d \<Rightarrow> Some (e\<lparr>o_doc := d, o_plugins := False, o_read := True\<rparr>))"

text \<open>
  \<open>readExistingData\<close> and \<open>loadEditorContent\<close> of the newer one. The state for content that does not
  parse is made without a document and without a schema, which is an exception: the element stays
  as it was.
\<close>

definition second_read :: "'d \<Rightarrow> (json \<Rightarrow> 'd option) \<Rightarrow> response \<Rightarrow> 'd old_editor \<Rightarrow> 'd old_editor option" where
  "second_read blank parse r e =
     (let load = (\<lambda>d. Some (e\<lparr>o_doc := d, o_plugins := True, o_listens := True, o_read := True\<rparr>))
      in if \<not> resp_ok r then None
         else if status r = 204 then load blank
         else (case Option.bind (payload r) parse of None \<Rightarrow> None | Some d \<Rightarrow> load d))"

definition old_dispatch :: "'d \<Rightarrow> 'd old_editor \<Rightarrow> 'd old_editor" where
  "old_dispatch d e = (if o_listens e then e\<lparr>o_doc := d\<rparr> else e)"

definition old_handle_blur :: "('d \<Rightarrow> json) \<Rightarrow> 'd old_editor \<Rightarrow> 'd old_editor" where
  "old_handle_blur to_json e = (if o_listens e then e\<lparr>o_posts := o_posts e @ [to_json (o_doc e)]\<rparr> else e)"

text \<open>
  The server gives what it has stored, nothing (204) when there is none, or fails without a body;
  saves are not waited for, so it may store them in any order.
\<close>

definition served :: "json option \<Rightarrow> response \<Rightarrow> bool" where
  "served stored r \<longleftrightarrow>
     (\<not> resp_ok r \<and> payload r = None)
     \<or> (case stored of None \<Rightarrow> status r = 204 \<and> payload r = None | Some j \<Rightarrow> status r = 200 \<and> payload r = Some j)"

inductive old_step :: "('d \<Rightarrow> json) \<Rightarrow> (response \<Rightarrow> 'd old_editor \<Rightarrow> 'd old_editor option) \<Rightarrow> 'd old_editor
    \<Rightarrow> 'd old_editor \<Rightarrow> bool" for to_json read where
  OServe: "o_answer e = None \<Longrightarrow> served (o_stored e) r \<Longrightarrow> old_step to_json read e (e\<lparr>o_answer := Some r\<rparr>)"
| ORead: "o_answer e = Some r \<Longrightarrow> \<not> o_read e \<Longrightarrow> read r e = Some e' \<Longrightarrow> old_step to_json read e e'"
| OType: "old_step to_json read e (old_dispatch d e)"
| OBlur: "old_step to_json read e (old_handle_blur to_json e)"
| OStore: "j \<in> set (o_posts e) \<Longrightarrow> old_step to_json read e (e\<lparr>o_posts := remove1 j (o_posts e), o_stored := Some j\<rparr>)"

inductive old_reach :: "('d \<Rightarrow> json) \<Rightarrow> (response \<Rightarrow> 'd old_editor \<Rightarrow> 'd old_editor option) \<Rightarrow> 'd old_editor
    \<Rightarrow> 'd old_editor \<Rightarrow> bool" for to_json read e0 where
  OStart: "old_reach to_json read e0 e0"
| OStep: "old_reach to_json read e0 e \<Longrightarrow> old_step to_json read e e' \<Longrightarrow> old_reach to_json read e0 e'"

lemma first_editor_listens:
  "old_reach to_json (first_read parse) (first_editor blank stored) e \<Longrightarrow> o_listens e"
proof (induction rule: old_reach.induct)
  case OStart
  then show ?case by (simp add: first_editor_def)
next
  case (OStep e e')
  from OStep.hyps(2) OStep.IH show ?case
    by cases (auto simp: first_read_def old_dispatch_def old_handle_blur_def split: option.splits)
qed

text \<open>
  C28: In the older editor leaving the text before its content was read erases that content. In every state that can be
  reached without having read, with the empty document still in the editor, the blur itself sends the empty
  document; once the server has stored it, the content that was on its way is shown, but what is stored is empty.
\<close>

theorem early_blur_erases:
  assumes "old_reach to_json (first_read parse) (first_editor blank (Some j)) e" and "\<not> o_read e" and "o_doc e = blank"
    and "o_answer e = Some \<lparr>status = 200, payload = Some j\<rparr>" and "parse j = Some d"
  shows "let b = old_handle_blur to_json e;
             st = b\<lparr>o_posts := remove1 (to_json blank) (o_posts b), o_stored := Some (to_json blank)\<rparr>
    in o_posts b = o_posts e @ [to_json blank] \<and> \<not> o_read b \<and> o_stored b = o_stored e
       \<and> old_step to_json (first_read parse) b st
       \<and> (\<exists>e'. first_read parse \<lparr>status = 200, payload = Some j\<rparr> st = Some e' \<and> old_step to_json (first_read parse) st e'
            \<and> o_read e' \<and> o_doc e' = d \<and> o_stored e' = Some (to_json blank))"
proof -
  define b where "b = old_handle_blur to_json e"
  define st where "st = b\<lparr>o_posts := remove1 (to_json blank) (o_posts b), o_stored := Some (to_json blank)\<rparr>"
  have b: "b = e\<lparr>o_posts := o_posts e @ [to_json blank]\<rparr>"
    using first_editor_listens [OF assms(1)] assms(3) by (simp add: b_def old_handle_blur_def)
  have "old_step to_json (first_read parse) b st" unfolding st_def by (rule OStore) (simp add: b)
  moreover have r: "first_read parse \<lparr>status = 200, payload = Some j\<rparr> st = Some (st\<lparr>o_doc := d, o_plugins := False, o_read := True\<rparr>)"
    using assms(5) by (simp add: first_read_def)
  moreover have "old_step to_json (first_read parse) st (st\<lparr>o_doc := d, o_plugins := False, o_read := True\<rparr>)"
    by (rule ORead [where r = "\<lparr>status = 200, payload = Some j\<rparr>"]) (use assms(2,4) r in \<open>simp_all add: st_def b\<close>)
  ultimately show ?thesis using assms(2) unfolding b_def [symmetric] Let_def st_def [symmetric] by (simp add: st_def b)
qed

theorem early_blur_erases_witness:
  "o_posts (old_handle_blur JStr ((first_editor [] (Some (JStr ''notes'')))\<lparr>o_answer := Some \<lparr>status = 200, payload = Some (JStr ''notes'')\<rparr>\<rparr>))
    = [JStr []]"
proof -
  let ?p = "\<lambda>j. case j of JStr s \<Rightarrow> Some s | _ \<Rightarrow> None" and ?r = "\<lparr>status = 200, payload = Some (JStr ''notes'')\<rparr>"
  have "old_reach JStr (first_read ?p) (first_editor [] (Some (JStr ''notes''))) ((first_editor [] (Some (JStr ''notes'')))\<lparr>o_answer := Some ?r\<rparr>)"
    by (rule OStep [OF OStart], rule OServe) (simp_all add: first_editor_def served_def)
  from early_blur_erases [OF this] show ?thesis by (simp add: first_editor_def Let_def)
qed

text \<open>After reading, the older editor has no plugins: undo and the keys are gone.\<close>

lemma first_editor_loses_undo:
  assumes "old_reach to_json (first_read parse) (first_editor blank stored) e"
  shows "o_plugins e \<longleftrightarrow> \<not> o_read e"
  using assms
proof (induction rule: old_reach.induct)
  case OStart
  then show ?case by (simp add: first_editor_def)
next
  case (OStep e e')
  from OStep.hyps(2) OStep.IH show ?case
    by cases (auto simp: first_read_def old_dispatch_def old_handle_blur_def split: option.splits)
qed

definition second_ok :: "'d \<Rightarrow> (json \<Rightarrow> 'd option) \<Rightarrow> json option \<Rightarrow> 'd old_editor \<Rightarrow> bool" where
  "second_ok blank parse stored e \<longleftrightarrow>
     (\<forall>r. o_answer e = Some r \<longrightarrow> \<not> o_read e \<longrightarrow> served stored r)
   \<and> o_listens e = o_read e
   \<and> (\<not> o_read e \<longrightarrow> o_posts e = [] \<and> o_stored e = stored \<and> o_doc e = blank)
   \<and> (o_read e \<longrightarrow> (case stored of None \<Rightarrow> True | Some j \<Rightarrow> parse j \<noteq> None))"

lemma second_ok_reach:
  assumes "old_reach to_json (second_read blank parse) (second_editor blank stored) e"
  shows "second_ok blank parse stored e"
  using assms
proof (induction rule: old_reach.induct)
  case OStart
  then show ?case by (simp add: second_ok_def second_editor_def)
next
  case (OStep e e')
  from OStep.hyps(2) OStep.IH show ?case
  proof cases
    case (ORead r)
    with OStep.IH have "served stored r" by (simp add: second_ok_def)
    with ORead OStep.IH show ?thesis
      by (auto simp: second_ok_def second_read_def served_def Let_def split: option.splits if_splits)
  qed (auto simp: second_ok_def old_dispatch_def old_handle_blur_def)
qed

text \<open>
  The newer of the two saves nothing before the content was read, and content it cannot read is
  never replaced: whatever the user and the server do, it stays stored, and nothing is sent.
\<close>

theorem unreadable_content_is_kept:
  assumes "old_reach to_json (second_read blank parse) (second_editor blank stored) e"
    and "\<not> o_read e \<or> (\<exists>j. stored = Some j \<and> parse j = None)"
  shows "o_posts e = [] \<and> o_stored e = stored \<and> o_doc e = blank"
  using second_ok_reach [OF assms(1)] assms(2) by (auto simp: second_ok_def)

theorem unreadable_content_is_kept_witness:
  "o_posts (old_handle_blur JStr (second_editor ''new'' (Some JNull))) = []"
proof -
  have "old_reach JStr (second_read ''new'' (\<lambda>j. None)) (second_editor ''new'' (Some JNull))
      (old_handle_blur JStr (second_editor ''new'' (Some JNull)))"
    by (rule OStep [OF OStart OBlur])
  from unreadable_content_is_kept [OF this] show ?thesis by simp
qed

text \<open>The text of a search result is read the same way as in the older editor; its view cannot be edited.\<close>

definition search_result :: "'d \<Rightarrow> json option \<Rightarrow> 'd old_editor" where
  "search_result blank stored = (first_editor blank stored)\<lparr>o_listens := False\<rparr>"

lemma search_result_never_saves:
  assumes "old_reach to_json (first_read parse) (search_result blank stored) e"
  shows "\<not> o_listens e \<and> o_posts e = [] \<and> o_stored e = stored"
  using assms
proof (induction rule: old_reach.induct)
  case OStart
  then show ?case by (simp add: search_result_def first_editor_def)
next
  case (OStep e e')
  from OStep.hyps(2) OStep.IH show ?case
    by cases (auto simp: first_read_def old_dispatch_def old_handle_blur_def split: option.splits)
qed

section \<open>The schema as elements\<close>

fun old_spec :: "old_node \<Rightarrow> (string \<times> attr_default) list" where
  "old_spec OHeading = [(''level'', Default (JNum 1))]"
| "old_spec OImage = [(''src'', Required), (''alt'', Default JNull), (''title'', Default JNull)]"
| "old_spec OOrdered_list = common_attributes @ [(''type'', Default JNull), (''order'', Default (JNum 1))]"
| "old_spec OBullet_list = common_attributes"
| "old_spec OList_item = common_attributes"
| "old_spec OPill = [(''label'', Required), (''data-id'', Required), (''data-type'', Required)]"
| "old_spec _ = []"

definition pick_data_attrs :: "attrs \<Rightarrow> attrs" where
  "pick_data_attrs a = filter (\<lambda>(k, v). starts_with k ''data-'') a"

text \<open>With the text inside an element that has one of its own.\<close>

fun old_to_dom :: "old_node \<Rightarrow> attrs \<Rightarrow> (html \<times> json) option" where
  "old_to_dom ODoc a = None"
| "old_to_dom OParagraph a = Some (html_of ''p'' [], JNull)"
| "old_to_dom OBlockquote a = Some (html_of ''blockquote'' [], JNull)"
| "old_to_dom OHeading a =
     (case map_of a ''level'' of Some (JNum n) \<Rightarrow> Some (html_of (''h'' @ show_int n) [], JNull) | _ \<Rightarrow> None)"
| "old_to_dom OImage a = Some (html_of ''img'' (map (\<lambda>k. (k, attr_or_null a k)) [''src'', ''alt'', ''title'']), JNull)"
| "old_to_dom OHard_break a = Some (html_of ''br'' [], JNull)"
| "old_to_dom OOrdered_list a =
     Some (if attr_or_null a ''order'' = JNum 1
           then (if has_attrs a ''order'' then html_of ''ol'' (omit a ''order'') else html_of ''ol'' [])
           else html_of ''ol'' (omit a ''order'' @ [(''start'', attr_or_null a ''order'')]), JNull)"
| "old_to_dom OBullet_list a = Some (list_html ''ul'' a, JNull)"
| "old_to_dom OList_item a = Some (list_html ''li'' a, JNull)"
| "old_to_dom OPill a = Some (html_of ''wt-editor-pivot-pill''
     ((''class'', JStr ''mx-1 p-1 border-2 dark:border border-zinc-300 text-xs rounded cursor-pointer'')
      # pick_data_attrs a @ [(''data-node-type'', JStr ''pill'')]), attr_or_null a ''label'')"

definition old_build :: "old_node \<Rightarrow> (string \<Rightarrow> json option) \<Rightarrow> (old_node \<times> attrs) option" where
  "old_build nt given = map_option (Pair nt) (compute_attrs (old_spec nt) given)"

text \<open>
  The rules by tag. The rule of a pill names neither a tag nor a style, so no element matches it.
\<close>

definition old_from_dom :: "html \<Rightarrow> (old_node \<times> attrs) option" where
  "old_from_dom h =
     (let t = tag_name h; given = map_of (html_attrs h); none = (\<lambda>k. None)
      in if t = ''p'' then old_build OParagraph none
         else if t = ''blockquote'' then old_build OBlockquote none
         else if t = ''h1'' then old_build OHeading [''level'' \<mapsto> JNum 1]
         else if t = ''h2'' then old_build OHeading [''level'' \<mapsto> JNum 2]
         else if t = ''h3'' then old_build OHeading [''level'' \<mapsto> JNum 3]
         else if t = ''img'' \<and> given ''src'' \<noteq> None
         then old_build OImage (map_of (map (\<lambda>k. (k, get_attribute h k)) [''src'', ''title'', ''alt'']))
         else if t = ''br'' then old_build OHard_break none
         else if t = ''ol'' then old_build OOrdered_list (given(''order'' \<mapsto> list_start h))
         else if t = ''ul'' then old_build OBullet_list given
         else if t = ''li'' then old_build OList_item given
         else None)"

fun old_colour_class :: "old_colour \<Rightarrow> string" where
  "old_colour_class ORed = ''text-qualitative-red''"
| "old_colour_class OYellow = ''text-qualitative-yellow''"
| "old_colour_class OGreen = ''text-qualitative-green''"
| "old_colour_class OBlack = ''text-zinc-800''"
| "old_colour_class OWhite = ''text-neutral-200''"

fun old_mark_to_dom :: "old_mark \<Rightarrow> attrs \<Rightarrow> html" where
  "old_mark_to_dom OLink a = html_of ''a'' [(''contenteditable'', attr_or_null a ''contentEditable''),
     (''href'', attr_or_null a ''href''), (''title'', attr_or_null a ''title'')]"
| "old_mark_to_dom OEm a = html_of ''em'' []"
| "old_mark_to_dom OStrong a = html_of ''strong'' []"
| "old_mark_to_dom OUnderline a = html_of ''u'' []"
| "old_mark_to_dom (OColour c) a = html_of ''span'' [(''class'', JStr (old_colour_class c))]"

text \<open>
  The rules of the marks, in the order of the schema: all five colours have a rule for \<open>span\<close>, whose
  \<open>getAttrs\<close> accepts every class, so the first of them is taken.
\<close>

definition old_mark_from_dom :: "string \<Rightarrow> html \<Rightarrow> (old_mark \<times> attrs) option" where
  "old_mark_from_dom weight h =
     (let t = tag_name h; plain_mark = (\<lambda>ty. Some (ty, []))
      in if t = ''a'' \<and> map_of (html_attrs h) ''href'' \<noteq> None
         then map_option (Pair OLink) (compute_attrs link_spec
           [''contentEditable'' \<mapsto> get_attribute h ''contenteditable'', ''href'' \<mapsto> get_attribute h ''href'',
            ''title'' \<mapsto> get_attribute h ''title''])
         else if t = ''i'' \<or> t = ''em'' then plain_mark OEm
         else if t = ''strong'' then plain_mark OStrong
         else if t = ''b'' then (if weight \<noteq> ''normal'' then plain_mark OStrong else None)
         else if t = ''u'' then plain_mark OUnderline
         else if t = ''span'' then plain_mark (OColour ORed)
         else None)"

text \<open>
  In the older editors copied emphasis is read back as it was, but every colour becomes red, and a
  copied pill is not read at all.
\<close>

theorem old_colours_become_red:
  shows "old_mark_from_dom w (old_mark_to_dom (OColour c) a) = Some (OColour ORed, [])
    \<and> list_all (\<lambda>m. old_mark_from_dom w (old_mark_to_dom m a) = Some (m, [])) [OEm, OStrong, OUnderline]
    \<and> map_option (old_from_dom \<circ> fst) (old_to_dom OPill b) = Some None"
  by (simp add: old_mark_from_dom_def html_of_def old_from_dom_def)

text \<open>The lists keep their attributes: they are rendered and read as in the newer editor.\<close>

lemma old_lists_like_new:
  "map_option fst (old_to_dom OOrdered_list a) = to_dom Ordered_list a"
  "map_option fst (old_to_dom OBullet_list a) = to_dom Bullet_list a"
  "map_option fst (old_to_dom OList_item a) = to_dom List_item a"
  by simp_all

theorem old_ordered_list_round_trip:
  assumes "copyable Ordered_list a"
  shows "\<exists>h. old_to_dom OOrdered_list a = Some (h, JNull) \<and> old_from_dom h = Some (OOrdered_list, a)"
proof -
  define h where "h = the (to_dom Ordered_list a)"
  have o: "old_to_dom OOrdered_list a = Some (h, JNull)" by (simp add: h_def)
  have t: "tag_name h = ''ol''" by (simp add: h_def html_of_def)
  from copy_ordered [OF assms] have "from_dom h = Some (Ordered_list, a)" unfolding h_def .
  with from_dom_ol [OF t] have "compute_attrs (attr_spec Ordered_list) ((map_of (html_attrs h))(''order'' \<mapsto> list_start h)) = Some a"
    by (cases "compute_attrs (attr_spec Ordered_list) ((map_of (html_attrs h))(''order'' \<mapsto> list_start h))") (auto simp: build_def)
  then have "old_from_dom h = Some (OOrdered_list, a)"
    by (simp add: old_from_dom_def t old_build_def)
  with o show ?thesis by blast
qed

theorem old_ordered_list_round_trip_witness:
  "\<exists>h. old_to_dom OOrdered_list [(''style'', JNull), (''class'', JStr ''big''), (''id'', JNull), (''type'', JNull), (''order'', JNum 7)] = Some (h, JNull)
    \<and> old_from_dom h = Some (OOrdered_list, [(''style'', JNull), (''class'', JStr ''big''), (''id'', JNull), (''type'', JNull), (''order'', JNum 7)])"
  by (rule old_ordered_list_round_trip) (simp add: common_ok_def plain_text_def attr_or_null_def)

section \<open>Pills\<close>

definition accept_pivot_drop :: "transfer option \<Rightarrow> bool \<times> effect list" where
  "accept_pivot_drop ev =
     (let (ok, effs) = accept_drop ev (Some has_pivot_data)
      in (ok, (if ok then [ConsoleLog ''dropped a pivot''] else [ConsoleLog ''got invalid drop in text editor, refusing'']) @ effs))"

text \<open>
  \<open>insertPivot\<close>. The text of a pivot and whether it has a definition are read by two functions that
  \<open>pivot-events.js\<close> does not have: they are arguments. The command is an exception without data, is
  refused for an empty text, and otherwise inserts a pill at the anchor of the selection.
\<close>

definition insert_pivot :: "(json \<Rightarrow> string) \<Rightarrow> (json \<Rightarrow> bool) \<Rightarrow> (attrs \<Rightarrow> 's \<Rightarrow> 's) \<Rightarrow> transfer option \<Rightarrow> 's
    \<Rightarrow> pivot_error + 's command_result" where
  "insert_pivot pivot_text has_definition insert_pill ev s =
     (case get_pivot_drag_data ev of
        Inl e \<Rightarrow> Inl e
      | Inr pivot \<Rightarrow>
          (case pivot of
             None \<Rightarrow> Inr Raised
           | Some p \<Rightarrow>
               if \<not> truthy p then Inr Raised
               else if pivot_text p = [] then Inr Refused
               else Inr (Dispatched (insert_pill
                 [(''label'', JStr (pivot_text p)),
                  (''data-id'', if has_definition p then (case jget p ''pivotid'' of Some v \<Rightarrow> v | None \<Rightarrow> JNull) else JBool False),
                  (''data-type'', case jget p ''type'' of Some v \<Rightarrow> v | None \<Rightarrow> JNull)] s))))"

text \<open>The listener of the newer of the two editors.\<close>

definition drop_on_text :: "(json \<Rightarrow> string) \<Rightarrow> (json \<Rightarrow> bool) \<Rightarrow> (attrs \<Rightarrow> 's \<Rightarrow> 's) \<Rightarrow> transfer option \<Rightarrow> 's
    \<Rightarrow> (pivot_error + 's command_result) option \<times> effect list" where
  "drop_on_text pivot_text has_definition insert_pill ev s =
     (let (ok, effs) = accept_pivot_drop ev
      in (if ok then Some (insert_pivot pivot_text has_definition insert_pill ev s) else None, effs))"

definition apply_pivot :: "effect list" where
  "apply_pivot = [ConsoleLog ''double client on pivot'']"

text \<open>
  A pivot that was dragged from its element is inserted with its text, and the browser's own
  handling of the drop is prevented.
\<close>

theorem dragged_pivot_becomes_pill:
  assumes "set_pivot_drag_data ev (Parses p) = Inr t" and "truthy p" and "pivot_text p \<noteq> []"
  shows "\<exists>a. drop_on_text pivot_text has_definition insert_pill (Some t) s
      = (Some (Inr (Dispatched (insert_pill ((''label'', JStr (pivot_text p)) # a) s))),
         [ConsoleLog ''dropped a pivot'', PreventDefault, StopImmediatePropagation])"
  using set_then_get [OF assms(1)] assms(2,3)
  by (auto simp: drop_on_text_def accept_pivot_drop_def accept_drop_def insert_pivot_def)

theorem dragged_pivot_becomes_pill_witness:
  "\<exists>a. drop_on_text (\<lambda>j. ''1.2.3.4'') (\<lambda>j. False) (\<lambda>a s. a) (Some (\<lparr>dt_data = [(''pivotcreation'', Parses (JStr ''x''))], effect_allowed = ''copy'', drag_image = None\<rparr>)) []
      = (Some (Inr (Dispatched ((''label'', JStr ''1.2.3.4'') # a))),
         [ConsoleLog ''dropped a pivot'', PreventDefault, StopImmediatePropagation])"
  by (rule dragged_pivot_becomes_pill [where p = "JStr ''x''" and ev = "Some \<lparr>dt_data = [], effect_allowed = [], drag_image = None\<rparr>"])
    (simp_all add: set_pivot_drag_data_def pivot_data_format_def)

section \<open>Rendering\<close>

datatype old_action = OApply old_mark | OColourMenu | OFontMenu | OList old_node | OChangeColour old_mark | OHeadline int

fun old_mark_name :: "old_mark \<Rightarrow> string" where
  "old_mark_name OLink = ''link''"
| "old_mark_name OEm = ''em''"
| "old_mark_name OStrong = ''strong''"
| "old_mark_name OUnderline = ''underline''"
| "old_mark_name (OColour ORed) = ''colour_red''"
| "old_mark_name (OColour OYellow) = ''colour_yellow''"
| "old_mark_name (OColour OGreen) = ''colour_green''"
| "old_mark_name (OColour OBlack) = ''colour_black''"
| "old_mark_name (OColour OWhite) = ''colour_white''"

definition colour_labels :: "(old_colour \<times> string) list" where
  "colour_labels = [(ORed, ''Red''), (OYellow, ''Yellow''), (OGreen, ''Green''), (OBlack, ''Black''), (OWhite, ''White'')]"

definition level_labels :: "(int \<times> string) list" where
  "level_labels = [(1, ''Heading 1''), (2, ''Heading 2''), (3, ''Heading 3''), (0, ''Text'')]"

definition marking_buttons :: "string \<Rightarrow> 's doc_library \<Rightarrow> 's \<Rightarrow> old_action ui list" where
  "marking_buttons key L s =
     map (\<lambda>t. Elem ''button'' [(key, bool_text (lib_marked L t s))] [(''click'', OApply t)] [TextNode (old_mark_name t)])
       [OStrong, OEm, OUnderline]"

definition colour_list_ui :: "string \<Rightarrow> 's doc_library \<Rightarrow> 's \<Rightarrow> old_menus \<Rightarrow> old_action ui" where
  "colour_list_ui key L s m =
     Elem ''ul'' [(''class'', class_map [(''invisible'', \<not> menu_shown m \<or> \<not> colour_open m)])] []
       (map (\<lambda>(c, nm). plain ''li'' [Elem ''button'' [(key, bool_text (lib_marked L (OColour c) s))]
          [(''click'', OChangeColour (OColour c))] [TextNode nm]]) colour_labels)"

definition title_list_ui :: "string \<Rightarrow> 's doc_library \<Rightarrow> 's \<Rightarrow> old_menus \<Rightarrow> old_action ui" where
  "title_list_ui key L s m =
     Elem ''ul'' [(''class'', class_map [(''invisible'', \<not> menu_shown m \<or> \<not> font_open m)])] []
       (map (\<lambda>(l, nm). plain ''li'' [Elem ''button'' [(key, bool_text (old_heading_in_selection L l s))]
          [(''click'', OHeadline l)] [TextNode nm]]) level_labels)"

definition tooltip_ui :: "old_menus \<Rightarrow> old_action ui list \<Rightarrow> old_action ui" where
  "tooltip_ui m ks =
     Elem ''div'' [(''id'', ''wt-editor-tooltip''), (''class'', class_map [(''invisible'', \<not> menu_shown m)])] [] ks"

text \<open>
  The older editor renders nothing (\<open>None\<close>, an exception) when there is no \<open>node(1)\<close>, as after
  selecting everything; the newer one warns.
\<close>

definition first_render :: "'s doc_library \<Rightarrow> 's \<Rightarrow> old_menus \<Rightarrow> old_action ui list option" where
  "first_render L s m =
     (case (first_node_in_selection L OBullet_list s, first_node_in_selection L OOrdered_list s) of
        (Some b, Some ol) \<Rightarrow>
          Some [plain ''div''
            [tooltip_ui m
               (marking_buttons ''active'' L s
                @ [Elem ''button'' [(''active'', bool_text (colour_open m))] [(''click'', OColourMenu)] [TextNode ''colour''],
                   Elem ''button'' [(''active'', bool_text (font_open m))] [(''click'', OFontMenu)] [TextNode ''title''],
                   Elem ''button'' [(''active'', bool_text b)] [(''click'', OList OBullet_list)] [TextNode ''bullet_list''],
                   Elem ''button'' [(''active'', bool_text ol)] [(''click'', OList OOrdered_list)] [TextNode ''ordered_list''],
                   colour_list_ui ''active'' L s m, title_list_ui ''active'' L s m]),
             plain ''div'' []]]
      | _ \<Rightarrow> None)"

definition second_render :: "'s doc_library \<Rightarrow> 's \<Rightarrow> old_menus \<Rightarrow> old_action ui list \<times> effect list" where
  "second_render L s m =
     (let (b, w1) = second_node_in_selection L OBullet_list s;
          (ol, w2) = second_node_in_selection L OOrdered_list s
      in ([tooltip_ui m
             (marking_buttons ''aria-selected'' L s
              @ [Elem ''button'' [] [(''click'', OColourMenu)] [TextNode ''colour''],
                 Elem ''button'' [] [(''click'', OFontMenu)] [TextNode ''title''],
                 Elem ''button'' [(''aria-selected'', bool_text b)] [(''click'', OList OBullet_list)] [TextNode ''bullet_list''],
                 Elem ''button'' [(''aria-selected'', bool_text ol)] [(''click'', OList OOrdered_list)] [TextNode ''ordered_list''],
                 colour_list_ui ''aria-selected'' L s m, title_list_ui ''aria-selected'' L s m]),
           plain ''div'' [], plain ''slot'' []], w1 @ w2))"

text \<open>
  Both editors offer the same actions in the same order; the older one only where the selection is
  in a block.
\<close>

theorem both_editors_offer_the_same:
  shows "map_option (\<lambda>us. concat (map ui_actions us)) (first_render L s m)
    = (if lib_node1 L s = None then None else Some (concat (map ui_actions (fst (second_render L s m)))))"
  by (cases "lib_node1 L s")
    (simp_all add: first_render_def second_render_def first_node_in_selection_def second_node_in_selection_def
      tooltip_ui_def marking_buttons_def colour_list_ui_def title_list_ui_def colour_labels_def level_labels_def)

text \<open>The tooltip is put above the start of the selection, if it was rendered before.\<close>

definition old_position_tooltip :: "bool \<Rightarrow> real \<times> real \<Rightarrow> real \<times> real \<Rightarrow> (real \<times> real) option \<times> effect list" where
  "old_position_tooltip mounted sel_start host =
     (if \<not> mounted then (None, [ConsoleLog ''no tooltip ref yet''])
      else (Some (fst sel_start - fst host, snd sel_start - snd host - 5), []))"

section \<open>The older tooltip\<close>

datatype tip_job = HideTip | PlaceTip | ShowTip

text \<open>
  The three functions of the scroll handler, each behind its own \<open>debounce\<close> (whose third argument, to
  run it at once, does not exist), with the timers they have started; whether the tooltip is opaque.
\<close>

record tip =
  tip_visible :: bool
  hide_call :: "time option"
  place_call :: "time option"
  show_call :: "time option"
  tip_timers :: "(time \<times> tip_job) list"
  opaque :: bool

definition new_tip :: "bool \<Rightarrow> tip" where
  "new_tip vis = \<lparr>tip_visible = vis, hide_call = None, place_call = None, show_call = None, tip_timers = [], opaque = True\<rparr>"

definition tip_delay :: time where
  "tip_delay = 75"

definition started :: "tip_job \<Rightarrow> (time \<times> unit) option \<Rightarrow> (time \<times> tip_job) list" where
  "started j t = (case t of None \<Rightarrow> [] | Some (due, a) \<Rightarrow> [(due, j)])"

definition tip_scroll :: "time \<Rightarrow> tip \<Rightarrow> tip \<times> effect list" where
  "tip_scroll now t =
     (if \<not> tip_visible t then (t, [ConsoleLog ''not visible, ignore scroll''])
      else (let (h, th) = debounce tip_delay now () (hide_call t);
                (p, tp) = debounce tip_delay now () (place_call t);
                (s, ts) = debounce tip_delay now () (show_call t)
            in (t\<lparr>hide_call := h, place_call := p, show_call := s,
                  tip_timers := tip_timers t @ started HideTip th @ started PlaceTip tp @ started ShowTip ts\<rparr>, [])))"

fun tip_fire :: "tip_job \<Rightarrow> tip \<Rightarrow> tip" where
  "tip_fire HideTip t = t\<lparr>opaque := False\<rparr>"
| "tip_fire PlaceTip t = t"
| "tip_fire ShowTip t = t\<lparr>opaque := True\<rparr>"

text \<open>Where the tooltip is put: the centre of the selection, which spans two rectangles of the text.\<close>

definition tip_place :: "real \<times> real \<Rightarrow> rect \<Rightarrow> rect \<Rightarrow> rect \<Rightarrow> rect" where
  "tip_place vp from_rect to_rect tip_rect =
     (let sel = \<lparr>rx = rect_left from_rect, ry = rect_top from_rect, width = rect_right to_rect - rect_left from_rect,
                 height = rect_bottom to_rect - rect_top from_rect\<rparr>
      in find_display_space vp (rect_right sel - width sel / 2, rect_bottom sel - height sel / 2) tip_rect sel
           \<lparr>o_offset = None, o_margin = None\<rparr>)"

definition tip_ok :: "tip \<Rightarrow> bool" where
  "tip_ok t \<longleftrightarrow> place_call t = hide_call t \<and> show_call t = hide_call t
     \<and> (\<exists>ds. tip_timers t = concat (map (\<lambda>d. [(d, HideTip), (d, PlaceTip), (d, ShowTip)]) ds))"

lemma tip_ok_scroll: "tip_ok t \<Longrightarrow> tip_ok (fst (tip_scroll now t))"
proof -
  assume ok: "tip_ok t"
  show ?thesis
  proof (cases "tip_visible t \<and> may_call tip_delay (hide_call t) now")
    case True
    obtain ds where ds: "tip_timers t = concat (map (\<lambda>d. [(d, HideTip), (d, PlaceTip), (d, ShowTip)]) ds)"
      using ok by (auto simp: tip_ok_def)
    have "tip_timers (fst (tip_scroll now t))
        = concat (map (\<lambda>d. [(d, HideTip), (d, PlaceTip), (d, ShowTip)]) (ds @ [now + tip_delay]))"
      using True ok ds by (auto simp: tip_scroll_def debounce_def started_def tip_ok_def)
    moreover have "place_call (fst (tip_scroll now t)) = hide_call (fst (tip_scroll now t))
        \<and> show_call (fst (tip_scroll now t)) = hide_call (fst (tip_scroll now t))"
      using ok by (simp add: tip_ok_def tip_scroll_def debounce_def)
    ultimately show ?thesis unfolding tip_ok_def by blast
  next
    case False
    with ok show ?thesis by (auto simp: tip_ok_def tip_scroll_def debounce_def started_def)
  qed
qed

lemma tip_ok_scrolls: "tip_ok t \<Longrightarrow> tip_ok (fold (\<lambda>now t. fst (tip_scroll now t)) nows t)"
  by (induction nows arbitrary: t) (simp_all add: tip_ok_scroll)

lemma fire_triples:
  "opaque t \<Longrightarrow> opaque (fold tip_fire (map snd (filter (\<lambda>(due, j). due \<le> now)
     (concat (map (\<lambda>d. [(d, HideTip), (d, PlaceTip), (d, ShowTip)]) ds)))) t)"
  by (induction ds arbitrary: t) simp_all

text \<open>
  The tooltip is meant to disappear while the page is scrolled, and to come back in its new place.
  But hiding is delayed like showing: whenever all timers that are due have run, the tooltip is
  opaque, however the page is scrolled.
\<close>

theorem tooltip_is_not_hidden:
  shows "let t = fold (\<lambda>now t. fst (tip_scroll now t)) nows (new_tip vis)
    in opaque (fold tip_fire (map snd (filter (\<lambda>(due, j). due \<le> now) (tip_timers t))) t)"
proof -
  let ?t = "fold (\<lambda>now t. fst (tip_scroll now t)) nows (new_tip vis)"
  have "tip_ok (new_tip vis)" by (simp add: tip_ok_def new_tip_def)
  from tip_ok_scrolls [OF this] obtain ds
    where ds: "tip_timers ?t = concat (map (\<lambda>d. [(d, HideTip), (d, PlaceTip), (d, ShowTip)]) ds)"
    by (auto simp: tip_ok_def)
  have "opaque (fold (\<lambda>now t. fst (tip_scroll now t)) nows t) = opaque t" for t
    by (induction nows arbitrary: t) (auto simp: tip_scroll_def Let_def split: prod.splits)
  then have "opaque ?t" by (simp add: new_tip_def)
  with fire_triples show ?thesis unfolding Let_def ds by blast
qed

text \<open>The button of the tooltip shows its attribute \<open>active\<close> as a class.\<close>

definition tooltip_button_changed :: "string \<Rightarrow> string \<Rightarrow> string list \<Rightarrow> string list" where
  "tooltip_button_changed name v cls =
     (if name = ''active'' then
        (if v = ''true'' then (if ''bg-blue-800'' \<in> set cls then cls else cls @ [''bg-blue-800''])
         else removeAll ''bg-blue-800'' cls)
      else cls)"

definition tooltip_button_connected :: "string list \<Rightarrow> string list option" where
  "tooltip_button_connected cls = apply_classes cls ''hover:bg-slate-700 dark:hover:bg-slate-700 py-1 px-2 h-full''"

definition tooltip_img_connected :: "string list \<Rightarrow> string list option \<times> string" where
  "tooltip_img_connected cls = (apply_classes cls ''w-3 select-none'', ''false'')"

definition tooltip_img :: "string \<Rightarrow> string \<Rightarrow> string option \<Rightarrow> 'a ui" where
  "tooltip_img src alt cls =
     Elem ''img'' [(''src'', src), (''alt'', alt), (''draggable'', ''false''), (''class'', clsx [Some ''w-3 select-none'', cls])] [] []"

definition tooltip_button :: "string option \<Rightarrow> 'a \<Rightarrow> 'a ui list \<Rightarrow> 'a ui" where
  "tooltip_button cls act ks =
     Elem ''button'' [(''class'', clsx [Some ''hover:bg-slate-700 dark:hover:bg-slate-700 py-1 px-2 h-full'', cls])] [(''click'', act)] ks"

definition render_tip :: "tip \<Rightarrow> 'a ui" where
  "render_tip t =
     Elem ''div'' [(''id'', ''wt-editor-tooltip''),
       (''class'', class_map [(''visible'', tip_visible t), (''invisible'', \<not> tip_visible t)])] [] [plain ''slot'' []]"

end
