(* ===== verification/Pivots.thy ===== *)
theory Pivots
  imports Notebook_Events Template Utils
begin

text \<open>
  The elements that show pivots: \<open>webc/pivot.js\<close>, \<open>webc/pivot-pill.js\<close>, \<open>webc/drag-pill.js\<close>, the
  zone pivots are dropped on (\<open>webc/pivot-dropzone.js\<close>), the older uploader
  (\<open>webc/workcell-upload.js\<close>), and the two registers of drags in progress
  (\<open>webc/drag-in-progress.js\<close>, \<open>webc/pivot-drag-in-progress.js\<close>). The functions they import from
  files that do not have them are arguments.
\<close>

section \<open>Drags in progress\<close>

text \<open>
  A register tells its listeners whether a drag is going on. Listeners are elements, given by their
  number; \<open>shown\<close> is the field of each element that the register sets.
\<close>

record drag_register =
  members :: "nat list"
  in_progress :: bool
  shown :: "nat \<Rightarrow> bool"

definition new_register :: drag_register where
  "new_register = \<lparr>members = [], in_progress = False, shown = (\<lambda>l. False)\<rparr>"

definition reg_add :: "nat \<Rightarrow> drag_register \<Rightarrow> drag_register" where
  "reg_add l r = r\<lparr>members := (if l \<in> set (members r) then members r else members r @ [l]),
     shown := (shown r)(l := in_progress r)\<rparr>"

definition reg_remove :: "nat \<Rightarrow> drag_register \<Rightarrow> drag_register" where
  "reg_remove l r = r\<lparr>members := removeAll l (members r)\<rparr>"

text \<open>What an event of a type makes of the state; \<open>None\<close> when it is not expected.\<close>

definition next_drag :: "string \<Rightarrow> bool \<Rightarrow> bool option" where
  "next_drag ty now =
     (if ty = ''dragstart'' \<or> ty = ''dragenter'' \<and> \<not> now then Some True
      else if ty = ''dragend'' \<or> ty = ''drop'' \<or> ty = ''dragleave'' \<and> now then Some False
      else None)"

definition next_pivot_drag :: "string \<Rightarrow> bool \<Rightarrow> bool option" where
  "next_pivot_drag ty now =
     (if ty = ''dragenter'' then Some True
      else if ty = ''dragend'' \<or> ty = ''drop'' then Some False
      else None)"

definition broadcast :: "(string \<Rightarrow> bool \<Rightarrow> bool option) \<Rightarrow> string \<Rightarrow> drag_register \<Rightarrow> drag_register \<times> effect list" where
  "broadcast nxt ty r =
     (case nxt ty (in_progress r) of
        None \<Rightarrow> (r, [ConsoleWarn (''Unexpected drag event type'' @ ty)])
      | Some b \<Rightarrow> (r\<lparr>in_progress := b, shown := (\<lambda>l. if l \<in> set (members r) then b else shown r l)\<rparr>, []))"

datatype register_op = Register nat | Unregister nat | Broadcast string

fun register_step :: "(string \<Rightarrow> bool \<Rightarrow> bool option) \<Rightarrow> register_op \<Rightarrow> drag_register \<Rightarrow> drag_register" where
  "register_step nxt (Register l) r = reg_add l r"
| "register_step nxt (Unregister l) r = reg_remove l r"
| "register_step nxt (Broadcast ty) r = fst (broadcast nxt ty r)"

text \<open>What both registers promise: a drag that enters is on, one that ends or drops is over.\<close>

locale drag_state =
  fixes nxt :: "string \<Rightarrow> bool \<Rightarrow> bool option"
  assumes enters: "nxt ''dragenter'' False = Some True"
    and stays: "nxt ''dragenter'' True \<noteq> Some False"
    and drops: "nxt ''drop'' now = Some False"
    and ends: "nxt ''dragend'' now = Some False"
begin

definition synced :: "drag_register \<Rightarrow> bool" where
  "synced r \<longleftrightarrow> list_all (\<lambda>l. shown r l = in_progress r) (members r)"

lemma synced_step: "synced r \<Longrightarrow> synced (register_step nxt op r)"
  by (cases op) (auto simp: synced_def list_all_iff reg_add_def reg_remove_def broadcast_def split: option.splits)

lemma synced_steps: "synced r \<Longrightarrow> synced (fold (register_step nxt) ops r)"
  by (induction ops arbitrary: r) (simp_all add: synced_step)

lemma entered: "in_progress (register_step nxt (Broadcast ''dragenter'') r)"
  using enters stays by (cases "in_progress r") (auto simp: broadcast_def split: option.splits)

lemma over:
  "ty = ''drop'' \<or> ty = ''dragend'' \<Longrightarrow> \<not> in_progress (register_step nxt (Broadcast ty) r)"
  using drops ends by (auto simp: broadcast_def)

lemma last_event_counts:
  assumes "l \<in> set (members (fold (register_step nxt) ops new_register))"
  shows "shown (register_step nxt (Broadcast ''dragenter'') (fold (register_step nxt) ops new_register)) l
    \<and> \<not> shown (register_step nxt (Broadcast ''drop'') (fold (register_step nxt) ops new_register)) l"
proof -
  let ?r = "fold (register_step nxt) ops new_register"
  have s: "synced ?r" by (rule synced_steps) (simp add: synced_def new_register_def)
  have m: "l \<in> set (members (register_step nxt (Broadcast ty) ?r))" for ty
    using assms by (auto simp: broadcast_def split: option.splits)
  show ?thesis
    using synced_step [OF s, of "Broadcast ''dragenter''"] synced_step [OF s, of "Broadcast ''drop''"]
      m [of "''dragenter''"] m [of "''drop''"] entered [of ?r] over [of "''drop''" ?r]
    by (simp add: synced_def list_all_iff)
qed

end

interpretation any_drag: drag_state next_drag
  by unfold_locales (simp_all add: next_drag_def)

interpretation pivot_drag: drag_state next_pivot_drag
  by unfold_locales (simp_all add: next_pivot_drag_def)

text \<open>
  However elements come and go and whatever is dragged, every element that is registered shows
  whether a drag is in progress, and after a drop none does.
\<close>

theorem registered_elements_show_the_drag:
  shows "list_all (\<lambda>l. shown (fold (register_step next_pivot_drag) ops new_register) l
        = in_progress (fold (register_step next_pivot_drag) ops new_register))
      (members (fold (register_step next_pivot_drag) ops new_register))
    \<and> \<not> in_progress (register_step next_pivot_drag (Broadcast ''drop'') r)"
  using pivot_drag.synced_steps [of new_register ops] pivot_drag.over [of "''drop''" r]
  by (simp add: pivot_drag.synced_def new_register_def)

lemma drag_leave_is_reported:
  "broadcast next_pivot_drag ''dragleave'' r = (r, [ConsoleWarn ''Unexpected drag event typedragleave''])"
  "in_progress r \<Longrightarrow> \<not> in_progress (fst (broadcast next_drag ''dragleave'' r))"
  by (simp_all add: broadcast_def next_pivot_drag_def next_drag_def)

section \<open>Values as text\<close>

text \<open>The text of a value in a template or an attribute; null and undefined give the empty text.\<close>

fun js_text :: "json \<Rightarrow> string" where
  "js_text JNull = []"
| "js_text (JBool b) = (if b then ''true'' else ''false'')"
| "js_text (JNum n) = show_int n"
| "js_text (JStr s) = s"
| "js_text (JArr xs) = join_with '','' (map js_text xs)"
| "js_text (JObj kvs) = ''[object Object]''"

definition opt_text :: "json option \<Rightarrow> string" where
  "opt_text v = (case v of None \<Rightarrow> [] | Some j \<Rightarrow> js_text j)"

text \<open>\<open>===\<close>: objects and arrays are never the same after they were read from a text.\<close>

fun same_value :: "json option \<Rightarrow> json option \<Rightarrow> bool" where
  "same_value None None = True"
| "same_value (Some JNull) (Some JNull) = True"
| "same_value (Some (JBool a)) (Some (JBool b)) = (a = b)"
| "same_value (Some (JNum a)) (Some (JNum b)) = (a = b)"
| "same_value (Some (JStr a)) (Some (JStr b)) = (a = b)"
| "same_value _ _ = False"

section \<open>The zone\<close>

text \<open>
  \<open>pivot-events.js\<close> has no \<open>getPivotCreationData\<close>, \<open>hasPivotCreationData\<close>, \<open>isRegisteredPivot\<close> and
  \<open>hasDefinition\<close>: what they give is an argument. The data of a creation are a path and a value.
\<close>

record pivot_reader =
  creation_data :: "file_transfer option \<Rightarrow> (string \<times> string) option"
  has_creation_data :: "file_transfer option \<Rightarrow> bool"
  is_registered_pivot :: "file_transfer option \<Rightarrow> bool"
  has_definition :: "json \<Rightarrow> bool"

record drop_zone =
  zone_id :: nat
  zone_pivots :: "json list"
  zone_status :: string

definition has_file_data :: "file_transfer option \<Rightarrow> bool" where
  "has_file_data ev = (case ev of None \<Rightarrow> False | Some t \<Rightarrow> ''Files'' \<in> set (dt_types (as_transfer t)))"

definition is_valid_drop :: "pivot_reader \<Rightarrow> file_transfer option \<Rightarrow> bool" where
  "is_valid_drop R ev \<longleftrightarrow> has_creation_data R ev \<or> has_file_data ev \<or> is_registered_pivot R ev"

definition zone_drag_in :: "pivot_reader \<Rightarrow> file_transfer option \<Rightarrow> drop_zone \<Rightarrow> drop_zone \<times> effect list" where
  "zone_drag_in R ev z = (z\<lparr>zone_status := ''dragover''\<rparr>, snd (accept_drop ev (Some (is_valid_drop R))))"

definition zone_drag_out :: "pivot_reader \<Rightarrow> file_transfer option \<Rightarrow> drop_zone \<Rightarrow> drop_zone \<times> effect list" where
  "zone_drag_out R ev z = (z\<lparr>zone_status := []\<rparr>, snd (accept_drop ev (Some (is_valid_drop R))))"

definition drag_data :: "file_transfer option \<Rightarrow> pivot_error + json option" where
  "drag_data ev = get_pivot_drag_data (map_option as_transfer ev)"

text \<open>A pivot with a definition, if the data are one.\<close>

definition defined_pivot :: "pivot_reader \<Rightarrow> json option \<Rightarrow> json option" where
  "defined_pivot R d = (case d of Some p \<Rightarrow> if truthy p \<and> has_definition R p then Some p else None | None \<Rightarrow> None)"

definition is_pivot_in_dropzone :: "pivot_reader \<Rightarrow> json option \<Rightarrow> drop_zone \<Rightarrow> bool" where
  "is_pivot_in_dropzone R d z =
     (case defined_pivot R d of
        None \<Rightarrow> False
      | Some p \<Rightarrow> list_ex (\<lambda>q. same_value (jget q ''pivotid'') (jget p ''pivotid'')) (zone_pivots z))"

definition pick_keys :: "string list \<Rightarrow> json \<Rightarrow> json" where
  "pick_keys ks p = JObj (List.map_filter (\<lambda>k. map_option (Pair k) (jget p k)) ks)"

lemma picked_key: "jget (pick_keys ks p) k = (if k \<in> set ks then jget p k else None)"
proof -
  have "map_of (List.map_filter (\<lambda>k. map_option (Pair k) (jget p k)) ks) k = (if k \<in> set ks then jget p k else None)"
    by (induction ks) (auto simp: map_filter_simps split: option.splits)
  then show ?thesis by (simp add: pick_keys_def)
qed

definition add_pivot_from_knowledge_section :: "pivot_reader \<Rightarrow> json option \<Rightarrow> drop_zone \<Rightarrow> drop_zone" where
  "add_pivot_from_knowledge_section R d z =
     (case defined_pivot R d of
        None \<Rightarrow> z
      | Some p \<Rightarrow> z\<lparr>zone_pivots := zone_pivots z @ [pick_keys [''name'', ''pivotid'', ''args''] p], zone_status := []\<rparr>)"

definition import_csv :: "dropped_file \<Rightarrow> effect" where
  "import_csv f = Fetch (post_form ''/importcsv'' [(''file'', file_text f), (''name'', ''csv'')])"

definition upload_pivots :: "pivot_reader \<Rightarrow> file_transfer option \<Rightarrow> drop_zone \<Rightarrow> drop_zone \<times> effect list" where
  "upload_pivots R ev z =
     (z\<lparr>zone_status := []\<rparr>,
      (case creation_data R ev of
         None \<Rightarrow> []
       | Some (path, v) \<Rightarrow> [Fetch (http_get (''/api/pivot?'' @ query_string [(''query'', v), (''action'', ''edit-piql'')]))])
      @ (case ev of
           None \<Rightarrow> [ConsoleError ''no data files provided, moving on'']
         | Some t \<Rightarrow> map import_csv (dt_files t)))"

definition add_pivot :: "pivot_reader \<Rightarrow> file_transfer option \<Rightarrow> drag_register \<Rightarrow> drop_zone
    \<Rightarrow> drag_register \<times> effect list \<times> (pivot_error + drop_zone)" where
  "add_pivot R ev r z =
     (let r' = fst (broadcast next_pivot_drag ''drop'' r); effs = [PreventDefault, StopPropagation]
      in case drag_data ev of
           Inl e \<Rightarrow> (r', effs, Inl e)
         | Inr d \<Rightarrow>
             if is_pivot_in_dropzone R d z then (r', effs, Inr z)
             else if is_registered_pivot R ev then (r', effs, Inr (add_pivot_from_knowledge_section R d z))
             else (let (z', up) = upload_pivots R ev z in (r', effs @ up, Inr z')))"

text \<open>The answers, each when it arrives: the pivot of a query, and the one of a file.\<close>

definition query_answered :: "json option \<Rightarrow> drop_zone \<Rightarrow> drop_zone" where
  "query_answered j z = (case j of None \<Rightarrow> z | Some p \<Rightarrow> z\<lparr>zone_pivots := zone_pivots z @ [p]\<rparr>)"

definition display_name :: "string \<Rightarrow> string" where
  "display_name nm = js_slice nm 0 (- 4)"

definition import_answered :: "dropped_file \<Rightarrow> json option \<Rightarrow> drop_zone \<Rightarrow> drop_zone \<times> effect list" where
  "import_answered f j z =
     (case j of
        Some d \<Rightarrow>
          if d = JNull then (z, [ConsoleError ''Posting data was not successful:''])
          else (z\<lparr>zone_pivots := zone_pivots z @ [JObj ((''name'', JStr (display_name (file_name f)))
                  # List.map_filter (\<lambda>(k, v). map_option (Pair k) v) [(''pivotid'', jget d ''pivot''), (''args'', jget d ''args'')])]\<rparr>, [])
      | None \<Rightarrow> (z, [ConsoleError ''Posting data was not successful:'']))"

definition is_at_rest :: "drag_register \<Rightarrow> drop_zone \<Rightarrow> bool" where
  "is_at_rest r z \<longleftrightarrow> \<not> shown r (zone_id z) \<and> zone_pivots z \<noteq> []"

definition zone_style :: "drag_register \<Rightarrow> drop_zone \<Rightarrow> string option" where
  "zone_style r z =
     (if is_at_rest r z then Some ''border-none bg-transparent''
      else if zone_status z = ''dragover'' then Some ''bg-neutral-100 dark:bg-neutral-600''
      else if zone_status z = [] then Some ''bg-neutral-200 dark:bg-neutral-900''
      else None)"

datatype zone_action = DragIn | DragOut | DropOn

definition pivot_element :: "json \<Rightarrow> zone_action ui" where
  "pivot_element p = Elem ''wt-pivot'' [(''pivotid'', opt_text (jget p ''pivotid'')), (''args'', opt_text (jget p ''args'')),
     (''name'', opt_text (jget p ''name''))] [] []"

definition render_zone :: "drag_register \<Rightarrow> drop_zone \<Rightarrow> zone_action ui" where
  "render_zone r z =
     Elem ''div'' [(''class'', opt_text (map_option JStr (zone_style r z)))]
       [(''dragover'', DragIn), (''dragenter'', DragIn), (''dragleave'', DragOut), (''dragend'', DragOut), (''drop'', DropOn)]
       [when_ui (\<not> is_at_rest r z) (plain ''form''
          [Elem ''input'' [(''type'', ''file''), (''name'', ''file''), (''accept'', ''.csv'')] [] [],
           Elem ''label'' [(''for'', ''file'')] [] [TextNode ''Drop here to create a pivot'']]),
        Elem ''div'' [(''class'', class_map
            [(''blur-[2px]'', zone_status z = ''dragover'' \<and> shown r (zone_id z)),
             (''h-32'', shown r (zone_id z)), (''h-24'', \<not> shown r (zone_id z))])] [] (map pivot_element (zone_pivots z))]"

text \<open>
  C29: A registered pivot that is dropped on the zone is added once: if no pivot of the zone has its id, the zone gets one
  more, at the end, with its name, its id and its arguments and nothing else; if one has, the zone stays as it is.
  Either way the drag is over, nothing is sent, and dropping the pivot again changes nothing.
\<close>

theorem registered_pivot_is_added_once:
  assumes "drag_data ev = Inr (Some p)" and "truthy p" and "has_definition R p" and "is_registered_pivot R ev"
    and "jget p ''pivotid'' = Some (JStr i)" and "zone_id z \<in> set (members r)"
  shows "\<exists>r' z'. add_pivot R ev r z = (r', [PreventDefault, StopPropagation], Inr z')
    \<and> (if list_ex (\<lambda>q. jget q ''pivotid'' = Some (JStr i)) (zone_pivots z) then z' = z
       else zone_status z' = [] \<and> (\<exists>q. zone_pivots z' = zone_pivots z @ [q]
              \<and> (\<forall>k. jget q k = (if k \<in> {''name'', ''pivotid'', ''args''} then jget p k else None))))
    \<and> \<not> in_progress r' \<and> is_at_rest r' z'
    \<and> add_pivot R ev r' z' = (r', [PreventDefault, StopPropagation], Inr z')"
proof -
  define r' where "r' = fst (broadcast next_pivot_drag ''drop'' r)"
  define z' where "z' = (if is_pivot_in_dropzone R (Some p) z then z else add_pivot_from_knowledge_section R (Some p) z)"
  have d: "defined_pivot R (Some p) = Some p" using assms(2,3) by (simp add: defined_pivot_def)
  have same: "same_value x (Some (JStr i)) \<longleftrightarrow> x = Some (JStr i)" for x
    by (cases "(x, Some (JStr i))" rule: same_value.cases) auto
  have inside: "is_pivot_in_dropzone R (Some p) y \<longleftrightarrow> list_ex (\<lambda>q. jget q ''pivotid'' = Some (JStr i)) (zone_pivots y)" for y
    using d assms(5) by (simp add: is_pivot_in_dropzone_def same)
  have a: "add_pivot R ev r z = (r', [PreventDefault, StopPropagation], Inr z')"
    using assms(1,4) by (simp add: add_pivot_def r'_def z'_def)
  have picked: "jget (pick_keys [''name'', ''pivotid'', ''args''] p) k = (if k \<in> {''name'', ''pivotid'', ''args''} then jget p k else None)" for k
    by (simp only: picked_key list.set)
  have new: "zone_status z' = [] \<and> zone_pivots z' = zone_pivots z @ [pick_keys [''name'', ''pivotid'', ''args''] p]"
    if "\<not> list_ex (\<lambda>q. jget q ''pivotid'' = Some (JStr i)) (zone_pivots z)"
    using that d by (simp add: z'_def inside add_pivot_from_knowledge_section_def)
  have old: "z' = z" if "list_ex (\<lambda>q. jget q ''pivotid'' = Some (JStr i)) (zone_pivots z)"
    using that by (simp add: z'_def inside)
  have one: "list_ex (\<lambda>q. jget q ''pivotid'' = Some (JStr i)) (zone_pivots z')"
    using new old picked assms(5) by (cases "list_ex (\<lambda>q. jget q ''pivotid'' = Some (JStr i)) (zone_pivots z)") auto
  have over: "fst (broadcast next_pivot_drag ''drop'' r') = r'" "\<not> in_progress r'"
    by (auto simp: r'_def broadcast_def next_pivot_drag_def)
  have again: "add_pivot R ev r' z' = (r', [PreventDefault, StopPropagation], Inr z')"
    using assms(1) one over(1) inside by (simp add: add_pivot_def)
  have "zone_id z' = zone_id z" using d by (simp add: z'_def add_pivot_from_knowledge_section_def)
  then have "is_at_rest r' z'" using one assms(6)
    by (auto simp: is_at_rest_def r'_def broadcast_def next_pivot_drag_def)
  with a new old picked over(2) again show ?thesis by (intro exI [of _ r'] exI [of _ z']) auto
qed

definition plain_reader :: pivot_reader where
  "plain_reader = \<lparr>creation_data = (\<lambda>ev. None), has_creation_data = (\<lambda>ev. False), is_registered_pivot = (\<lambda>ev. True),
     has_definition = (\<lambda>p. True)\<rparr>"

definition example_drop :: file_transfer where
  "example_drop = \<lparr>dt_data = [(''pivotcreation'', Parses (JObj [(''pivotid'', JStr ''p1'')]))], effect_allowed = ''copy'',
     drag_image = None, dt_items = None, dt_files = []\<rparr>"

theorem registered_pivot_is_added_once_witness:
  "\<exists>r' z'. add_pivot plain_reader (Some example_drop) (reg_add 3 new_register) \<lparr>zone_id = 3, zone_pivots = [], zone_status = []\<rparr>
      = (r', [PreventDefault, StopPropagation], Inr z') \<and> is_at_rest r' z'"
  using registered_pivot_is_added_once [of "Some example_drop" "JObj [(''pivotid'', JStr ''p1'')]" plain_reader "''p1''"
      "\<lparr>zone_id = 3, zone_pivots = [], zone_status = []\<rparr>" "reg_add 3 new_register"]
  by (auto simp: example_drop_def plain_reader_def drag_data_def get_pivot_drag_data_def pivot_data_format_def
      transfer.truncate_def reg_add_def new_register_def)

text \<open>The zone never loses a pivot.\<close>

lemma zone_pivots_grow:
  "prefix (zone_pivots z) (zone_pivots (query_answered j z))"
  "prefix (zone_pivots z) (zone_pivots (fst (import_answered f j z)))"
  "add_pivot R ev r z = (r', effs, Inr z') \<Longrightarrow> prefix (zone_pivots z) (zone_pivots z')"
  by (auto simp: query_answered_def import_answered_def add_pivot_def add_pivot_from_knowledge_section_def
      upload_pivots_def Let_def split: option.splits sum.splits if_splits)

section \<open>The uploader\<close>

record uploader =
  up_pivots :: "(string \<times> json option \<times> json option) list"
  up_status :: string

definition has_suffix :: "string \<Rightarrow> string \<Rightarrow> bool" where
  "has_suffix s sfx \<longleftrightarrow> length sfx \<le> length s \<and> drop (length s - length sfx) s = sfx"

text \<open>\<open>replace(".", "_")\<close> on a text replaces the first dot.\<close>

fun replace_first :: "char \<Rightarrow> char \<Rightarrow> string \<Rightarrow> string" where
  "replace_first a b [] = []"
| "replace_first a b (c # cs) = (if c = a then b # cs else c # replace_first a b cs)"

definition file_from_selection_data :: "string \<times> string \<Rightarrow> dropped_file" where
  "file_from_selection_data d =
     \<lparr>file_name = replace_first (CHR ''.'') (CHR ''_'') (fst d) @ ''-'' @ snd d @ ''.csv'',
      file_text = fst d @ [CHR 10] @ snd d\<rparr>"

definition uploader_valid_drop :: "pivot_reader \<Rightarrow> file_transfer option \<Rightarrow> bool" where
  "uploader_valid_drop R ev \<longleftrightarrow> has_creation_data R ev \<or> has_file_data ev"

definition uploader_drag_in :: "pivot_reader \<Rightarrow> file_transfer option \<Rightarrow> uploader \<Rightarrow> uploader \<times> effect list" where
  "uploader_drag_in R ev u = (u\<lparr>up_status := ''dragover''\<rparr>, snd (accept_drop ev (Some (uploader_valid_drop R))))"

definition uploader_drag_out :: "pivot_reader \<Rightarrow> file_transfer option \<Rightarrow> uploader \<Rightarrow> uploader \<times> effect list" where
  "uploader_drag_out R ev u = (u\<lparr>up_status := []\<rparr>, snd (accept_drop ev (Some (uploader_valid_drop R))))"

definition get_files :: "pivot_reader \<Rightarrow> file_transfer option \<Rightarrow> dropped_file list option" where
  "get_files R ev =
     (case creation_data R ev of
        Some d \<Rightarrow> Some [file_from_selection_data d]
      | None \<Rightarrow> map_option dt_files ev)"

fun upload_loop :: "dropped_file list \<Rightarrow> effect list" where
  "upload_loop [] = []"
| "upload_loop (f # fs) =
     (if \<not> has_suffix (file_name f) ''csv'' then [ConsoleError ''invalid extension, please provide CSV files only'']
      else import_csv f # upload_loop fs)"

definition upload_csv :: "pivot_reader \<Rightarrow> file_transfer option \<Rightarrow> effect list" where
  "upload_csv R ev = [PreventDefault, StopPropagation] @
     (case get_files R ev of
        None \<Rightarrow> [ConsoleError ''no data files provided, moving on'']
      | Some fs \<Rightarrow> upload_loop fs)"

definition csv_answered :: "dropped_file \<Rightarrow> json option \<Rightarrow> uploader \<Rightarrow> uploader \<times> effect list" where
  "csv_answered f j u =
     (case j of
        Some d \<Rightarrow>
          if d = JNull then (u, [ConsoleError ''Posting data was not successful:''])
          else (u\<lparr>up_pivots := up_pivots u @ [(display_name (file_name f), jget d ''pivot'', jget d ''rightPath'')], up_status := []\<rparr>, [])
      | None \<Rightarrow> (u, [ConsoleError ''Posting data was not successful:'']))"

definition render_uploader :: "uploader \<Rightarrow> zone_action ui" where
  "render_uploader u =
     plain ''div''
       [plain ''div'' (map (\<lambda>(nm, i, rp). Elem ''wt-pivot'' [(''type'', ''pivot''), (''pivotid'', opt_text i),
          (''rightpath'', opt_text rp), (''name'', nm)] [] []) (up_pivots u)),
        Elem ''div'' [(''id'', ''drop-area''), (''class'', class_map
            [(''dark:bg-neutral-600'', up_status u = ''dragover''), (''bg-neutral-100'', up_status u = ''dragover''),
             (''dark:bg-neutral-900'', up_status u = []), (''bg-neutral-200'', up_status u = [])])]
          [(''dragover'', DragIn), (''dragenter'', DragIn), (''dragleave'', DragOut), (''dragend'', DragOut), (''drop'', DropOn)]
          [plain ''form'' [Elem ''input'' [(''type'', ''file''), (''name'', ''file''), (''accept'', ''.csv'')] [] [],
             Elem ''label'' [(''for'', ''file'')] [] [TextNode ''Add a pivot'']]]]"

lemma upload_loop_sends: "filter (\<lambda>e. \<exists>r. e = Fetch r) (upload_loop fs)
    = map import_csv (takeWhile (\<lambda>f. has_suffix (file_name f) ''csv'') fs)"
  by (induction fs) (auto simp: import_csv_def)

lemma upload_loop_error: "ConsoleError ''invalid extension, please provide CSV files only'' \<in> set (upload_loop fs)
    \<longleftrightarrow> \<not> list_all (\<lambda>f. has_suffix (file_name f) ''csv'') fs"
  by (induction fs) (auto simp: import_csv_def)

text \<open>
  Dropping files uploads those before the first whose name does not end like a table, each once and
  in order, and an error is reported exactly if there is such a file.
\<close>

theorem files_are_uploaded_up_to_first_invalid:
  assumes "creation_data R (Some t) = None"
  shows "filter (\<lambda>e. \<exists>r. e = Fetch r) (upload_csv R (Some t))
        = map import_csv (takeWhile (\<lambda>f. has_suffix (file_name f) ''csv'') (dt_files t))
    \<and> (ConsoleError ''invalid extension, please provide CSV files only'' \<in> set (upload_csv R (Some t))
        \<longleftrightarrow> \<not> list_all (\<lambda>f. has_suffix (file_name f) ''csv'') (dt_files t))"
  using assms by (simp add: upload_csv_def get_files_def upload_loop_sends upload_loop_error)

theorem files_are_uploaded_up_to_first_invalid_witness:
  "ConsoleError ''invalid extension, please provide CSV files only'' \<notin> set (upload_csv plain_reader (Some example_drop))"
  using files_are_uploaded_up_to_first_invalid [of plain_reader example_drop]
  by (simp add: plain_reader_def example_drop_def)

text \<open>
  What is selected in a cell and dropped on the uploader is sent as one table whose rows are the
  path and the value, and the pivot that comes back is shown under their name.
\<close>

theorem selection_is_uploaded:
  assumes "creation_data R ev = Some (path, v)"
  shows "\<exists>f. upload_csv R ev = [PreventDefault, StopPropagation, import_csv f]
    \<and> file_text f = path @ [CHR 10] @ v
    \<and> fst (last (up_pivots (fst (csv_answered f (Some (JObj kvs)) u)))) = replace_first (CHR ''.'') (CHR ''_'') path @ ''-'' @ v"
proof -
  let ?f = "file_from_selection_data (path, v)"
  have suffix: "has_suffix (x @ ''.csv'') ''csv''" for x by (simp add: has_suffix_def)
  have "has_suffix (file_name ?f) ''csv''"
    using suffix [of "replace_first (CHR ''.'') (CHR ''_'') path @ ''-'' @ v"] by (simp add: file_from_selection_data_def)
  moreover have "display_name (x @ ''.csv'') = x" for x
    by (simp add: display_name_def js_slice_def slice_index_def Let_def)
  from this [of "replace_first (CHR ''.'') (CHR ''_'') path @ ''-'' @ v"]
  have "display_name (file_name ?f) = replace_first (CHR ''.'') (CHR ''_'') path @ ''-'' @ v"
    by (simp add: file_from_selection_data_def)
  ultimately show ?thesis using assms
    by (intro exI [of _ ?f]) (simp add: upload_csv_def get_files_def csv_answered_def, simp add: file_from_selection_data_def)
qed

theorem selection_is_uploaded_witness:
  "\<exists>f. upload_csv (plain_reader\<lparr>creation_data := (\<lambda>ev. Some (''src.ip.v4'', ''10.0.0.1''))\<rparr>) None = [PreventDefault, StopPropagation, import_csv f]
    \<and> file_text f = ''src.ip.v4'' @ [CHR 10] @ ''10.0.0.1''
    \<and> fst (last (up_pivots (fst (csv_answered f (Some (JObj [])) \<lparr>up_pivots = [], up_status = []\<rparr>)))) = ''src_ip.v4-10.0.0.1''"
  using selection_is_uploaded [of "plain_reader\<lparr>creation_data := (\<lambda>ev. Some (''src.ip.v4'', ''10.0.0.1''))\<rparr>" None "''src.ip.v4''" "''10.0.0.1''" "[]"
      "\<lparr>up_pivots = [], up_status = []\<rparr>"]
  by simp

section \<open>Pivots that are dragged\<close>

text \<open>
  \<open>webc/pivot.js\<close> gives an object to \<open>setData\<close>, which takes its text. With the transfer, its drop
  effect.
\<close>

record pivot_button =
  pb_pivotid :: "string option"
  pb_name :: "string option"
  pb_args :: "json option"

definition object_text :: string where
  "object_text = ''[object Object]''"

definition pivot_start_drag :: "pivot_button \<Rightarrow> transfer option \<Rightarrow> pivot_error + transfer \<times> string" where
  "pivot_start_drag p ev =
     (case set_pivot_drag_data ev (Unparsable object_text) of Inl e \<Rightarrow> Inl e | Inr t \<Rightarrow> Inr (t, ''link''))"

datatype pill_action = StartDrag | EndDrag

definition render_pivot_button :: "pivot_button \<Rightarrow> pill_action ui" where
  "render_pivot_button p =
     Elem ''button'' [(''draggable'', ''true''), (''role'', ''button'')] [(''dragstart'', StartDrag), (''dragend'', EndDrag)]
       [plain ''span'' [TextNode (opt_text (map_option JStr (pb_name p)))]]"

text \<open>The pill outside of the cells.\<close>

record pill_element =
  pe_pivot :: json
  pe_loading :: bool
  pe_pivotid :: string

text \<open>The first path a pivot is on; a path that is not a text makes \<open>startsWith\<close> fail (\<open>None\<close>).\<close>

definition pivot_on :: "json \<Rightarrow> string option" where
  "pivot_on p =
     (case jget p ''on'' of
        Some (JArr (x # xs)) \<Rightarrow> if truthy x then (case x of JStr s \<Rightarrow> Some s | _ \<Rightarrow> None) else Some []
      | Some (JStr (c # cs)) \<Rightarrow> Some [c]
      | _ \<Rightarrow> Some [])"

definition pretty_on :: "string \<Rightarrow> string" where
  "pretty_on s = (if starts_with s ''$.'' then js_slice_from s 2 else s)"

definition pill_drag_start :: "json \<Rightarrow> transfer option \<Rightarrow> page \<Rightarrow> pivot_error + transfer \<times> page" where
  "pill_drag_start p ev pg =
     (case set_pivot_drag_data ev (Parses p) of
        Inl e \<Rightarrow> Inl e
      | Inr t \<Rightarrow> set_pivot_drag_image (Some t) p pg)"

definition pill_drag_end :: "page \<Rightarrow> page" where
  "pill_drag_end = remove_pivot_drag_image"

definition render_pill_element :: "pill_element \<Rightarrow> pill_action ui option" where
  "render_pill_element e =
     (if pe_loading e
      then Some (Elem ''div'' [(''title'', ''Pivot id: '' @ pe_pivotid e), (''draggable'', ''false'')] [] [TextNode ''Loading pivot...''])
      else map_option (\<lambda>on.
        Elem ''div'' [(''draggable'', ''true''), (''data-value'', opt_text (jget (pe_pivot e) ''value'')),
            (''data-on'', case jget (pe_pivot e) ''on'' of None \<Rightarrow> ''false'' | Some v \<Rightarrow> js_text v)]
          [(''dragstart'', StartDrag), (''dragend'', EndDrag)]
          [plain ''div''
            [when_ui (on \<noteq> []) (plain ''div'' [TextNode (pretty_on on)]),
             plain ''div'' [TextNode (opt_text (js_or (jget (pe_pivot e) ''name'') (jget (pe_pivot e) ''value'')))]]])
        (pivot_on (pe_pivot e)))"

text \<open>
  A pivot dragged from a pill is what the place it is dropped on reads; one dragged from the button
  of \<open>pivot.js\<close> cannot be read by any of them: the text of its object is not a value.
\<close>

theorem pill_drags_are_read_button_drags_are_not:
  assumes "pill_drag_start p ev pg = Inr (t, pg')" and "pivot_start_drag b ev = Inr (t', eff)"
  shows "get_pivot_drag_data (Some t) = Inr (Some p) \<and> has_pivot_data (Some t)
    \<and> get_pivot_drag_data (Some t') = Inl BadJson \<and> has_pivot_data (Some t')"
  using assms
  by (auto simp: pill_drag_start_def pivot_start_drag_def set_pivot_drag_data_def set_pivot_drag_image_def
      get_pivot_drag_data_def has_pivot_data_def dt_types_def object_text_def split: sum.splits option.splits json.splits)

theorem pill_drags_are_read_button_drags_are_not_witness:
  "get_pivot_drag_data (Some (fst (projr (pivot_start_drag \<lparr>pb_pivotid = Some ''p'', pb_name = None, pb_args = None\<rparr>
      (Some \<lparr>dt_data = [], effect_allowed = [], drag_image = None\<rparr>))))) = Inl BadJson"
  using pill_drags_are_read_button_drags_are_not [of "JObj [(''value'', JStr ''x'')]" "Some \<lparr>dt_data = [], effect_allowed = [], drag_image = None\<rparr>" "[]"
      "fst (projr (pill_drag_start (JObj [(''value'', JStr ''x'')]) (Some \<lparr>dt_data = [], effect_allowed = [], drag_image = None\<rparr>) []))"
      "snd (projr (pill_drag_start (JObj [(''value'', JStr ''x'')]) (Some \<lparr>dt_data = [], effect_allowed = [], drag_image = None\<rparr>) []))"
      "\<lparr>pb_pivotid = Some ''p'', pb_name = None, pb_args = None\<rparr>"
      "fst (projr (pivot_start_drag \<lparr>pb_pivotid = Some ''p'', pb_name = None, pb_args = None\<rparr>
        (Some \<lparr>dt_data = [], effect_allowed = [], drag_image = None\<rparr>)))" "''link''"]
  by (simp add: pill_drag_start_def pivot_start_drag_def set_pivot_drag_data_def set_pivot_drag_image_def pivot_label_def
      js_or_def)

section \<open>Data sources that are dragged\<close>

record drag_pill =
  dp_type :: "string option"
  dp_source :: "string option"
  dp_title :: "string option"
  dp_data :: json

definition drag_pill_connected :: "drag_pill \<Rightarrow> drag_pill" where
  "drag_pill_connected d = d\<lparr>dp_data := JObj (List.map_filter (\<lambda>(k, v). map_option (\<lambda>s. (k, JStr s)) v)
     [(''type'', dp_type d), (''dataSource'', dp_source d), (''title'', dp_title d)])\<rparr>"

definition drag_pill_start :: "drag_pill \<Rightarrow> transfer \<Rightarrow> transfer \<times> string" where
  "drag_pill_start d t = (set_datasource_drag_data t (dp_data d), ''link'')"

text \<open>The element and the title of the cell that is asked for, by a function no file has.\<close>

definition drag_pill_double_click :: "drag_pill \<Rightarrow> (string \<times> string) option" where
  "drag_pill_double_click d =
     (if jget (dp_data d) ''type'' = Some (JStr ''datasource'')
      then Some (''wt-data'', opt_text (jget (dp_data d) ''title'')) else None)"

lemma dragged_source_is_read:
  assumes "drag_pill_start (drag_pill_connected d) (as_transfer t) = (t', eff)"
  shows "map_of (dt_data t') datasource_load = Some (Parses (dp_data (drag_pill_connected d)))"
  using assms by (auto simp: drag_pill_start_def set_datasource_drag_data_def)

end
