(* ===== verification/Frameworks.thy ===== *)
theory Frameworks
  imports Template Old_Editors Pivots
begin

text \<open>
  Audits and frameworks: \<open>webc/audit.js\<close>, \<open>webc/framework.js\<close> and their editors
  (\<open>webc/audit-editor.js\<close>, \<open>webc/framework-editor.js\<close>). The parameters of the address
  (\<open>URLSearchParams\<close>) are a list of names and values; the text of a date is an argument.
\<close>

type_synonym url_params = "(string \<times> string) list"

definition url_param :: "string \<Rightarrow> url_params \<Rightarrow> string option" where
  "url_param k ps = (case map_of ps k of Some v \<Rightarrow> if v = [] then None else Some v | None \<Rightarrow> None)"

section \<open>An audit\<close>

text \<open>
  \<open>aud_shared\<close>: the array \<open>audit.Playbooks\<close> is the same as \<open>playbooks\<close>, so what is changed in the
  one is changed in the other. The playbooks are objects with an \<open>ID\<close>.
\<close>

record audit =
  aud_playbooks :: "json list"
  aud_audit :: "json option"
  aud_shared :: bool

definition new_audit :: audit where
  "new_audit = \<lparr>aud_playbooks = [], aud_audit = None, aud_shared = False\<rparr>"

fun set_key :: "string \<Rightarrow> json \<Rightarrow> json \<Rightarrow> json" where
  "set_key k v (JObj kvs) = JObj (jset k v kvs)"
| "set_key k v j = j"

text \<open>The audit with its playbooks as they are.\<close>

definition audit_value :: "audit \<Rightarrow> json option" where
  "audit_value a = map_option (\<lambda>j. if aud_shared a then set_key ''Playbooks'' (JArr (aud_playbooks a)) j else j) (aud_audit a)"

definition get_audit :: "url_params \<Rightarrow> effect list" where
  "get_audit ps =
     (case url_param ''id'' ps of
        None \<Rightarrow> []
      | Some i \<Rightarrow> [Fetch (post_json ''/api/framework?action=read&audit=true'' (JObj [(''id'', JStr i)]))])"

definition audit_arrived :: "json option \<Rightarrow> audit \<Rightarrow> audit" where
  "audit_arrived j a = (case j of None \<Rightarrow> a | Some v \<Rightarrow> a\<lparr>aud_audit := Some v, aud_shared := False\<rparr>)"

definition update_audit :: "url_params \<Rightarrow> audit \<Rightarrow> request option" where
  "update_audit ps a =
     (case url_param ''id'' ps of
        None \<Rightarrow> None
      | Some i \<Rightarrow>
          let u = ''/api/framework?action=update&audit=true&id='' @ i
          in Some (case audit_value a of Some j \<Rightarrow> post_json u j | None \<Rightarrow> post_empty u))"

definition audit_updated :: "response \<Rightarrow> effect list" where
  "audit_updated r = (if status r = 200 then [Navigate ''/audits''] else [])"

definition list_framework_playbooks :: "url_params \<Rightarrow> effect list" where
  "list_framework_playbooks ps =
     (case url_param ''framework'' ps of
        None \<Rightarrow> []
      | Some f \<Rightarrow> [Fetch (post_empty (''/api/framework?action=list-framework-playbooks&framework='' @ f))])"

text \<open>What the server gives is an array; the audit keeps the playbooks it has.\<close>

definition playbooks_arrived :: "response \<Rightarrow> audit \<Rightarrow> audit" where
  "playbooks_arrived r a =
     (case (status r = 200, payload r) of
        (True, Some (JArr ps)) \<Rightarrow> a\<lparr>aud_audit := audit_value a, aud_playbooks := ps, aud_shared := False\<rparr>
      | _ \<Rightarrow> a)"

text \<open>The dialog that replaces a source, with the attributes it is given.\<close>

definition datasource_replace :: "string \<Rightarrow> (string \<times> (string \<times> string) list) \<times> string" where
  "datasource_replace i = ((''wt-datasource-replace'', [(''notebookId'', i), (''isAudit'', ''true'')]), ''replace-datasource'')"

text \<open>
  \<open>updateDatasource\<close> puts the notebook in the place of the first playbook with its \<open>ID\<close>, and returns
  before the line that gives the playbooks to the audit; that line is an exception without an audit
  (\<open>None\<close>).
\<close>

definition with_framework_flag :: "json option \<Rightarrow> json \<Rightarrow> json" where
  "with_framework_flag isfw nb = (case isfw of Some v \<Rightarrow> set_key ''IsFramework'' v nb | None \<Rightarrow> nb)"

fun replace_playbook :: "json \<Rightarrow> json list \<Rightarrow> json list option" where
  "replace_playbook nb [] = None"
| "replace_playbook nb (p # ps) =
     (if same_value (jget p ''ID'') (jget nb ''ID'') then Some (with_framework_flag (jget p ''IsFramework'') nb # ps)
      else map_option ((#) p) (replace_playbook nb ps))"

definition update_datasource :: "json \<Rightarrow> audit \<Rightarrow> audit option" where
  "update_datasource nb a =
     (case replace_playbook nb (aud_playbooks a) of
        Some ps \<Rightarrow> Some (a\<lparr>aud_playbooks := ps\<rparr>)
      | None \<Rightarrow> (case aud_audit a of None \<Rightarrow> None | Some j \<Rightarrow> Some (a\<lparr>aud_shared := True\<rparr>)))"

lemma replace_playbook_ids:
  "replace_playbook nb ps = Some qs \<Longrightarrow> jget nb ''ID'' = Some (JStr i) \<Longrightarrow>
     map (\<lambda>p. jget p ''ID'') qs = map (\<lambda>p. jget p ''ID'') ps \<and> nb \<in> {q. \<exists>v. with_framework_flag v q \<in> set qs}"
proof (induction ps arbitrary: qs)
  case (Cons p ps)
  show ?case
  proof (cases "same_value (jget p ''ID'') (jget nb ''ID'')")
    case True
    then have "jget p ''ID'' = Some (JStr i)" using Cons.prems(2)
      by (cases "(jget p ''ID'', Some (JStr i))" rule: same_value.cases) auto
    moreover have "jget (with_framework_flag v nb) ''ID'' = jget nb ''ID''" for v
      by (cases nb) (auto simp: with_framework_flag_def split: option.splits)
    ultimately show ?thesis using True Cons.prems by auto
  next
    case False
    then show ?thesis using Cons.prems Cons.IH by auto
  qed
qed simp

text \<open>
  Replacing the sources of a playbook of an audit shows the new notebook in its place, but saving
  the audit afterwards sends the same as before: the replacement is lost.
\<close>

theorem replaced_source_is_not_saved:
  assumes "jget nb ''ID'' = Some (JStr i)" and "Some (JStr i) \<in> (\<lambda>p. jget p ''ID'') ` set (aud_playbooks a)"
    and "\<not> aud_shared a"
  shows "\<exists>a'. update_datasource nb a = Some a' \<and> map (\<lambda>p. jget p ''ID'') (aud_playbooks a') = map (\<lambda>p. jget p ''ID'') (aud_playbooks a)
    \<and> update_audit ps a' = update_audit ps a"
proof -
  have "replace_playbook nb qs \<noteq> None" if "Some (JStr i) \<in> (\<lambda>p. jget p ''ID'') ` set qs" for qs
    using that
  proof (induction qs)
    case (Cons q qs)
    then show ?case using assms(1) by (cases "jget q ''ID'' = Some (JStr i)") auto
  qed simp
  with assms(2) obtain qs where qs: "replace_playbook nb (aud_playbooks a) = Some qs" by blast
  have "audit_value (a\<lparr>aud_playbooks := qs\<rparr>) = audit_value a" using assms(3) by (simp add: audit_value_def)
  then have "update_audit ps (a\<lparr>aud_playbooks := qs\<rparr>) = update_audit ps a"
    by (simp only: update_audit_def)
  with replace_playbook_ids [OF qs assms(1)] show ?thesis by (simp add: update_datasource_def qs)
qed

definition example_audit :: audit where
  "example_audit = \<lparr>aud_playbooks = [JObj [(''ID'', JStr ''n1''), (''Title'', JStr ''old'')]],
     aud_audit = Some (JObj [(''ID'', JStr ''a1''), (''Playbooks'', JArr [])]), aud_shared = False\<rparr>"

theorem replaced_source_is_not_saved_witness:
  "\<exists>a'. update_datasource (JObj [(''ID'', JStr ''n1''), (''Title'', JStr ''new'')]) example_audit = Some a'
    \<and> update_audit [(''id'', ''a1'')] a' = update_audit [(''id'', ''a1'')] example_audit"
  using replaced_source_is_not_saved [of "JObj [(''ID'', JStr ''n1''), (''Title'', JStr ''new'')]" "''n1''" example_audit "[(''id'', ''a1'')]"]
  by (auto simp: example_audit_def)

text \<open>A notebook that is none of the playbooks makes the audit take them all over, and from then on replacements are saved.\<close>

lemma foreign_notebook_shares:
  assumes "replace_playbook nb (aud_playbooks a) = None" and "aud_audit a = Some (JObj kvs)"
  shows "\<exists>a'. update_datasource nb a = Some a' \<and> audit_value a' = Some (JObj (jset ''Playbooks'' (JArr (aud_playbooks a)) kvs))"
  using assms by (simp add: update_datasource_def audit_value_def)

section \<open>Rendering an audit\<close>

datatype audit_action = ReplaceSources "json option" | SaveAudit

text \<open>A playbook without an owner is an exception (\<open>None\<close>).\<close>

definition playbook_title :: "(json option \<Rightarrow> string) \<Rightarrow> json \<Rightarrow> string" where
  "playbook_title date p =
     (if otruthy (jget p ''Title'') then opt_text (jget p ''Title'') else ''Event - '' @ date (jget p ''Created''))"

definition owner_field :: "string \<Rightarrow> json \<Rightarrow> string option" where
  "owner_field k p =
     (case jget p ''Owner'' of None \<Rightarrow> None | Some JNull \<Rightarrow> None | Some ow \<Rightarrow> Some (opt_text (jget ow k)))"

definition playbook_link :: "(json option \<Rightarrow> string) \<Rightarrow> json \<Rightarrow> 'a ui" where
  "playbook_link date p =
     Elem ''a'' [(''href'', ''/notebook/'' @ opt_text (jget p ''ID''))] [] [TextNode (playbook_title date p)]"

definition playbook_info :: "json \<Rightarrow> string \<Rightarrow> 'a ui" where
  "playbook_info p nm =
     plain ''div'' [plain ''p'' [plain ''span'' [TextNode nm]],
       plain ''p'' [plain ''span'' [TextNode (''Last Edit '' @ opt_text (jget p ''Created''))]]]"

definition audit_row :: "(json option \<Rightarrow> string) \<Rightarrow> json \<Rightarrow> audit_action ui option" where
  "audit_row date p =
     map_option (\<lambda>nm. plain ''li''
       [plain ''div'' [Elem ''span'' [] [(''click'', ReplaceSources (jget p ''ID''))] [], playbook_link date p], playbook_info p nm])
       (owner_field ''Name'' p)"

definition audit_rows :: "(json option \<Rightarrow> string) \<Rightarrow> json list \<Rightarrow> audit_action ui list option" where
  "audit_rows date ps = those (map (audit_row date) ps)"

definition render_audit :: "(json option \<Rightarrow> string) \<Rightarrow> url_params \<Rightarrow> audit \<Rightarrow> audit_action ui list option" where
  "render_audit date ps a =
     (if map_of ps ''action'' = Some ''create'' then Some [Elem ''slot'' [(''name'', ''new'')] [] []]
      else if map_of ps ''action'' = Some ''edit'' then Some [Elem ''slot'' [(''name'', ''edit'')] [] []]
      else if map_of ps ''action'' = Some ''list-framework-playbooks'' then
        map_option (\<lambda>rows. [plain ''div''
          [plain ''h3'' [TextNode ''Playbooks''], plain ''ul'' rows,
           plain ''div''
             [Elem ''a'' [(''href'', ''/audits?action=delete&audit=true&id='' @ (case map_of ps ''id'' of Some i \<Rightarrow> i | None \<Rightarrow> ''null''))] []
                [plain ''button'' [TextNode ''Cancel'']],
              Elem ''button'' [] [(''click'', SaveAudit)] [TextNode ''Save'']]]]) (audit_rows date (aud_playbooks a))
      else Some [])"

lemma those_map_some: "(\<And>x. x \<in> set xs \<Longrightarrow> f x = Some (g x)) \<Longrightarrow> those (map f xs) = Some (map g xs)"
  by (induction xs) auto

text \<open>
  The page of an audit offers, for every playbook in order, the replacement of its sources, and
  then saving.
\<close>

theorem audit_page_offers_every_playbook:
  assumes "list_all (\<lambda>p. owner_field ''Name'' p \<noteq> None) (aud_playbooks a)"
    and "map_of ps ''action'' = Some ''list-framework-playbooks''"
  shows "\<exists>us. render_audit date ps a = Some us
    \<and> map snd (concat (map ui_actions us)) = map (\<lambda>p. ReplaceSources (jget p ''ID'')) (aud_playbooks a) @ [SaveAudit]"
proof -
  define row where "row = (\<lambda>p. the (audit_row date p))"
  have r: "audit_row date p = Some (row p)" "ui_actions (row p) = [(''click'', ReplaceSources (jget p ''ID''))]"
    if "p \<in> set (aud_playbooks a)" for p
    using assms(1) that by (auto simp: list_all_iff row_def audit_row_def playbook_link_def playbook_info_def)
  have rows: "audit_rows date (aud_playbooks a) = Some (map row (aud_playbooks a))"
    unfolding audit_rows_def by (rule those_map_some) (rule r(1))
  have "map snd (concat (map (ui_actions \<circ> row) qs)) = map (\<lambda>p. ReplaceSources (jget p ''ID'')) qs"
    if "set qs \<subseteq> set (aud_playbooks a)" for qs
    using that by (induction qs) (auto simp: r(2))
  from this [of "aud_playbooks a"] show ?thesis using assms(2) by (simp add: render_audit_def rows)
qed

theorem audit_page_offers_every_playbook_witness:
  "\<exists>us. render_audit (\<lambda>d. []) [(''action'', ''list-framework-playbooks'')] new_audit = Some us
    \<and> map snd (concat (map ui_actions us)) = [SaveAudit]"
  using audit_page_offers_every_playbook [of new_audit "[(''action'', ''list-framework-playbooks'')]" "\<lambda>d. []"]
  by (simp add: new_audit_def)

section \<open>A framework\<close>

definition get_framework :: "url_params \<Rightarrow> effect list" where
  "get_framework ps =
     (case url_param ''id'' ps of
        None \<Rightarrow> []
      | Some i \<Rightarrow> [Fetch (post_json ''/api/framework?action=read'' (JObj [(''id'', JStr i)]))])"

definition framework_arrived :: "string \<Rightarrow> response \<Rightarrow> json \<Rightarrow> json \<times> effect list" where
  "framework_arrived i r fw =
     (if status r \<noteq> 200 then (fw, [Notify i ''the framework could not be retrieved'' True])
      else (case payload r of
              None \<Rightarrow> (fw, [ConsoleError ''Could not read response''])
            | Some j \<Rightarrow> (j, [])))"

text \<open>A property that is true is shown as the attribute of its name.\<close>

definition framework_row :: "(json option \<Rightarrow> string) \<Rightarrow> json \<Rightarrow> 'a ui option" where
  "framework_row date p =
     map_option (\<lambda>nm. plain ''li''
       [plain ''div''
         [Elem ''input'' ([(''type'', ''checkbox''), (''value'', opt_text (jget p ''ID'')), (''name'', ''notebooks'')]
              @ (if otruthy (jget p ''IsFramework'') then [(''checked'', '''')] else [])) [] [],
          playbook_link date p],
        playbook_info p nm])
       (owner_field ''Name'' p)"

definition framework_rows :: "(json option \<Rightarrow> string) \<Rightarrow> json \<Rightarrow> 'a ui list option" where
  "framework_rows date fw =
     (if \<not> truthy fw then Some []
      else (case jget fw ''Playbooks'' of
              Some (JArr ps) \<Rightarrow> those (map (framework_row date) ps)
            | _ \<Rightarrow> None))"

definition framework_form :: "json \<Rightarrow> string \<Rightarrow> 'a ui list \<Rightarrow> 'a ui" where
  "framework_form fw ow rows =
     Elem ''form'' [(''action'', ''/api/framework?action=save''), (''method'', ''post'')] []
       [Elem ''input'' [(''type'', ''hidden''), (''name'', ''id''), (''value'', opt_text (jget fw ''ID''))] [] [],
        Elem ''input'' [(''type'', ''hidden''), (''name'', ''owner''), (''value'', ow)] [] [],
        Elem ''input'' [(''type'', ''text''), (''name'', ''title''), (''value'', opt_text (jget fw ''Title'')), (''required'', [])] [] [],
        plain ''ul'' rows,
        plain ''div''
          [Elem ''a'' [(''href'', ''/frameworks'')] [] [Elem ''button'' [(''type'', ''button'')] [] [TextNode ''Cancel'']],
           Elem ''button'' [(''type'', ''submit'')] [] [TextNode ''Save'']]]"

definition render_framework :: "(json option \<Rightarrow> string) \<Rightarrow> url_params \<Rightarrow> json \<Rightarrow> 'a ui list option" where
  "render_framework date ps fw =
     (if map_of ps ''action'' = Some ''create'' then Some [Elem ''slot'' [(''name'', ''new'')] [] []]
      else if map_of ps ''action'' = Some ''edit'' then
        (if \<not> truthy fw then Some []
         else (case (owner_field ''ID'' fw, framework_rows date fw) of
                 (Some ow, Some rows) \<Rightarrow> Some [plain ''div'' [framework_form fw ow rows]]
               | _ \<Rightarrow> None))
      else Some [])"

text \<open>What the browser sends for a form: the inputs with a name, a box only if it is checked.\<close>

fun submitted_fields :: "'a ui \<Rightarrow> (string \<times> string) list" where
  "submitted_fields (Elem tag as acts ks) =
     (if tag = ''input''
      then (case map_of as ''name'' of
              None \<Rightarrow> []
            | Some nm \<Rightarrow>
                if map_of as ''type'' = Some ''checkbox'' \<and> map_of as ''checked'' = None then []
                else [(nm, case map_of as ''value'' of Some v \<Rightarrow> v | None \<Rightarrow> [])])
      else []) @ concat (map submitted_fields ks)"
| "submitted_fields (TextNode s) = []"
| "submitted_fields Nothing = []"

text \<open>
  Submitting: an input that is required and empty keeps the browser from sending the form (\<open>None\<close>).
\<close>

fun required_missing :: "'a ui \<Rightarrow> bool" where
  "required_missing (Elem tag as acts ks) \<longleftrightarrow>
     tag = ''input'' \<and> map_of as ''required'' \<noteq> None \<and> map_of as ''value'' \<in> {None, Some []} \<or> list_ex required_missing ks"
| "required_missing (TextNode s) = False"
| "required_missing Nothing = False"

definition submit_form :: "'a ui list \<Rightarrow> (string \<times> string) list option" where
  "submit_form us = (if list_ex required_missing us then None else Some (concat (map submitted_fields us)))"

text \<open>
  C30: Saving the form of a framework as it is shown sends its id, its owner, its title and exactly the playbooks that
  belong to it, in order; without a title the browser does not send it.
\<close>

theorem framework_form_sends_its_playbooks:
  assumes "jget fw ''Playbooks'' = Some (JArr qs)" and "list_all (\<lambda>p. owner_field ''Name'' p \<noteq> None) qs"
    and "owner_field ''ID'' fw = Some ow" and "map_of ps ''action'' = Some ''edit''"
  shows "\<exists>us. render_framework date ps fw = Some us
    \<and> submit_form us =
       (if opt_text (jget fw ''Title'') = [] then None
        else Some ([(''id'', opt_text (jget fw ''ID'')), (''owner'', ow), (''title'', opt_text (jget fw ''Title''))]
          @ map (\<lambda>p. (''notebooks'', opt_text (jget p ''ID''))) (filter (\<lambda>p. otruthy (jget p ''IsFramework'')) qs)))"
proof -
  have fw: "truthy fw" using assms(1) by (cases fw) auto
  define row where "row = (\<lambda>p. the (framework_row date p :: 'a ui option))"
  have r: "framework_row date p = Some (row p)"
      "submitted_fields (row p) = (if otruthy (jget p ''IsFramework'') then [(''notebooks'', opt_text (jget p ''ID''))] else [])"
      "\<not> required_missing (row p)"
    if "p \<in> set qs" for p
    using assms(2) that by (auto simp: list_all_iff row_def framework_row_def playbook_link_def playbook_info_def)
  have rows: "framework_rows date fw = Some (map row qs)"
    using assms(1) fw unfolding framework_rows_def by (simp add: those_map_some [OF r(1)])
  have "concat (map (submitted_fields \<circ> row) xs) = map (\<lambda>p. (''notebooks'', opt_text (jget p ''ID''))) (filter (\<lambda>p. otruthy (jget p ''IsFramework'')) xs)
      \<and> \<not> list_ex required_missing (map row xs)"
    if "set xs \<subseteq> set qs" for xs
    using that by (induction xs) (auto simp: r(2,3))
  from this [of qs] show ?thesis using assms(3,4) fw
    by (simp add: render_framework_def rows framework_form_def submit_form_def)
qed

theorem framework_form_sends_its_playbooks_witness:
  "\<exists>us. render_framework (\<lambda>d. []) [(''action'', ''edit'')] (JObj [(''ID'', JStr ''f1''), (''Owner'', JObj [(''ID'', JStr ''u1'')]),
      (''Title'', JStr ''t''),
      (''Playbooks'', JArr [JObj [(''ID'', JStr ''n1''), (''Owner'', JObj []), (''IsFramework'', JBool True)]])]) = Some us
    \<and> submit_form us = Some [(''id'', ''f1''), (''owner'', ''u1''), (''title'', ''t''), (''notebooks'', ''n1'')]"
  using framework_form_sends_its_playbooks [of "JObj [(''ID'', JStr ''f1''), (''Owner'', JObj [(''ID'', JStr ''u1'')]),
      (''Title'', JStr ''t''),
      (''Playbooks'', JArr [JObj [(''ID'', JStr ''n1''), (''Owner'', JObj []), (''IsFramework'', JBool True)]])]"
      "[JObj [(''ID'', JStr ''n1''), (''Owner'', JObj []), (''IsFramework'', JBool True)]]" "''u1''" "[(''action'', ''edit'')]" "\<lambda>d. []"]
  by (simp add: owner_field_def opt_text_def)

section \<open>The editors\<close>

text \<open>
  The editor of a framework gives the view no \<open>dispatchTransaction\<close>: what is typed changes the state
  of the view (\<open>fe_view\<close>), and not \<open>edstate\<close> (\<open>fe_doc\<close>), which is what is saved.
\<close>

record 'd framework_editor =
  fe_doc :: 'd
  fe_view :: 'd
  fe_posts :: "json list"

definition new_framework_editor :: "'d \<Rightarrow> 'd framework_editor" where
  "new_framework_editor blank = \<lparr>fe_doc = blank, fe_view = blank, fe_posts = []\<rparr>"

definition fe_read_request :: "string \<Rightarrow> request" where
  "fe_read_request f = http_get (''/api/framework/editor?action=read&framework='' @ f)"

definition fe_save_request :: "string \<Rightarrow> json \<Rightarrow> request" where
  "fe_save_request f j = post_json (''/api/framework/editor?action=save&framework='' @ f) j"

text \<open>Reading changes the state, and the rendering that follows shows it in the view.\<close>

definition fe_read :: "(json \<Rightarrow> 'd option) \<Rightarrow> response \<Rightarrow> 'd framework_editor \<Rightarrow> 'd framework_editor" where
  "fe_read parse r e =
     (case Option.bind (payload r) parse of None \<Rightarrow> e | Some d \<Rightarrow> e\<lparr>fe_doc := d, fe_view := d\<rparr>)"

definition fe_type :: "'d \<Rightarrow> 'd framework_editor \<Rightarrow> 'd framework_editor" where
  "fe_type d e = e\<lparr>fe_view := d\<rparr>"

definition fe_blur :: "('d \<Rightarrow> json) \<Rightarrow> 'd framework_editor \<Rightarrow> 'd framework_editor" where
  "fe_blur to_json e = e\<lparr>fe_posts := fe_posts e @ [to_json (fe_doc e)]\<rparr>"

datatype 'd fe_event = FeRead response | FeType 'd | FeBlur

fun fe_step :: "('d \<Rightarrow> json) \<Rightarrow> (json \<Rightarrow> 'd option) \<Rightarrow> 'd fe_event \<Rightarrow> 'd framework_editor \<Rightarrow> 'd framework_editor" where
  "fe_step to_json parse (FeRead r) e = fe_read parse r e"
| "fe_step to_json parse (FeType d) e = fe_type d e"
| "fe_step to_json parse FeBlur e = fe_blur to_json e"

fun fe_typing :: "'d fe_event \<Rightarrow> bool" where
  "fe_typing (FeType d) = True"
| "fe_typing _ = False"

text \<open>
  What is typed into the editor of a framework is never saved: the saves are the same as if nothing
  had been typed.
\<close>

theorem framework_edits_are_never_saved:
  shows "fe_posts (fold (fe_step to_json parse) evs e)
    = fe_posts (fold (fe_step to_json parse) (filter (\<lambda>v. \<not> fe_typing v) evs) e)"
proof -
  have same: "fe_posts (fe_step to_json parse v x) = fe_posts (fe_step to_json parse v y)
      \<and> fe_doc (fe_step to_json parse v x) = fe_doc (fe_step to_json parse v y)"
    if "fe_posts x = fe_posts y" "fe_doc x = fe_doc y" for v x y
    using that by (cases v) (auto simp: fe_read_def fe_type_def fe_blur_def split: option.splits)
  have "fe_posts (fold (fe_step to_json parse) evs e) = fe_posts (fold (fe_step to_json parse) (filter (\<lambda>v. \<not> fe_typing v) evs) e')"
    if "fe_posts e = fe_posts e'" "fe_doc e = fe_doc e'" for e'
    using that
  proof (induction evs arbitrary: e e')
    case (Cons v evs)
    show ?case
    proof (cases "fe_typing v")
      case True
      then have "fe_posts (fe_step to_json parse v e) = fe_posts e'" "fe_doc (fe_step to_json parse v e) = fe_doc e'"
        using Cons.prems by (cases v; simp add: fe_type_def)+
      from Cons.IH [OF this] True show ?thesis by simp
    next
      case False
      with Cons.IH [of "fe_step to_json parse v e" "fe_step to_json parse v e'"] same [OF Cons.prems] show ?thesis by simp
    qed
  qed simp
  then show ?thesis by simp
qed

text \<open>The editor of an audit asks for nothing and shows an empty document that cannot be edited.\<close>

definition read_audit_data :: "url_params \<Rightarrow> 'd \<Rightarrow> 'd \<times> effect list" where
  "read_audit_data ps d = (case url_param ''id'' ps of None \<Rightarrow> (d, []) | Some i \<Rightarrow> (d, []))"

end
