(* ===== verification/Small_Elements.thy ===== *)
theory Small_Elements
  imports Template Utils Notebook_Events "HOL-Library.Word"
begin

text \<open>
  The small elements and helpers: \<open>webc/tw.js\<close>, \<open>webc/collapse.js\<close>, \<open>webc/copy-button.js\<close>,
  \<open>webc/viewtoggle.js\<close>, \<open>webc/highlight.js\<close>, \<open>webc/download.js\<close>, \<open>webc/rand.js\<close>, and the streams of
  the engine (\<open>internal/sys/pipe.js\<close>).
\<close>

unbundle bit_operations_syntax

section \<open>Elements with the style sheets of the page\<close>

text \<open>
  \<open>createRenderRoot\<close> adds a link for every style sheet of the page; one without an address gives a
  link without one.
\<close>

definition style_links :: "string option list \<Rightarrow> 'a ui list" where
  "style_links sheets = map (\<lambda>h. Elem ''link'' [(''href'', case h of Some u \<Rightarrow> u | None \<Rightarrow> []), (''rel'', ''stylesheet'')] [] []) sheets"

text \<open>
  \<open>_slottedChildren\<close>: the elements of the first slot, or of a slot by name. The selector for a name has a space
  before the attribute: it asks for an element with that name below a slot. A shadow tree is
  given by what its selectors find, each slot with the elements that are assigned to it and whether they match.
\<close>

definition slot_selector :: "string option \<Rightarrow> string" where
  "slot_selector slot = ''slot'' @ (case slot of Some s \<Rightarrow> if s = [] then [] else '' [name='' @ s @ '']'' | None \<Rightarrow> [])"

fun descendants :: "'a ui \<Rightarrow> 'a ui list" where
  "descendants (Elem tag as acts ks) = concat (map (\<lambda>k. k # descendants k) ks)"
| "descendants _ = []"

text \<open>The two selectors that can be built, as functions on the tree below the root.\<close>

definition query_slots :: "string option \<Rightarrow> 'a ui list \<Rightarrow> 'a ui list" where
  "query_slots slot us =
     (let slots = concat (map (ui_tagged ''slot'') us)
      in case slot of
           None \<Rightarrow> slots
         | Some s \<Rightarrow>
             if s = [] then slots
             else filter (\<lambda>u. ui_attr ''name'' u = Some s) (concat (map descendants slots)))"

definition slotted_children :: "('a ui \<Rightarrow> 'e list) \<Rightarrow> ('e \<Rightarrow> bool) option \<Rightarrow> string option \<Rightarrow> 'a ui list \<Rightarrow> 'e list option" where
  "slotted_children assigned matches slot us =
     (case query_slots slot us of
        [] \<Rightarrow> None
      | s # _ \<Rightarrow> Some (case matches of None \<Rightarrow> assigned s | Some p \<Rightarrow> filter p (assigned s)))"

definition test_peek :: "'a ui list \<Rightarrow> 'a ui option" where
  "test_peek found = (case found of [] \<Rightarrow> None | u # _ \<Rightarrow> Some u)"

text \<open>
  In a tree whose slots have nothing in them, asking for the children of a named slot fails (reading
  the elements of null is an exception), even if there is a slot of that name.
\<close>

theorem named_slot_is_not_found:
  assumes "list_all (\<lambda>u. descendants u = []) (concat (map (ui_tagged ''slot'') us))" and "s \<noteq> []"
  shows "slotted_children assigned matches (Some s) us = None"
proof -
  from assms(1) have "concat (map descendants (concat (map (ui_tagged ''slot'') us))) = []"
    by (auto simp: list_all_iff)
  then have "query_slots (Some s) us = []" using assms(2) by (simp add: query_slots_def del: concat_eq_Nil_conv)
  then show ?thesis by (simp add: slotted_children_def)
qed

theorem named_slot_is_not_found_witness:
  "slotted_children (\<lambda>u. [u]) None (Some ''body'') [plain ''div'' [Elem ''slot'' [(''name'', ''body'')] [] ([] :: bool ui list)]] = None"
  by (rule named_slot_is_not_found) simp_all

section \<open>A block that collapses\<close>

datatype collapse_action = ToggleBlock

definition collapse_toggle :: "bool \<Rightarrow> bool \<times> effect list" where
  "collapse_toggle is_open = (\<not> is_open, [PreventDefault])"

definition render_collapse :: "bool \<Rightarrow> collapse_action ui list" where
  "render_collapse is_open =
     [Elem ''a'' [(''role'', ''button'')] [(''click'', ToggleBlock)]
        [Elem ''slot'' [(''name'', ''link'')] [] [],
         Elem ''svg'' [(''class'', class_map [(''rotate-180'', is_open)])] [] []],
      Elem ''div'' [(''class'', class_map [(''hidden'', \<not> is_open)])] [] [Elem ''slot'' [(''name'', ''content'')] [] []]]"

section \<open>Copying a value\<close>

text \<open>
  The button with its popup: every click writes the value to the clipboard, shows the popup and
  starts a timer of its own; a timer that ends hides the popup.
\<close>

record copy_button =
  copy_value :: string
  show_popup :: bool
  popup_timers :: "time list"

definition popup_delay :: time where
  "popup_delay = 2000"

definition to_clipboard :: "time \<Rightarrow> copy_button \<Rightarrow> copy_button \<times> effect list" where
  "to_clipboard now b =
     (b\<lparr>show_popup := True, popup_timers := popup_timers b @ [now + popup_delay]\<rparr>,
      [DomCall ''writeText'' [copy_value b], StartTimer popup_delay])"

definition popup_timer_ends :: "time \<Rightarrow> copy_button \<Rightarrow> copy_button" where
  "popup_timer_ends due b = b\<lparr>show_popup := False, popup_timers := remove1 due (popup_timers b)\<rparr>"

datatype copy_action = ToClipboard

definition render_copy_button :: "copy_button \<Rightarrow> copy_action ui list" where
  "render_copy_button b =
     [plain ''div'' [Elem ''svg'' [] [(''click'', ToClipboard)] [], plain ''slot'' [TextNode ''no content to copy'']],
      when_ui (show_popup b) (plain ''div'' [TextNode ''Value copied to clipboard!''])]"

inductive copy_reach :: "string \<Rightarrow> copy_button \<Rightarrow> bool" for v where
  CopyStart: "copy_reach v \<lparr>copy_value = v, show_popup = False, popup_timers = []\<rparr>"
| CopyClick: "copy_reach v b \<Longrightarrow> copy_reach v (fst (to_clipboard now b))"
| CopyTimer: "copy_reach v b \<Longrightarrow> due \<in> set (popup_timers b) \<Longrightarrow> copy_reach v (popup_timer_ends due b)"

text \<open>
  The popup never stays: while it is shown a timer is pending that will hide it. The converse does not
  hold: after two clicks the timer of the first hides the popup of the second too early.
\<close>

theorem popup_is_hidden_again:
  assumes "copy_reach v b" and "show_popup b"
  shows "popup_timers b \<noteq> [] \<and> (\<forall>due. \<not> show_popup (popup_timer_ends due b)) \<and> copy_value b = v"
proof -
  from assms(1) have "copy_value b = v \<and> (show_popup b \<longrightarrow> popup_timers b \<noteq> [])"
    by (induction rule: copy_reach.induct) (auto simp: to_clipboard_def popup_timer_ends_def)
  with assms(2) show ?thesis by (simp add: popup_timer_ends_def)
qed

theorem popup_is_hidden_again_witness:
  "popup_timers (fst (to_clipboard 5 \<lparr>copy_value = ''x'', show_popup = False, popup_timers = []\<rparr>)) \<noteq> []"
proof -
  have "copy_reach ''x'' (fst (to_clipboard 5 \<lparr>copy_value = ''x'', show_popup = False, popup_timers = []\<rparr>))"
    by (intro CopyClick CopyStart)
  from popup_is_hidden_again [OF this] show ?thesis by (simp add: to_clipboard_def)
qed

lemma second_popup_is_cut_short:
  "\<exists>b. copy_reach v b \<and> \<not> show_popup b \<and> popup_timers b = [now + k + popup_delay]"
proof -
  let ?b0 = "\<lparr>copy_value = v, show_popup = False, popup_timers = []\<rparr>"
  let ?b2 = "fst (to_clipboard (now + k) (fst (to_clipboard now ?b0)))"
  have "copy_reach v ?b2" by (intro CopyClick CopyStart)
  then have "copy_reach v (popup_timer_ends (now + popup_delay) ?b2)"
    by (rule CopyTimer) (simp add: to_clipboard_def)
  then show ?thesis by (rule exI [where x = "popup_timer_ends (now + popup_delay) ?b2", OF conjI])
    (simp add: to_clipboard_def popup_timer_ends_def)
qed

section \<open>Switching between text and table\<close>

datatype toggle_view_action = ToggleView string

definition view_button :: "string \<Rightarrow> string \<times> string \<Rightarrow> toggle_view_action ui" where
  "view_button current vi =
     (let (view, icon) = vi; active = (current = view)
      in Elem ''button''
           [(''class'', clsx [Some ''rounded p-1 bg-gray-200 dark:bg-gray-600 black dark:white'',
              if active then None else Some ''hover:bg-gray-400 dark:hover:bg-gray-800'',
              if active then Some ''bg-blue-400 dark:bg-blue-800'' else None])]
           [(''click'', ToggleView view)]
           [Elem ''wt-darklight-icon'' [(''lightsrc'', ''/assets/icons/'' @ icon @ ''-black.svg''),
              (''darksrc'', ''/assets/icons/'' @ icon @ ''-white.svg''), (''alt'', ''Switch to '' @ view @ '' view'')] [] []])"

definition toggle_view :: "string \<Rightarrow> effect list" where
  "toggle_view view = [PreventDefault, StopPropagation, fst (custom_event_dispatcher ''wt-toggle-view'' (JObj [(''view'', JStr view)]) None)]"

definition render_view_toggle :: "string \<Rightarrow> toggle_view_action ui" where
  "render_view_toggle current = plain ''div'' (map (view_button current) [(''text'', ''textview''), (''table'', ''tableview'')])"

definition render_icon :: "string \<Rightarrow> string \<Rightarrow> string \<Rightarrow> 'a ui" where
  "render_icon light dark alt =
     plain ''picture'' [Elem ''source'' [(''srcSet'', dark), (''media'', ''(prefers-color-scheme: dark)'')] [] [],
       Elem ''img'' [(''src'', light), (''alt'', alt)] [] []]"

section \<open>The selection of the document\<close>

text \<open>A selection: the nodes at its ends, if any, and the places in them.\<close>

record dom_selection =
  anchor_node :: "nat option"
  anchor_offset :: nat
  focus_node :: "nat option"
  focus_offset :: nat

definition is_empty_selection :: "dom_selection \<Rightarrow> bool" where
  "is_empty_selection s \<longleftrightarrow>
     \<not> (anchor_node s \<noteq> None \<and> focus_node s \<noteq> None)
     \<or> anchor_node s = focus_node s \<and> anchor_offset s = focus_offset s"

text \<open>A browser where a shadow root has a selection of its own, or not.\<close>

definition get_shadow_selection :: "dom_selection option option \<Rightarrow> dom_selection option \<Rightarrow> dom_selection option" where
  "get_shadow_selection of_root of_document = (case of_root of Some s \<Rightarrow> s | None \<Rightarrow> of_document)"

definition is_empty_shadow_selection :: "dom_selection option option \<Rightarrow> dom_selection option \<Rightarrow> bool" where
  "is_empty_shadow_selection of_root of_document =
     (case get_shadow_selection of_root of_document of None \<Rightarrow> True | Some s \<Rightarrow> is_empty_selection s)"

section \<open>Downloads\<close>

text \<open>A link that is added to the page, clicked, and removed.\<close>

definition trigger_download :: "string \<Rightarrow> string option \<Rightarrow> effect list" where
  "trigger_download url nm =
     [DomCall ''appendChild'' [url, case nm of Some n \<Rightarrow> n | None \<Rightarrow> []], DomCall ''click'' [url], DomCall ''remove'' [url]]"

definition download_from_content :: "(dropped_file \<Rightarrow> string) \<Rightarrow> string \<Rightarrow> string \<Rightarrow> effect list" where
  "download_from_content object_url nm c =
     trigger_download (object_url \<lparr>file_name = nm, file_text = c\<rparr>) (Some nm)"

section \<open>Random names\<close>

text \<open>
  \<open>RandName\<close>, from two random words: \<open>97 + ary[j] & 15\<close> adds first, and then takes the last four
  bits. A sum beyond 32 bits has the same last bits as the word it wraps to.
\<close>

primrec rand_chars :: "nat \<Rightarrow> 32 word \<Rightarrow> nat list" where
  "rand_chars 0 w = []"
| "rand_chars (Suc n) w = unat ((97 + w) AND 15) # rand_chars n (drop_bit 4 w)"

definition rand_name :: "32 word \<Rightarrow> 32 word \<Rightarrow> nat list" where
  "rand_name w v = rand_chars 8 w @ rand_chars 8 v"

lemma length_rand_chars [simp]: "length (rand_chars n w) = n"
  by (induction n arbitrary: w) simp_all

lemma and_15: "unat ((x :: 32 word) AND 15) = unat x mod 16"
proof -
  have m: "mask 4 = (15 :: nat)" by (simp add: mask_eq_exp_minus_1)
  have "unat (x AND 15) = unat x AND unat (15 :: 32 word)" by (rule unsigned_and_eq)
  also have "\<dots> = unat x AND mask 4" by (simp add: m)
  also have "\<dots> = unat x mod 2 ^ 4" unfolding take_bit_eq_mask [symmetric] take_bit_eq_mod ..
  finally show ?thesis by simp
qed

lemma add_97_mod: "(97 + u) mod 16 = (u + 1) mod (16 :: nat)"
  using mod_add_left_eq [of 97 16 u] by (simp add: add.commute)

lemma rand_digit: "unat ((97 + w :: 32 word) AND 15) = (unat w + 1) mod 16"
proof -
  have "unat (97 + w) = (97 + unat w) mod 2 ^ 32" using unat_word_ariths(1) [of "97 :: 32 word" w] by simp
  then have "unat (97 + w) mod 16 = (97 + unat w) mod 2 ^ 32 mod 2 ^ 4" by simp
  also have "\<dots> = (97 + unat w) mod 2 ^ 4" by (rule mod_mod_cancel) simp
  finally have "unat (97 + w) mod 16 = (97 + unat w) mod 16" by simp
  then show ?thesis unfolding and_15 add_97_mod .
qed

lemma unat_drop_4: "unat (drop_bit 4 (w :: 32 word)) = unat w div 16"
  unfolding unat_drop_bit_eq by (simp add: drop_bit_eq_div)

lemma rand_chars_inj:
  "rand_chars n w = rand_chars n v \<Longrightarrow> unat w mod 16 ^ n = unat v mod 16 ^ n"
proof (induction n arbitrary: w v)
  case (Suc n)
  from Suc.prems have d: "(unat w + 1) mod 16 = (unat v + 1) mod 16"
    and r: "rand_chars n (drop_bit 4 w) = rand_chars n (drop_bit 4 v)" by (simp_all add: rand_digit)
  have "x mod 16 = ((x + 1) mod 16 + 15) mod 16" for x :: nat using mod_add_left_eq [of "x + 1" 16 15] by simp
  from this [of "unat w"] this [of "unat v"] d have "unat w mod 16 = unat v mod 16" by simp
  moreover from Suc.IH [OF r] have "unat w div 16 mod 16 ^ n = unat v div 16 mod 16 ^ n" by (simp add: unat_drop_4)
  moreover have "x mod 16 ^ Suc n = 16 * (x div 16 mod 16 ^ n) + x mod 16" for x :: nat
    by (simp add: mod_mult2_eq)
  ultimately show ?case by (simp only:)
qed simp

text \<open>
  The names that are made keep all 64 random bits, so different random words give different names;
  but all their characters are control characters below 16, not letters.
\<close>

theorem random_names_differ:
  shows "(rand_name w v = rand_name w' v' \<longleftrightarrow> w = w' \<and> v = v') \<and> length (rand_name w v) = 16
    \<and> list_all (\<lambda>c. c < 16) (rand_name w v)"
proof -
  have "rand_chars 8 a = rand_chars 8 b \<longleftrightarrow> a = b" for a b :: "32 word"
  proof
    assume "rand_chars 8 a = rand_chars 8 b"
    from rand_chars_inj [OF this] have "unat a mod 2 ^ 32 = unat b mod 2 ^ 32" by simp
    then show "a = b" using unsigned_less [of a, where 'a = nat] unsigned_less [of b, where 'a = nat] by (simp add: word_unat_eq_iff)
  qed simp
  moreover have "list_all (\<lambda>c. c < 16) (rand_chars n a)" for n and a :: "32 word"
    by (induction n arbitrary: a) (simp_all add: rand_digit)
  ultimately show ?thesis by (auto simp: rand_name_def append_eq_append_conv)
qed

section \<open>Streams of the engine\<close>

text \<open>
  The stream of \<open>openPipe\<close>. A pull offers the engine a buffer of \<open>CHUNK_SIZE\<close> bytes, and the engine
  answers with a size: how much of the buffer it has filled, or a negative number at the end. The
  bytes are those it has put there. Answering 0 for an open stream, or more than the buffer holds, is
  an exception that breaks the stream.
\<close>

definition chunk_size :: nat where
  "chunk_size = 400"

datatype engine_reply = Filled "8 word list" | Ended

datatype pulled = Chunk "8 word list" | Closed | Errored

definition reply_size :: "engine_reply \<Rightarrow> int" where
  "reply_size r = (case r of Filled bs \<Rightarrow> int (length bs) | Ended \<Rightarrow> -1)"

definition pull :: "engine_reply \<Rightarrow> pulled" where
  "pull r =
     (if 0 \<le> reply_size r
      then (case r of Filled bs \<Rightarrow> if bs = [] \<or> chunk_size < length bs then Errored else Chunk bs | Ended \<Rightarrow> Closed)
      else Closed)"

text \<open>
  \<open>triggerDownload\<close> pumps the stream into a second one until it is done and downloads what it got; without an
  answer of the engine it waits (\<open>Waiting\<close>), and an error makes it fail.
\<close>

datatype downloaded = Blob "8 word list" | Waiting | Failed

fun pump :: "8 word list \<Rightarrow> engine_reply list \<Rightarrow> downloaded" where
  "pump got [] = Waiting"
| "pump got (r # rs) =
     (case pull r of
        Chunk bs \<Rightarrow> pump (got @ bs) rs
      | Closed \<Rightarrow> Blob got
      | Errored \<Rightarrow> Failed)"

definition stream_download :: "(8 word list \<Rightarrow> string) \<Rightarrow> string \<Rightarrow> engine_reply list \<Rightarrow> effect list" where
  "stream_download object_url nm rs =
     (case pump [] rs of Blob bs \<Rightarrow> trigger_download (object_url bs) (Some nm) | _ \<Rightarrow> [])"

lemma pump_chunks:
  "list_all (\<lambda>bs. bs \<noteq> [] \<and> length bs \<le> chunk_size) bss \<Longrightarrow> pump got (map Filled bss @ Ended # rs) = Blob (got @ concat bss)"
  by (induction bss arbitrary: got) (simp_all add: pull_def reply_size_def)

text \<open>
  C31: A download holds exactly the bytes the engine has given, in order, if it gives them in pieces
  that are not empty and fit the buffer, and ends; what it would give after that is not asked for.
\<close>

theorem download_is_complete:
  assumes "list_all (\<lambda>bs. bs \<noteq> [] \<and> length bs \<le> chunk_size) bss"
  shows "stream_download object_url nm (map Filled bss @ Ended # rs) = trigger_download (object_url (concat bss)) (Some nm)"
  using pump_chunks [OF assms, of "[]"] by (simp add: stream_download_def)

theorem download_is_complete_witness:
  "stream_download (\<lambda>bs. replicate (length bs) CHR ''x'') ''a.csv'' [Filled [1, 2], Filled [3], Ended]
    = trigger_download ''xxx'' (Some ''a.csv'')"
  using download_is_complete [of "[[1, 2], [3]]" "\<lambda>bs. replicate (length bs) CHR ''x''" "''a.csv''" "[]"]
  by (simp add: chunk_size_def numeral_eq_Suc)

text \<open>An empty piece in between, which is no error for the engine, loses the whole download.\<close>

lemma empty_piece_breaks_download:
  assumes "list_all (\<lambda>bs. bs \<noteq> [] \<and> length bs \<le> chunk_size) bss"
  shows "stream_download object_url nm (map Filled bss @ Filled [] # rs) = []"
proof -
  have "pump got (map Filled bss @ Filled [] # rs) = Failed" for got
    using assms by (induction bss arbitrary: got) (simp_all add: pull_def reply_size_def)
  then show ?thesis by (simp add: stream_download_def)
qed

end
