(* ===== verification/Prose_Schema.thy ===== *)
theory Prose_Schema
  imports Prose_Commands Clipboard
begin

text \<open>
  The schema of the text editor (\<open>components.js\<close>): which nodes may be inside which, the documents that
  conform to it, and the reading of a document back from what its positions count.
\<close>

section \<open>Content\<close>

text \<open>
  The content expressions of the schema are all of the form \<open>x*\<close> or \<open>x+\<close>: a list of types, in the
  order of the schema, and whether one child is needed. Texts are inline.
\<close>

definition block_group :: "node_type list" where
  "block_group = [Paragraph, Pre, Blockquote, Heading, Task_list, Ordered_list, Bullet_list]"

definition inline_group :: "node_type list" where
  "inline_group = [Image, Hard_break, Pill, Search_pill]"

fun content_types :: "node_type \<Rightarrow> node_type list" where
  "content_types Doc = block_group"
| "content_types Paragraph = inline_group"
| "content_types Heading = inline_group"
| "content_types Pre = block_group"
| "content_types Blockquote = block_group"
| "content_types Task_list = [Task_list_item]"
| "content_types Ordered_list = [List_item]"
| "content_types Bullet_list = [List_item]"
| "content_types Task_list_item = block_group"
| "content_types List_item = block_group"
| "content_types _ = []"

definition needs_content :: "node_type \<Rightarrow> bool" where
  "needs_content nt \<longleftrightarrow> nt \<in> {Doc, Blockquote, Task_list, Ordered_list, Bullet_list}"

fun kid_ok :: "node_type \<Rightarrow> pm \<Rightarrow> bool" where
  "kid_ok nt (TextN s ms) \<longleftrightarrow> textblock nt"
| "kid_ok nt (NodeN k a ms c) \<longleftrightarrow> k \<in> set (content_types nt)"

text \<open>\<open>validContent\<close>; marks are only allowed on inline nodes, which \<open>well_formed\<close> says.\<close>

definition valid_content :: "node_type \<Rightarrow> pm list \<Rightarrow> bool" where
  "valid_content nt kids \<longleftrightarrow> list_all (kid_ok nt) kids \<and> (needs_content nt \<longrightarrow> kids \<noteq> [])"

text \<open>\<open>compatibleContent\<close>\<close>

definition compatible_content :: "node_type \<Rightarrow> node_type \<Rightarrow> bool" where
  "compatible_content a b \<longleftrightarrow> a = b \<or> textblock a \<and> textblock b \<or> list_ex (\<lambda>t. t \<in> set (content_types b)) (content_types a)"

text \<open>\<open>check\<close>: a node with its descendants.\<close>

function conforms :: "pm list \<Rightarrow> bool" where
  "conforms [] \<longleftrightarrow> True"
| "conforms (TextN s ms # ns) \<longleftrightarrow> conforms ns"
| "conforms (NodeN nt a ms c # ns) \<longleftrightarrow> valid_content nt c \<and> conforms c \<and> conforms ns"
  by pat_completeness auto
termination by (relation "measure (size_list size)") auto

definition valid_doc :: "pm list \<Rightarrow> bool" where
  "valid_doc c \<longleftrightarrow> valid_content Doc c \<and> conforms c \<and> well_formed c"

lemma conforms_append [simp]: "conforms (xs @ ys) \<longleftrightarrow> conforms xs \<and> conforms ys"
  by (induction xs rule: frag_induct) auto

lemma conforms_Cons: "conforms (n # ns) \<longleftrightarrow> conforms [n] \<and> conforms ns"
  using conforms_append [of "[n]" ns] by simp

section \<open>What keeps the kinds of children\<close>

text \<open>To their parent, lists of children with the same kinds of nodes are alike.\<close>

definition kinds :: "pm list \<Rightarrow> node_type option set" where
  "kinds c = type_of_node ` set c"

fun kind_ok :: "node_type \<Rightarrow> node_type option \<Rightarrow> bool" where
  "kind_ok nt None \<longleftrightarrow> textblock nt"
| "kind_ok nt (Some k) \<longleftrightarrow> k \<in> set (content_types nt)"

lemma kid_kind: "kid_ok nt n = kind_ok nt (type_of_node n)"
  by (cases n) auto

lemma kinds_simps [simp]: "kinds [] = {}" "kinds (n # ns) = insert (type_of_node n) (kinds ns)"
    "kinds (xs @ ys) = kinds xs \<union> kinds ys" "kinds c = {} \<longleftrightarrow> c = []"
  by (auto simp: kinds_def)

lemma valid_content_kinds:
  "valid_content nt c \<longleftrightarrow> (\<forall>k \<in> kinds c. kind_ok nt k) \<and> (needs_content nt \<longrightarrow> kinds c \<noteq> {})"
  by (auto simp: valid_content_def list_all_iff kid_kind kinds_def)

lemma valid_content_alike: "kinds c = kinds d \<Longrightarrow> valid_content nt c = valid_content nt d"
  by (simp add: valid_content_kinds del: kinds_simps(4))

lemma kinds_from_array [simp]: "kinds (from_array c) = kinds c"
  by (induction c rule: from_array.induct) auto

lemma conforms_from_array [simp]: "conforms (from_array c) = conforms c"
  by (induction c rule: from_array.induct) (auto simp: conforms_Cons [of _ "from_array _"] conforms_Cons [of _ "_ # _"])

section \<open>Marks and blocks\<close>

lemma kinds_text_pieces: "s \<noteq> [] \<Longrightarrow> kinds (text_pieces f lo hi s ms) = {None}"
  by (cases "lo < hi \<and> lo < length s") (auto simp: text_pieces_def)

lemma kinds_mark_list: "well_formed c \<Longrightarrow> kinds (mark_list f lo hi c) = kinds c"
  by (induction c arbitrary: lo hi rule: frag_induct) (auto simp: kinds_text_pieces Let_def)

lemma conforms_texts: "kinds c \<subseteq> {None} \<Longrightarrow> conforms c"
proof (induction c)
  case (Cons n ns)
  then show ?case by (cases n) auto
qed simp

lemma conforms_mark_list: "well_formed c \<Longrightarrow> conforms c \<Longrightarrow> conforms (mark_list f lo hi c)"
proof (induction c arbitrary: lo hi rule: frag_induct)
  case (Text s ms ns)
  then show ?case by (auto intro: conforms_texts simp: kinds_text_pieces)
next
  case (Node nt a ms c ns)
  have "valid_content nt (from_array (mark_list f (lo - 1) (hi - 1) c)) = valid_content nt c"
    by (rule valid_content_alike) (use Node.prems in \<open>simp add: kinds_mark_list\<close>)
  with Node show ?case by (auto simp: Let_def)
qed simp

lemma valid_mark_range: "valid_doc c \<Longrightarrow> valid_doc (mark_range f lo hi c)"
  using valid_content_alike [of "mark_range f lo hi c" c Doc]
  by (simp add: valid_doc_def mark_range_def kinds_mark_list conforms_mark_list well_formed_mark_list well_formed_from_array)

lemma valid_turns: "valid_doc d \<Longrightarrow> valid_doc (fold (colour_turn s mt) ts d)"
  by (induction ts arbitrary: d) (auto simp: colour_turn_def add_mark_def remove_mark_def valid_mark_range)

lemma valid_press: "valid_doc (content s) \<Longrightarrow> valid_doc (content (press_colour b s))"
  using press_colour_turns [of b s] by (auto simp: valid_turns)

lemma valid_toggle_mark: "valid_doc (content s) \<Longrightarrow> toggle_mark t s = Some s' \<Longrightarrow> valid_doc (content s')"
  by (auto simp: toggle_mark_def add_mark_def remove_mark_def valid_mark_range Let_def split: option.splits if_splits)

lemma space_newlines_empty [simp]: "space_newlines s = [] \<longleftrightarrow> s = []"
  by (induction s rule: space_newlines.induct) (auto split: list.splits)

lemma type_clear_newlines [simp]: "type_of_node (clear_newlines n) = type_of_node n"
  by (cases n) auto

lemma kinds_clear [simp]: "kinds (map clear_newlines c) = kinds c"
  by (simp add: kinds_def image_image)

lemma clear_newlines_ok: "well_formed c \<Longrightarrow> well_formed (map clear_newlines c)" "conforms c \<Longrightarrow> conforms (map clear_newlines c)"
  by (induction c rule: frag_induct) auto

definition takes_textblocks :: "node_type \<Rightarrow> bool" where
  "takes_textblocks p \<longleftrightarrow> Paragraph \<in> set (content_types p)"

lemma textblock_in: "textblock nt \<Longrightarrow> nt \<in> set (content_types p) \<longleftrightarrow> takes_textblocks p"
  by (cases p) (auto simp: textblock_def takes_textblocks_def block_group_def inline_group_def)

lemma valid_content_Cons:
  "valid_content p (n # ns) \<longleftrightarrow> kind_ok p (type_of_node n) \<and> (\<forall>k \<in> kinds ns. kind_ok p k)"
  by (auto simp: valid_content_kinds)

lemma kinds_set_block:
  "textblock nt \<Longrightarrow> (\<forall>k \<in> kinds (set_block_type nt a lo hi c). kind_ok p k) = (\<forall>k \<in> kinds c. kind_ok p k)
    \<and> (set_block_type nt a lo hi c = [] \<longleftrightarrow> c = [])"
  by (induction c arbitrary: lo hi rule: frag_induct) (auto simp: Let_def textblock_in)

lemma valid_set_block: "textblock nt \<Longrightarrow> valid_content p (set_block_type nt a lo hi c) = valid_content p c"
  using kinds_set_block [of nt a lo hi c p] by (simp add: valid_content_kinds)

lemma textblock_content: "textblock nt \<Longrightarrow> textblock nt' \<Longrightarrow> valid_content nt c = valid_content nt' c"
  by (auto simp: textblock_def valid_content_def needs_content_def list_all_iff kid_kind elim!: kind_ok.elims)

lemma set_block_ok:
  "textblock nt \<Longrightarrow> conforms c \<Longrightarrow> well_formed c \<Longrightarrow> conforms (set_block_type nt a lo hi c) \<and> well_formed (set_block_type nt a lo hi c)"
proof (induction c arbitrary: lo hi rule: frag_induct)
  case (Node nt1 a1 ms c ns)
  have leaf: "\<not> leaf_type nt" using Node.prems(1) by (auto simp: textblock_def leaf_type_def)
  have same: "valid_content nt (map clear_newlines c)" if "textblock nt1"
    using Node.prems that textblock_content [of nt nt1 c] valid_content_alike [of "map clear_newlines c" c nt] by simp
  have leaf1: "c = []" if "leaf_type nt1" using Node.prems that by simp
  show ?case
    using Node leaf same leaf1 by (auto simp: Let_def valid_set_block clear_newlines_ok textblock_def leaf_type_def)
qed auto

lemma valid_set_block_cmd: "textblock nt \<Longrightarrow> valid_doc (content s) \<Longrightarrow> set_block_cmd nt a s = Some s' \<Longrightarrow> valid_doc (content s')"
  by (auto simp: set_block_cmd_def Let_def valid_doc_def set_block_ok valid_set_block split: if_splits)

lemma valid_headline: "valid_doc (content s) \<Longrightarrow> make_headline_cmd l s = Some s' \<Longrightarrow> valid_doc (content s')"
  by (auto simp: make_headline_cmd_def textblock_def intro: valid_set_block_cmd split: if_splits)

section \<open>Reading a document back\<close>

text \<open>
  A document from what its positions count: nodes are closed where they were opened, and equal
  neighbouring texts are one (as \<open>addNode\<close> makes them). It is kept as the open nodes with what comes
  before in each, and what was read of the innermost, last first.
\<close>

fun push_chr :: "uchar \<Rightarrow> mark list \<Rightarrow> pm list \<Rightarrow> pm list" where
  "push_chr c ms (TextN s ns # acc) = (if ns = ms then TextN (s @ [c]) ms # acc else TextN [c] ms # TextN s ns # acc)"
| "push_chr c ms acc = TextN [c] ms # acc"

type_synonym open_nodes = "(node_type \<times> attrs \<times> pm list) list"

fun read_tokens :: "token list \<Rightarrow> open_nodes \<Rightarrow> pm list \<Rightarrow> pm list option" where
  "read_tokens [] [] acc = Some (rev acc)"
| "read_tokens [] (f # fs) acc = None"
| "read_tokens (Open nt a # ts) st acc = read_tokens ts ((nt, a, acc) # st) []"
| "read_tokens (Close # ts) [] acc = None"
| "read_tokens (Close # ts) ((nt, a, up) # st) acc = read_tokens ts st (NodeN nt a [] (rev acc) # up)"
| "read_tokens (Leaf nt a ms # ts) st acc = read_tokens ts st (NodeN nt a ms [] # acc)"
| "read_tokens (Chr c ms # ts) st acc = read_tokens ts st (push_chr c ms acc)"

definition doc_of :: "token list \<Rightarrow> pm list option" where
  "doc_of ts = read_tokens ts [] []"

fun token_ok :: "token \<Rightarrow> bool" where
  "token_ok (Open nt a) \<longleftrightarrow> \<not> leaf_type nt"
| "token_ok (Leaf nt a ms) \<longleftrightarrow> leaf_type nt"
| "token_ok t \<longleftrightarrow> True"

lemma tokens_ok: "list_all token_ok (tokens c)"
  by (induction c rule: frag_induct) (auto simp: list_all_iff)

definition open_tokens :: "open_nodes \<Rightarrow> token list" where
  "open_tokens st = concat (map (\<lambda>(nt, a, up). tokens (rev up) @ [Open nt a]) (rev st))"

lemma open_tokens_Cons [simp]: "open_tokens ((nt, a, up) # st) = open_tokens st @ tokens (rev up) @ [Open nt a]"
  by (simp add: open_tokens_def)

lemma tokens_push_chr [simp]: "tokens (rev (push_chr c ms acc)) = tokens (rev acc) @ [Chr c ms]"
  by (induction c ms acc rule: push_chr.induct) auto

lemma read_tokens_sound:
  "read_tokens ts st acc = Some d \<Longrightarrow> list_all token_ok ts \<Longrightarrow> list_all (\<lambda>(nt, a, up). \<not> leaf_type nt) st
    \<Longrightarrow> tokens d = open_tokens st @ tokens (rev acc) @ ts"
  by (induction ts st acc rule: read_tokens.induct) (auto simp: open_tokens_def)

lemma tokens_doc_of: "doc_of ts = Some d \<Longrightarrow> list_all token_ok ts \<Longrightarrow> tokens d = ts"
  using read_tokens_sound [of ts "[]" "[]" d] by (simp add: doc_of_def open_tokens_def)

text \<open>Documents whose neighbouring texts have different marks.\<close>

fun text_marks :: "pm \<Rightarrow> mark list option" where
  "text_marks (TextN s ms) = Some ms"
| "text_marks (NodeN nt a ms c) = None"

definition meet :: "pm list \<Rightarrow> pm list \<Rightarrow> bool" where
  "meet acc c \<longleftrightarrow> acc = [] \<or> c = [] \<or> text_marks (hd acc) = None \<or> text_marks (hd acc) \<noteq> text_marks (hd c)"

lemma meet_simps [simp]: "meet [] c" "meet acc []" "meet acc (NodeN nt a ms k # c)" "meet (NodeN nt a ms k # acc) c"
  by (auto simp: meet_def)

function joined :: "pm list \<Rightarrow> bool" where
  "joined [] \<longleftrightarrow> True"
| "joined (TextN s ms # ns) \<longleftrightarrow> meet [TextN s ms] ns \<and> joined ns"
| "joined (NodeN nt a ms c # ns) \<longleftrightarrow> joined c \<and> joined ns"
  by pat_completeness auto
termination by (relation "measure (size_list size)") auto

lemma read_text:
  "read_tokens (map (\<lambda>c. Chr c ms) s @ ts) st (TextN s0 ms # acc) = read_tokens ts st (TextN (s0 @ s) ms # acc)"
  by (induction s arbitrary: s0) auto

lemma read_tokens_complete:
  "well_formed c \<Longrightarrow> joined c \<Longrightarrow> meet acc c \<Longrightarrow> read_tokens (tokens c @ ts) st acc = read_tokens ts st (rev c @ acc)"
proof (induction c arbitrary: ts st acc rule: frag_induct)
  case (Text s ms ns)
  then obtain u us where s: "s = u # us" by (cases s) auto
  have push: "push_chr u ms acc = TextN [u] ms # acc"
    using Text.prems(3) by (cases "(u, ms, acc)" rule: push_chr.cases) (auto simp: meet_def)
  have "meet (TextN s ms # acc) ns" using Text.prems(2) by (auto simp: meet_def)
  with Text show ?case using read_text [of ms us "tokens ns @ ts" st "[u]" acc] by (simp add: s push)
next
  case (Node nt a ms c ns)
  have m: "meet (NodeN nt a ms c # acc) ns" "meet [] c" by (simp_all add: meet_def)
  show ?case
  proof (cases "leaf_type nt")
    case True
    with Node m show ?thesis by simp
  next
    case False
    with Node.prems Node.IH(1) [OF _ _ m(2), of "Close # tokens ns @ ts" "(nt, a, acc) # st"] Node.IH(2) [of "NodeN nt a ms c # acc"] m
    show ?thesis by simp
  qed
qed simp

text \<open>
  What the positions of a document count determines it: a well-formed document whose equal texts
  are joined is read back from its tokens.
\<close>

theorem document_is_read_back:
  assumes "well_formed c" and "joined c"
  shows "doc_of (tokens c) = Some c"
  using read_tokens_complete [OF assms, of "[]" "[]" "[]"] by (simp add: doc_of_def meet_def)

lemma joined_meet_append: "joined (xs @ ys) \<longleftrightarrow> joined xs \<and> joined ys \<and> meet (rev xs) ys"
proof (induction xs rule: frag_induct)
  case (Text s ms ns)
  then show ?case by (cases ns) (auto simp: meet_def hd_append)
next
  case (Node nt a ms c ns)
  then show ?case by (cases ns) (auto simp: meet_def hd_append)
qed (simp add: meet_def)

text \<open>What is read is well formed and joined.\<close>

definition open_ok :: "open_nodes \<Rightarrow> bool" where
  "open_ok st \<longleftrightarrow> list_all (\<lambda>(nt, a, up). \<not> leaf_type nt \<and> well_formed (rev up) \<and> joined (rev up)) st"

lemma push_chr_ok: "well_formed (rev acc) \<Longrightarrow> joined (rev acc) \<Longrightarrow> well_formed (rev (push_chr c ms acc)) \<and> joined (rev (push_chr c ms acc))"
  by (induction c ms acc rule: push_chr.induct) (auto simp: joined_meet_append meet_def)

lemma read_tokens_ok:
  "read_tokens ts st acc = Some d \<Longrightarrow> list_all token_ok ts \<Longrightarrow> open_ok st \<Longrightarrow> well_formed (rev acc) \<Longrightarrow> joined (rev acc)
    \<Longrightarrow> well_formed d \<and> joined d"
  by (induction ts st acc rule: read_tokens.induct)
    (auto simp: open_ok_def push_chr_ok joined_meet_append)

lemma doc_of_ok: "doc_of ts = Some d \<Longrightarrow> list_all token_ok ts \<Longrightarrow> well_formed d \<and> joined d \<and> tokens d = ts"
  using read_tokens_ok [of ts "[]" "[]" d] tokens_doc_of [of ts d] by (simp add: doc_of_def open_ok_def)

theorem document_is_read_back_witness:
  "doc_of (tokens (content example_checks)) = Some (content example_checks)"
  by (rule document_is_read_back) (simp_all add: example_checks_def leaf_type_def meet_def)

end
