(* ===== verification/Prose_Steps.thy ===== *)
theory Prose_Steps
  imports Prose_Schema
begin

text \<open>
  Positions of a document, the steps of a transaction, and what fits where, as the list commands of the
  text editor (\<open>components.js\<close>) use them: a step replaces a range of a document. It is modelled on what
  positions count: it takes the tokens of its slice for those of its range, the document is read back
  from the result, and it fails when that is no document of the schema.
\<close>

section \<open>Positions\<close>

text \<open>
  \<open>$pos.index(d)\<close>, \<open>$pos.before(d)\<close>, \<open>$pos.after(d)\<close> and \<open>$pos.end(d)\<close>: the nodes around a position
  are at the depths below the length of its path.
\<close>

definition depth_of :: "pm list \<Rightarrow> nat \<Rightarrow> nat" where
  "depth_of c pos = length (path_of c pos) - 1"

definition kids_at :: "pm list \<Rightarrow> nat \<Rightarrow> nat \<Rightarrow> pm list" where
  "kids_at c pos d = (case path_of c pos ! d of (start, nt, a, kids) \<Rightarrow> kids)"

definition type_at :: "pm list \<Rightarrow> nat \<Rightarrow> nat \<Rightarrow> node_type" where
  "type_at c pos d = (case path_of c pos ! d of (start, nt, a, kids) \<Rightarrow> nt)"

definition attrs_at :: "pm list \<Rightarrow> nat \<Rightarrow> nat \<Rightarrow> attrs" where
  "attrs_at c pos d = (case path_of c pos ! d of (start, nt, a, kids) \<Rightarrow> a)"

definition start_at :: "pm list \<Rightarrow> nat \<Rightarrow> nat \<Rightarrow> nat" where
  "start_at c pos d = (case path_of c pos ! d of (start, nt, a, kids) \<Rightarrow> start)"

definition end_at :: "pm list \<Rightarrow> nat \<Rightarrow> nat \<Rightarrow> nat" where
  "end_at c pos d = start_at c pos d + frag_size (kids_at c pos d)"

definition before_at :: "pm list \<Rightarrow> nat \<Rightarrow> nat \<Rightarrow> nat" where
  "before_at c pos d = (if d = length (path_of c pos) then pos else start_at c pos d - 1)"

definition after_at :: "pm list \<Rightarrow> nat \<Rightarrow> nat \<Rightarrow> nat" where
  "after_at c pos d = (if d = length (path_of c pos) then pos else end_at c pos d + 1)"

definition index_at :: "pm list \<Rightarrow> nat \<Rightarrow> nat \<Rightarrow> nat" where
  "index_at c pos d = child_index (pos - start_at c pos d) (kids_at c pos d)"

text \<open>\<open>NodeRange\<close>, in the document its two positions belong to.\<close>

record node_range =
  rg_from :: nat
  rg_to :: nat
  rg_depth :: nat

definition range_start :: "pm list \<Rightarrow> node_range \<Rightarrow> nat" where
  "range_start c r = before_at c (rg_from r) (rg_depth r + 1)"

definition range_end :: "pm list \<Rightarrow> node_range \<Rightarrow> nat" where
  "range_end c r = after_at c (rg_to r) (rg_depth r + 1)"

definition range_parent :: "pm list \<Rightarrow> node_range \<Rightarrow> pm list" where
  "range_parent c r = kids_at c (rg_from r) (rg_depth r)"

definition start_index :: "pm list \<Rightarrow> node_range \<Rightarrow> nat" where
  "start_index c r = index_at c (rg_from r) (rg_depth r)"

definition end_index :: "pm list \<Rightarrow> node_range \<Rightarrow> nat" where
  "end_index c r = index_after (rg_depth r) (rg_to r) c"

section \<open>Steps\<close>

text \<open>The tokens of a slice that is open at its sides.\<close>

definition slice_tokens :: "pm list \<Rightarrow> nat \<Rightarrow> nat \<Rightarrow> token list" where
  "slice_tokens c open_start open_end = drop open_start (take (frag_size c - open_end) (tokens c))"

fun closes :: "token \<Rightarrow> bool" where
  "closes Close = True"
| "closes _ = False"

fun opens :: "token \<Rightarrow> bool" where
  "opens (Open nt a) = True"
| "opens _ = False"

text \<open>
  \<open>contentBetween\<close>: walking from the one position to the other, nodes are first left and then
  entered; anything else is content.
\<close>

definition content_between :: "nat \<Rightarrow> nat \<Rightarrow> token list \<Rightarrow> bool" where
  "content_between lo hi ts \<longleftrightarrow> \<not> list_all opens (dropWhile closes (drop lo (take hi ts)))"

text \<open>The document the tokens make, if it is one.\<close>

definition checked_doc :: "token list \<Rightarrow> pm list option" where
  "checked_doc ts =
     (case doc_of ts of
        None \<Rightarrow> None
      | Some d \<Rightarrow> if valid_content Doc d \<and> conforms d then Some d else None)"

text \<open>
  \<open>checkJoin\<close>: a node that is open at the end of the replaced range has to be compatible with the one,
  at the same depth, that is open after what comes before it and the slice; the depths have to agree
  (\<open>Inconsistent open depths\<close>; that nothing is closed that was not open is part of reading the
  document). The nodes that the slices of these commands open at their left side are copies of those
  they meet, so nothing has to be checked there. Types are innermost first.
\<close>

definition open_types :: "token list \<Rightarrow> node_type list" where
  "open_types ts = fold (\<lambda>t st. case t of Open nt a \<Rightarrow> nt # st | Close \<Rightarrow> tl st | _ \<Rightarrow> st) ts []"

definition joins_ok :: "token list \<Rightarrow> token list \<Rightarrow> bool" where
  "joins_ok before_right left \<longleftrightarrow> list_all2 compatible_content (open_types before_right) (open_types left)"

definition replace_step :: "bool \<Rightarrow> nat \<Rightarrow> nat \<Rightarrow> token list \<Rightarrow> pm list \<Rightarrow> pm list option" where
  "replace_step structure lo hi sl c =
     (let ts = tokens c
      in if structure \<and> content_between lo hi ts then None
         else if \<not> joins_ok (take hi ts) (take lo ts @ sl) then None
         else checked_doc (take lo ts @ sl @ drop hi ts))"

text \<open>\<open>ReplaceAroundStep\<close>: the gap, which has to be flat, is put into the slice at \<open>ins\<close>.\<close>

definition replace_around :: "bool \<Rightarrow> nat \<Rightarrow> nat \<Rightarrow> nat \<Rightarrow> nat \<Rightarrow> token list \<Rightarrow> nat \<Rightarrow> pm list \<Rightarrow> pm list option" where
  "replace_around structure lo hi gap_lo gap_hi sl ins c =
     (let ts = tokens c; gap = drop gap_lo (take gap_hi ts); left = take lo ts @ take ins sl @ gap @ drop ins sl
      in if structure \<and> (content_between lo gap_lo ts \<or> content_between gap_hi hi ts) then None
         else if doc_of gap = None then None
         else if \<not> joins_ok (take hi ts) left then None
         else checked_doc (left @ drop hi ts))"

text \<open>\<open>StepMap.map\<close>: ranges of the old document with their old and new size.\<close>

fun map_ranges :: "(nat \<times> nat \<times> nat) list \<Rightarrow> int \<Rightarrow> int \<Rightarrow> bool \<Rightarrow> int" where
  "map_ranges [] diff pos fwd = pos + diff"
| "map_ranges ((start, old, new) # rs) diff pos fwd =
     (if pos < int start then pos + diff
      else if pos \<le> int (start + old)
      then (let lhs = (if old = 0 then \<not> fwd else if pos = int start then True
                          else if pos = int (start + old) then False else \<not> fwd)
            in int start + diff + (if lhs then 0 else int new))
      else map_ranges rs (diff + int new - int old) pos fwd)"

definition map_pos :: "(nat \<times> nat \<times> nat) list \<Rightarrow> bool \<Rightarrow> nat \<Rightarrow> nat" where
  "map_pos rs fwd pos = nat (map_ranges rs 0 (int pos) fwd)"

text \<open>
  A transaction: the document, the selection, and the maps of its steps. A selection in textblocks
  stays in them and is mapped with its ends.
\<close>

record transaction =
  tr_doc :: "pm list"
  tr_sel :: selection
  tr_maps :: "(nat \<times> nat \<times> nat) list list"

fun map_selection :: "(nat \<times> nat \<times> nat) list \<Rightarrow> selection \<Rightarrow> selection" where
  "map_selection rs (TextSel lo hi) = TextSel (map_pos rs True lo) (map_pos rs True hi)"
| "map_selection rs (NodeSel p) = NodeSel (map_pos rs True p)"
| "map_selection rs AllSel = AllSel"

definition start_tr :: "ed_state \<Rightarrow> transaction" where
  "start_tr s = \<lparr>tr_doc = content s, tr_sel = sel s, tr_maps = []\<rparr>"

definition tr_state :: "transaction \<Rightarrow> ed_state" where
  "tr_state tr = \<lparr>content = tr_doc tr, sel = tr_sel tr, stored_marks = None\<rparr>"

definition add_step :: "pm list \<Rightarrow> (nat \<times> nat \<times> nat) list \<Rightarrow> transaction \<Rightarrow> transaction" where
  "add_step d rs tr = \<lparr>tr_doc = d, tr_sel = map_selection rs (tr_sel tr), tr_maps = tr_maps tr @ [rs]\<rparr>"

definition mapped :: "transaction \<Rightarrow> bool \<Rightarrow> nat \<Rightarrow> nat" where
  "mapped tr fwd pos = fold (\<lambda>rs p. map_pos rs fwd p) (tr_maps tr) pos"

text \<open>A step that fails is an exception (\<open>Raised\<close>).\<close>

definition step_replace :: "bool \<Rightarrow> nat \<Rightarrow> nat \<Rightarrow> token list \<Rightarrow> transaction \<Rightarrow> transaction command_result" where
  "step_replace structure lo hi sl tr =
     (case replace_step structure lo hi sl (tr_doc tr) of
        None \<Rightarrow> Raised
      | Some d \<Rightarrow> Dispatched (add_step d [(lo, hi - lo, length sl)] tr))"

definition step_around :: "nat \<Rightarrow> nat \<Rightarrow> nat \<Rightarrow> nat \<Rightarrow> token list \<Rightarrow> nat \<Rightarrow> bool \<Rightarrow> transaction \<Rightarrow> transaction command_result" where
  "step_around lo hi gap_lo gap_hi sl ins structure tr =
     (case replace_around structure lo hi gap_lo gap_hi sl ins (tr_doc tr) of
        None \<Rightarrow> Raised
      | Some d \<Rightarrow> Dispatched (add_step d [(lo, gap_lo - lo, ins), (gap_hi, hi - gap_hi, length sl - ins)] tr))"


section \<open>Fitting content\<close>

text \<open>
  \<open>canReplace\<close> and \<open>canReplaceWith\<close>, for children before the index that fit: with content expressions
  of the form \<open>x*\<close> and \<open>x+\<close> every child is judged by itself.
\<close>

definition can_replace :: "node_type \<Rightarrow> pm list \<Rightarrow> nat \<Rightarrow> nat \<Rightarrow> pm list \<Rightarrow> bool" where
  "can_replace nt kids i j repl \<longleftrightarrow> valid_content nt (take i kids @ repl @ drop j kids)"

definition can_replace_with :: "node_type \<Rightarrow> pm list \<Rightarrow> nat \<Rightarrow> nat \<Rightarrow> node_type \<Rightarrow> bool" where
  "can_replace_with nt kids i j t \<longleftrightarrow> t \<in> set (content_types nt) \<and> list_all (kid_ok nt) (take i kids @ drop j kids)"

fun kids_of :: "pm \<Rightarrow> pm list" where
  "kids_of (TextN s ms) = []"
| "kids_of (NodeN nt a ms c) = c"

text \<open>\<open>joinable\<close>: a node that is no leaf, and another whose children it could take.\<close>

definition joinable :: "pm option \<Rightarrow> pm option \<Rightarrow> bool" where
  "joinable a b =
     (case (a, b) of
        (Some (NodeN nt at ms c), Some n) \<Rightarrow>
          \<not> leaf_type nt
          \<and> (if frag_size (kids_of n) \<noteq> 0 then valid_content nt (c @ kids_of n)
             else (case type_of_node n of None \<Rightarrow> False | Some t \<Rightarrow> compatible_content nt t))
      | _ \<Rightarrow> False)"

definition can_join :: "pm list \<Rightarrow> nat \<Rightarrow> bool" where
  "can_join c pos \<longleftrightarrow>
     (let d = depth_of c pos; i = index_at c pos d
      in joinable (node_before pos c) (node_after pos c) \<and> can_replace (type_at c pos d) (kids_at c pos d) i (i + 1) [])"

text \<open>
  \<open>computeWrapping\<close>: a search by breadth for types around a node that make it fit. A type is
  tried once; pills and images are leaves, and no other type needs attributes. The queue holds
  the types that fit next, and the wrappers so far, innermost first.
\<close>

definition wrapper_types :: "node_type list \<Rightarrow> node_type list \<Rightarrow> node_type list" where
  "wrapper_types seen next_types = filter (\<lambda>t. \<not> leaf_type t \<and> t \<notin> set seen) next_types"

definition all_types :: "node_type list" where
  "all_types = [Doc, Paragraph, Pre, Blockquote, Heading, Image, Hard_break, Task_list, Task_list_item, Ordered_list,
     Bullet_list, List_item, Pill, Search_pill]"

lemma in_all_types: "t \<in> set all_types"
  by (cases t) (simp_all add: all_types_def)

definition unseen :: "node_type list \<Rightarrow> nat" where
  "unseen seen = length (filter (\<lambda>t. t \<notin> set seen) all_types)"

lemma distinct_content: "distinct (content_types nt)"
  by (cases nt) (simp_all add: block_group_def inline_group_def)

lemma unseen_drops:
  assumes "distinct ts" "\<forall>t \<in> set ts. t \<notin> set seen"
  shows "unseen (ts @ seen) + length ts = unseen seen"
proof -
  have d: "distinct all_types" by (simp add: all_types_def)
  have n: "length (filter P all_types) = card {t. P t}" for P
  proof -
    have "length (filter P all_types) = card (set (filter P all_types))"
      by (rule distinct_card [symmetric]) (use d in simp)
    then show ?thesis by (simp add: in_all_types)
  qed
  have fin: "finite {t. t \<notin> set (ts @ seen)}" by (rule finite_subset [of _ "set all_types"]) (auto simp: in_all_types)
  have "{t. t \<notin> set seen} = {t. t \<notin> set (ts @ seen)} \<union> set ts" using assms(2) by auto
  then have "card {t. t \<notin> set seen} = card {t. t \<notin> set (ts @ seen)} + card (set ts)"
    using card_Un_disjoint [OF fin finite_set, of ts] by auto
  then show ?thesis using distinct_card [OF assms(1)] by (simp add: unseen_def n)
qed

function wrap_search :: "node_type \<Rightarrow> node_type list \<Rightarrow> (node_type list \<times> node_type list) list \<Rightarrow> node_type list option" where
  "wrap_search target seen [] = None"
| "wrap_search target seen ((next_types, via) # queue) =
     (if target \<in> set next_types then Some (rev via)
      else let new = remdups (wrapper_types seen next_types)
           in wrap_search target (new @ seen) (queue @ map (\<lambda>t. (content_types t, t # via)) new))"
  by pat_completeness auto
termination
proof (relation "measure (\<lambda>(target, seen, queue). length queue + 2 * unseen seen)")
  fix target seen next_types via queue new
  assume "new = remdups (wrapper_types seen next_types)"
  then have "unseen (new @ seen) + length new = unseen seen" by (intro unseen_drops) (auto simp: wrapper_types_def)
  then show "((target, new @ seen, queue @ map (\<lambda>t. (content_types t, t # via)) new), target, seen, (next_types, via) # queue)
      \<in> measure (\<lambda>(target, seen, queue). length queue + 2 * unseen seen)" by simp
qed simp

definition wrapping_for :: "node_type \<Rightarrow> node_type \<Rightarrow> node_type list option" where
  "wrapping_for inside target = wrap_search target [] [(content_types inside, [])]"

text \<open>A text never needs a wrapping in a textblock, and finds one, a paragraph, in a block.\<close>

definition wrapping_for_node :: "node_type \<Rightarrow> pm \<Rightarrow> node_type list option" where
  "wrapping_for_node inside n =
     (case type_of_node n of
        Some t \<Rightarrow> wrapping_for inside t
      | None \<Rightarrow> if textblock inside then Some []
                else map_option (\<lambda>ws. ws @ [Paragraph]) (wrapping_for inside Paragraph))"

definition find_wrapping_outside :: "pm list \<Rightarrow> node_range \<Rightarrow> node_type \<Rightarrow> node_type list option" where
  "find_wrapping_outside c r t =
     (let nt = type_at c (rg_from r) (rg_depth r)
      in case wrapping_for nt t of
           None \<Rightarrow> None
         | Some around \<Rightarrow>
             let outer = (case around of [] \<Rightarrow> t | w # _ \<Rightarrow> w)
             in if can_replace_with nt (range_parent c r) (start_index c r) (end_index c r) outer then Some around else None)"

text \<open>Looking at a child that is not there is an exception.\<close>

definition find_wrapping_inside :: "pm list \<Rightarrow> node_range \<Rightarrow> node_type \<Rightarrow> node_type list command_result" where
  "find_wrapping_inside c r t =
     (let kids = range_parent c r; i = start_index c r; j = end_index c r
      in if length kids \<le> i then Raised
         else case wrapping_for_node t (kids ! i) of
                None \<Rightarrow> Refused
              | Some inside \<Rightarrow>
                  let last_type = (if inside = [] then t else last inside); inner = take (j - i) (drop i kids)
                  in if list_all (kid_ok last_type) inner \<and> (needs_content last_type \<longrightarrow> inner \<noteq> [])
                     then Dispatched inside else Refused)"

definition find_wrapping :: "pm list \<Rightarrow> node_range \<Rightarrow> node_type \<Rightarrow> node_range \<Rightarrow> (node_type list \<times> node_type list) command_result" where
  "find_wrapping c outer t inner =
     (case find_wrapping_outside c outer t of
        None \<Rightarrow> Refused
      | Some around \<Rightarrow> and_then (find_wrapping_inside c inner t) (\<lambda>inside. Dispatched (around, inside)))"

section \<open>Splitting\<close>

text \<open>
  \<open>canSplit\<close> without types for what comes after. For depth 0 it reads the type of a node that is not
  there, unless an earlier test refuses: an exception (\<open>Raised\<close>).
\<close>

definition split_rest_ok :: "pm list \<Rightarrow> nat \<Rightarrow> nat \<Rightarrow> bool" where
  "split_rest_ok c pos d =
     (let nt = type_at c pos d; kids = kids_at c pos d; i = index_at c pos d
      in can_replace nt kids (i + 1) (length kids) [] \<and> valid_content nt (drop i kids))"

definition can_split :: "pm list \<Rightarrow> nat \<Rightarrow> nat \<Rightarrow> bool command_result" where
  "can_split c pos depth =
     (let top = depth_of c pos; nt = type_at c pos top; kids = kids_at c pos top; i = index_at c pos top
      in if top < depth then Dispatched False
         else let base = top - depth
              in if \<not> can_replace nt kids i (length kids) [] \<or> \<not> valid_content nt (drop i kids) then Dispatched False
                 else if \<not> list_all (split_rest_ok c pos) [base + 1..<top] then Dispatched False
                 else if depth = 0 then Raised
                 else let j = index_after base pos c
                      in Dispatched (can_replace_with (type_at c pos base) (kids_at c pos base) j j (type_at c pos (base + 1))))"

text \<open>\<open>split\<close>: the nodes down to the position are closed and opened again.\<close>

definition split_tr :: "nat \<Rightarrow> nat \<Rightarrow> transaction \<Rightarrow> transaction command_result" where
  "split_tr pos depth tr =
     (let c = tr_doc tr; top = depth_of c pos
      in step_replace True pos pos
           (replicate depth Close @ map (\<lambda>d. Open (type_at c pos d) (attrs_at c pos d)) [top + 1 - depth..<top + 1]) tr)"

end
