(* ===== verification/Content_Match.thy ===== *)
theory Content_Match
  imports Prose_Steps
begin

text \<open>
  Content expressions, as the document library reads them when the schema of the text editor is made
  (\<open>components.js\<close>): the tokens of an expression, its parser, the automaton it is compiled to, and
  matching. For the expressions of the schema the automaton accepts what \<open>Prose_Schema\<close> says.
\<close>

section \<open>Tokens\<close>

text \<open>
  \<open>split(/\s*(?=\b|\W|$)/)\<close>: runs of word characters, and every other character that is not white
  space.
\<close>

definition word_char :: "char \<Rightarrow> bool" where
  "word_char c \<longleftrightarrow> (let n = of_char c :: nat in 48 \<le> n \<and> n \<le> 57 \<or> 65 \<le> n \<and> n \<le> 90 \<or> n = 95 \<or> 97 \<le> n \<and> n \<le> 122)"

function expr_tokens :: "string \<Rightarrow> string list" where
  "expr_tokens [] = []"
| "expr_tokens (c # cs) =
     (if is_space c then expr_tokens cs
      else if word_char c then (c # takeWhile word_char cs) # expr_tokens (dropWhile word_char cs)
      else [c] # expr_tokens cs)"
  by pat_completeness auto
termination by (relation "measure length") (auto simp: length_dropWhile_le less_Suc_eq_le)

section \<open>The parser\<close>

text \<open>
  An expression over types. A range without an upper end has \<open>None\<close> (the code's -1).
\<close>

datatype 't content_expr =
    Choice "'t content_expr list"
  | Seq "'t content_expr list"
  | Star "'t content_expr"
  | Plus "'t content_expr"
  | Opt "'t content_expr"
  | Range nat "nat option" "'t content_expr"
  | Name 't

text \<open>What goes wrong is a \<open>SyntaxError\<close>; \<open>Deep\<close> is the end of the fuel.\<close>

datatype expr_error = Trailing | ExpectedNumber | Unclosed | NoSuchName | MissingParen | Mixing | Unexpected | DeadEnd | Deep

text \<open>The types of a schema: their names and groups, in the order of the schema, and which are inline.\<close>

record 't type_table =
  tt_types :: "'t list"
  tt_name :: "'t \<Rightarrow> string"
  tt_groups :: "'t \<Rightarrow> string list"
  tt_inline :: "'t \<Rightarrow> bool"

text \<open>The state of \<open>TokenStream\<close>: the tokens that are left, and whether the names so far are inline.\<close>

type_synonym stream = "string list \<times> bool option"

definition resolve_name :: "'t type_table \<Rightarrow> string \<Rightarrow> expr_error + 't list" where
  "resolve_name tt nm =
     (case find (\<lambda>t. tt_name tt t = nm) (tt_types tt) of
        Some t \<Rightarrow> Inr [t]
      | None \<Rightarrow> (case filter (\<lambda>t. nm \<in> set (tt_groups tt t)) (tt_types tt) of [] \<Rightarrow> Inl NoSuchName | ts \<Rightarrow> Inr ts))"

fun inline_names :: "'t type_table \<Rightarrow> 't list \<Rightarrow> bool option \<Rightarrow> expr_error + bool option" where
  "inline_names tt [] inl = Inr inl"
| "inline_names tt (t # ts) inl =
     (case inl of
        None \<Rightarrow> inline_names tt ts (Some (tt_inline tt t))
      | Some b \<Rightarrow> if b \<noteq> tt_inline tt t then Inl Mixing else inline_names tt ts inl)"

definition one_or :: "('a list \<Rightarrow> 'a) \<Rightarrow> 'a list \<Rightarrow> 'a" where
  "one_or f es = (case es of [e] \<Rightarrow> e | _ \<Rightarrow> f es)"

fun bind_err :: "'e + 'a \<Rightarrow> ('a \<Rightarrow> 'e + 'b) \<Rightarrow> 'e + 'b" where
  "bind_err (Inl e) f = Inl e"
| "bind_err (Inr x) f = f x"

definition eat :: "string \<Rightarrow> string list \<Rightarrow> string list option" where
  "eat tok ts = (case ts of [] \<Rightarrow> None | t # rest \<Rightarrow> if t = tok then Some rest else None)"

text \<open>
  \<open>parseNum\<close>: a token with a character that is no digit is an error. At the end of the stream the
  test is made on the word \<open>undefined\<close>.
\<close>

definition parse_num :: "string list \<Rightarrow> expr_error + nat \<times> string list" where
  "parse_num ts =
     (case ts of
        [] \<Rightarrow> Inl ExpectedNumber
      | t # rest \<Rightarrow> if list_all (\<lambda>c. digit_value 10 c \<noteq> None) t then Inr (parse_digits 10 0 t, rest) else Inl ExpectedNumber)"

text \<open>\<open>parseExprRange\<close>, from what follows the lower end.\<close>

definition parse_upper :: "nat \<Rightarrow> string list \<Rightarrow> expr_error + nat option \<times> string list" where
  "parse_upper lo ts =
     (case eat '','' ts of
        None \<Rightarrow> Inr (Some lo, ts)
      | Some rest \<Rightarrow>
          if rest \<noteq> [] \<and> hd rest = ''}'' then Inr (None, rest) else bind_err (parse_num rest) (\<lambda>(hi, ts1). Inr (Some hi, ts1)))"

definition parse_range :: "'t content_expr \<Rightarrow> string list \<Rightarrow> expr_error + 't content_expr \<times> string list" where
  "parse_range e ts =
     bind_err (parse_num ts) (\<lambda>(lo, ts1). bind_err (parse_upper lo ts1) (\<lambda>(hi, ts2).
       case eat ''}'' ts2 of None \<Rightarrow> Inl Unclosed | Some ts3 \<Rightarrow> Inr (Range lo hi e, ts3)))"

text \<open>
  The loops of the parser. At the end of the stream \<open>parseExprAtom\<close> tests the word \<open>undefined\<close>, which
  is a name, and no type has it.
\<close>

function parse_exprs :: "nat \<Rightarrow> 't type_table \<Rightarrow> stream \<Rightarrow> expr_error + 't content_expr list \<times> stream"
  and parse_seqs :: "nat \<Rightarrow> 't type_table \<Rightarrow> stream \<Rightarrow> expr_error + 't content_expr list \<times> stream"
  and parse_subscript :: "nat \<Rightarrow> 't type_table \<Rightarrow> 't content_expr \<Rightarrow> stream \<Rightarrow> expr_error + 't content_expr \<times> stream"
  and parse_atom :: "nat \<Rightarrow> 't type_table \<Rightarrow> stream \<Rightarrow> expr_error + 't content_expr \<times> stream" where
  "parse_exprs 0 tt st = Inl Deep"
| "parse_exprs (Suc n) tt st =
     bind_err (parse_seqs n tt st) (\<lambda>(es, ts1, inl1).
       case eat ''|'' ts1 of
         None \<Rightarrow> Inr ([one_or Seq es], ts1, inl1)
       | Some ts2 \<Rightarrow> bind_err (parse_exprs n tt (ts2, inl1)) (\<lambda>(rest, st3). Inr (one_or Seq es # rest, st3)))"
| "parse_seqs 0 tt st = Inl Deep"
| "parse_seqs (Suc n) tt st =
     bind_err (parse_atom n tt st) (\<lambda>(e, st1).
       bind_err (parse_subscript n tt e st1) (\<lambda>(e1, ts2, inl2).
         if ts2 \<noteq> [] \<and> hd ts2 \<noteq> '')'' \<and> hd ts2 \<noteq> ''|''
         then bind_err (parse_seqs n tt (ts2, inl2)) (\<lambda>(es, st3). Inr (e1 # es, st3))
         else Inr ([e1], ts2, inl2)))"
| "parse_subscript 0 tt e st = Inl Deep"
| "parse_subscript (Suc n) tt e (ts, inl) =
     (case ts of
        [] \<Rightarrow> Inr (e, ts, inl)
      | t # rest \<Rightarrow>
          if t = ''+'' then parse_subscript n tt (Plus e) (rest, inl)
          else if t = ''*'' then parse_subscript n tt (Star e) (rest, inl)
          else if t = ''?'' then parse_subscript n tt (Opt e) (rest, inl)
          else if t = ''{'' then bind_err (parse_range e rest) (\<lambda>(e1, ts1). parse_subscript n tt e1 (ts1, inl))
          else Inr (e, ts, inl))"
| "parse_atom 0 tt st = Inl Deep"
| "parse_atom (Suc n) tt (ts, inl) =
     (case ts of
        [] \<Rightarrow> Inl NoSuchName
      | t # rest \<Rightarrow>
          if t = ''('' then
            bind_err (parse_exprs n tt (rest, inl)) (\<lambda>(es, ts1, inl1).
              case eat '')'' ts1 of None \<Rightarrow> Inl MissingParen | Some ts2 \<Rightarrow> Inr (one_or Choice es, ts2, inl1))
          else if list_all word_char t then
            bind_err (resolve_name tt t) (\<lambda>tys. bind_err (inline_names tt tys inl) (\<lambda>inl1.
              Inr (one_or Choice (map Name tys), rest, inl1)))
          else Inl Unexpected)"
  by pat_completeness auto
termination
  by (relation "measure (\<lambda>x. case x of Inl (Inl (n, tt, st)) \<Rightarrow> n | Inl (Inr (n, tt, st)) \<Rightarrow> n
      | Inr (Inl (n, tt, e, st)) \<Rightarrow> n | Inr (Inr (n, tt, st)) \<Rightarrow> n)") auto

definition parse_fuel :: "string list \<Rightarrow> nat" where
  "parse_fuel ts = 3 * length ts + 3"

text \<open>The part of \<open>ContentMatch.parse\<close> that reads: \<open>None\<close> is the empty expression.\<close>

definition parse_content :: "'t type_table \<Rightarrow> string \<Rightarrow> expr_error + 't content_expr option" where
  "parse_content tt s =
     (let ts = expr_tokens s
      in if ts = [] then Inr None
         else bind_err (parse_exprs (parse_fuel ts) tt (ts, None)) (\<lambda>(es, ts1, inl1).
                if ts1 \<noteq> [] then Inl Trailing else Inr (Some (one_or Choice es))))"

text \<open>The fuel is enough: every parser but the one of what follows an atom takes a token.\<close>

lemma parse_num_rest: "parse_num ts = Inr (n, rest) \<Longrightarrow> length rest < length ts"
  by (auto simp: parse_num_def split: list.splits if_splits)

lemma eat_rest: "eat tok ts = Some rest \<Longrightarrow> length rest < length ts"
  by (auto simp: eat_def split: list.splits if_splits)

lemma bind_err_Inr: "bind_err r f = Inr y \<longleftrightarrow> (\<exists>x. r = Inr x \<and> f x = Inr y)"
  by (cases r) auto

lemma bind_err_Inl: "bind_err r f = Inl e \<longleftrightarrow> r = Inl e \<or> (\<exists>x. r = Inr x \<and> f x = Inl e)"
  by (cases r) auto

lemma parse_upper_rest: "parse_upper lo ts = Inr (hi, rest) \<Longrightarrow> length rest \<le> length ts"
  by (auto simp: parse_upper_def bind_err_Inr split: option.splits if_splits dest!: parse_num_rest eat_rest)

lemma parse_range_rest: "parse_range e ts = Inr (e1, rest) \<Longrightarrow> length rest < length ts"
  by (auto simp: parse_range_def bind_err_Inr split: option.splits) (fastforce dest: parse_num_rest parse_upper_rest eat_rest)

lemma parse_range_deep: "parse_range e ts \<noteq> Inl Deep"
  by (auto simp: parse_range_def parse_upper_def bind_err_Inl parse_num_def split: option.splits if_splits list.splits)

lemma parsers_take:
  fixes tt :: "'t type_table"
  shows "parse_exprs n tt st = Inr (es, st') \<Longrightarrow> length (fst st') < length (fst st)"
    and "parse_seqs n tt st = Inr (es, st') \<Longrightarrow> length (fst st') < length (fst st)"
    and "parse_subscript n tt e st = Inr (e1, st') \<Longrightarrow> length (fst st') \<le> length (fst st)"
    and "parse_atom n tt st = Inr (e1, st') \<Longrightarrow> length (fst st') < length (fst st)"
proof (induction n tt st and n tt st and n tt e st and n tt st arbitrary: es st' and es st' and e1 st' and e1 st'
    rule: parse_exprs_parse_seqs_parse_subscript_parse_atom.induct)
  case (2 n tt st)
  from 2(3) obtain es1 ts1 inl1 where s: "parse_seqs n tt st = Inr (es1, ts1, inl1)" by (auto simp: bind_err_Inr)
  note l = 2(1) [OF s]
  show ?case
  proof (cases "eat ''|'' ts1")
    case None
    with 2(3) s l show ?thesis by (auto simp: bind_err_Inr)
  next
    case (Some ts2)
    with 2(3) s obtain rest st3 where "parse_exprs n tt (ts2, inl1) = Inr (rest, st3)" "st' = st3" by (auto simp: bind_err_Inr)
    with 2(2) [OF Some this(1)] l eat_rest [OF Some] show ?thesis by simp
  qed
next
  case (4 n tt st)
  from 4(4) obtain a st1 e1 ts2 inl2 where a: "parse_atom n tt st = Inr (a, st1)" and b: "parse_subscript n tt a st1 = Inr (e1, ts2, inl2)"
    by (auto simp: bind_err_Inr)
  have l: "length ts2 < length (fst st)" using 4(1) [OF a] 4(2) [OF b] by simp
  show ?case
  proof (cases "ts2 \<noteq> [] \<and> hd ts2 \<noteq> '')'' \<and> hd ts2 \<noteq> ''|''")
    case True
    with 4(4) a b obtain es1 st3 where c: "parse_seqs n tt (ts2, inl2) = Inr (es1, st3)" "st' = st3" by (auto simp: bind_err_Inr)
    from 4(3) [OF True c(1)] l c(2) show ?thesis by simp
  next
    case False
    with 4(4) a b l show ?thesis by (auto simp: bind_err_Inr)
  qed
next
  case (6 n tt e ts inl)
  show ?case
  proof (cases ts)
    case (Cons t rest)
    consider "t = ''+''" | "t = ''*''" | "t = ''?''" | "t = ''{''" | "t \<notin> {''+'', ''*'', ''?'', ''{''}" by blast
    then show ?thesis
    proof cases
      case 4
      with 6(5) Cons obtain e2 ts1 where r: "parse_range e rest = Inr (e2, ts1)" "parse_subscript n tt e2 (ts1, inl) = Inr (e1, st')"
        by (auto simp: bind_err_Inr)
      from 6(4) [OF Cons _ _ _ 4 r(2)] parse_range_rest [OF r(1)] 4 Cons show ?thesis by simp
    next
      case 1
      with 6 Cons show ?thesis by (cases st') fastforce
    next
      case 2
      with 6 Cons show ?thesis by (cases st') fastforce
    next
      case 3
      with 6 Cons show ?thesis by (cases st') fastforce
    qed (use 6 Cons in auto)
  qed (use 6 in simp)
next
  case (8 n tt ts inl)
  then show ?case by (fastforce simp: bind_err_Inr dest: eat_rest split: list.splits if_splits option.splits)
qed auto

lemma names_not_deep: "resolve_name tt nm \<noteq> Inl Deep" "inline_names tt ts inl \<noteq> Inl Deep"
  by (auto simp: resolve_name_def split: option.splits list.splits)
    (induction tt ts inl rule: inline_names.induct, auto split: option.splits if_splits)

lemma parsers_not_deep:
  fixes tt :: "'t type_table"
  shows "3 * length (fst st) + 3 \<le> n \<Longrightarrow> parse_exprs n tt st \<noteq> Inl Deep"
    and "3 * length (fst st) + 2 \<le> n \<Longrightarrow> parse_seqs n tt st \<noteq> Inl Deep"
    and "length (fst st) + 1 \<le> n \<Longrightarrow> parse_subscript n tt e st \<noteq> Inl Deep"
    and "3 * length (fst st) + 1 \<le> n \<Longrightarrow> parse_atom n tt st \<noteq> Inl Deep"
proof (induction n tt st and n tt st and n tt e st and n tt st rule: parse_exprs_parse_seqs_parse_subscript_parse_atom.induct)
  case (2 n tt st)
  have "parse_exprs n tt (ts2, inl1) \<noteq> Inl Deep"
    if "parse_seqs n tt st = Inr (es, ts1, inl1)" "eat ''|'' ts1 = Some ts2" for es ts1 inl1 ts2
    using 2(2) [OF that(2), of inl1] parsers_take(2) [OF that(1)] eat_rest [OF that(2)] 2(3) by simp
  with 2(1,3) show ?case by (auto simp: bind_err_Inl split: option.splits)
next
  case (4 n tt st)
  have a: "length (fst st1) < length (fst st)" if "parse_atom n tt st = Inr (e, st1)" for e st1
    using parsers_take(4) [OF that] .
  have "parse_subscript n tt e st1 \<noteq> Inl Deep" if "parse_atom n tt st = Inr (e, st1)" for e st1
    using 4(2) [of st1 e] a [OF that] 4(4) by simp
  moreover have "parse_seqs n tt (ts2, inl2) \<noteq> Inl Deep"
    if "parse_atom n tt st = Inr (e, st1)" "parse_subscript n tt e st1 = Inr (e1, ts2, inl2)"
      "ts2 \<noteq> [] \<and> hd ts2 \<noteq> '')'' \<and> hd ts2 \<noteq> ''|''" for e st1 e1 ts2 inl2
    using 4(3) [OF that(3), of inl2] a [OF that(1)] parsers_take(3) [OF that(2)] 4(4) by simp
  ultimately show ?case using 4(1,4) by (auto simp: bind_err_Inl split: if_splits)
next
  case (6 n tt e ts inl)
  show ?case
  proof (cases ts)
    case (Cons t rest)
    have "parse_subscript n tt e1 (ts1, inl) \<noteq> Inl Deep"
      if "t \<noteq> ''+''" "t \<noteq> ''*''" "t \<noteq> ''?''" "t = ''{''" "parse_range e rest = Inr (e1, ts1)" for e1 ts1
      using 6(4) [OF Cons that(1-4), of ts1 e1] parse_range_rest [OF that(5)] 6(5) Cons by simp
    with 6 Cons parse_range_deep [of e rest] show ?thesis by (auto simp: bind_err_Inl)
  qed simp
next
  case (8 n tt ts inl)
  show ?case
  proof (cases ts)
    case (Cons t rest)
    have "parse_exprs n tt (rest, inl) \<noteq> Inl Deep" if "t = ''(''" using 8(1) [OF Cons that] 8(2) Cons by simp
    then show ?thesis using Cons by (auto simp: bind_err_Inl names_not_deep split: option.splits)
  qed simp
qed auto

text \<open>The parser ends on every expression, with an expression or with an error of the code.\<close>

theorem content_is_parsed: "parse_content tt s \<noteq> Inl Deep"
  using parsers_not_deep(1) [of "(expr_tokens s, None)" "parse_fuel (expr_tokens s)" tt]
  by (auto simp: parse_content_def Let_def bind_err_Inl parse_fuel_def split: if_splits)

section \<open>The automaton\<close>

text \<open>
  \<open>nfa\<close>: states with their edges in order. An edge that is not connected yet leads to \<open>None\<close>; such edges
  are what compiling an expression from a state gives.
\<close>

type_synonym 't edge = "'t option \<times> nat option"
type_synonym 't nfa = "'t edge list list"

definition add_node :: "'t nfa \<Rightarrow> 't nfa \<times> nat" where
  "add_node m = (m @ [[]], length m)"

definition add_edge :: "nat \<Rightarrow> nat option \<Rightarrow> 't option \<Rightarrow> 't nfa \<Rightarrow> 't nfa \<times> nat \<times> nat" where
  "add_edge src dst trm m = (m[src := m ! src @ [(trm, dst)]], src, length (m ! src))"

definition connect :: "(nat \<times> nat) list \<Rightarrow> nat \<Rightarrow> 't nfa \<Rightarrow> 't nfa" where
  "connect es dst m = fold (\<lambda>(s, i) m. m[s := (m ! s)[i := (fst (m ! s ! i), Some dst)]]) es m"

lemma size_in_list: "e \<in> set es \<Longrightarrow> size e < Suc (size_list size es)" "e \<in> set es \<Longrightarrow> size e < Suc (Suc (k + size_list size es))"
  by (induction es) auto

function compile :: "'t content_expr \<Rightarrow> nat \<Rightarrow> 't nfa \<Rightarrow> 't nfa \<times> (nat \<times> nat) list" where
  "compile (Choice es) src m =
     fold (\<lambda>e (m, out). let (m1, new) = compile e src m in (m1, out @ new)) es (m, [])"
| "compile (Seq es) src m =
     (case es of
        [] \<Rightarrow> (m, [])
      | e # rest \<Rightarrow>
          fold (\<lambda>e (m, out). let (m1, mid) = add_node m in compile e mid (connect out mid m1)) rest (compile e src m))"
| "compile (Star e) src m =
     (let (m1, loop) = add_node m; (m2, x) = add_edge src (Some loop) None m1; (m3, es) = compile e loop m2;
          (m4, out) = add_edge loop None None (connect es loop m3)
      in (m4, [out]))"
| "compile (Plus e) src m =
     (let (m1, loop) = add_node m; (m2, es) = compile e src m1; (m3, es2) = compile e loop (connect es loop m2);
          (m4, out) = add_edge loop None None (connect es2 loop m3)
      in (m4, [out]))"
| "compile (Opt e) src m =
     (let (m1, skip) = add_edge src None None m; (m2, es) = compile e src m1 in (m2, skip # es))"
| "compile (Range lo hi e) src m =
     (let (m1, cur) = fold (\<lambda>i (m, cur). let (m1, mid) = add_node m; (m2, es) = compile e cur m1 in (connect es mid m2, mid))
            [0..<lo] (m, src);
          (m2, cur2) =
            (case hi of
               None \<Rightarrow> (let (m2, es) = compile e cur m1 in (connect es cur m2, cur))
             | Some h \<Rightarrow>
                 fold (\<lambda>i (m, cur). let (m1, mid) = add_node m; (m2, x) = add_edge cur (Some mid) None m1; (m3, es) = compile e cur m2
                         in (connect es mid m3, mid)) [lo..<h] (m1, cur));
          (m3, out) = add_edge cur2 None None m2
      in (m3, [out]))"
| "compile (Name t) src m = (let (m1, out) = add_edge src None (Some t) m in (m1, [out]))"
  by pat_completeness auto
termination by (relation "measure (\<lambda>(e, src, m). size e)") (auto simp: size_in_list)

definition content_nfa :: "'t content_expr \<Rightarrow> 't nfa" where
  "content_nfa e = (let (m, out) = compile e 0 [[]]; (m1, final) = add_node m in connect out final m1)"

text \<open>
  \<open>nullFrom\<close>: the states without edges that take nothing, apart from those with one such edge and no
  other. The stack holds the targets to visit, and whether to look if they were reached before. The
  search of the code does not end in a circle of states with one edge each: \<open>None\<close>.
\<close>

definition null_only :: "'t edge list \<Rightarrow> nat option" where
  "null_only es = (case es of [(None, dst)] \<Rightarrow> dst | _ \<Rightarrow> None)"

partial_function (option) null_scan :: "'t nfa \<Rightarrow> (bool \<times> nat) list \<Rightarrow> nat list \<Rightarrow> nat list option" where
  "null_scan m st res =
     (case st of
        [] \<Rightarrow> Some res
      | (look, n) # rest \<Rightarrow>
          if look \<and> n \<in> set res then null_scan m rest res
          else (case null_only (m ! n) of
              Some k \<Rightarrow> null_scan m ((False, k) # rest) res
            | None \<Rightarrow> null_scan m (map (\<lambda>(trm, dst). (True, the dst)) (filter (\<lambda>(trm, dst). trm = None) (m ! n)) @ rest) (res @ [n])))"

declare null_scan.simps [code]

definition null_from :: "'t nfa \<Rightarrow> nat \<Rightarrow> nat list option" where
  "null_from m n = map_option (\<lambda>res. rev (sort res)) (null_scan m [(False, n)] [])"

text \<open>
  \<open>dfa\<close>: a state of the automaton is its label, the states of the \<open>nfa\<close> it stands for; the table of
  states that were made is only there to make each once. The sets that types lead to are
  collected in the order of the edges.
\<close>

fun collect :: "'t \<Rightarrow> nat list \<Rightarrow> ('t \<times> nat list) list \<Rightarrow> ('t \<times> nat list) list" where
  "collect t ns [] = [(t, remdups ns)]"
| "collect t ns ((u, set0) # out) =
     (if t = u then (u, set0 @ remdups (filter (\<lambda>n. n \<notin> set set0) ns)) # out else (u, set0) # collect t ns out)"

definition match_next :: "'t nfa \<Rightarrow> nat list \<Rightarrow> ('t \<times> nat list) list option" where
  "match_next m states =
     map_option (map (\<lambda>(t, ns). (t, rev (sort ns))))
       (fold (\<lambda>(trm, dst) acc. case trm of
            None \<Rightarrow> acc
          | Some t \<Rightarrow> Option.bind acc (\<lambda>out. map_option (\<lambda>ns. collect t ns out) (null_from m (the dst))))
         (concat (map (\<lambda>n. m ! n) states)) (Some []))"

definition valid_end :: "'t nfa \<Rightarrow> nat list \<Rightarrow> bool" where
  "valid_end m states \<longleftrightarrow> length m - 1 \<in> set states"

definition match_start :: "'t nfa \<Rightarrow> nat list option" where
  "match_start m = null_from m 0"

fun match_type :: "'t nfa \<Rightarrow> nat list \<Rightarrow> 't \<Rightarrow> nat list option option" where
  "match_type m st t = map_option (\<lambda>nx. map_of nx t) (match_next m st)"

text \<open>\<open>matchFragment\<close>, over the types of the children.\<close>

fun match_fragment :: "'t nfa \<Rightarrow> nat list \<Rightarrow> 't list \<Rightarrow> nat list option option" where
  "match_fragment m st [] = Some (Some st)"
| "match_fragment m st (t # ts) =
     (case match_type m st t of
        None \<Rightarrow> None
      | Some None \<Rightarrow> Some None
      | Some (Some st1) \<Rightarrow> match_fragment m st1 ts)"

section \<open>The schema of the text editor\<close>

text \<open>A node type, or \<open>None\<close> for the type of texts; names, groups and content are those of the schema.\<close>

type_synonym kind = "node_type option"

definition schema_kinds :: "kind list" where
  "schema_kinds = [Some Doc, Some Paragraph, Some Pre, Some Blockquote, Some Heading, None, Some Image, Some Hard_break,
     Some Task_list, Some Task_list_item, Some Ordered_list, Some Bullet_list, Some List_item, Some Pill, Some Search_pill]"

fun kind_name :: "kind \<Rightarrow> string" where
  "kind_name None = ''text''"
| "kind_name (Some Doc) = ''doc''"
| "kind_name (Some Paragraph) = ''paragraph''"
| "kind_name (Some Pre) = ''pre''"
| "kind_name (Some Blockquote) = ''blockquote''"
| "kind_name (Some Heading) = ''heading''"
| "kind_name (Some Image) = ''image''"
| "kind_name (Some Hard_break) = ''hard_break''"
| "kind_name (Some Task_list) = ''task_list''"
| "kind_name (Some Task_list_item) = ''task_list_item''"
| "kind_name (Some Ordered_list) = ''ordered_list''"
| "kind_name (Some Bullet_list) = ''bullet_list''"
| "kind_name (Some List_item) = ''list_item''"
| "kind_name (Some Pill) = ''pill''"
| "kind_name (Some Search_pill) = ''search_pill''"

definition kind_groups :: "kind \<Rightarrow> string list" where
  "kind_groups k =
     (if k \<in> {Some Paragraph, Some Pre, Some Blockquote, Some Heading, Some Task_list, Some Ordered_list, Some Bullet_list}
      then [''block'']
      else if k \<in> {None, Some Image, Some Hard_break, Some Pill, Some Search_pill} then [''inline''] else [])"

definition kind_inline :: "kind \<Rightarrow> bool" where
  "kind_inline k \<longleftrightarrow> k \<in> {None, Some Image, Some Hard_break, Some Pill, Some Search_pill}"

definition schema_types :: "kind type_table" where
  "schema_types = \<lparr>tt_types = schema_kinds, tt_name = kind_name, tt_groups = kind_groups, tt_inline = kind_inline\<rparr>"

fun content_spec :: "node_type \<Rightarrow> string" where
  "content_spec Doc = ''block+''"
| "content_spec Paragraph = ''inline*''"
| "content_spec Pre = ''block*''"
| "content_spec Blockquote = ''block+''"
| "content_spec Heading = ''inline*''"
| "content_spec Task_list = ''task_list_item+''"
| "content_spec Task_list_item = ''block*''"
| "content_spec Ordered_list = ''list_item+''"
| "content_spec Bullet_list = ''list_item+''"
| "content_spec List_item = ''block*''"
| "content_spec _ = []"

section \<open>Dead ends\<close>

text \<open>
  \<open>checkForDeadEnds\<close>: whether some state that can be reached is no end, and all that fits there is text or
  needs attributes.
\<close>

partial_function (option) dead_ends :: "('t \<Rightarrow> bool) \<Rightarrow> 't nfa \<Rightarrow> nat \<Rightarrow> nat list list \<Rightarrow> bool option" where
  "dead_ends made m i work =
     (if length work \<le> i then Some False
      else Option.bind (match_next m (work ! i)) (\<lambda>nx.
        if \<not> valid_end m (work ! i) \<and> list_all (\<lambda>(t, st). \<not> made t) nx then Some True
        else dead_ends made m (i + 1) (fold (\<lambda>(t, st) w. if st \<in> set w then w else w @ [st]) nx work)))"

declare dead_ends.simps [code]

text \<open>\<open>ContentMatch.parse\<close>: the automaton with its first state, if the searches for it end.\<close>

definition content_match :: "'t type_table \<Rightarrow> ('t \<Rightarrow> bool) \<Rightarrow> string \<Rightarrow> expr_error + ('t nfa \<times> nat list) option" where
  "content_match tt made s =
     bind_err (parse_content tt s) (\<lambda>r. case r of
         None \<Rightarrow> Inr (Some ([[]], [0]))
       | Some e \<Rightarrow>
           (let m = content_nfa e
            in case match_start m of
                 None \<Rightarrow> Inr None
               | Some st \<Rightarrow>
                   (case dead_ends made m 0 [st] of
                      None \<Rightarrow> Inr None
                    | Some dead \<Rightarrow> if dead then Inl DeadEnd else Inr (Some (m, st)))))"

fun kind_made :: "kind \<Rightarrow> bool" where
  "kind_made None \<longleftrightarrow> False"
| "kind_made (Some nt) \<longleftrightarrow> compute_attrs (attr_spec nt) (\<lambda>k. None) \<noteq> None"

section \<open>The automata of the schema\<close>

definition accepts :: "'t nfa \<Rightarrow> nat list \<Rightarrow> 't list \<Rightarrow> bool" where
  "accepts m st ts \<longleftrightarrow> (case match_fragment m st ts of Some (Some st1) \<Rightarrow> valid_end m st1 | _ \<Rightarrow> False)"

text \<open>A state that every type of a list leads back to, and a state that leads to such a one.\<close>

lemma accepts_loop:
  assumes "match_next m st = Some (map (\<lambda>t. (t, st)) ts)" and "valid_end m st"
  shows "accepts m st ks \<longleftrightarrow> set ks \<subseteq> set ts"
proof -
  have "match_fragment m st ks = Some (if set ks \<subseteq> set ts then Some st else None)"
    by (induction ks) (use assms(1) in \<open>auto simp: map_of_map_restrict restrict_map_def split: if_splits\<close>)
  then show ?thesis using assms(2) by (simp add: accepts_def)
qed


text \<open>The kinds a node takes, in the order of the schema.\<close>

definition kid_kinds :: "node_type \<Rightarrow> kind list" where
  "kid_kinds nt = (if textblock nt then [None] else []) @ map Some (content_types nt)"

definition loop_automaton :: "'t list \<Rightarrow> bool \<Rightarrow> 't nfa \<Rightarrow> nat list \<Rightarrow> bool" where
  "loop_automaton ts needed m st \<longleftrightarrow>
     (case match_next m st of
        None \<Rightarrow> False
      | Some nx \<Rightarrow>
          (let s1 = (if needed then snd (hd nx) else st); back = map (\<lambda>t. (t, s1)) ts
           in nx = back \<and> match_next m s1 = Some back \<and> valid_end m s1 \<and> (valid_end m st \<longleftrightarrow> \<not> needed)))"

lemma accepts_automaton:
  assumes "loop_automaton ts needed m st"
  shows "accepts m st ks \<longleftrightarrow> set ks \<subseteq> set ts \<and> (needed \<longrightarrow> ks \<noteq> [])"
proof -
  obtain s1 where a: "match_next m st = Some (map (\<lambda>t. (t, s1)) ts)" "match_next m s1 = Some (map (\<lambda>t. (t, s1)) ts)"
      "valid_end m s1" "valid_end m st \<longleftrightarrow> \<not> needed"
    using assms by (auto simp: loop_automaton_def Let_def split: option.splits)
  show ?thesis
  proof (cases ks)
    case Nil
    then show ?thesis using a(4) by (simp add: accepts_def)
  next
    case (Cons k ks')
    have "accepts m st ks \<longleftrightarrow> k \<in> set ts \<and> accepts m s1 ks'"
      using a(1) Cons by (auto simp: accepts_def map_of_map_restrict restrict_map_def)
    then show ?thesis using accepts_loop [OF a(2,3), of ks'] Cons by auto
  qed
qed

text \<open>
  Expressions that are names, starred or not: the automaton of \<open>x+\<close> has a first state of its own, that of
  \<open>x*\<close> begins in the loop.
\<close>

definition names_expr :: "'t list \<Rightarrow> 't content_expr" where
  "names_expr ts = one_or Choice (map Name ts)"

lemma compile_names:
  assumes "src < length m"
  shows "compile (Choice (map Name ts)) src m
    = (m[src := m ! src @ map (\<lambda>t. (Some t, None)) ts], map (\<lambda>i. (src, length (m ! src) + i)) [0..<length ts])"
proof (induction ts rule: rev_induct)
  case (snoc t ts)
  then show ?case using assms by (simp add: add_edge_def comp_def)
qed simp

lemma compile_names_expr:
  assumes "src < length m" and "ts \<noteq> []"
  shows "compile (names_expr ts) src m
    = (m[src := m ! src @ map (\<lambda>t. (Some t, None)) ts], map (\<lambda>i. (src, length (m ! src) + i)) [0..<length ts])"
proof (cases "\<exists>t. ts = [t]")
  case True
  then show ?thesis by (auto simp: names_expr_def one_or_def add_edge_def)
next
  case False
  with assms(2) have "names_expr ts = Choice (map Name ts)" by (auto simp: names_expr_def one_or_def split: list.splits)
  then show ?thesis using compile_names [OF assms(1), of ts] by simp
qed

lemma connect_names:
  assumes "src < length m" and "m ! src = es @ map (\<lambda>t. (Some t, None)) ts @ fs"
  shows "connect (map (\<lambda>i. (src, length es + i)) [0..<length ts]) dst m
    = m[src := es @ map (\<lambda>t. (Some t, Some dst)) ts @ fs]"
  using assms
proof (induction ts arbitrary: fs rule: rev_induct)
  case Nil
  then show ?case by (simp add: connect_def) (metis list_update_id)
next
  case (snoc t ts)
  have "connect (map (\<lambda>i. (src, length es + i)) [0..<length ts]) dst m
      = m[src := es @ map (\<lambda>t. (Some t, Some dst)) ts @ (Some t, None) # fs]"
    using snoc.IH [OF snoc.prems(1), of "(Some t, None) # fs"] snoc.prems(2) by simp
  then show ?case using snoc.prems(1) by (simp add: connect_def list_update_append nth_append)
qed

lemma nfa_plus:
  "ts \<noteq> [] \<Longrightarrow> content_nfa (Plus (names_expr ts))
    = [map (\<lambda>t. (Some t, Some 1)) ts, map (\<lambda>t. (Some t, Some 1)) ts @ [(None, Some 2)], []]"
  using connect_names [of 0 "[map (\<lambda>t. (Some t, None)) ts, []]" "[]" ts "[]" 1]
    connect_names [of 1 "[map (\<lambda>t. (Some t, Some 1)) ts, map (\<lambda>t. (Some t, None)) ts]" "[]" ts "[]" 1]
  by (simp add: content_nfa_def compile_names_expr add_node_def add_edge_def) (simp add: connect_def nth_append list_update_append numeral_2_eq_2)

lemma nfa_star:
  "ts \<noteq> [] \<Longrightarrow> content_nfa (Star (names_expr ts))
    = [[(None, Some 1)], map (\<lambda>t. (Some t, Some 1)) ts @ [(None, Some 2)], []]"
  using connect_names [of 1 "[[(None, Some 1)], map (\<lambda>t. (Some t, None)) ts]" "[]" ts "[]" 1]
  by (simp add: content_nfa_def compile_names_expr add_node_def add_edge_def) (simp add: connect_def nth_append list_update_append numeral_2_eq_2)

text \<open>The loop: a state of names and the way to the end.\<close>

definition loop_at :: "'t list \<Rightarrow> 't nfa \<Rightarrow> bool" where
  "loop_at ts m \<longleftrightarrow> ts \<noteq> [] \<and> distinct ts \<and> length m = 3 \<and> m ! 1 = map (\<lambda>t. (Some t, Some 1)) ts @ [(None, Some 2)] \<and> m ! 2 = []"

lemma null_from_loop: "loop_at ts m \<Longrightarrow> null_from m 1 = Some [2, 1]"
proof -
  assume l: "loop_at ts m"
  then obtain t us where ts: "ts = t # us" by (cases ts) (auto simp: loop_at_def)
  have n: "null_only (m ! 1) = None" "filter (\<lambda>(trm, dst). trm = None) (m ! 1) = [(None, Some 2)]" "null_only [] = None" "m ! 2 = []"
    using l by (auto simp: loop_at_def ts null_only_def filter_map comp_def)
  have "null_scan m [(False, 1)] [] = null_scan m [(True, 2)] [1]" by (subst null_scan.simps) (simp add: n del: One_nat_def)
  also have "\<dots> = null_scan m [] [1, 2]" by (subst null_scan.simps) (simp add: n del: One_nat_def)
  also have "\<dots> = Some [1, 2]" by (subst null_scan.simps) simp
  finally show ?thesis by (simp add: null_from_def insort_key.simps del: One_nat_def)
qed

lemma collect_new: "t \<notin> fst ` set out \<Longrightarrow> collect t ns out = out @ [(t, remdups ns)]"
  by (induction t ns out rule: collect.induct) auto

lemma collect_names:
  assumes "null_from m 1 = Some [2, 1]" and "distinct (map fst out @ ts)"
  shows "fold (\<lambda>(trm, dst) acc. case trm of
            None \<Rightarrow> acc
          | Some t \<Rightarrow> Option.bind acc (\<lambda>out. map_option (\<lambda>ns. collect t ns out) (null_from m (the dst))))
         (map (\<lambda>t. (Some t, Some 1)) ts) (Some out) = Some (out @ map (\<lambda>t. (t, [2, 1])) ts)"
  using assms(2)
proof (induction ts arbitrary: out)
  case (Cons t ts)
  have "collect t [2, 1] out = out @ [(t, [2, 1])]" using Cons.prems by (subst collect_new) (auto simp: image_iff)
  with Cons.IH [of "out @ [(t, [2, 1])]"] Cons.prems show ?case by (simp add: assms(1) del: One_nat_def)
qed simp

lemma next_names:
  assumes "loop_at ts m" and "concat (map (\<lambda>n. m ! n) st) = map (\<lambda>t. (Some t, Some 1)) ts @ es" and "es \<in> {[], [(None, Some 2)]}"
  shows "match_next m st = Some (map (\<lambda>t. (t, [2, 1])) ts)"
proof -
  have d: "distinct (map fst ([] :: ('a \<times> nat list) list) @ ts)" using assms(1) by (simp add: loop_at_def)
  show ?thesis using assms(3) collect_names [OF null_from_loop [OF assms(1)] d]
    unfolding match_next_def assms(2) fold_append by (auto simp: comp_def insort_key.simps)
qed

lemma loop_next: "loop_at ts m \<Longrightarrow> match_next m [2, 1] = Some (map (\<lambda>t. (t, [2, 1])) ts)"
  by (rule next_names [where es = "[(None, Some 2)]"]) (auto simp: loop_at_def)

lemma loop_end: "loop_at ts m \<Longrightarrow> valid_end m [2, 1]"
  by (simp add: loop_at_def valid_end_def)

lemma work_names:
  "ts \<noteq> [] \<Longrightarrow> fold (\<lambda>(t, st) w. if st \<in> set w then w else w @ [st]) (map (\<lambda>t. (t, s1)) ts) w = (if s1 \<in> set w then w else w @ [s1])"
proof (induction ts arbitrary: w)
  case (Cons t ts)
  then show ?case by (cases ts) auto
qed simp

lemma loop_no_dead_end:
  assumes "loop_at ts m" and "match_next m st = Some (map (\<lambda>t. (t, [2, 1])) ts)" and "list_ex made ts"
  shows "dead_ends made m 0 [st] = Some False"
proof -
  let ?nx = "map (\<lambda>t. (t, [2 :: nat, 1])) ts"
  have go: "\<not> list_all (\<lambda>(t, st). \<not> made t) ?nx" using assms(3) by (auto simp: list_all_iff list_ex_iff)
  have ts: "ts \<noteq> []" using assms(1) by (simp add: loop_at_def)
  have step: "dead_ends made m i work = dead_ends made m (i + 1) (if [2, 1] \<in> set work then work else work @ [[2, 1]])"
    if "i < length work" "match_next m (work ! i) = Some ?nx" for i work
    using that go by (subst dead_ends.simps) (simp add: work_names [OF ts])
  have stop: "dead_ends made m (length work) work = Some False" for work by (subst dead_ends.simps) simp
  show ?thesis
  proof (cases "st = [2, 1]")
    case True
    then show ?thesis using step [of 0 "[st]"] assms(2) stop [of "[st]"] by simp
  next
    case False
    then show ?thesis
      using step [of 0 "[st]"] step [of 1 "[st, [2, 1]]"] assms(2) loop_next [OF assms(1)] stop [of "[st, [2, 1]]"] by simp
  qed
qed

text \<open>What \<open>ContentMatch.parse\<close> gives for \<open>x+\<close> and \<open>x*\<close>.\<close>

lemma match_plus:
  assumes "parse_content tt s = Inr (Some (Plus (names_expr ts)))" and "ts \<noteq> []" and "distinct ts" and "list_ex made ts"
  shows "\<exists>m st. content_match tt made s = Inr (Some (m, st)) \<and> loop_automaton ts True m st"
proof -
  let ?m = "content_nfa (Plus (names_expr ts))"
  have l: "loop_at ts ?m" unfolding nfa_plus [OF assms(2)] using assms(2,3) by (simp add: loop_at_def)
  obtain t us where t: "ts = t # us" using assms(2) by (cases ts) auto
  have "null_scan ?m [(False, 0)] [] = null_scan ?m [] [0]"
    unfolding nfa_plus [OF assms(2)] by (subst null_scan.simps) (auto simp: t null_only_def filter_map comp_def)
  then have st: "match_start ?m = Some [0]" by (simp add: match_start_def null_from_def null_scan.simps)
  have nx: "match_next ?m [0] = Some (map (\<lambda>t. (t, [2, 1])) ts)"
    by (rule next_names [OF l, of _ "[]"]) (simp_all add: nfa_plus [OF assms(2)])
  have "loop_automaton ts True ?m [0]"
    using nx loop_next [OF l] loop_end [OF l] l assms(2) by (auto simp: loop_automaton_def Let_def hd_map loop_at_def valid_end_def)
  then show ?thesis
    using st loop_no_dead_end [OF l nx assms(4)] by (simp add: content_match_def assms(1) Let_def)
qed

lemma match_star:
  assumes "parse_content tt s = Inr (Some (Star (names_expr ts)))" and "ts \<noteq> []" and "distinct ts" and "list_ex made ts"
  shows "\<exists>m st. content_match tt made s = Inr (Some (m, st)) \<and> loop_automaton ts False m st"
proof -
  let ?m = "content_nfa (Star (names_expr ts))"
  have l: "loop_at ts ?m" unfolding nfa_star [OF assms(2)] using assms(2,3) by (simp add: loop_at_def)
  have "null_scan ?m [(False, 0)] [] = null_scan ?m [(False, 1)] []"
    unfolding nfa_star [OF assms(2)] by (subst null_scan.simps) (simp add: null_only_def)
  then have st: "match_start ?m = Some [2, 1]"
    using null_from_loop [OF l] by (simp add: match_start_def null_from_def)
  have "loop_automaton ts False ?m [2, 1]"
    using loop_next [OF l] loop_end [OF l] by (simp add: loop_automaton_def)
  then show ?thesis
    using st loop_no_dead_end [OF l loop_next [OF l] assms(4)] by (simp add: content_match_def assms(1) Let_def)
qed

section \<open>The expressions of the schema\<close>

lemma parsed_specs:
  "parse_content schema_types ''block+'' = Inr (Some (Plus (names_expr (map Some block_group))))"
  "parse_content schema_types ''block*'' = Inr (Some (Star (names_expr (map Some block_group))))"
  "parse_content schema_types ''inline*'' = Inr (Some (Star (names_expr (None # map Some inline_group))))"
  "parse_content schema_types ''task_list_item+'' = Inr (Some (Plus (names_expr [Some Task_list_item])))"
  "parse_content schema_types ''list_item+'' = Inr (Some (Plus (names_expr [Some List_item])))"
  by code_simp+

lemma schema_automata:
  "\<exists>m st. content_match schema_types kind_made (content_spec nt) = Inr (Some (m, st))
     \<and> loop_automaton (kid_kinds nt) (needs_content nt) m st"
proof -
  have made: "list_ex kind_made (map Some block_group)" "list_ex kind_made (None # map Some inline_group)"
    "list_ex kind_made [Some Task_list_item]" "list_ex kind_made [Some List_item]" by code_simp+
  have dist: "distinct (map Some block_group)" "distinct (None # map Some inline_group)"
    by (simp_all add: block_group_def inline_group_def)
  have ne: "map Some block_group \<noteq> []" by (simp add: block_group_def)
  note plus = match_plus [where made = kind_made] and star = match_star [where made = kind_made]
  have empty: "content_match schema_types kind_made [] = Inr (Some ([[]], [0])) \<and> loop_automaton ([] :: kind list) False [[]] [0]" by code_simp
  show ?thesis
    using plus [OF parsed_specs(1) ne dist(1) made(1)] star [OF parsed_specs(2) ne dist(1) made(1)]
      star [OF parsed_specs(3) _ dist(2) made(2)] plus [OF parsed_specs(4) _ _ made(3)] plus [OF parsed_specs(5) _ _ made(4)] empty
    by (cases nt) (simp_all add: kid_kinds_def needs_content_def textblock_def)
qed

text \<open>
  C15: The automaton the code makes of the content expression of a node accepts exactly the children that
  \<open>valid_content\<close> allows, whatever they are: the schema of the model is the one that is parsed.
\<close>

theorem parsed_schema_is_the_model:
  "\<exists>m st. content_match schema_types kind_made (content_spec nt) = Inr (Some (m, st))
     \<and> (\<forall>kids. accepts m st (map type_of_node kids) \<longleftrightarrow> valid_content nt kids)"
proof -
  obtain m st where m: "content_match schema_types kind_made (content_spec nt) = Inr (Some (m, st))"
    and l: "loop_automaton (kid_kinds nt) (needs_content nt) m st"
    using schema_automata [of nt] by blast
  have "kind_ok nt k \<longleftrightarrow> k \<in> set (kid_kinds nt)" for k
    by (cases k) (auto simp: kid_kinds_def)
  then have "accepts m st (map type_of_node kids) \<longleftrightarrow> valid_content nt kids" for kids
    by (auto simp: accepts_automaton [OF l] valid_content_def list_all_iff kid_kind)
  with m show ?thesis by blast
qed

text \<open>Leaves are the nodes whose expression is empty, and blocks of text those that begin with inline content.\<close>

theorem parsed_kinds_of_nodes:
  "\<exists>m st nx. content_match schema_types kind_made (content_spec nt) = Inr (Some (m, st)) \<and> match_next m st = Some nx
     \<and> (leaf_type nt \<longleftrightarrow> nx = [] \<and> valid_end m st) \<and> (textblock nt \<longleftrightarrow> nx \<noteq> [] \<and> kind_inline (fst (hd nx)))"
proof -
  obtain m st where m: "content_match schema_types kind_made (content_spec nt) = Inr (Some (m, st))"
    and l: "loop_automaton (kid_kinds nt) (needs_content nt) m st"
    using schema_automata [of nt] by blast
  then obtain s1 where "match_next m st = Some (map (\<lambda>t. (t, s1)) (kid_kinds nt))" "valid_end m st \<longleftrightarrow> \<not> needs_content nt"
    by (auto simp: loop_automaton_def Let_def split: option.splits)
  with m show ?thesis
    by (cases nt) (simp_all add: kid_kinds_def needs_content_def leaf_type_def textblock_def block_group_def inline_group_def kind_inline_def)
qed

text \<open>\<open>compatible\<close>: whether two automata begin with a common type.\<close>

definition compatible :: "'t nfa \<times> nat list \<Rightarrow> 't nfa \<times> nat list \<Rightarrow> bool" where
  "compatible a b \<longleftrightarrow>
     (case (match_next (fst a) (snd a), match_next (fst b) (snd b)) of
        (Some xs, Some ys) \<Rightarrow> list_ex (\<lambda>(t, s). t \<in> fst ` set ys) xs
      | _ \<Rightarrow> False)"

theorem compatible_is_parsed:
  "\<exists>p q. content_match schema_types kind_made (content_spec a) = Inr (Some p)
     \<and> content_match schema_types kind_made (content_spec b) = Inr (Some q)
     \<and> (compatible_content a b \<longleftrightarrow> a = b \<or> compatible p q)"
proof -
  have k: "\<exists>p nx. content_match schema_types kind_made (content_spec nt) = Inr (Some p) \<and> match_next (fst p) (snd p) = Some nx
      \<and> map fst nx = kid_kinds nt" for nt
  proof -
    obtain m st where m: "content_match schema_types kind_made (content_spec nt) = Inr (Some (m, st))"
      and "loop_automaton (kid_kinds nt) (needs_content nt) m st"
      using schema_automata [of nt] by blast
    then obtain s1 where "match_next m st = Some (map (\<lambda>t. (t, s1)) (kid_kinds nt))"
      by (auto simp: loop_automaton_def Let_def split: option.splits)
    with m show ?thesis by (intro exI [of _ "(m, st)"]) (simp add: comp_def)
  qed
  obtain p xs q ys where p: "content_match schema_types kind_made (content_spec a) = Inr (Some p)"
      "match_next (fst p) (snd p) = Some xs" "map fst xs = kid_kinds a"
    and q: "content_match schema_types kind_made (content_spec b) = Inr (Some q)"
      "match_next (fst q) (snd q) = Some ys" "map fst ys = kid_kinds b"
    using k [of a] k [of b] by auto
  have s: "fst ` set xs = set (kid_kinds a)" "fst ` set ys = set (kid_kinds b)" using p(3) q(3) by (metis list.set_map)+
  have "compatible p q \<longleftrightarrow> (\<exists>k \<in> fst ` set xs. k \<in> fst ` set ys)"
    by (simp add: compatible_def p(2) q(2) list_ex_iff case_prod_beta)
  also have "\<dots> \<longleftrightarrow> textblock a \<and> textblock b \<or> list_ex (\<lambda>t. t \<in> set (content_types b)) (content_types a)"
    by (auto simp: s kid_kinds_def list_ex_iff)
  finally show ?thesis using p(1) q(1) by (auto simp: compatible_content_def)
qed

end
