(* ===== verification/Prose_Lists.thy ===== *)
theory Prose_Lists
  imports Prose_Steps
begin

text \<open>
  The changes of structure behind the list button of the text editor (\<open>components.js\<close>): wrapping blocks
  in a list, taking items out of a list, joining lists, and the command that puts them together.
\<close>

section \<open>Wrapping in a list\<close>

text \<open>The attributes of a node that is made without any.\<close>

definition default_attrs :: "node_type \<Rightarrow> attrs" where
  "default_attrs nt = (case compute_attrs (attr_spec nt) (\<lambda>k. None) of Some a \<Rightarrow> a | None \<Rightarrow> [])"

definition wrapper_tokens :: "node_type list \<Rightarrow> token list" where
  "wrapper_tokens ws = map (\<lambda>t. Open t (default_attrs t)) ws @ replicate (length ws) Close"

text \<open>
  \<open>doWrapInList\<close>: the range is put into the wrappers, and then every child but the first gets the inner
  wrappers, up to the list, of its own.
\<close>

fun split_children :: "nat \<Rightarrow> bool \<Rightarrow> pm list \<Rightarrow> nat \<Rightarrow> transaction \<Rightarrow> transaction command_result" where
  "split_children depth first [] pos tr = Dispatched tr"
| "split_children depth first (n # ns) pos tr =
     (if first then split_children depth False ns (pos + node_size n) tr
      else and_then (can_split (tr_doc tr) pos depth) (\<lambda>ok.
        if ok then and_then (split_tr pos depth tr) (split_children depth False ns (pos + 2 * depth + node_size n))
        else split_children depth False ns (pos + node_size n) tr))"

definition do_wrap_in_list :: "node_range \<Rightarrow> node_type list \<times> node_type list \<Rightarrow> bool \<Rightarrow> node_type \<Rightarrow> transaction \<Rightarrow> transaction command_result" where
  "do_wrap_in_list r w join_before L tr =
     (let c = tr_doc tr; ws = fst w @ [L] @ snd w; back = (if join_before then 2 else 0);
          lo = range_start c r; hi = range_end c r;
          depth = length (takeWhile (\<lambda>t. t \<noteq> L) (rev ws));
          kids = take (end_index c r - start_index c r) (drop (start_index c r) (range_parent c r))
      in and_then (step_around (lo - back) hi lo hi (wrapper_tokens ws) (length ws) True tr)
           (split_children depth True kids (lo + length ws - back)))"

definition wrap_in_list_tr :: "node_type \<Rightarrow> transaction \<Rightarrow> transaction command_result" where
  "wrap_in_list_tr L tr =
     (let s = tr_state tr; c = tr_doc tr; f = sel_from s; t = sel_to s
      in case block_range (\<lambda>kids. True) s of
           None \<Rightarrow> Refused
         | Some d \<Rightarrow>
             let r = \<lparr>rg_from = f, rg_to = t, rg_depth = d\<rparr>
             in if 2 \<le> d \<and> compatible_content (type_at c f (d - 1)) L \<and> start_index c r = 0
                then (if index_at c f (d - 1) = 0 then Refused
                      else let p = range_start c r - 2; outer = \<lparr>rg_from = p, rg_to = p, rg_depth = d\<rparr>;
                               r' = (if end_index c r < length (range_parent c r) then r\<lparr>rg_to := end_at c t d\<rparr> else r)
                           in and_then (find_wrapping c outer L r') (\<lambda>w. do_wrap_in_list r' w True L tr))
                else and_then (find_wrapping c r L r) (\<lambda>w. do_wrap_in_list r w False L tr))"

section \<open>Joining\<close>

text \<open>
  \<open>joinPoint\<close>: outwards from a position, the first place where a node meets one before it (or after it)
  that it can be joined with. At the depth of the position these are the nodes beside it.
\<close>

definition join_check :: "pm list \<Rightarrow> nat \<Rightarrow> bool \<Rightarrow> nat \<Rightarrow> bool" where
  "join_check c pos up d =
     (let i = index_at c pos d; kids = kids_at c pos d;
          child = (\<lambda>j. if j < length kids then Some (kids ! j) else None);
          (lhs, rhs, j) =
            (if d = depth_of c pos then (node_before pos c, node_after pos c, i)
             else if up then (if i = 0 then None else child (i - 1), child i, i)
             else (child i, child (i + 1), i + 1))
      in case lhs of
           None \<Rightarrow> False
         | Some n \<Rightarrow>
             (case type_of_node n of Some t \<Rightarrow> \<not> textblock t | None \<Rightarrow> True)
             \<and> joinable lhs rhs \<and> can_replace (type_at c pos d) kids j (j + 1) [])"

definition join_point :: "pm list \<Rightarrow> nat \<Rightarrow> bool \<Rightarrow> nat option" where
  "join_point c pos up =
     map_option (\<lambda>d. if d = depth_of c pos then pos else if up then before_at c pos (d + 1) else after_at c pos (d + 1))
       (find (join_check c pos up) (rev [0..<depth_of c pos + 1]))"

definition join_tr :: "nat \<Rightarrow> transaction \<Rightarrow> transaction command_result" where
  "join_tr point tr = step_replace True (point - 1) (point + 1) [] tr"

definition is_textblock_node :: "pm option \<Rightarrow> bool" where
  "is_textblock_node n = (case Option.bind n type_of_node of Some t \<Rightarrow> textblock t | None \<Rightarrow> False)"

definition join_up_tr :: "node_type list \<Rightarrow> transaction \<Rightarrow> transaction command_result" where
  "join_up_tr accepted tr =
     (let c = tr_doc tr; f = sel_from (tr_state tr);
          point = (case tr_sel tr of
                     NodeSel p \<Rightarrow> if is_textblock_node (node_after p c) \<or> \<not> can_join c f then None else Some f
                   | _ \<Rightarrow> join_point c f True)
      in case point of
           None \<Rightarrow> Refused
         | Some p \<Rightarrow>
             (case node_before p c of
                None \<Rightarrow> Raised
              | Some n \<Rightarrow>
                  if \<not> (\<exists>t \<in> set accepted. type_of_node n = Some t) then Refused
                  else and_then (join_tr p tr) (\<lambda>tr'. Dispatched
                    (case tr_sel tr of NodeSel q \<Rightarrow> tr'\<lparr>tr_sel := NodeSel (p - node_size n)\<rparr> | _ \<Rightarrow> tr'))))"

definition join_down_tr :: "node_type list \<Rightarrow> transaction \<Rightarrow> transaction command_result" where
  "join_down_tr accepted tr =
     (let c = tr_doc tr; t = sel_to (tr_state tr);
          point = (case tr_sel tr of
                     NodeSel p \<Rightarrow> if is_textblock_node (node_after p c) \<or> \<not> can_join c t then None else Some t
                   | _ \<Rightarrow> join_point c t False)
      in case point of
           None \<Rightarrow> Refused
         | Some p \<Rightarrow>
             (case node_after p c of
                None \<Rightarrow> Raised
              | Some n \<Rightarrow> if \<not> (\<exists>t \<in> set accepted. type_of_node n = Some t) then Refused else join_tr p tr))"

section \<open>Taking items out of a list\<close>

definition can_cut :: "node_type \<Rightarrow> pm list \<Rightarrow> nat \<Rightarrow> nat \<Rightarrow> bool" where
  "can_cut nt kids i j \<longleftrightarrow>
     (i = 0 \<or> can_replace nt kids i (length kids) []) \<and> (j = length kids \<or> can_replace nt kids 0 j [])"

text \<open>\<open>liftTarget\<close>: the innermost node outside of the range that takes its content.\<close>

definition lift_fits :: "pm list \<Rightarrow> node_range \<Rightarrow> nat \<Rightarrow> bool" where
  "lift_fits c r d \<longleftrightarrow> d < rg_depth r \<and> can_replace (type_at c (rg_from r) d) (kids_at c (rg_from r) d)
     (index_at c (rg_from r) d) (index_after d (rg_to r) c)
     (take (end_index c r - start_index c r) (drop (start_index c r) (range_parent c r)))"

definition lift_stops :: "pm list \<Rightarrow> node_range \<Rightarrow> nat \<Rightarrow> bool" where
  "lift_stops c r d \<longleftrightarrow> \<not> can_cut (type_at c (rg_from r) d) (kids_at c (rg_from r) d)
     (index_at c (rg_from r) d) (index_after d (rg_to r) c)"

primrec lift_from :: "pm list \<Rightarrow> node_range \<Rightarrow> nat \<Rightarrow> nat option" where
  "lift_from c r 0 = (if lift_fits c r 0 then Some 0 else None)"
| "lift_from c r (Suc d) =
     (if lift_fits c r (Suc d) then Some (Suc d) else if lift_stops c r (Suc d) then None else lift_from c r d)"

definition lift_target :: "pm list \<Rightarrow> node_range \<Rightarrow> nat option" where
  "lift_target c r = lift_from c r (rg_depth r)"

text \<open>
  \<open>lift\<close>: from the range outwards nodes are left behind while it is at their edge; from the first where
  there is something beside it, the nodes are split.
\<close>

definition lift_tr :: "node_range \<Rightarrow> nat \<Rightarrow> transaction \<Rightarrow> transaction command_result" where
  "lift_tr r target tr =
     (let c = tr_doc tr; f = rg_from r; t = rg_to r;
          gap_lo = before_at c f (rg_depth r + 1); gap_hi = after_at c t (rg_depth r + 1);
          ds = rev [target + 1..<rg_depth r + 1];
          lhs = dropWhile (\<lambda>d. index_at c f d = 0) ds;
          rhs = dropWhile (\<lambda>d. \<not> after_at c t (d + 1) < end_at c t d) ds
      in step_around (gap_lo - (length ds - length lhs)) (gap_hi + (length ds - length rhs)) gap_lo gap_hi
           (replicate (length lhs) Close @ map (\<lambda>d. Open (type_at c t d) (attrs_at c t d)) (rev rhs))
           (length lhs) True tr)"

text \<open>
  \<open>liftToOuterListTr\<close>: items after the range become a list inside the last of it; then the range is lifted, and
  a list that was left at its end is joined with the one it came to.
\<close>

definition lift_to_outer_list_tr :: "node_type \<Rightarrow> node_range \<Rightarrow> transaction \<Rightarrow> transaction command_result" where
  "lift_to_outer_list_tr item r tr =
     (let c = tr_doc tr; d = rg_depth r; hi = range_end c r; list_end = end_at c (rg_to r) d
      in and_then
           (if hi < list_end
            then and_then (step_around (hi - 1) list_end hi list_end [Open (type_at c (rg_from r) d) (attrs_at c (rg_from r) d), Close, Close] 1 True tr)
                   (\<lambda>tr1. Dispatched (tr1, r\<lparr>rg_to := list_end\<rparr>))
            else Dispatched (tr, r))
           (\<lambda>(tr1, r1).
              case lift_target (tr_doc tr1) r1 of
                None \<Rightarrow> Refused
              | Some target \<Rightarrow>
                  and_then (lift_tr r1 target tr1) (\<lambda>tr2.
                    let rhs = mapped tr2 False hi - 1
                    in if can_join (tr_doc tr2) rhs then join_tr rhs tr2 else Dispatched tr2)))"

text \<open>The items of a range are merged into one, from the last.\<close>

fun merge_items :: "nat list \<Rightarrow> nat \<Rightarrow> transaction \<Rightarrow> transaction command_result" where
  "merge_items [] pos tr = Dispatched tr"
| "merge_items (z # zs) pos tr = and_then (step_replace False (pos - z - 1) (pos - z + 1) [] tr) (merge_items zs (pos - z))"

text \<open>\<open>liftOutOfListTr\<close>: the content of the merged item takes the place of the list, or splits it.\<close>

definition lift_out_of_list_tr :: "node_range \<Rightarrow> transaction \<Rightarrow> transaction command_result" where
  "lift_out_of_list_tr r tr =
     (let c = tr_doc tr; kids = range_parent c r; i = start_index c r; j = end_index c r; lo = range_start c r;
          lt = type_at c (rg_from r) (rg_depth r); la = attrs_at c (rg_from r) (rg_depth r)
      in and_then (merge_items (map node_size (rev (take (j - i - 1) (drop (i + 1) kids)))) (range_end c r) tr) (\<lambda>tr1.
           let c1 = tr_doc tr1
           in case node_after lo c1 of
                None \<Rightarrow> Raised
              | Some n \<Rightarrow>
                  if mapped tr1 True (range_end c r) \<noteq> lo + node_size n then Refused
                  else let at_start = (i = 0); at_end = (j = length kids); d = depth_of c1 lo - 1; ib = index_at c1 lo d
                       in if \<not> can_replace (type_at c1 lo d) (kids_at c1 lo d) (if at_start then ib else ib + 1) (ib + 1)
                              (kids_of n @ (if at_end then [] else [NodeN lt la [] kids])) then Refused
                          else step_around (if at_start then lo - 1 else lo) (if at_end then lo + node_size n + 1 else lo + node_size n)
                                 (lo + 1) (lo + node_size n - 1)
                                 ((if at_start then [] else [Close]) @ (if at_end then [] else [Open lt la]))
                                 (if at_start then 0 else 1) False tr1))"

section \<open>The command\<close>

definition lift_items :: "node_type \<Rightarrow> nat \<Rightarrow> ed_state \<Rightarrow> ed_state command_result" where
  "lift_items item d s =
     (let r = \<lparr>rg_from = sel_from s, rg_to = sel_to s, rg_depth = d\<rparr>
      in and_then
           (if type_at (content s) (sel_from s) (d - 1) = item then lift_to_outer_list_tr item r (start_tr s)
            else lift_out_of_list_tr r (start_tr s))
           (\<lambda>tr. Dispatched (tr_state tr)))"

definition wrap_items :: "node_type \<Rightarrow> ed_state \<Rightarrow> ed_state command_result" where
  "wrap_items L s = and_then (wrap_in_list_tr L (start_tr s)) (\<lambda>tr. Dispatched (tr_state tr))"

text \<open>Whether the lists are joined is not looked at.\<close>

definition or_stay :: "'a \<Rightarrow> 'a command_result \<Rightarrow> 'a command_result" where
  "or_stay x r = (case r of Refused \<Rightarrow> Dispatched x | _ \<Rightarrow> r)"

definition join_around :: "node_type \<Rightarrow> ed_state \<Rightarrow> ed_state command_result" where
  "join_around L s =
     (let tr = start_tr s
      in and_then (or_stay tr (join_up_tr [L] tr)) (\<lambda>tr1.
           and_then (or_stay tr1 (join_down_tr [L] tr1)) (\<lambda>tr2. Dispatched (tr_state tr2))))"

definition toggle_list :: "node_type \<Rightarrow> ed_state \<Rightarrow> ed_state command_result" where
  "toggle_list L = toggle_list_cmd (lift_items (list_item_of L)) wrap_items join_around L (list_item_of L)"

end
