(* ===== verification/Prose_Paths.thy ===== *)
theory Prose_Paths
  imports Prose_Lists
begin

text \<open>
  What the nodes around a position say of the tokens of a document: where their content is, how deep a
  position is, and where the children of a list begin and end.
\<close>

section \<open>How deep a position is\<close>

text \<open>The nodes that are open after some tokens.\<close>

fun level_of_token :: "token \<Rightarrow> int" where
  "level_of_token (Open nt a) = 1"
| "level_of_token Close = - 1"
| "level_of_token t = 0"

definition level :: "token list \<Rightarrow> int" where
  "level ts = sum_list (map level_of_token ts)"

lemma level_simps [simp]: "level [] = 0" "level (t # ts) = level_of_token t + level ts" "level (xs @ ys) = level xs + level ys"
  by (simp_all add: level_def)

lemma level_chars [simp]: "level (map (\<lambda>c. Chr c ms) s) = 0"
  by (induction s) auto

lemma level_tokens [simp]: "level (tokens c) = 0"
  by (induction c rule: frag_induct) auto

lemma ancestors_past: "frag_size c \<le> pos \<Longrightarrow> ancestors base pos c = []"
  by (induction c arbitrary: base pos rule: frag_induct) (auto simp: Let_def)

lemma level_take: "level (take pos (tokens c)) = int (length (ancestors base pos c))"
proof (induction c arbitrary: base pos rule: frag_induct)
  case (Text s ms ns)
  have "level (take pos (map (\<lambda>c. Chr c ms) s)) = 0" by (simp add: take_map)
  then show ?case using Text by (auto simp: not_less)
next
  case (Node nt a ms c ns)
  show ?case
  proof (cases "leaf_type nt \<or> pos = 0 \<or> 2 + frag_size c \<le> pos")
    case True
    then show ?thesis
      using Node.IH(2) [of "pos - node_size (NodeN nt a ms c)" "base + node_size (NodeN nt a ms c)"]
      by (cases pos) (auto simp: Let_def take_Cons')
  next
    case False
    then have "take pos (tokens (NodeN nt a ms c # ns)) = Open nt a # take (pos - 1) (tokens c)"
      by (cases pos) auto
    then show ?thesis
      using False Node.IH(1) [of "pos - 1" "base + 1"] by (simp add: Let_def del: tokens.simps)
  qed
qed simp

lemma length_path: "int (length (path_of c pos)) = level (take pos (tokens c)) + 1"
  using level_take [of pos c 0] by (simp add: path_of_def)

section \<open>Where the nodes around a position are\<close>

text \<open>One of the nodes around a position: where its content starts, and what is before and after it.\<close>

definition around :: "pm list \<Rightarrow> nat \<Rightarrow> nat \<Rightarrow> node_type \<Rightarrow> attrs \<Rightarrow> pm list \<Rightarrow> token list \<Rightarrow> token list \<Rightarrow> bool" where
  "around c base start nt a kids pre post \<longleftrightarrow>
     tokens c = pre @ Open nt a # tokens kids @ Close # post \<and> start = base + length pre + 1
     \<and> \<not> leaf_type nt \<and> (conforms c \<longrightarrow> conforms kids \<and> valid_content nt kids) \<and> (well_formed c \<longrightarrow> well_formed kids)"

lemma around_size: "around c base start nt a kids pre post \<Longrightarrow> frag_size c = length pre + frag_size kids + 2 + length post"
  using length_tokens [of c] by (simp add: around_def del: length_tokens) simp

lemma around_nth:
  "d < length (ancestors base pos c) \<Longrightarrow> ancestors base pos c ! d = (start, nt, a, kids) \<Longrightarrow>
    \<exists>pre post. around c base start nt a kids pre post \<and> start \<le> base + pos \<and> base + pos \<le> start + frag_size kids
      \<and> level pre = int d"
proof (induction c arbitrary: base pos d rule: frag_induct)
  case (Text s ms ns)
  then have "\<not> pos < length s" by auto
  with Text.prems Text.IH [of d "base + length s" "pos - length s"] obtain pre post where
    "around ns (base + length s) start nt a kids pre post" "start \<le> base + pos" "base + pos \<le> start + frag_size kids"
    "level pre = int d" by auto
  then show ?case
    by (intro exI [of _ "map (\<lambda>c. Chr c ms) s @ pre"] exI [of _ post]) (auto simp: around_def)
next
  case (Node nt1 a1 ms c ns)
  let ?n = "NodeN nt1 a1 ms c"
  have p: "pos \<noteq> 0" using Node.prems(1) by (cases "pos = 0") (auto simp: Let_def)
  show ?case
  proof (cases "pos < node_size ?n")
    case True
    have leaf: "\<not> leaf_type nt1" using True p by (auto split: if_splits)
    show ?thesis
    proof (cases d)
      case 0
      then have "start = base + 1" "nt = nt1" "a = a1" "kids = c" using Node.prems True p by (auto simp: Let_def)
      with 0 True p leaf show ?thesis by (intro exI [of _ "[]"] exI [of _ "tokens ns"]) (auto simp: around_def)
    next
      case (Suc e)
      with Node.prems True p Node.IH(1) [of e "base + 1" "pos - 1"] obtain pre post where
        "around c (base + 1) start nt a kids pre post" "start \<le> base + pos" "base + pos \<le> start + frag_size kids"
        "level pre = int e" by (auto simp: Let_def split: if_splits)
      with Suc leaf show ?thesis
        by (intro exI [of _ "Open nt1 a1 # pre"] exI [of _ "post @ Close # tokens ns"]) (auto simp: around_def)
    qed
  next
    case False
    with Node.prems p Node.IH(2) [of d "base + node_size ?n" "pos - node_size ?n"] obtain pre post where
      "around ns (base + node_size ?n) start nt a kids pre post" "start \<le> base + pos" "base + pos \<le> start + frag_size kids"
      "level pre = int d" by (auto simp: Let_def split: if_splits)
    then show ?thesis
      by (intro exI [of _ "tokens [?n] @ pre"] exI [of _ post]) (auto simp: around_def)
  qed
qed simp

text \<open>The same for the whole path; the document itself is around everything in it.\<close>

lemma path_Suc: "Suc d < length (path_of c pos) \<Longrightarrow> path_of c pos ! Suc d = ancestors 0 pos c ! d \<and> d < length (ancestors 0 pos c)"
  by (simp add: path_of_def)

lemma path_nth:
  assumes "d < length (path_of c pos)" and "path_of c pos ! d = (start, nt, a, kids)" and "pos \<le> frag_size c"
  shows "start \<le> pos \<and> pos \<le> start + frag_size kids \<and> \<not> leaf_type nt \<and> start + frag_size kids \<le> frag_size c
    \<and> level (take start (tokens c)) = int d
    \<and> take (frag_size kids) (drop start (tokens c)) = tokens kids
    \<and> (valid_content Doc c \<and> conforms c \<longrightarrow> valid_content nt kids \<and> conforms kids) \<and> (well_formed c \<longrightarrow> well_formed kids)"
proof (cases d)
  case 0
  with assms show ?thesis by (auto simp: path_of_def leaf_type_def)
next
  case (Suc e)
  with path_Suc [of e c pos] assms(1,2) have "e < length (ancestors 0 pos c)" "ancestors 0 pos c ! e = (start, nt, a, kids)" by auto
  from around_nth [OF this] obtain pre post where p: "around c 0 start nt a kids pre post" "start \<le> pos"
    "pos \<le> start + frag_size kids" "level pre = int e" by auto
  have t: "tokens c = (pre @ [Open nt a]) @ tokens kids @ Close # post" and s: "start = length pre + 1"
    using p(1) by (simp_all add: around_def)
  have "frag_size c = length (tokens c)" by simp
  also have "\<dots> = start + frag_size kids + Suc (length post)" unfolding t by (simp add: s)
  finally have "start + frag_size kids \<le> frag_size c" by simp
  moreover have "level (take start (tokens c)) = int d" unfolding t using p(4) Suc by (simp add: s)
  moreover have "take (frag_size kids) (drop start (tokens c)) = tokens kids" unfolding t by (simp add: s)
  ultimately show ?thesis using p by (auto simp: around_def)
qed

text \<open>A node that is around a position, with the tokens of its two ends.\<close>

lemma path_ends:
  assumes "0 < d" and "d < length (path_of c pos)" and "path_of c pos ! d = (start, nt, a, kids)"
  shows "\<exists>pre post. tokens c = pre @ Open nt a # tokens kids @ Close # post \<and> start = length pre + 1"
proof -
  obtain e where "d = Suc e" using assms(1) by (cases d) auto
  with path_Suc [of e c pos] assms(2,3) have "e < length (ancestors 0 pos c)" "ancestors 0 pos c ! e = (start, nt, a, kids)" by auto
  from around_nth [OF this] show ?thesis by (auto simp: around_def)
qed

text \<open>Inside of a node a position is at least as deep as the node.\<close>

lemma level_take_nonneg: "0 \<le> level (take k (tokens c))"
  using level_take [of k c 0] by simp

lemma deep_inside:
  assumes "d < length (path_of c pos)" and "path_of c pos ! d = (start, nt, a, kids)" and "pos \<le> frag_size c"
    and "start \<le> q" and "q \<le> start + frag_size kids"
  shows "d < length (path_of c q)"
proof -
  have p: "level (take start (tokens c)) = int d" "take (frag_size kids) (drop start (tokens c)) = tokens kids"
    using path_nth [OF assms(1-3)] by simp_all
  have "take q (tokens c) = take start (tokens c) @ take (q - start) (drop start (tokens c))"
    using assms(4) take_add [of start "q - start" "tokens c"] by simp
  also have "take (q - start) (drop start (tokens c)) = take (q - start) (tokens kids)"
    using assms(5) by (simp add: p(2) [symmetric] min_def)
  finally have "level (take q (tokens c)) = int d + level (take (q - start) (tokens kids))" using p(1) by simp
  then show ?thesis using length_path [of c q] level_take_nonneg [of "q - start" kids] by simp
qed

section \<open>Ranges\<close>

text \<open>A range whose depth is one of a node around both of its ends.\<close>

definition range_ok :: "pm list \<Rightarrow> node_range \<Rightarrow> bool" where
  "range_ok c r \<longleftrightarrow> rg_from r \<le> rg_to r \<and> rg_to r \<le> frag_size c
     \<and> rg_depth r < length (path_of c (rg_from r)) \<and> rg_depth r < length (path_of c (rg_to r))"

lemma before_le:
  assumes "d \<le> length (path_of c pos)" and "pos \<le> frag_size c"
  shows "before_at c pos d \<le> pos"
proof (cases "d = length (path_of c pos)")
  case False
  obtain start nt a kids where "path_of c pos ! d = (start, nt, a, kids)" by (cases "path_of c pos ! d") auto
  with path_nth [of d c pos start nt a kids] False assms show ?thesis by (auto simp: before_at_def start_at_def)
qed (simp add: before_at_def)

lemma after_ge:
  assumes "d \<le> length (path_of c pos)" and "pos \<le> frag_size c"
  shows "pos \<le> after_at c pos d"
proof (cases "d = length (path_of c pos)")
  case False
  obtain start nt a kids where "path_of c pos ! d = (start, nt, a, kids)" by (cases "path_of c pos ! d") auto
  with path_nth [of d c pos start nt a kids] False assms
  show ?thesis by (simp add: after_at_def end_at_def start_at_def kids_at_def)
qed (simp add: after_at_def)

lemma range_ordered: "range_ok c r \<Longrightarrow> range_start c r \<le> rg_from r \<and> rg_from r \<le> rg_to r \<and> rg_to r \<le> range_end c r"
  using before_le [of "rg_depth r + 1" c "rg_from r"] after_ge [of "rg_depth r + 1" c "rg_to r"]
  by (auto simp: range_ok_def range_start_def range_end_def)

text \<open>The types of the nodes around a position have content.\<close>

lemma type_at_inner:
  assumes "d < length (path_of c pos)"
  shows "\<not> leaf_type (type_at c pos d)"
proof (cases d)
  case (Suc e)
  obtain start nt a kids where "path_of c pos ! d = (start, nt, a, kids)" by (cases "path_of c pos ! d") auto
  with path_Suc [of e c pos] assms around_nth [of e 0 pos c start nt a kids] Suc
  show ?thesis by (auto simp: type_at_def around_def)
qed (simp add: type_at_def path_of_def leaf_type_def)

text \<open>The ends of a selection with a block range.\<close>

lemma path_bound:
  assumes "d < length (path_of c pos)" and "path_of c pos ! d = (start, nt, a, kids)"
  shows "start + frag_size kids \<le> frag_size c"
proof (cases d)
  case 0
  with assms show ?thesis by (simp add: path_of_def)
next
  case (Suc e)
  then obtain pre post where t: "tokens c = pre @ Open nt a # tokens kids @ Close # post" "start = length pre + 1"
    using path_ends [of d c pos start nt a kids] assms by auto
  have "frag_size c = length (tokens c)" by simp
  then show ?thesis unfolding t by simp
qed

lemma sel_ordered: "sel_from s \<le> sel_to s"
  by (auto simp: sel_from.simps sel_to.simps min_def max_def split: selection.splits)

lemma block_range_ok:
  assumes "block_range pred s = Some d"
  shows "range_ok (content s) \<lparr>rg_from = sel_from s, rg_to = sel_to s, rg_depth = d\<rparr>"
    and "pred (kids_at (content s) (sel_from s) d)"
    and "sel_to s \<le> end_at (content s) (sel_from s) d"
    and "sel_empty s \<Longrightarrow> Suc d < length (path_of (content s) (sel_from s))"
proof -
  let ?path = "path_of (content s) (sel_from s)"
  obtain start nt a kids where e: "?path ! d = (start, nt, a, kids)" by (cases "?path ! d") auto
  have d: "d < length ?path" "sel_empty s \<Longrightarrow> Suc d < length ?path"
    and k: "sel_to s \<le> start + frag_size kids" "pred kids"
    using assms e by (auto simp: block_range_def Let_def find_Some_iff rev_nth split: if_splits)
  have b: "sel_to s \<le> frag_size (content s)" using path_bound [OF d(1) e] k(1) by simp
  then have f: "sel_from s \<le> frag_size (content s)" using sel_ordered [of s] by simp
  have "d < length (path_of (content s) (sel_to s))"
    using deep_inside [OF d(1) e f, of "sel_to s"] path_nth [OF d(1) e f] sel_ordered [of s] k(1) by simp
  then show "range_ok (content s) \<lparr>rg_from = sel_from s, rg_to = sel_to s, rg_depth = d\<rparr>"
    using d b sel_ordered [of s] by (simp add: range_ok_def)
  show "pred (kids_at (content s) (sel_from s) d)" using k e by (simp add: kids_at_def)
  show "sel_to s \<le> end_at (content s) (sel_from s) d" using k e by (simp add: end_at_def start_at_def kids_at_def)
  show "sel_empty s \<Longrightarrow> Suc d < length ?path" by (rule d(2))
qed

text \<open>A range that is continued to the end of its node.\<close>

lemma range_to_end:
  assumes "range_ok c r" and "d = rg_depth r"
  shows "range_ok c (r\<lparr>rg_to := end_at c (rg_to r) d\<rparr>)"
proof -
  let ?path = "path_of c (rg_to r)"
  obtain start nt a kids where e: "?path ! d = (start, nt, a, kids)" by (cases "?path ! d") auto
  have d: "d < length ?path" and t: "rg_to r \<le> frag_size c" using assms by (simp_all add: range_ok_def)
  have hi: "end_at c (rg_to r) d = start + frag_size kids" by (simp add: end_at_def start_at_def kids_at_def e)
  note p = path_nth [OF d e t]
  have "d < length (path_of c (start + frag_size kids))" using deep_inside [OF d e t] by simp
  then show ?thesis using assms p hi by (simp add: range_ok_def)
qed

text \<open>Tokens that make a document open what they close.\<close>

lemma level_read: "read_tokens ts st acc = Some d \<Longrightarrow> level ts + int (length st) = 0"
  by (induction ts st acc rule: read_tokens.induct) auto

lemma level_doc: "doc_of ts \<noteq> None \<Longrightarrow> level ts = 0"
  by (auto simp: doc_of_def dest: level_read)

text \<open>The place before the end of a range that is not empty.\<close>

lemma range_last:
  assumes "range_ok c r" and "d = rg_depth r" and "hi = range_end c r"
    and "rg_from r = rg_to r \<Longrightarrow> Suc d < length (path_of c (rg_from r))"
  shows "rg_from r < hi" and "int d \<le> level (take (hi - 1) (tokens c)) + 1"
proof -
  let ?path = "path_of c (rg_to r)"
  have ok: "rg_from r \<le> rg_to r" "rg_to r \<le> frag_size c" "d < length ?path" using assms(1,2) by (auto simp: range_ok_def)
  have "rg_from r < hi \<and> int d \<le> level (take (hi - 1) (tokens c)) + 1"
  proof (cases "d + 1 = length ?path")
    case True
    then have hi: "hi = rg_to r" using assms(2,3) by (simp add: range_end_def after_at_def)
    have lt: "rg_from r < rg_to r" using True ok(1) assms(4) by (cases "rg_from r = rg_to r") auto
    have "take hi (tokens c) = take (hi - 1) (tokens c) @ [tokens c ! (hi - 1)]"
      using lt ok(2) hi take_Suc_conv_app_nth [of "hi - 1" "tokens c"] by auto
    then have "level (take hi (tokens c)) \<le> level (take (hi - 1) (tokens c)) + 1"
      by (cases "tokens c ! (hi - 1)") auto
    moreover have "level (take hi (tokens c)) = int d" using length_path [of c hi] True hi by simp
    ultimately show ?thesis using lt hi by simp
  next
    case False
    then have d: "Suc d < length ?path" using ok(3) by simp
    obtain start nt a kids where e: "?path ! Suc d = (start, nt, a, kids)" by (cases "?path ! Suc d") auto
    have hi: "hi = start + frag_size kids + 1"
      using d e assms(2,3) by (simp add: range_end_def after_at_def end_at_def start_at_def kids_at_def)
    note p = path_nth [OF d e ok(2)]
    have "Suc d < length (path_of c (hi - 1))" using deep_inside [OF d e ok(2)] hi by simp
    then show ?thesis using length_path [of c "hi - 1"] ok(1) p hi by simp
  qed
  then show "rg_from r < hi" "int d \<le> level (take (hi - 1) (tokens c)) + 1" by simp_all
qed

section \<open>The children of a list\<close>

text \<open>Below a node of the path, the path is that of the position in the node.\<close>

lemma ancestors_below:
  "d < length (ancestors base pos c) \<Longrightarrow> ancestors base pos c ! d = (start, nt, a, kids) \<Longrightarrow>
    drop (Suc d) (ancestors base pos c) = ancestors start (base + pos - start) kids"
proof (induction c arbitrary: base pos d rule: frag_induct)
  case (Text s ms ns)
  then have "\<not> pos < length s" by auto
  with Text.prems Text.IH [of d "base + length s" "pos - length s"] show ?case by simp
next
  case (Node nt1 a1 ms c ns)
  let ?n = "NodeN nt1 a1 ms c"
  have p: "pos \<noteq> 0" using Node.prems(1) by (cases "pos = 0") (auto simp: Let_def)
  show ?case
  proof (cases "pos < node_size ?n")
    case True
    with Node.prems p Node.IH(1) [of "d - 1" "base + 1" "pos - 1"] show ?thesis
      by (cases d) (auto simp: Let_def split: if_splits)
  next
    case False
    with Node.prems p Node.IH(2) [of d "base + node_size ?n" "pos - node_size ?n"] show ?thesis
      by (auto simp: Let_def split: if_splits)
  qed
qed simp

lemma path_below:
  assumes "d < length (path_of c pos)" and "path_of c pos ! d = (start, nt, a, kids)"
  shows "drop (Suc d) (path_of c pos) = ancestors start (pos - start) kids"
proof (cases d)
  case 0
  with assms show ?thesis by (simp add: path_of_def)
next
  case (Suc e)
  with path_Suc [of e c pos] assms ancestors_below [of e 0 pos c start nt a kids] show ?thesis by (simp add: path_of_def)
qed

text \<open>Children that are nodes with content, as the items of a list.\<close>

fun branch :: "pm \<Rightarrow> bool" where
  "branch (TextN s ms) \<longleftrightarrow> False"
| "branch (NodeN nt a ms c) \<longleftrightarrow> \<not> leaf_type nt"

lemma branch_above:
  "list_all branch kids \<Longrightarrow> ancestors base p kids = (start, nt, a, k) # rest \<Longrightarrow>
    child_index p kids < length kids \<and> start = base + frag_size (take (child_index p kids) kids) + 1
    \<and> start + frag_size k + 1 = base + frag_size (take (Suc (child_index p kids)) kids)"
proof (induction kids arbitrary: base p)
  case (Cons n ns)
  then obtain nt1 a1 ms c where n: "n = NodeN nt1 a1 ms c" "\<not> leaf_type nt1" by (cases n) auto
  have "p \<noteq> 0" using Cons.prems(2) n by (cases "p = 0") (auto simp: Let_def)
  with n Cons.prems Cons.IH [of "base + node_size n" "p - node_size n"] show ?case
    using frag_size_append [of "[n]"] by (auto simp: Let_def split: if_splits)
qed simp

lemma branch_between:
  "list_all branch kids \<Longrightarrow> ancestors base p kids = [] \<Longrightarrow> p \<le> frag_size kids \<Longrightarrow>
    p = frag_size (take (child_index p kids) kids)"
proof (induction kids arbitrary: base p)
  case (Cons n ns)
  then obtain nt1 a1 ms c where n: "n = NodeN nt1 a1 ms c" "\<not> leaf_type nt1" by (cases n) auto
  with Cons.prems Cons.IH [of "base + node_size n" "p - node_size n"] show ?case
    by (cases "p = 0") (auto simp: Let_def split: if_splits)
qed simp

lemma child_index_le: "child_index p kids \<le> length kids"
  by (induction p kids rule: child_index.induct) auto

text \<open>A position between such children is in no text.\<close>

lemma node_at_above:
  "ancestors base pos c \<noteq> [] \<Longrightarrow> last (ancestors base pos c) = (start, nt, a, kids) \<Longrightarrow>
    node_at base pos c = node_at start (base + pos - start) kids"
proof (induction c arbitrary: base pos rule: frag_induct)
  case (Text s ms ns)
  then have "\<not> pos < length s" by auto
  with Text.prems Text.IH [of "base + length s" "pos - length s"] show ?case by simp
next
  case (Node nt1 a1 ms c ns)
  let ?n = "NodeN nt1 a1 ms c"
  have p: "pos \<noteq> 0" using Node.prems(1) by (cases "pos = 0") (auto simp: Let_def)
  show ?case
  proof (cases "pos < node_size ?n")
    case True
    with Node.prems p Node.IH(1) [of "base + 1" "pos - 1"] show ?thesis
      by (cases "ancestors (base + 1) (pos - 1) c = []") (auto simp: Let_def split: if_splits)
  next
    case False
    with Node.prems p Node.IH(2) [of "base + node_size ?n" "pos - node_size ?n"] show ?thesis
      by (auto simp: Let_def split: if_splits)
  qed
qed simp

lemma node_at_branch:
  "list_all branch kids \<Longrightarrow> ancestors base p kids = [] \<Longrightarrow> node_at base p kids \<noteq> Some (b, TextN s ms)"
proof (induction kids arbitrary: base p)
  case (Cons n ns)
  then obtain nt1 a1 ms1 c where n: "n = NodeN nt1 a1 ms1 c" "\<not> leaf_type nt1" by (cases n) auto
  with Cons.prems Cons.IH [of "base + node_size n" "p - node_size n"] show ?case
    by (cases "p = 0") (auto simp: Let_def split: if_splits)
qed simp

text \<open>Positions in the same node have it around them.\<close>

lemma ancestors_same:
  "d < length (ancestors base pos c) \<Longrightarrow> ancestors base pos c ! d = (start, nt, a, kids) \<Longrightarrow>
    start \<le> base + q \<Longrightarrow> base + q \<le> start + frag_size kids \<Longrightarrow>
    d < length (ancestors base q c) \<and> ancestors base q c ! d = (start, nt, a, kids)"
proof (induction c arbitrary: base pos q d rule: frag_induct)
  case (Text s ms ns)
  then have p: "\<not> pos < length s" by auto
  with Text.prems around_nth [of d "base + length s" "pos - length s" ns start nt a kids]
  have "\<not> q < length s" by (auto simp: around_def)
  with p Text.prems Text.IH [of d "base + length s" "pos - length s" "q - length s"] show ?case by simp
next
  case (Node nt1 a1 ms c ns)
  let ?n = "NodeN nt1 a1 ms c"
  have p: "pos \<noteq> 0" using Node.prems(1) by (cases "pos = 0") (auto simp: Let_def)
  note prems = Node.prems
  show ?case
  proof (cases "pos < node_size ?n")
    case True
    then have leaf: "\<not> leaf_type nt1" using p by auto
    show ?thesis
    proof (cases d)
      case 0
      with prems True p leaf show ?thesis by (auto simp: Let_def)
    next
      case (Suc e)
      then have e: "e < length (ancestors (base + 1) (pos - 1) c)" "ancestors (base + 1) (pos - 1) c ! e = (start, nt, a, kids)"
        using prems True p by (auto simp: Let_def split: if_splits)
      from around_nth [OF this] obtain pre post where ar: "around c (base + 1) start nt a kids pre post" by auto
      then have "start = base + 1 + length pre + 1" by (simp add: around_def)
      moreover have "frag_size c = length pre + frag_size kids + 2 + length post" by (rule around_size [OF ar])
      ultimately have "q \<noteq> 0" "q < node_size ?n" using prems(3,4) leaf by auto
      with Node.IH(1) [OF e, of "q - 1"] prems(3,4) Suc show ?thesis by (auto simp: Let_def)
    qed
  next
    case False
    then have e: "d < length (ancestors (base + node_size ?n) (pos - node_size ?n) ns)"
        "ancestors (base + node_size ?n) (pos - node_size ?n) ns ! d = (start, nt, a, kids)"
      using prems p by (auto simp: Let_def split: if_splits)
    with around_nth [OF this] have "\<not> q < node_size ?n" using prems(3) by (auto simp: around_def)
    with e p False prems(3,4) Node.IH(2) [OF e, of "q - node_size ?n"] show ?thesis
      by (auto simp: Let_def split: if_splits)
  qed
qed simp

lemma path_same:
  assumes "d < length (path_of c pos)" and "path_of c pos ! d = (start, nt, a, kids)" and "start \<le> q" and "q \<le> start + frag_size kids"
  shows "path_of c q ! d = (start, nt, a, kids)"
proof (cases d)
  case (Suc e)
  with path_Suc [of e c pos] assms ancestors_same [of e 0 pos c start nt a kids q] show ?thesis by (simp add: path_of_def)
qed (use assms in \<open>simp add: path_of_def\<close>)

text \<open>Where the children of a range begin and end.\<close>

lemma list_start:
  assumes "d < length (path_of c pos)" and "path_of c pos ! d = (start, nt, a, kids)" and "list_all branch kids"
    and "start \<le> pos" and "pos \<le> start + frag_size kids"
  shows "before_at c pos (d + 1) = start + frag_size (take (index_at c pos d) kids)"
proof -
  have i: "index_at c pos d = child_index (pos - start) kids" by (simp add: index_at_def start_at_def kids_at_def assms(2))
  note b = path_below [OF assms(1,2)]
  show ?thesis
  proof (cases "d + 1 = length (path_of c pos)")
    case True
    then have "ancestors start (pos - start) kids = []" using b by simp
    from branch_between [OF assms(3) this] assms(4,5) True show ?thesis by (simp add: before_at_def i)
  next
    case False
    then have d: "Suc d < length (path_of c pos)" using assms(1) by simp
    obtain s2 n2 a2 k2 where e: "path_of c pos ! Suc d = (s2, n2, a2, k2)" by (cases "path_of c pos ! Suc d") auto
    have "ancestors start (pos - start) kids = (s2, n2, a2, k2) # drop (Suc (Suc d)) (path_of c pos)"
      using b Cons_nth_drop_Suc [OF d] e by simp
    from branch_above [OF assms(3) this] d e show ?thesis by (simp add: before_at_def start_at_def i)
  qed
qed

lemma list_end:
  assumes "d < length (path_of c pos)" and "path_of c pos ! d = (start, nt, a, kids)" and "list_all branch kids"
    and "start \<le> pos" and "pos \<le> start + frag_size kids"
  shows "after_at c pos (d + 1) = start + frag_size (take (index_after d pos c) kids) \<and> index_after d pos c \<le> length kids"
proof -
  note b = path_below [OF assms(1,2)]
  show ?thesis
  proof (cases "d + 1 = length (path_of c pos)")
    case True
    then have none: "ancestors start (pos - start) kids = []" using b by simp
    have "node_at 0 pos c = node_at start (pos - start) kids"
    proof (cases "ancestors 0 pos c = []")
      case True
      then have "path_of c pos ! d = (0, Doc, [], c)" using assms(1) by (simp add: path_of_def)
      then show ?thesis using assms(2) by simp
    next
      case False
      then have "last (ancestors 0 pos c) = (start, nt, a, kids)"
        using True assms(2) last_conv_nth [of "path_of c pos"] by (simp add: path_of_def)
      with node_at_above [OF False] show ?thesis by simp
    qed
    then have "\<not> inside_text pos c" using node_at_branch [OF assms(3) none]
      by (auto simp: inside_text_def split: option.splits pm.splits)
    then have "index_after d pos c = child_index (pos - start) kids" using True assms(2) by (simp add: index_after_def)
    with branch_between [OF assms(3) none] assms(4,5) True show ?thesis by (simp add: after_at_def child_index_le)
  next
    case False
    then have d: "Suc d < length (path_of c pos)" using assms(1) by simp
    obtain s2 n2 a2 k2 where e: "path_of c pos ! Suc d = (s2, n2, a2, k2)" by (cases "path_of c pos ! Suc d") auto
    have "ancestors start (pos - start) kids = (s2, n2, a2, k2) # drop (Suc (Suc d)) (path_of c pos)"
      using b Cons_nth_drop_Suc [OF d] e by simp
    from branch_above [OF assms(3) this] have "child_index (pos - start) kids < length kids"
      "s2 + frag_size k2 + 1 = start + frag_size (take (Suc (child_index (pos - start) kids)) kids)" by auto
    moreover have "index_after d pos c = Suc (child_index (pos - start) kids)" using False assms(2) by (simp add: index_after_def)
    ultimately show ?thesis using d e by (simp add: after_at_def end_at_def start_at_def kids_at_def)
  qed
qed

end
