(* ===== verification/Prose_Kept.thy ===== *)
theory Prose_Kept
  imports Prose_Paths
begin

text \<open>
  What the list commands of the text editor keep: a document of the schema stays one, and no character, pill
  or image is lost, doubled or moved.
\<close>

section \<open>Steps\<close>

text \<open>What is written in a document, in its order.\<close>

definition inline_tokens :: "pm list \<Rightarrow> token list" where
  "inline_tokens c = filter inline_token (tokens c)"

text \<open>The edges of nodes that have content.\<close>

fun edge_token :: "token \<Rightarrow> bool" where
  "edge_token (Open nt a) \<longleftrightarrow> \<not> leaf_type nt"
| "edge_token Close \<longleftrightarrow> True"
| "edge_token t \<longleftrightarrow> False"

lemma edge_ok: "edge_token t \<Longrightarrow> token_ok t" "edge_token t \<Longrightarrow> \<not> inline_token t"
  by (cases t; simp)+

lemma edges: "list_all edge_token ts \<Longrightarrow> list_all token_ok ts \<and> filter inline_token ts = []"
  by (induction ts) (auto simp: edge_ok)

text \<open>What a step of structure takes away holds no content.\<close>

lemma content_between_none:
  assumes "\<not> content_between lo hi ts"
  shows "filter inline_token (drop lo (take hi ts)) = []"
proof -
  let ?x = "drop lo (take hi ts)"
  have "list_all opens (dropWhile closes ?x)" using assms by (simp add: content_between_def)
  then have "\<not> inline_token t" if "t \<in> set (dropWhile closes ?x)" for t
    using that by (cases t) (auto simp: list_all_iff)
  moreover have "\<not> inline_token t" if "t \<in> set (takeWhile closes ?x)" for t
    using set_takeWhileD [OF that] by (cases t) auto
  moreover have "set ?x = set (takeWhile closes ?x) \<union> set (dropWhile closes ?x)"
    by (metis set_append takeWhile_dropWhile_id)
  ultimately show ?thesis by (auto simp: filter_empty_conv)
qed

lemma take_token_ok: "list_all token_ok ts \<Longrightarrow> list_all token_ok (take n ts) \<and> list_all token_ok (drop n ts)"
  by (auto simp: list_all_iff dest: in_set_takeD in_set_dropD)

lemma checked_doc_valid:
  assumes "checked_doc ts = Some d" and "list_all token_ok ts"
  shows "valid_doc d \<and> tokens d = ts"
  using assms doc_of_ok [of ts d] by (auto simp: checked_doc_def valid_doc_def split: option.splits if_splits)

lemma cut_middle: "lo \<le> hi \<Longrightarrow> take lo ts @ drop lo (take hi ts) @ drop hi ts = ts"
  by (metis append_assoc append_take_drop_id min.absorb1 take_take)

text \<open>What a transaction keeps of the document it starts with.\<close>

definition keeps :: "pm list \<Rightarrow> pm list \<Rightarrow> bool" where
  "keeps c d \<longleftrightarrow> (valid_doc c \<longrightarrow> valid_doc d \<and> inline_tokens d = inline_tokens c)"

lemma keeps_itself [simp]: "keeps c c"
  by (simp add: keeps_def)

lemma keeps_trans: "keeps c d \<Longrightarrow> keeps d e \<Longrightarrow> keeps c e"
  by (simp add: keeps_def)

lemma replaced_kept:
  assumes "checked_doc (take lo (tokens c) @ sl @ drop hi (tokens c)) = Some d" and "lo \<le> hi"
    and "list_all edge_token sl" and "filter inline_token (drop lo (take hi (tokens c))) = []"
  shows "keeps c d \<and> tokens d = take lo (tokens c) @ sl @ drop hi (tokens c)"
proof -
  let ?ts = "tokens c"
  have d: "valid_doc d" "tokens d = take lo ?ts @ sl @ drop hi ?ts"
    using checked_doc_valid [OF assms(1)] edges [OF assms(3)] take_token_ok [OF tokens_ok [of c]] by auto
  have "inline_tokens c = filter inline_token (take lo ?ts @ drop lo (take hi ?ts) @ drop hi ?ts)"
    by (simp only: inline_tokens_def cut_middle [OF assms(2)])
  also have "\<dots> = inline_tokens d" using edges [OF assms(3)] assms(4) by (simp add: inline_tokens_def d(2))
  finally show ?thesis using d by (simp add: keeps_def)
qed

lemma step_replace_kept:
  assumes "step_replace structure lo hi sl tr = Dispatched tr'" and "lo \<le> hi" and "list_all edge_token sl"
    and "structure \<or> filter inline_token (drop lo (take hi (tokens (tr_doc tr)))) = []"
  shows "keeps (tr_doc tr) (tr_doc tr') \<and> tokens (tr_doc tr') = take lo (tokens (tr_doc tr)) @ sl @ drop hi (tokens (tr_doc tr))"
    and "tr' = add_step (tr_doc tr') [(lo, hi - lo, length sl)] tr"
proof -
  have d: "replace_step structure lo hi sl (tr_doc tr) = Some (tr_doc tr')"
    and t: "tr' = add_step (tr_doc tr') [(lo, hi - lo, length sl)] tr"
    using assms(1) by (auto simp: step_replace_def add_step_def split: option.splits)
  show "tr' = add_step (tr_doc tr') [(lo, hi - lo, length sl)] tr" by (rule t)
  have "filter inline_token (drop lo (take hi (tokens (tr_doc tr)))) = []"
    using d assms(4) content_between_none [of lo hi] by (auto simp: replace_step_def Let_def split: if_splits)
  with d replaced_kept [of lo "tr_doc tr" sl hi "tr_doc tr'"] assms(2,3)
  show "keeps (tr_doc tr) (tr_doc tr') \<and> tokens (tr_doc tr') = take lo (tokens (tr_doc tr)) @ sl @ drop hi (tokens (tr_doc tr))"
    by (auto simp: replace_step_def Let_def split: if_splits)
qed

lemma drop_take_join: "lo \<le> mid \<Longrightarrow> mid \<le> hi \<Longrightarrow> drop lo (take hi ts) = drop lo (take mid ts) @ drop mid (take hi ts)"
proof -
  assume le: "lo \<le> mid" "mid \<le> hi"
  let ?x = "take hi ts"
  have "drop lo ?x = drop lo (take mid ?x @ drop mid ?x)" by (simp only: append_take_drop_id)
  also have "\<dots> = drop lo (take mid ?x) @ drop (lo - length (take mid ?x)) (drop mid ?x)" by (rule drop_append)
  also have "drop (lo - length (take mid ?x)) (drop mid ?x) = drop mid ?x"
    using le by (cases "mid \<le> length ?x") (auto simp: min_def)
  also have "take mid ?x = take mid ts" using le by (simp add: min_def)
  finally show ?thesis .
qed

lemma step_around_kept:
  assumes "step_around lo hi gap_lo gap_hi sl ins structure tr = Dispatched tr'"
    and "lo \<le> gap_lo" and "gap_lo \<le> gap_hi" and "gap_hi \<le> hi" and "list_all edge_token sl"
    and "structure \<or> filter inline_token (drop lo (take gap_lo (tokens (tr_doc tr)))) = []
        \<and> filter inline_token (drop gap_hi (take hi (tokens (tr_doc tr)))) = []"
  defines "gap \<equiv> drop gap_lo (take gap_hi (tokens (tr_doc tr)))"
  shows "keeps (tr_doc tr) (tr_doc tr') \<and> doc_of gap \<noteq> None
    \<and> tokens (tr_doc tr') = take lo (tokens (tr_doc tr)) @ take ins sl @ gap @ drop ins sl @ drop hi (tokens (tr_doc tr))"
proof -
  let ?c = "tr_doc tr" and ?d = "tr_doc tr'"
  let ?ts = "tokens ?c" and ?new = "take ins sl @ gap @ drop ins sl"
  have d: "replace_around structure lo hi gap_lo gap_hi sl ins ?c = Some ?d"
    using assms(1) by (auto simp: step_around_def add_step_def split: option.splits)
  have out: "filter inline_token (drop lo (take gap_lo ?ts)) = []" "filter inline_token (drop gap_hi (take hi ?ts)) = []"
    using d assms(6) content_between_none [of lo gap_lo] content_between_none [of gap_hi hi]
    by (auto simp: replace_around_def Let_def split: if_splits)
  have g: "doc_of gap \<noteq> None" and cd: "checked_doc (take lo ?ts @ ?new @ drop hi ?ts) = Some ?d"
    using d by (auto simp: replace_around_def gap_def Let_def split: if_splits)
  have ok: "list_all token_ok sl" "filter inline_token sl = []" using edges [OF assms(5)] by simp_all
  have "list_all token_ok (take lo ?ts @ ?new @ drop hi ?ts)"
    unfolding gap_def using take_token_ok tokens_ok [of ?c] ok(1) by (simp only: list_all_append)
  then have v: "valid_doc ?d" "tokens ?d = take lo ?ts @ ?new @ drop hi ?ts" using checked_doc_valid [OF cd] by auto
  have none: "filter inline_token (take ins sl) = []" "filter inline_token (drop ins sl) = []"
    using ok(2) by (auto simp: filter_empty_conv dest: in_set_takeD in_set_dropD)
  have "inline_tokens ?c = filter inline_token (take lo ?ts @ drop lo (take hi ?ts) @ drop hi ?ts)"
    using cut_middle [of lo hi ?ts] assms(2-4) by (simp add: inline_tokens_def)
  also have "drop lo (take hi ?ts) = drop lo (take gap_lo ?ts) @ gap @ drop gap_hi (take hi ?ts)"
    unfolding gap_def using drop_take_join [of lo gap_lo hi ?ts] drop_take_join [of gap_lo gap_hi hi ?ts] assms(2-4) by simp
  finally have "inline_tokens ?d = inline_tokens ?c" using out none by (simp add: inline_tokens_def v(2))
  then show ?thesis using v g by (simp add: keeps_def)
qed

section \<open>Wrapping and joining\<close>

lemma and_then_Dispatched [simp]:
  "and_then r f = Dispatched y \<longleftrightarrow> (\<exists>x. r = Dispatched x \<and> f x = Dispatched y)"
  by (cases r) auto

definition inner_types :: "node_type list \<Rightarrow> bool" where
  "inner_types ws \<longleftrightarrow> list_all (\<lambda>t. \<not> leaf_type t) ws"

lemma wrap_search_inner:
  "wrap_search target seen queue = Some ws \<Longrightarrow> list_all (\<lambda>(next_types, via). inner_types via) queue \<Longrightarrow> inner_types ws"
proof (induction target seen queue rule: wrap_search.induct)
  case (2 target seen next_types via queue)
  show ?case
  proof (cases "target \<in> set next_types")
    case True
    with 2 show ?thesis by (auto simp: inner_types_def)
  next
    case False
    have "list_all (\<lambda>(n, v). inner_types v) (map (\<lambda>t. (content_types t, t # via)) (remdups (wrapper_types seen next_types)))"
      using 2(3) by (auto simp: inner_types_def list_all_iff wrapper_types_def)
    then show ?thesis using False 2 by (auto simp: Let_def)
  qed
qed simp

lemma wrapping_inner: "wrapping_for inside t = Some ws \<Longrightarrow> inner_types ws"
  unfolding wrapping_for_def by (drule wrap_search_inner) (auto simp: inner_types_def)

lemma wrapping_node_inner: "wrapping_for_node inside n = Some ws \<Longrightarrow> inner_types ws"
  using wrapping_inner [of inside Paragraph] wrapping_inner [of inside _ ws]
  by (auto simp: wrapping_for_node_def inner_types_def leaf_type_def split: option.splits if_splits)

lemma find_wrapping_inner:
  assumes "find_wrapping c outer t inner = Dispatched w"
  shows "inner_types (fst w) \<and> inner_types (snd w)"
proof -
  obtain ws where o: "find_wrapping_outside c outer t = Some ws" and "find_wrapping_inside c inner t = Dispatched (snd w)" "fst w = ws"
    using assms by (auto simp: find_wrapping_def split: option.splits)
  then show ?thesis using wrapping_inner wrapping_node_inner
    by (auto simp: find_wrapping_outside_def find_wrapping_inside_def Let_def split: option.splits if_splits)
qed

lemma wrapper_edges: "inner_types ws \<Longrightarrow> list_all edge_token (wrapper_tokens ws)"
  by (auto simp: wrapper_tokens_def inner_types_def list_all_iff)

lemma split_kept: "split_tr pos depth tr = Dispatched tr' \<Longrightarrow> keeps (tr_doc tr) (tr_doc tr')"
  unfolding split_tr_def Let_def
  by (drule step_replace_kept(1)) (auto simp: list_all_iff depth_of_def path_of_def intro!: type_at_inner [unfolded path_of_def])

lemma join_kept: "join_tr p tr = Dispatched tr' \<Longrightarrow> keeps (tr_doc tr) (tr_doc tr')"
  unfolding join_tr_def by (drule step_replace_kept(1)) auto

lemma split_children_kept: "split_children depth first ns pos tr = Dispatched tr' \<Longrightarrow> keeps (tr_doc tr) (tr_doc tr')"
proof (induction depth first ns pos tr rule: split_children.induct)
  case (2 depth first n ns pos tr)
  show ?case
  proof (cases first)
    case True
    with 2 show ?thesis by simp
  next
    case False
    with 2(4) obtain ok where ok: "can_split (tr_doc tr) pos depth = Dispatched ok" by auto
    show ?thesis
    proof (cases ok)
      case True
      with 2(4) False ok obtain tr1 where "split_tr pos depth tr = Dispatched tr1"
        "split_children depth False ns (pos + 2 * depth + node_size n) tr1 = Dispatched tr'" by auto
      with 2(2) [OF False, of ok tr1] True split_kept keeps_trans show ?thesis by blast
    next
      case not: False
      with 2 False ok show ?thesis by auto
    qed
  qed
qed simp

lemma do_wrap_kept:
  assumes "do_wrap_in_list r w join_before L tr = Dispatched tr'" and "range_start (tr_doc tr) r \<le> range_end (tr_doc tr) r"
    and "inner_types (fst w)" and "inner_types (snd w)" and "\<not> leaf_type L"
  shows "keeps (tr_doc tr) (tr_doc tr')"
proof -
  let ?ws = "fst w @ [L] @ snd w" and ?lo = "range_start (tr_doc tr) r" and ?hi = "range_end (tr_doc tr) r"
  obtain tr1 where s: "step_around (?lo - (if join_before then 2 else 0)) ?hi ?lo ?hi (wrapper_tokens ?ws) (length ?ws) True tr = Dispatched tr1"
    and k: "keeps (tr_doc tr1) (tr_doc tr')"
    using assms(1) split_children_kept by (auto simp: do_wrap_in_list_def Let_def)
  have "inner_types ?ws" using assms(3-5) by (simp add: inner_types_def)
  from step_around_kept [OF s _ assms(2) _ wrapper_edges [OF this]] k show ?thesis using keeps_trans by auto
qed

lemma tr_state_fields [simp]: "content (tr_state tr) = tr_doc tr" "tr_doc (start_tr s) = content s"
  by (simp_all add: tr_state_def start_tr_def)

lemma wrap_in_list_kept:
  assumes "wrap_in_list_tr L tr = Dispatched tr'" and "\<not> leaf_type L"
  shows "keeps (tr_doc tr) (tr_doc tr')"
proof -
  let ?s = "tr_state tr" and ?c = "tr_doc tr"
  obtain d where d: "block_range (\<lambda>kids. True) ?s = Some d"
    using assms(1) by (auto simp: wrap_in_list_tr_def Let_def split: option.splits)
  let ?r = "\<lparr>rg_from = sel_from ?s, rg_to = sel_to ?s, rg_depth = d\<rparr>"
  have r: "range_ok ?c ?r" using block_range_ok(1) [OF d] by simp
  have r': "range_ok ?c (?r\<lparr>rg_to := end_at ?c (sel_to ?s) d\<rparr>)" using range_to_end [OF r] by simp
  from assms(1) d r r' obtain outer w r1 join_before where
    "find_wrapping ?c outer L r1 = Dispatched w" "do_wrap_in_list r1 w join_before L tr = Dispatched tr'" "range_ok ?c r1"
    by (auto simp: wrap_in_list_tr_def Let_def split: if_splits)
  then show ?thesis
    using do_wrap_kept [of r1 w join_before L tr tr'] find_wrapping_inner [of ?c outer L r1 w] range_ordered [of ?c r1] assms(2)
    by simp
qed

lemma join_up_kept: "join_up_tr ts tr = Dispatched tr' \<Longrightarrow> keeps (tr_doc tr) (tr_doc tr')"
  by (auto simp: join_up_tr_def Let_def dest!: join_kept split: option.splits if_splits selection.splits)

lemma join_down_kept: "join_down_tr ts tr = Dispatched tr' \<Longrightarrow> keeps (tr_doc tr) (tr_doc tr')"
  by (auto simp: join_down_tr_def Let_def dest: join_kept split: option.splits if_splits)

lemma wrap_items_kept: "wrap_items L s = Dispatched s' \<Longrightarrow> \<not> leaf_type L \<Longrightarrow> keeps (content s) (content s')"
  by (auto simp: wrap_items_def dest!: wrap_in_list_kept)

lemma or_stay_Dispatched: "or_stay x r = Dispatched y \<longleftrightarrow> r = Dispatched y \<or> r = Refused \<and> y = x"
  by (cases r) (auto simp: or_stay_def)

lemma join_around_kept:
  assumes "join_around L s = Dispatched s'"
  shows "keeps (content s) (content s')"
proof -
  obtain tr1 tr2 where "or_stay (start_tr s) (join_up_tr [L] (start_tr s)) = Dispatched tr1"
    "or_stay tr1 (join_down_tr [L] tr1) = Dispatched tr2" "s' = tr_state tr2"
    using assms by (auto simp: join_around_def Let_def)
  then have "keeps (content s) (tr_doc tr1)" "keeps (tr_doc tr1) (content s')"
    by (auto simp: or_stay_Dispatched dest: join_up_kept join_down_kept)
  then show ?thesis by (rule keeps_trans)
qed

section \<open>Lifting to an outer list\<close>

lemma lift_edges:
  assumes "\<And>d. d \<in> set ds \<Longrightarrow> d < length (path_of c t)"
  shows "list_all edge_token (replicate n Close @ map (\<lambda>d. Open (type_at c t d) (attrs_at c t d)) (rev (dropWhile P ds)))"
proof -
  have "edge_token (Open (type_at c t d) (attrs_at c t d))" if "d \<in> set (dropWhile P ds)" for d
    using set_dropWhileD [OF that] assms type_at_inner [of d c t] by simp
  then show ?thesis by (auto simp: list_all_iff)
qed

lemma lift_kept:
  assumes "lift_tr r target tr = Dispatched tr'" and "range_ok (tr_doc tr) r"
  shows "keeps (tr_doc tr) (tr_doc tr')"
proof -
  let ?c = "tr_doc tr" and ?ds = "rev [target + 1..<rg_depth r + 1]"
  let ?lhs = "dropWhile (\<lambda>d. index_at ?c (rg_from r) d = 0) ?ds"
  let ?rhs = "dropWhile (\<lambda>d. \<not> after_at ?c (rg_to r) (d + 1) < end_at ?c (rg_to r) d) ?ds"
  let ?sl = "replicate (length ?lhs) Close @ map (\<lambda>d. Open (type_at ?c (rg_to r) d) (attrs_at ?c (rg_to r) d)) (rev ?rhs)"
  have s: "step_around (range_start ?c r - (length ?ds - length ?lhs)) (range_end ?c r + (length ?ds - length ?rhs))
      (range_start ?c r) (range_end ?c r) ?sl (length ?lhs) True tr = Dispatched tr'"
    using assms(1) by (simp add: lift_tr_def Let_def range_start_def range_end_def)
  have "list_all edge_token ?sl"
    by (rule lift_edges) (use assms(2) in \<open>auto simp: range_ok_def simp del: upt_Suc\<close>)
  from step_around_kept [OF s _ _ _ this] range_ordered [OF assms(2)] show ?thesis by simp
qed

text \<open>The items after the range become a list of their own; the range goes on to its end.\<close>

lemma trailing_items_kept:
  assumes "step_around (hi - 1) list_end hi list_end [Open nt a, Close, Close] 1 True tr = Dispatched tr1"
    and "range_ok (tr_doc tr) r" and "hi = range_end (tr_doc tr) r" and "hi < list_end" and "list_end \<le> frag_size (tr_doc tr)"
    and "\<not> leaf_type nt" and "rg_from r < hi" and "int (rg_depth r) \<le> level (take (hi - 1) (tokens (tr_doc tr))) + 1"
  shows "keeps (tr_doc tr) (tr_doc tr1) \<and> range_ok (tr_doc tr1) (r\<lparr>rg_to := list_end\<rparr>)"
proof -
  let ?ts = "tokens (tr_doc tr)" and ?c1 = "tr_doc tr1"
  let ?gap = "drop hi (take list_end ?ts)"
  have "list_all edge_token [Open nt a, Close, Close]" using assms(6) by simp
  from step_around_kept [OF assms(1) _ _ _ this] assms(4)
  have k: "keeps (tr_doc tr) ?c1" and g: "doc_of ?gap \<noteq> None"
    and t: "tokens ?c1 = take (hi - 1) ?ts @ Open nt a # ?gap @ Close # Close # drop list_end ?ts" by simp_all
  have hi: "hi - 1 < frag_size (tr_doc tr)" "0 < hi" using assms(4,5,7) by simp_all
  have "frag_size ?c1 = length (tokens ?c1)" by simp
  also have "\<dots> = frag_size (tr_doc tr) + 2" unfolding t using hi assms(4,5) by simp
  finally have size: "list_end \<le> frag_size ?c1" using assms(5) by simp
  have "take (rg_from r) (tokens ?c1) = take (rg_from r) ?ts" unfolding t using assms(7) hi by simp
  then have f: "rg_depth r < length (path_of ?c1 (rg_from r))"
    using length_path [of ?c1 "rg_from r"] length_path [of "tr_doc tr" "rg_from r"] assms(2) by (simp add: range_ok_def)
  have n: "length (take (hi - 1) ?ts @ Open nt a # ?gap) = list_end" using hi assms(4,5) by simp
  have "tokens ?c1 = (take (hi - 1) ?ts @ Open nt a # ?gap) @ Close # Close # drop list_end ?ts" unfolding t by simp
  with n have "take list_end (tokens ?c1) = take (hi - 1) ?ts @ Open nt a # ?gap" by (metis append_eq_conv_conj)
  then have "level (take list_end (tokens ?c1)) = level (take (hi - 1) ?ts) + 1" using level_doc [OF g] by simp
  then have "rg_depth r < length (path_of ?c1 list_end)" using length_path [of ?c1 list_end] assms(8) by simp
  moreover have "rg_from r \<le> list_end" using assms(4,7) by simp
  ultimately show ?thesis using k f size by (simp add: range_ok_def)
qed

lemma lift_to_outer_kept:
  assumes "lift_to_outer_list_tr item r tr = Dispatched tr'" and "range_ok (tr_doc tr) r"
    and "rg_from r = rg_to r \<Longrightarrow> Suc (rg_depth r) < length (path_of (tr_doc tr) (rg_from r))"
  shows "keeps (tr_doc tr) (tr_doc tr')"
proof -
  let ?c = "tr_doc tr" and ?d = "rg_depth r"
  let ?hi = "range_end ?c r" and ?list_end = "end_at ?c (rg_to r) ?d"
  obtain start nt a kids where e: "path_of ?c (rg_to r) ! ?d = (start, nt, a, kids)" by (cases "path_of ?c (rg_to r) ! ?d") auto
  have "?d < length (path_of ?c (rg_to r))" "?d < length (path_of ?c (rg_from r))" using assms(2) by (simp_all add: range_ok_def)
  then have le: "?list_end \<le> frag_size ?c" and leaf: "\<not> leaf_type (type_at ?c (rg_from r) ?d)"
    using path_bound [of ?d ?c "rg_to r", OF _ e] type_at_inner by (simp_all add: end_at_def start_at_def kids_at_def e)
  note last = range_last [OF assms(2) refl refl assms(3)]
  obtain tr1 r1 where r1: "keeps ?c (tr_doc tr1)" "range_ok (tr_doc tr1) r1"
    and rest: "(case lift_target (tr_doc tr1) r1 of None \<Rightarrow> Refused | Some target \<Rightarrow>
        and_then (lift_tr r1 target tr1) (\<lambda>tr2. let rhs = mapped tr2 False ?hi - 1
          in if can_join (tr_doc tr2) rhs then join_tr rhs tr2 else Dispatched tr2)) = Dispatched tr'"
  proof (cases "?hi < ?list_end")
    case True
    with assms(1) obtain tr1 where "step_around (?hi - 1) ?list_end ?hi ?list_end
        [Open (type_at ?c (rg_from r) ?d) (attrs_at ?c (rg_from r) ?d), Close, Close] 1 True tr = Dispatched tr1"
      and "(case lift_target (tr_doc tr1) (r\<lparr>rg_to := ?list_end\<rparr>) of None \<Rightarrow> Refused | Some target \<Rightarrow>
        and_then (lift_tr (r\<lparr>rg_to := ?list_end\<rparr>) target tr1) (\<lambda>tr2. let rhs = mapped tr2 False ?hi - 1
          in if can_join (tr_doc tr2) rhs then join_tr rhs tr2 else Dispatched tr2)) = Dispatched tr'"
      by (auto simp: lift_to_outer_list_tr_def Let_def)
    with trailing_items_kept [OF this(1) assms(2) refl True le leaf last] that show ?thesis by blast
  next
    case False
    with assms(1,2) that [of tr r] show ?thesis by (simp add: lift_to_outer_list_tr_def Let_def)
  qed
  then obtain target tr2 where l: "lift_tr r1 target tr1 = Dispatched tr2"
    and j: "(let rhs = mapped tr2 False ?hi - 1 in if can_join (tr_doc tr2) rhs then join_tr rhs tr2 else Dispatched tr2) = Dispatched tr'"
    by (auto split: option.splits)
  have "keeps (tr_doc tr2) (tr_doc tr')" using j join_kept by (auto simp: Let_def split: if_splits)
  then show ?thesis using r1 lift_kept [OF l r1(2)] keeps_trans by blast
qed

section \<open>Merging items\<close>

text \<open>Where items of the given sizes, the last one first, meet before a position.\<close>

fun seams :: "nat list \<Rightarrow> nat \<Rightarrow> token list \<Rightarrow> bool" where
  "seams [] pos ts \<longleftrightarrow> True"
| "seams (z # zs) pos ts \<longleftrightarrow> 2 \<le> z \<and> z < pos \<and> pos - z < length ts
     \<and> ts ! (pos - z - 1) = Close \<and> opens (ts ! (pos - z)) \<and> seams zs (pos - z) ts"

lemma seams_cong: "take (pos - 1) ts = take (pos - 1) ts' \<Longrightarrow> pos - 1 \<le> length ts \<Longrightarrow> pos - 1 \<le> length ts' \<Longrightarrow> seams zs pos ts \<Longrightarrow> seams zs pos ts'"
proof (induction zs arbitrary: pos)
  case (Cons z zs)
  let ?p = "pos - z"
  have z: "2 \<le> z" "z < pos" and rest: "seams zs ?p ts" using Cons.prems(4) by simp_all
  have same: "ts' ! i = ts ! i" if "i < pos - 1" for i
    using that Cons.prems(1) by (metis nth_take)
  have "take (?p - 1) (take (pos - 1) ts) = take (?p - 1) (take (pos - 1) ts')" using Cons.prems(1) by simp
  then have t: "take (?p - 1) ts = take (?p - 1) ts'" using z by (auto simp: min_def split: if_splits)
  have "seams zs ?p ts'" using Cons.IH [OF t _ _ rest] Cons.prems(2,3) z by simp
  then show ?case using Cons.prems(3,4) same [of "?p - 1"] same [of ?p] z by simp
qed simp

text \<open>The sizes of neighbouring children give the places where they meet.\<close>

lemma branch_tokens: "branch n \<Longrightarrow> \<exists>nt a c. tokens [n] = Open nt a # tokens c @ [Close]"
  by (cases n) auto

lemma seams_of_children:
  assumes "list_all branch ks" and "pre \<noteq> []" and "last pre = Close"
  shows "seams (map node_size (rev ks)) (length pre + frag_size ks) (pre @ tokens ks @ post)"
  using assms(1)
proof (induction ks arbitrary: post rule: rev_induct)
  case (snoc k ks)
  then have "branch k" by simp
  then obtain nt a c where k: "tokens [k] = Open nt a # tokens c @ [Close]" using branch_tokens by blast
  have "node_size k = length (tokens [k])" by simp
  also have "\<dots> = frag_size c + 2" unfolding k by simp
  finally have z: "node_size k = frag_size c + 2" .
  have l: "(pre @ tokens ks) ! (length pre + frag_size ks - 1) = Close"
  proof (cases ks rule: rev_cases)
    case Nil
    then show ?thesis using assms(2,3) by (simp add: last_conv_nth)
  next
    case (snoc ks' k')
    then have "branch k'" using snoc.prems by simp
    then obtain nt' a' c' where "tokens [k'] = Open nt' a' # tokens c' @ [Close]" using branch_tokens by blast
    then have t: "pre @ tokens ks = (pre @ tokens ks' @ Open nt' a' # tokens c') @ [Close]" by (simp add: snoc)
    then have "length pre + frag_size ks = length ((pre @ tokens ks' @ Open nt' a' # tokens c') @ [Close])"
      by (metis length_append length_tokens)
    then have n: "length pre + frag_size ks - 1 = length (pre @ tokens ks' @ Open nt' a' # tokens c')" by simp
    show ?thesis unfolding n unfolding t by (rule nth_append_length)
  qed
  have all: "pre @ tokens (ks @ [k]) @ post = (pre @ tokens ks) @ Open nt a # tokens c @ Close # post" by (simp add: k)
  have pos: "length pre + frag_size (ks @ [k]) - node_size k = length (pre @ tokens ks)" by simp
  have room: "length (pre @ tokens ks) - 1 < length (pre @ tokens ks)" using assms(2) by simp
  have "(pre @ tokens (ks @ [k]) @ post) ! (length (pre @ tokens ks) - 1) = Close"
    unfolding all using l room by (subst nth_append) simp
  moreover have "(pre @ tokens (ks @ [k]) @ post) ! length (pre @ tokens ks) = Open nt a"
    unfolding all by (rule nth_append_length)
  moreover have "seams (map node_size (rev ks)) (length (pre @ tokens ks)) (pre @ tokens (ks @ [k]) @ post)"
    using snoc.IH [of "tokens [k] @ post"] snoc.prems by simp
  moreover have "length (pre @ tokens ks) < length (pre @ tokens (ks @ [k]) @ post)" using z by simp
  moreover have "node_size k < length pre + frag_size (ks @ [k])" using assms(2) by simp
  ultimately show ?case using z pos by simp
qed simp

lemma map_pos_deleted: "p + 1 < q \<Longrightarrow> map_pos [(p, 2, 0)] True q = q - 2"
  by (simp add: map_pos_def) arith

lemma two_tokens: "Suc m < length ts \<Longrightarrow> drop m (take (m + 2) ts) = [ts ! m, ts ! Suc m]"
proof -
  assume m: "Suc m < length ts"
  then have "drop m ts = ts ! m # ts ! Suc m # drop (Suc (Suc m)) ts" by (simp add: Cons_nth_drop_Suc)
  then show ?thesis by (simp add: drop_take)
qed

lemma seams_room: "seams zs pos ts \<Longrightarrow> 2 * length zs \<le> pos"
  by (induction zs arbitrary: pos) fastforce+

text \<open>
  Merging removes the seams and nothing else: what is before the first item that is merged stays, and
  what is after the last comes nearer.
\<close>

lemma merge_kept:
  assumes "merge_items zs pos tr = Dispatched tr'" and "seams zs pos (tokens (tr_doc tr))" and "pos \<le> frag_size (tr_doc tr)"
  shows "keeps (tr_doc tr) (tr_doc tr')
    \<and> take (pos - sum_list zs - 1) (tokens (tr_doc tr')) = take (pos - sum_list zs - 1) (tokens (tr_doc tr))
    \<and> (\<exists>xs. tokens (tr_doc tr') = xs @ drop pos (tokens (tr_doc tr)) \<and> length xs = pos - 2 * length zs)
    \<and> (\<exists>maps. tr_maps tr' = tr_maps tr @ maps \<and> (\<forall>q \<ge> pos. fold (\<lambda>rs p. map_pos rs True p) maps q = q - 2 * length zs))"
  using assms
proof (induction zs pos tr rule: merge_items.induct)
  case (1 pos tr)
  then show ?case by (auto intro!: exI [of _ "take pos (tokens (tr_doc tr))"])
next
  case (2 z zs pos tr)
  let ?p = "pos - z" and ?ts = "tokens (tr_doc tr)"
  obtain tr1 where s: "step_replace False (?p - 1) (?p + 1) [] tr = Dispatched tr1" and m: "merge_items zs ?p tr1 = Dispatched tr'"
    using 2(2) by auto
  have z: "2 \<le> z" "z < pos" "?p < length ?ts" "?ts ! (?p - 1) = Close" "opens (?ts ! ?p)" "seams zs ?p ?ts"
    using 2(3) by simp_all
  have "drop (?p - 1) (take (?p + 1) ?ts) = [?ts ! (?p - 1), ?ts ! ?p]"
    using z(2,3) two_tokens [of "?p - 1" ?ts] by (simp add: Suc_diff_Suc)
  then have none: "filter inline_token (drop (?p - 1) (take (?p + 1) ?ts)) = []"
    using z(4,5) by (cases "?ts ! ?p") auto
  from step_replace_kept [OF s _ _ disjI2 [OF none]]
  have k: "keeps (tr_doc tr) (tr_doc tr1)" and t: "tokens (tr_doc tr1) = take (?p - 1) ?ts @ drop (?p + 1) ?ts"
    and maps: "tr1 = add_step (tr_doc tr1) [(?p - 1, 2, 0)] tr" using z(2) by simp_all
  have size: "frag_size (tr_doc tr1) = frag_size (tr_doc tr) - 2"
    using length_tokens [of "tr_doc tr1"] z(2,3) by (simp add: t del: length_tokens) (simp add: t)
  have same: "take (?p - 1) (tokens (tr_doc tr1)) = take (?p - 1) ?ts" unfolding t using z(2,3) by simp
  have "seams zs ?p (tokens (tr_doc tr1))"
    by (rule seams_cong [OF same [symmetric] _ _ z(6)]) (use z size 2(4) in auto)
  moreover have "?p \<le> frag_size (tr_doc tr1)" using size 2(4) z(1,2) by simp
  ultimately have IH: "keeps (tr_doc tr1) (tr_doc tr')"
      "take (?p - sum_list zs - 1) (tokens (tr_doc tr')) = take (?p - sum_list zs - 1) (tokens (tr_doc tr1))"
      "\<exists>xs. tokens (tr_doc tr') = xs @ drop ?p (tokens (tr_doc tr1)) \<and> length xs = ?p - 2 * length zs"
      "\<exists>maps. tr_maps tr' = tr_maps tr1 @ maps \<and> (\<forall>q \<ge> ?p. fold (\<lambda>rs p. map_pos rs True p) maps q = q - 2 * length zs)"
    using 2(1) [OF m] by auto
  have "keeps (tr_doc tr) (tr_doc tr')" using k IH(1) by (rule keeps_trans)
  moreover have "take (pos - sum_list (z # zs) - 1) (tokens (tr_doc tr')) = take (pos - sum_list (z # zs) - 1) ?ts"
  proof -
    have "take (?p - sum_list zs - 1) (take (?p - 1) (tokens (tr_doc tr1))) = take (?p - sum_list zs - 1) (take (?p - 1) ?ts)"
      by (simp only: same)
    then show ?thesis using IH(2) by (auto simp: min_def split: if_splits)
  qed
  moreover have "\<exists>xs. tokens (tr_doc tr') = xs @ drop pos ?ts \<and> length xs = pos - 2 * length (z # zs)"
  proof -
    obtain xs where xs: "tokens (tr_doc tr') = xs @ drop ?p (tokens (tr_doc tr1))" "length xs = ?p - 2 * length zs" using IH(3) by blast
    have "drop ?p (tokens (tr_doc tr1)) = drop (?p + 2) ?ts" unfolding t using z(2,3) by simp
    also have "\<dots> = take (z - 2) (drop (?p + 2) ?ts) @ drop (z - 2) (drop (?p + 2) ?ts)" by (rule append_take_drop_id [symmetric])
    also have "drop (z - 2) (drop (?p + 2) ?ts) = drop (z - 2 + (?p + 2)) ?ts" by simp
    also have "z - 2 + (?p + 2) = pos" using z(1,2) by simp
    finally have "tokens (tr_doc tr') = (xs @ take (z - 2) (drop (?p + 2) ?ts)) @ drop pos ?ts" using xs(1) by simp
    moreover have "length (xs @ take (z - 2) (drop (?p + 2) ?ts)) = pos - 2 * length (z # zs)"
      using xs(2) z(1,2) 2(4) seams_room [OF z(6)] by simp
    ultimately show ?thesis by blast
  qed
  moreover have "\<exists>maps. tr_maps tr' = tr_maps tr @ maps \<and> (\<forall>q \<ge> pos. fold (\<lambda>rs p. map_pos rs True p) maps q = q - 2 * length (z # zs))"
  proof -
    obtain maps where maps': "tr_maps tr' = tr_maps tr1 @ maps"
      "\<forall>q \<ge> ?p. fold (\<lambda>rs p. map_pos rs True p) maps q = q - 2 * length zs" using IH(4) by blast
    have "fold (\<lambda>rs p. map_pos rs True p) ([(?p - 1, 2, 0)] # maps) q = q - 2 * length (z # zs)" if "pos \<le> q" for q
      using that maps'(2) map_pos_deleted [of "?p - 1" q] z(1,2) by simp
    moreover have "tr_maps tr' = tr_maps tr @ [(?p - 1, 2, 0)] # maps" by (simp add: maps'(1)) (subst maps, simp add: add_step_def)
    ultimately show ?thesis by blast
  qed
  ultimately show ?case by blast
qed

section \<open>Lifting out of a list\<close>

lemma list_kids:
  assumes "valid_content nt kids" and "first_child_is item kids" and "item_type item"
  shows "list_all branch kids \<and> nt \<noteq> Doc"
proof -
  obtain a ms c ns where k: "kids = NodeN item a ms c # ns"
    using assms(2) by (cases kids) (auto simp: first_child_is_def elim!: type_of_node.elims)
  have one: "content_types nt = [item] \<and> \<not> textblock nt"
    using assms(1,3) k by (cases nt) (auto simp: valid_content_def item_type_def block_group_def inline_group_def textblock_def)
  have "branch n" if "n \<in> set kids" for n
  proof -
    have "kid_ok nt n" using assms(1) that by (simp add: valid_content_def list_all_iff)
    then show ?thesis using one assms(3) by (cases n) (auto simp: item_type_def leaf_type_def)
  qed
  moreover have "nt \<noteq> Doc" using one assms(3) by (auto simp: block_group_def item_type_def)
  ultimately show ?thesis by (simp add: list_all_iff)
qed

text \<open>The edges around the content of an item, and those of the list at its ends.\<close>

lemma item_edges:
  assumes "ts = pre @ Open nt a # mid @ Close # post" and "lo = length pre" and "hi = lo + length mid + 2"
    and "at_start \<Longrightarrow> pre \<noteq> [] \<and> opens (last pre)" and "at_end \<Longrightarrow> post \<noteq> [] \<and> closes (hd post)"
  shows "filter inline_token (drop (if at_start then lo - 1 else lo) (take (lo + 1) ts)) = []"
    and "filter inline_token (drop (hi - 1) (take (if at_end then hi + 1 else hi) ts)) = []"
proof -
  have opens_none: "\<not> inline_token t" if "opens t" for t using that by (cases t) auto
  have closes_none: "\<not> inline_token t" if "closes t" for t using that by (cases t) auto
  show "filter inline_token (drop (if at_start then lo - 1 else lo) (take (lo + 1) ts)) = []"
  proof (cases at_start)
    case True
    then obtain p x where "pre = p @ [x]" "opens x" using assms(4) by (cases pre rule: rev_cases) auto
    with True opens_none show ?thesis by (simp add: assms(1,2))
  qed (simp add: assms(1,2))
  have "ts = (pre @ Open nt a # mid) @ Close # post" and n: "length (pre @ Open nt a # mid) = hi - 1" by (simp_all add: assms(1-3))
  then have d: "drop (hi - 1) ts = Close # post" by (metis append_eq_conv_conj)
  have e: "drop (hi - 1) (take (if at_end then hi + 1 else hi) ts) = take (if at_end then 2 else 1) (Close # post)"
    using d assms(3) by (simp add: drop_take)
  show "filter inline_token (drop (hi - 1) (take (if at_end then hi + 1 else hi) ts)) = []"
    unfolding e using assms(5) closes_none by (cases post) auto
qed

lemma strip_kept:
  assumes "step_around (if at_start then lo - 1 else lo) (if at_end then hi + 1 else hi) (lo + 1) (hi - 1)
      ((if at_start then [] else [Close]) @ (if at_end then [] else [Open lt la])) ins False tr = Dispatched tr'"
    and "tokens (tr_doc tr) = pre @ Open nt a # mid @ Close # post" and "lo = length pre" and "hi = lo + length mid + 2"
    and "at_start \<Longrightarrow> pre \<noteq> [] \<and> opens (last pre)" and "at_end \<Longrightarrow> post \<noteq> [] \<and> closes (hd post)" and "\<not> leaf_type lt"
  shows "keeps (tr_doc tr) (tr_doc tr')"
proof -
  have "list_all edge_token ((if at_start then [] else [Close]) @ (if at_end then [] else [Open lt la]))" using assms(7) by simp
  moreover have "(if at_start then lo - 1 else lo) \<le> lo + 1" "lo + 1 \<le> hi - 1" "hi - 1 \<le> (if at_end then hi + 1 else hi)"
    using assms(4) by auto
  ultimately show ?thesis
    using step_around_kept [OF assms(1)] item_edges [OF assms(2-4), of at_start at_end] assms(5,6) by blast
qed

lemma node_after_tokens: "node_after pos c = Some n \<Longrightarrow> \<exists>post. drop pos (tokens c) = tokens [n] @ post"
proof (induction c arbitrary: pos rule: frag_induct)
  case (Text s ms ns)
  then show ?case by (cases "pos < length s") (auto simp: drop_map split: if_splits)
next
  case (Node nt a ms c ns)
  show ?case
  proof (cases "leaf_type nt \<or> pos = 0 \<or> 2 + frag_size c \<le> pos")
    case True
    with Node.prems Node.IH(2) [of "pos - node_size (NodeN nt a ms c)"] show ?thesis
      by (cases pos) (auto simp: Let_def drop_Cons' split: if_splits)
  next
    case False
    then have "node_after (pos - 1) c = Some n" using Node.prems by (auto simp: Let_def)
    then obtain post where "drop (pos - 1) (tokens c) = tokens [n] @ post" using Node.IH(1) by blast
    moreover have "drop pos (tokens (NodeN nt a ms c # ns)) = drop (pos - 1) (tokens c) @ Close # tokens ns"
      using False by (cases pos) auto
    ultimately show ?thesis by simp
  qed
qed simp

text \<open>The items of the range as they are after the merge.\<close>

lemma take_shorter: "n \<le> m \<Longrightarrow> take m xs = take m ys \<Longrightarrow> take n xs = take n ys"
  by (metis min.absorb1 take_take)

lemma sum_sizes: "sum_list (map node_size ks) = frag_size ks"
proof (induction ks)
  case (Cons n ns)
  then show ?case using frag_size_append [of "[n]" ns] by simp
qed simp

lemma merged_kept:
  assumes "merge_items (map node_size (rev (take (j - i - 1) (drop (i + 1) kids)))) hi tr = Dispatched tr1"
    and "tokens (tr_doc tr) = pre @ Open nt a # tokens kids @ Close # post" and "list_all branch kids"
    and "i < j" and "j \<le> length kids" and "lo = length pre + 1 + frag_size (take i kids)"
    and "hi = length pre + 1 + frag_size (take j kids)" and "tr_maps tr = []"
  shows "keeps (tr_doc tr) (tr_doc tr1)
    \<and> (\<exists>n1 a1 rest. take (lo + 1) (tokens (tr_doc tr1)) = pre @ Open nt a # tokens (take i kids) @ [Open n1 a1])
    \<and> drop (mapped tr1 True hi) (tokens (tr_doc tr1)) = tokens (drop j kids) @ Close # post"
proof -
  let ?ts = "tokens (tr_doc tr)" and ?ks = "take (j - i - 1) (drop (i + 1) kids)"
  let ?zs = "map node_size (rev ?ks)" and ?pre = "pre @ Open nt a # tokens (take (i + 1) kids)"
  have i: "i < length kids" using assms(4,5) by simp
  then have si: "take (Suc i) kids = take i kids @ [kids ! i]" by (simp add: take_Suc_conv_app_nth)
  have "branch (kids ! i)" using assms(3) i by (simp add: list_all_length)
  then obtain n1 a1 c1 where k: "tokens [kids ! i] = Open n1 a1 # tokens c1 @ [Close]" using branch_tokens by blast
  have sj: "take j kids = take (i + 1) kids @ ?ks" using take_add [of "i + 1" "j - i - 1" kids] assms(4) by simp
  have "kids = take (i + 1) kids @ ?ks @ drop j kids" using sj append_take_drop_id [of j kids] by simp
  then have "tokens kids = tokens (take (i + 1) kids) @ tokens ?ks @ tokens (drop j kids)" by (metis tokens_append)
  then have ts: "?ts = ?pre @ tokens ?ks @ tokens (drop j kids) @ Close # post" using assms(2) by simp
  have pos: "hi = length ?pre + frag_size ?ks" using assms(7) sj by simp
  have b: "list_all branch ?ks" using assms(3) by (auto simp: list_all_iff dest: in_set_takeD in_set_dropD)
  have "?pre \<noteq> []" "last ?pre = Close" by (simp_all add: si k del: frag_size.simps)
  from seams_of_children [OF b this] have s: "seams ?zs hi ?ts" unfolding ts pos .
  have hi: "hi \<le> frag_size (tr_doc tr)" using length_tokens [of "tr_doc tr"] unfolding ts by (simp add: pos)
  note m = merge_kept [OF assms(1) s hi]
  have zs: "sum_list ?zs = frag_size ?ks" using sum_sizes [of ?ks] by (simp only: rev_map [symmetric] sum_list_rev)
  have zk: "node_size (kids ! i) = frag_size c1 + 2" using length_tokens [of "[kids ! i]"] unfolding k by simp
  have "lo + 1 \<le> hi - sum_list ?zs - 1" unfolding zs pos using assms(6) zk by (simp add: si)
  then have "take (lo + 1) (tokens (tr_doc tr1)) = take (lo + 1) ?ts" using m take_shorter by blast
  also have "\<dots> = pre @ Open nt a # tokens (take i kids) @ [Open n1 a1]" unfolding ts by (simp add: si k assms(6))
  finally have t: "take (lo + 1) (tokens (tr_doc tr1)) = pre @ Open nt a # tokens (take i kids) @ [Open n1 a1]" .
  obtain xs where xs: "tokens (tr_doc tr1) = xs @ drop hi ?ts" "length xs = hi - 2 * length ?zs" using m by blast
  have "mapped tr1 True hi = hi - 2 * length ?zs" using m assms(8) by (auto simp: mapped_def)
  then have "drop (mapped tr1 True hi) (tokens (tr_doc tr1)) = drop hi ?ts" using xs by simp
  also have "\<dots> = tokens (drop j kids) @ Close # post" unfolding ts pos by simp
  finally show ?thesis using m t by blast
qed

lemma node_after_nonempty: "well_formed c \<Longrightarrow> node_after pos c = Some n \<Longrightarrow> tokens [n] \<noteq> []"
  by (induction c arbitrary: pos rule: frag_induct) (auto simp: Let_def split: if_splits)

lemma take_size_mono: "i \<le> j \<Longrightarrow> frag_size (take i ks) \<le> frag_size (take j ks)"
  using take_add [of i "j - i" ks] by simp

lemma node_after_item:
  assumes "node_after lo c = Some n" and "take (lo + 1) (tokens c) = pre @ [Open nt a]" and "lo = length pre" and "well_formed c"
  shows "\<exists>mid post. tokens c = pre @ Open nt a # mid @ Close # post \<and> node_size n = length mid + 2"
proof -
  obtain post where p: "drop lo (tokens c) = tokens [n] @ post" using node_after_tokens [OF assms(1)] by blast
  have "take lo (take (lo + 1) (tokens c)) = pre" unfolding assms(2) by (simp add: assms(3))
  then have t: "tokens c = pre @ tokens [n] @ post" using p append_take_drop_id [of lo "tokens c"] by (simp add: min_def)
  have "take 1 (drop lo (tokens c)) = drop lo (take (lo + 1) (tokens c))" by (simp add: drop_take)
  also have "\<dots> = [Open nt a]" unfolding assms(2) by (simp add: assms(3))
  finally have h: "take 1 (tokens [n] @ post) = [Open nt a]" using p by simp
  have "tokens [n] \<noteq> []" by (rule node_after_nonempty [OF assms(4,1)])
  then obtain k where k: "tokens [n] = Open nt a # tokens k @ [Close]"
  proof (cases n)
    case (TextN s ms)
    with h \<open>tokens [n] \<noteq> []\<close> show ?thesis by (cases s) auto
  next
    case (NodeN nt1 a1 ms k)
    with h that show ?thesis by (cases "leaf_type nt1") auto
  qed
  have "node_size n = length (tokens k) + 2" using length_tokens [of "[n]"] unfolding k by simp
  then show ?thesis using t k by (intro exI [of _ "tokens k"] exI [of _ post]) simp
qed

text \<open>Which step follows the merge.\<close>

lemma lift_out_steps:
  assumes "lift_out_of_list_tr r tr = Dispatched tr'"
  defines "i \<equiv> start_index (tr_doc tr) r" and "j \<equiv> end_index (tr_doc tr) r" and "kids \<equiv> range_parent (tr_doc tr) r"
    and "lo \<equiv> range_start (tr_doc tr) r" and "lt \<equiv> type_at (tr_doc tr) (rg_from r) (rg_depth r)"
    and "la \<equiv> attrs_at (tr_doc tr) (rg_from r) (rg_depth r)"
  obtains tr1 n where "merge_items (map node_size (rev (take (j - i - 1) (drop (i + 1) kids)))) (range_end (tr_doc tr) r) tr = Dispatched tr1"
    and "node_after lo (tr_doc tr1) = Some n" and "mapped tr1 True (range_end (tr_doc tr) r) = lo + node_size n"
    and "step_around (if i = 0 then lo - 1 else lo) (if j = length kids then lo + node_size n + 1 else lo + node_size n)
        (lo + 1) (lo + node_size n - 1)
        ((if i = 0 then [] else [Close]) @ (if j = length kids then [] else [Open lt la])) (if i = 0 then 0 else 1) False tr1 = Dispatched tr'"
  using assms by (auto simp: lift_out_of_list_tr_def Let_def split: option.splits if_splits)

lemma lift_out_kept:
  assumes "lift_out_of_list_tr r tr = Dispatched tr'" and "range_ok (tr_doc tr) r" and "tr_maps tr = []"
    and "first_child_is item (kids_at (tr_doc tr) (rg_from r) (rg_depth r))" and "item_type item"
    and "rg_to r \<le> end_at (tr_doc tr) (rg_from r) (rg_depth r)"
    and "rg_from r = rg_to r \<Longrightarrow> Suc (rg_depth r) < length (path_of (tr_doc tr) (rg_from r))"
  shows "keeps (tr_doc tr) (tr_doc tr')"
proof (cases "valid_doc (tr_doc tr)")
  case valid: True
  let ?c = "tr_doc tr" and ?d = "rg_depth r"
  let ?i = "start_index ?c r" and ?j = "end_index ?c r" and ?lo = "range_start ?c r" and ?hi = "range_end ?c r"
  obtain start nt a kids where e: "path_of ?c (rg_from r) ! ?d = (start, nt, a, kids)" by (cases "path_of ?c (rg_from r) ! ?d") auto
  have at: "kids_at ?c (rg_from r) ?d = kids" "type_at ?c (rg_from r) ?d = nt" "attrs_at ?c (rg_from r) ?d = a"
      "end_at ?c (rg_from r) ?d = start + frag_size kids"
    by (simp_all add: e kids_at_def type_at_def attrs_at_def end_at_def start_at_def)
  have d: "?d < length (path_of ?c (rg_from r))" "?d < length (path_of ?c (rg_to r))"
    and le: "rg_from r \<le> frag_size ?c" "rg_from r \<le> rg_to r" using assms(2) by (auto simp: range_ok_def)
  note p = path_nth [OF d(1) e le(1)]
  have kids: "list_all branch kids" "nt \<noteq> Doc"
    using list_kids [of nt kids item] p valid assms(4,5) at by (auto simp: valid_doc_def)
  have to: "start \<le> rg_to r" "rg_to r \<le> start + frag_size kids" using p le(2) assms(6) at by auto
  have e2: "path_of ?c (rg_to r) ! ?d = (start, nt, a, kids)" by (rule path_same [OF d(1) e to])
  have lo: "?lo = start + frag_size (take ?i kids)"
    using list_start [OF d(1) e kids(1)] p by (simp add: range_start_def start_index_def)
  have hi: "?hi = start + frag_size (take ?j kids)" "?j \<le> length kids"
    using list_end [OF d(2) e2 kids(1) to] by (simp_all add: range_end_def end_index_def)
  have "?lo < ?hi" using range_last(1) [OF assms(2) refl refl assms(7)] range_ordered [OF assms(2)] by simp
  then have ij: "?i < ?j" using lo hi take_size_mono [of ?j ?i kids] by (cases "?i < ?j") auto
  have "?d \<noteq> 0" using kids(2) e by (cases ?d) (auto simp: path_of_def)
  then obtain pre post where t: "tokens ?c = pre @ Open nt a # tokens kids @ Close # post" and s: "start = length pre + 1"
    using path_ends [of ?d ?c "rg_from r", OF _ d(1) e] by auto
  have rp: "range_parent ?c r = kids" by (simp add: range_parent_def at)
  from lift_out_steps [OF assms(1), unfolded rp at(2,3)] obtain tr1 n where
      m: "merge_items (map node_size (rev (take (?j - ?i - 1) (drop (?i + 1) kids)))) ?hi tr = Dispatched tr1"
    and n: "node_after ?lo (tr_doc tr1) = Some n" "mapped tr1 True ?hi = ?lo + node_size n"
    and st: "step_around (if ?i = 0 then ?lo - 1 else ?lo) (if ?j = length kids then ?lo + node_size n + 1 else ?lo + node_size n)
        (?lo + 1) (?lo + node_size n - 1)
        ((if ?i = 0 then [] else [Close]) @ (if ?j = length kids then [] else [Open nt a])) (if ?i = 0 then 0 else 1) False tr1 = Dispatched tr'"
    by blast
  from merged_kept [OF m t kids(1) ij hi(2)] lo hi(1) s assms(3) obtain n1 a1 where
      k: "keeps ?c (tr_doc tr1)"
    and f: "take (?lo + 1) (tokens (tr_doc tr1)) = (pre @ Open nt a # tokens (take ?i kids)) @ [Open n1 a1]"
    and b: "drop (?lo + node_size n) (tokens (tr_doc tr1)) = tokens (drop ?j kids) @ Close # post"
    using n(2) by auto
  have l: "?lo = length (pre @ Open nt a # tokens (take ?i kids))" using lo s by simp
  have wf: "well_formed (tr_doc tr1)" using k valid by (simp add: keeps_def valid_doc_def)
  from node_after_item [OF n(1) f l wf] obtain mid post1 where
      t1: "tokens (tr_doc tr1) = (pre @ Open nt a # tokens (take ?i kids)) @ Open n1 a1 # mid @ Close # post1"
    and z: "node_size n = length mid + 2" by auto
  have "drop (?lo + node_size n) (tokens (tr_doc tr1)) = drop (node_size n) (Open n1 a1 # mid @ Close # post1)"
    unfolding t1 l by (simp only: drop_append) simp
  then have "drop (?lo + node_size n) (tokens (tr_doc tr1)) = post1" by (simp add: z)
  then have p1: "post1 = tokens (drop ?j kids) @ Close # post" using b by simp
  have "keeps (tr_doc tr1) (tr_doc tr')"
    by (rule strip_kept [OF st t1 l]) (use z p1 p in auto)
  then show ?thesis using k keeps_trans by blast
qed (simp add: keeps_def)

section \<open>The command\<close>

lemma lift_items_kept:
  assumes "lift_list_item_tr (lift_items item) item s = Dispatched s'" and "item_type item"
  shows "keeps (content s) (content s')"
proof -
  obtain d where d: "block_range (first_child_is item) s = Some d" and l: "lift_items item d s = Dispatched s'"
    using assms(1) by (auto simp: lift_list_item_tr_def split: option.splits)
  let ?r = "\<lparr>rg_from = sel_from s, rg_to = sel_to s, rg_depth = d\<rparr>"
  note b = block_range_ok [OF d]
  have e: "rg_from ?r = rg_to ?r \<Longrightarrow> Suc (rg_depth ?r) < length (path_of (content s) (rg_from ?r))"
    using b(4) by (simp add: sel_empty_def)
  obtain tr' where t: "s' = tr_state tr'"
    and "lift_to_outer_list_tr item ?r (start_tr s) = Dispatched tr' \<or> lift_out_of_list_tr ?r (start_tr s) = Dispatched tr'"
    using l by (auto simp: lift_items_def Let_def split: if_splits)
  then have "keeps (content s) (tr_doc tr')"
    using lift_to_outer_kept [of item ?r "start_tr s" tr'] lift_out_kept [of ?r "start_tr s" tr' item] b(1-3) e assms(2)
    by (auto simp: start_tr_def)
  then show ?thesis by (simp add: t)
qed

lemma toggle_list_kept:
  assumes "toggle_list L s = Dispatched s'" and "L \<in> set list_nodes"
  shows "keeps (content s) (content s')"
proof -
  let ?item = "list_item_of L"
  have item: "item_type ?item" "\<not> leaf_type L" using assms(2) by (auto simp: item_type_def list_item_of_def list_nodes_def leaf_type_def)
  note lift = lift_items_kept [OF _ item(1)]
  consider "lift_list_item_tr (lift_items ?item) ?item s = Dispatched s'"
    | s1 s2 where "lift_list_item_tr (lift_items ?item) ?item s = Dispatched s1 \<or> s1 = s"
        "wrap_items L s1 = Dispatched s2" "join_around L s2 = Dispatched s'"
    using assms(1) by (auto simp: toggle_list_def toggle_list_cmd_def split: option.splits if_splits) blast+
  then show ?thesis
  proof cases
    case 1
    then show ?thesis by (rule lift)
  next
    case 2
    then have "keeps (content s) (content s1)" using lift by auto
    moreover have "keeps (content s1) (content s2)" using wrap_items_kept [OF 2(2) item(2)] .
    ultimately show ?thesis using join_around_kept [OF 2(3)] keeps_trans by blast
  qed
qed

text \<open>
  C13: A list button never loses, doubles or reorders what is written: after a press that is carried out, the
  characters, the line breaks, the pills and the images, with their marks, are those from before, in
  their order; only the nodes around them change.
\<close>

theorem list_press_keeps_content:
  assumes "toggle_list L s = Dispatched s'" and "L \<in> set list_nodes" and "valid_doc (content s)"
  shows "inline_tokens (content s') = inline_tokens (content s)"
  using toggle_list_kept [OF assms(1,2)] assms(3) by (simp add: keeps_def)

text \<open>Two lists with a paragraph between them, the cursor in the paragraph.\<close>

definition example_lists :: ed_state where
  "example_lists =
     (let para = \<lambda>x. NodeN Paragraph [] [] [TextN [Ch x] []]; list = \<lambda>n. NodeN Bullet_list [] [] [NodeN List_item [] [] [n]]
      in \<lparr>content = [list (para CHR ''a''), para CHR ''b'', list (para CHR ''c'')], sel = TextSel 9 9, stored_marks = None\<rparr>)"

lemma example_lists_toggle:
  "case toggle_list Ordered_list example_lists of Dispatched s' \<Rightarrow> content s' \<noteq> content example_lists | _ \<Rightarrow> False"
  by code_simp

theorem list_press_keeps_content_witness:
  "\<exists>s'. toggle_list Ordered_list example_lists = Dispatched s' \<and> content s' \<noteq> content example_lists
     \<and> inline_tokens (content s') = inline_tokens (content example_lists)"
proof -
  obtain s' where s: "toggle_list Ordered_list example_lists = Dispatched s'" "content s' \<noteq> content example_lists"
    using example_lists_toggle by (auto split: command_result.splits)
  have v: "valid_doc (content example_lists)" by code_simp
  have "Ordered_list \<in> set list_nodes" by (simp add: list_nodes_def)
  from list_press_keeps_content [OF s(1) this v] s show ?thesis by blast
qed

section \<open>Lists in quotes\<close>

text \<open>
  The command looks at the outermost node for the list it is to take away. The list button of a list
  inside a quote therefore does not take the list away: with the cursor in its first item it does
  nothing, and with several items selected it asks whether a node can be split at depth 0, which is an
  exception.
\<close>

definition example_quote :: ed_state where
  "example_quote =
     (let item = \<lambda>x. NodeN List_item [] [] [NodeN Paragraph [] [] [TextN [Ch x] []]]
      in \<lparr>content = [NodeN Blockquote [] [] [NodeN Bullet_list [] [] [item CHR ''a'', item CHR ''b'']]],
         sel = TextSel 4 9, stored_marks = None\<rparr>)"

lemma split_at_depth_0: "can_split c pos 0 \<noteq> Dispatched True"
  by (simp add: can_split_def Let_def)

theorem list_in_quote_raises:
  "toggle_list Bullet_list example_quote = Raised
   \<and> toggle_list Bullet_list (example_quote\<lparr>sel := TextSel 4 4\<rparr>) = Refused"
  by code_simp

end
