(* ===== verification/Editor_Types.thy ===== *)
theory Editor_Types
  imports Prose_Kept Text_Editor
begin

text \<open>
  The schema as a type of documents: what the buttons, the pills, the input rules and the search pill of the
  text editor make of a document of the schema is one again.
\<close>

section \<open>Changes inside a block of text\<close>

fun inline_ok :: "pm \<Rightarrow> bool" where
  "inline_ok (TextN s ms) \<longleftrightarrow> s \<noteq> []"
| "inline_ok (NodeN nt a ms c) \<longleftrightarrow> leaf_type nt \<and> c = []"

lemma leaf_valid: "leaf_type nt \<Longrightarrow> valid_content nt c \<longleftrightarrow> c = []"
  by (cases c; cases "hd c") (auto simp: leaf_type_def valid_content_def needs_content_def textblock_def)

lemma inline_content:
  assumes "textblock nt"
  shows "valid_content nt c \<and> conforms c \<and> well_formed c \<longleftrightarrow> list_all inline_ok c"
proof (induction c)
  case Nil
  then show ?case using assms by (auto simp: valid_content_def needs_content_def textblock_def)
next
  case (Cons n ns)
  have kid: "k \<in> set (content_types nt) \<longleftrightarrow> leaf_type k" for k
    using assms by (auto simp: textblock_def inline_group_def leaf_type_def)
  have "valid_content nt (n # ns) \<longleftrightarrow> kid_ok nt n \<and> valid_content nt ns"
    using assms by (auto simp: valid_content_def needs_content_def textblock_def)
  then show ?case using Cons assms kid by (cases n) (auto simp: leaf_valid)
qed

lemma cut_ok:
  "list_all inline_ok c \<Longrightarrow> lo < hi \<or> hi = 0 \<or> frag_size c \<le> lo \<Longrightarrow> list_all inline_ok (cut lo hi c)"
proof (induction c arbitrary: lo hi rule: frag_induct)
  case (Text s ms ns)
  have "lo - length s < hi - length s \<or> hi - length s = 0 \<or> frag_size ns \<le> lo - length s" using Text.prems(2) by auto
  with Text show ?case by auto
next
  case (Node nt a ms c ns)
  have "lo - 1 < hi - 1 \<or> hi - 1 = 0 \<or> frag_size ns \<le> lo - 1" using Node.prems by auto
  with Node show ?case by (auto simp: Let_def)
qed simp

lemma append_frag_ok:
  assumes "list_all inline_ok c" and "list_all inline_ok d"
  shows "list_all inline_ok (append_frag c d)"
proof (cases "c = [] \<or> d = []")
  case True
  then show ?thesis using assms by (auto simp: append_frag_def)
next
  case False
  then obtain c' x y d' where cd: "c = c' @ [x]" "d = y # d'" by (metis list.exhaust rev_exhaust)
  show ?thesis using assms unfolding cd by (cases x; cases y) (auto simp: append_frag_def)
qed

lemma replace_in_ok:
  "replace_in lo hi ins c = Some d \<Longrightarrow> list_all inline_ok ins \<Longrightarrow> conforms c \<Longrightarrow> well_formed c \<Longrightarrow>
    conforms d \<and> well_formed d \<and> kinds d = kinds c"
proof (induction c arbitrary: lo hi d rule: frag_induct)
  case (Text s ms ns)
  then show ?case by (auto split: if_splits)
next
  case (Node nt a ms c ns)
  let ?n = "NodeN nt a ms c"
  note prems = Node.prems
  show ?case
  proof (cases "\<not> leaf_type nt \<and> 0 < lo \<and> hi < node_size ?n")
    case in_node: True
    show ?thesis
    proof (cases "textblock nt")
      case True
      let ?d = "append_frag (append_frag (cut 0 (lo - 1) c) ins) (cut (hi - 1) (frag_size c) c)"
      have d: "d = NodeN nt a ms ?d # ns" using prems(1) in_node True by (auto split: if_splits)
      have c: "list_all inline_ok c" using prems(3,4) inline_content [OF True, of c] by simp
      have "list_all inline_ok (cut 0 (lo - 1) c)" by (rule cut_ok [OF c]) auto
      moreover have "list_all inline_ok (cut (hi - 1) (frag_size c) c)" by (rule cut_ok [OF c]) auto
      ultimately have "list_all inline_ok ?d" using prems(2) append_frag_ok by blast
      then show ?thesis using inline_content [OF True, of ?d] prems in_node by (simp add: d)
    next
      case False
      with prems(1) in_node obtain c' where c': "replace_in (lo - 1) (hi - 1) ins c = Some c'" "d = NodeN nt a ms c' # ns"
        by (auto split: if_splits)
      have "conforms c' \<and> well_formed c' \<and> kinds c' = kinds c" using Node.IH(1) [OF c'(1) prems(2)] prems(3,4) by simp
      then show ?thesis using prems c'(2) in_node valid_content_alike [of c' c nt] by simp
    qed
  next
    case False
    with prems(1) obtain ns' where "replace_in (lo - node_size ?n) (hi - node_size ?n) ins ns = Some ns'" "d = ?n # ns'"
      by (auto simp: Let_def split: if_splits)
    with Node.IH(2) [OF this(1) prems(2)] prems(3,4) show ?thesis by simp
  qed
qed simp

lemma valid_replace: "replace_in lo hi ins c = Some d \<Longrightarrow> list_all inline_ok ins \<Longrightarrow> valid_doc c \<Longrightarrow> valid_doc d"
  using replace_in_ok [of lo hi ins c d] valid_content_alike [of d c Doc] by (simp add: valid_doc_def)

lemma set_attribute_ok:
  "set_node_attribute pos k v c = Some d \<Longrightarrow> conforms c \<Longrightarrow> well_formed c \<Longrightarrow> conforms d \<and> well_formed d \<and> kinds d = kinds c"
proof (induction c arbitrary: pos d rule: frag_induct)
  case (Text s ms ns)
  then show ?case by (auto split: if_splits)
next
  case (Node nt a ms c ns)
  let ?n = "NodeN nt a ms c"
  note prems = Node.prems
  consider "pos = 0" | "pos \<noteq> 0" "pos < node_size ?n" | "pos \<noteq> 0" "\<not> pos < node_size ?n" by blast
  then show ?case
  proof cases
    case 1
    with prems show ?thesis by (auto simp: Let_def)
  next
    case 2
    then have leaf: "\<not> leaf_type nt" by auto
    with 2 prems(1) obtain c' where c': "set_node_attribute (pos - 1) k v c = Some c'" "d = NodeN nt a ms c' # ns"
      by (auto simp: Let_def)
    have "conforms c' \<and> well_formed c' \<and> kinds c' = kinds c" using Node.IH(1) [OF c'(1)] prems(2,3) by simp
    then show ?thesis using prems c'(2) leaf valid_content_alike [of c' c nt] by simp
  next
    case 3
    with prems(1) obtain ns' where "set_node_attribute (pos - node_size ?n) k v ns = Some ns'" "d = ?n # ns'"
      by (auto simp: Let_def split: if_splits)
    with Node.IH(2) [OF this(1)] prems(2,3) show ?thesis by simp
  qed
qed simp

lemma valid_attribute: "set_node_attribute pos k v c = Some d \<Longrightarrow> valid_doc c \<Longrightarrow> valid_doc d"
  using set_attribute_ok [of pos k v c d] valid_content_alike [of d c Doc] by (simp add: valid_doc_def)

section \<open>Moving a pill\<close>

text \<open>Whether a position is in a block of text, and the children of a block that takes blocks.\<close>

definition in_text :: "pm list \<Rightarrow> nat \<Rightarrow> bool" where
  "in_text c p \<longleftrightarrow> textblock (type_at c p (depth_of c p))"

lemma in_text_last: "in_text c p \<longleftrightarrow> ancestors 0 p c \<noteq> [] \<and> textblock (fst (snd (last (ancestors 0 p c))))"
  by (cases "ancestors 0 p c = []")
    (auto simp: in_text_def type_at_def depth_of_def path_of_def textblock_def last_conv_nth nth_Cons' split: prod.splits)

lemma flat_inline: "list_all inline_ok c \<Longrightarrow> p \<le> frag_size c \<Longrightarrow> flat_at p c"
  by (induction c arbitrary: p rule: frag_induct) auto

definition block_kids :: "pm list \<Rightarrow> bool" where
  "block_kids c \<longleftrightarrow> list_all (\<lambda>n. case type_of_node n of Some t \<Rightarrow> \<not> leaf_type t | None \<Rightarrow> False) c"

lemma block_content: "valid_content nt c \<Longrightarrow> \<not> textblock nt \<Longrightarrow> block_kids c"
  unfolding valid_content_def block_kids_def list_all_iff
proof (intro ballI)
  fix n
  assume *: "(\<forall>n\<in>set c. kid_ok nt n) \<and> (needs_content nt \<longrightarrow> c \<noteq> [])" "\<not> textblock nt" "n \<in> set c"
  then have "kid_ok nt n" by blast
  with *(2) show "case type_of_node n of Some t \<Rightarrow> \<not> leaf_type t | None \<Rightarrow> False"
    by (cases n; cases nt) (auto simp: textblock_def block_group_def leaf_type_def)
qed

lemma no_ancestors_inline: "list_all inline_ok c \<Longrightarrow> ancestors b p c = []"
  by (induction c arbitrary: b p rule: frag_induct) (auto simp: Let_def)

lemma replace_in_text:
  "conforms c \<Longrightarrow> well_formed c \<Longrightarrow> block_kids c \<Longrightarrow> list_all inline_node ins
    \<Longrightarrow> ancestors b p c \<noteq> [] \<Longrightarrow> textblock (fst (snd (last (ancestors b p c)))) \<Longrightarrow> replace_in p p ins c \<noteq> None"
proof (induction c arbitrary: b p rule: frag_induct)
  case (Node nt a ms c ns)
  have l: "\<not> leaf_type nt" using Node.prems(3) by (simp add: block_kids_def)
  have ns: "block_kids ns" using Node.prems(3) by (simp add: block_kids_def)
  show ?case
  proof (cases "p \<noteq> 0 \<and> p < node_size (NodeN nt a ms c)")
    case True
    show ?thesis
    proof (cases "textblock nt")
      case tb: True
      then have "list_all inline_ok c" using inline_content [OF tb, of c] Node.prems(1,2) l by simp
      then show ?thesis using True tb l Node.prems(4) flat_inline [of c "p - 1"] by (auto simp: Let_def)
    next
      case False
      then have "block_kids c" using block_content [OF _ False] Node.prems(1) by simp
      moreover have "ancestors (b + 1) (p - 1) c \<noteq> []" "textblock (fst (snd (last (ancestors (b + 1) (p - 1) c))))"
        using Node.prems(6) True False by (auto simp: Let_def split: if_splits)
      ultimately show ?thesis using Node.IH(1) [of "b + 1" "p - 1"] Node.prems(1,2,4) True False l by (simp add: Let_def)
    qed
  next
    case False
    then show ?thesis using Node.IH(2) [of "b + node_size (NodeN nt a ms c)" "p - node_size (NodeN nt a ms c)"] Node.prems ns l
      by (auto simp: Let_def split: if_splits)
  qed
qed (auto simp: block_kids_def)

lemma remove_leaf:
  "conforms c \<Longrightarrow> well_formed c \<Longrightarrow> block_kids c \<Longrightarrow> p < frag_size c \<Longrightarrow> tokens c ! p = Leaf k a ms
    \<Longrightarrow> replace_in p (p + 1) [] c \<noteq> None"
proof (induction c arbitrary: p rule: frag_induct)
  case (Node nt b ms' c ns)
  have l: "\<not> leaf_type nt" using Node.prems(3) by (simp add: block_kids_def)
  have ns: "block_kids ns" using Node.prems(3) by (simp add: block_kids_def)
  have p0: "p \<noteq> 0" using Node.prems(5) l by (cases p) auto
  have pn: "p \<noteq> Suc (frag_size c)" using Node.prems(5) l by (auto simp: nth_append)
  show ?case
  proof (cases "p < Suc (frag_size c)")
    case True
    have "p - 1 < frag_size c" using True p0 by linarith
    then have t: "tokens c ! (p - 1) = Leaf k a ms" using Node.prems(5) l True p0 by (simp add: nth_append nth_Cons')
    show ?thesis
    proof (cases "textblock nt")
      case tb: True
      then have "list_all inline_ok c" using inline_content [OF tb, of c] Node.prems(1,2) l by simp
      then show ?thesis using True tb l p0 flat_inline [of c "p - 1"] flat_inline [of c p] by (simp add: Let_def)
    next
      case False
      then have "block_kids c" using block_content [OF _ False] Node.prems(1) by simp
      then show ?thesis using Node.IH(1) [of "p - 1"] Node.prems(1,2) True False l t p0 by (simp add: Let_def)
    qed
  next
    case False
    then have p: "Suc (Suc (frag_size c)) \<le> p" using pn by simp
    then obtain q where q: "p = Suc (Suc (frag_size c + q))" by (metis add_Suc le_Suc_ex)
    have t: "tokens ns ! (p - (2 + frag_size c)) = Leaf k a ms" using Node.prems(5) l by (simp add: q nth_append)
    then show ?thesis using Node.IH(2) [of "p - (2 + frag_size c)"] Node.prems(1-4) ns l by (simp add: q Let_def)
  qed
qed (auto simp: block_kids_def)



section \<open>Every change\<close>

text \<open>The list command as the buttons run it: an exception leaves the document as it is.\<close>

definition list_command :: "node_type \<Rightarrow> ed_state \<Rightarrow> ed_state option" where
  "list_command L s = (case toggle_list L s of Dispatched s' \<Rightarrow> Some s' | _ \<Rightarrow> None)"

text \<open>What the menu offers.\<close>

fun offered :: "editor_action \<Rightarrow> bool" where
  "offered (ToggleList L) \<longleftrightarrow> L \<in> set list_nodes"
| "offered a \<longleftrightarrow> True"

text \<open>
  The changes: a button of the menu, a new selection, text that is typed, an input rule, a pill that is
  dropped or moved, the entity of a pill that is refreshed, and what becomes of a search pill.
\<close>

inductive edit_step :: "ed_state \<Rightarrow> ed_state \<Rightarrow> bool" where
  pressed: "offered a \<Longrightarrow> edit_step s (snd (run_action list_command a m s))"
| selected: "edit_step s (s\<lparr>sel := x\<rparr>)"
| typed: "t \<noteq> [] \<Longrightarrow> insert_text t s = Some s' \<Longrightarrow> edit_step s s'"
| ruled: "run_rules s start to t = Some (NewState s') \<Longrightarrow> edit_step s s'"
| dropped: "insert_pill_cmd pos ev (content s) = Inr (Edited d) \<Longrightarrow> edit_step s (s\<lparr>content := d\<rparr>)"
| moved: "move_pill_cmd drag drp ev (content s) = Inr (Edited d) \<Longrightarrow> edit_step s (s\<lparr>content := d\<rparr>)"
| refreshed: "host_connected r pos (content s) = (failed, Some d, fx) \<Longrightarrow> edit_step s (s\<lparr>content := d\<rparr>)"
| searched: "search_keydown key input pos s = (Some s', fx) \<Longrightarrow> edit_step s s'"
| chosen: "select_item ty v pos s = Inr (Some s', fx) \<Longrightarrow> edit_step s s'"

lemma pill_ok: "list_all inline_ok [pill_node a]" "list_all inline_ok [search_pill]" "list_all inline_ok []"
  by (simp_all add: pill_node_def search_pill_def leaf_type_def)

lemma valid_insert: "insert_text t s = Some s' \<Longrightarrow> t \<noteq> [] \<Longrightarrow> valid_doc (content s) \<Longrightarrow> valid_doc (content s')"
  by (auto simp: insert_text_def intro: valid_replace)

lemma valid_command:
  "(\<And>s'. cmd s = Some s' \<Longrightarrow> valid_doc (content s')) \<Longrightarrow> valid_doc (content s) \<Longrightarrow> valid_doc (content (do_command [cmd] s))"
  by (cases "cmd s") (simp_all add: do_command_def)

lemma valid_action:
  assumes "valid_doc (content s)" and "offered a"
  shows "valid_doc (content (snd (run_action list_command a m s)))"
proof (cases a)
  case (ToggleList L)
  have "valid_doc (content s')" if "list_command L s = Some s'" for s'
    using that toggle_list_kept [of L s s'] assms ToggleList
    by (auto simp: list_command_def keeps_def split: command_result.splits)
  then show ?thesis using ToggleList assms(1) valid_command by (simp add: run_action_def)
next
  case (ToggleMark t)
  then show ?thesis using assms(1) valid_command valid_toggle_mark by (simp add: run_action_def)
next
  case (MakeHeadline l)
  then show ?thesis using assms(1) valid_command valid_headline by (simp add: run_action_def)
qed (use assms(1) valid_press in \<open>simp_all add: run_action_def\<close>)

lemma valid_at: "replace_at lo hi ins c = Edited d \<Longrightarrow> list_all inline_ok ins \<Longrightarrow> valid_doc c \<Longrightarrow> valid_doc d"
  by (auto simp: replace_at_def intro: valid_replace split: if_splits option.splits)

lemma emphasis_text_nonempty: "emphasis_match q t = Some (i, n, c, m) \<Longrightarrow> c \<noteq> []"
proof (induction q t arbitrary: i rule: emphasis_match.induct)
  case (2 q u us)
  then show ?case by (auto simp: emphasis_at_def Let_def split: option.splits if_splits)
qed simp

lemma valid_emphasis:
  assumes "emphasis_rule q s t start to = Some (NewState s')" and "valid_doc (content s)"
  shows "valid_doc (content s')"
proof -
  obtain i n c m d where m: "emphasis_match q t = Some (i, n, c, m)"
    and d: "replace_in start to [TextN c (emphasis_marks n)] (content s) = Some d" "content s' = d"
    using assms(1) by (auto simp: emphasis_rule_def split: option.splits if_splits)
  have "list_all inline_ok [TextN c (emphasis_marks n)]" using emphasis_text_nonempty [OF m] by simp
  then show ?thesis using valid_replace [OF d(1)] assms(2) d(2) by simp
qed

lemma valid_search:
  assumes "search_rule s t start to = Some (NewState s')" and "valid_doc (content s)"
  shows "valid_doc (content s')"
proof -
  obtain s1 d where s1: "(if start < to then insert_text (chs '' '') s else Some s) = Some s1"
    and d: "replace_in to to [search_pill] (content s1) = Some d" "content s' = d"
    using assms(1) by (auto simp: search_rule_def split: if_splits option.splits)
  have "valid_doc (content s1)" using s1 valid_insert [of "chs '' ''" s s1] assms(2) by (auto split: if_splits)
  then show ?thesis using valid_replace [OF d(1) pill_ok(2)] d(2) by simp
qed

lemma first_some_in: "first_some rs = Some x \<Longrightarrow> Some x \<in> set rs"
  by (induction rs rule: first_some.induct) auto

lemma no_block_rule:
  "heading_rule s t lo hi \<noteq> Some (NewState s')" "ordered_rule s t lo hi \<noteq> Some (NewState s')"
  "bullet_rule s t lo hi \<noteq> Some (NewState s')" "task_rule s t lo hi \<noteq> Some (NewState s')"
  "pre_rule s t lo hi \<noteq> Some (NewState s')" "quote_rule s t lo hi \<noteq> Some (NewState s')"
  by (auto simp: heading_rule_def ordered_rule_def bullet_rule_def task_rule_def pre_rule_def quote_rule_def)

lemma valid_rules:
  assumes "run_rules s start to t = Some (NewState s')" and "valid_doc (content s)"
  shows "valid_doc (content s')"
proof -
  from first_some_in [OF assms(1) [unfolded run_rules_def Let_def]]
  have "(\<exists>q t lo. emphasis_rule q s t lo to = Some (NewState s')) \<or> (\<exists>t lo. search_rule s t lo to = Some (NewState s'))"
    unfolding list.set insert_iff empty_iff by (simp only: no_block_rule [symmetric] simp_thms) metis
  then show ?thesis using valid_emphasis valid_search assms(2) by blast
qed

lemma valid_remove_search: "remove_search_pill_tr p s = Some s' \<Longrightarrow> valid_doc (content s) \<Longrightarrow> valid_doc (content s')"
  by (auto simp: remove_search_pill_tr_def intro: valid_replace split: option.splits prod.splits pm.splits node_type.splits)

lemma valid_search_key:
  assumes "search_keydown key input pos s = (Some s', fx)" and "valid_doc (content s)"
  shows "valid_doc (content s')"
proof -
  have "remove_node_and_leave_at pos s = Some s' \<or> remove_node False pos s = Some s'"
    using assms(1) by (auto simp: search_keydown_def Let_def split: if_splits)
  then show ?thesis
    using assms(2) valid_remove_search valid_insert [of "chs ''@''"]
    by (auto simp: remove_node_and_leave_at_def remove_node_def bind_eq_Some_conv split: option.splits)
qed

lemma valid_choice:
  assumes "select_item ty v pos s = Inr (Some s', fx)" and "valid_doc (content s)"
  shows "valid_doc (content s')"
  using assms pill_ok(1)
  by (auto simp: select_item_def create_pill_from_value_def Let_def intro: valid_replace split: option.splits sum.splits if_splits)

lemma valid_step: "edit_step s s' \<Longrightarrow> valid_doc (content s) \<Longrightarrow> valid_doc (content s')"
proof (induction rule: edit_step.induct)
  case (dropped pos ev s d)
  then show ?case using valid_at pill_ok by (auto simp: insert_pill_cmd_def split: sum.splits)
next
  case (moved drag drp ev s d)
  then show ?case using valid_at pill_ok by (auto simp: move_pill_cmd_def bind_edit_Edited split: sum.splits)
next
  case (refreshed r pos s failed d fx)
  then show ?case by (auto simp: host_connected_def update_pill_entity_def intro: valid_attribute split: refresh.splits option.splits)
qed (auto intro: valid_action valid_insert valid_rules valid_search_key valid_choice)


lemma example_lists_pressed:
  "case list_command Ordered_list example_lists of None \<Rightarrow> False | Some s1 \<Rightarrow>
     (case insert_text (chs ''x'') s1 of None \<Rightarrow> False | Some s2 \<Rightarrow> content s2 \<noteq> content s1)"
  by code_simp


end
