(* ===== verification/Spec2Isabelle.thy ===== *)
theory Spec2Isabelle
  imports Xas Datacell Wasm Positioning Pivot_Events Api Notification Notebook Utils Flags Forms
    Schedules Datasources Datasource_List Source_Lists Search Prose Prose_Commands Markdown
    Text_Editor Smart_Cursor Old_Editors Pivots Frameworks Small_Elements Prose_Schema
    Content_Match Prose_Steps Prose_Lists Prose_Paths Prose_Kept Editor_Types
begin

text \<open>
  A verification of the browser part of the security hub (\<open>src/rx-browser\<close>), the JavaScript that
  shows notebooks and runs the Go engine of their cells.

  \<^bold>\<open>The program.\<close> A page shows a notebook (\<open>webc/notebook-body.js\<close>), a list of cells. Each cell is
  a custom element (\<open>webc/datacell.js\<close>) around a Go program compiled to WebAssembly, which is run
  through \<open>webc/wasm_exec.mjs\<close>. The engine draws by sending a byte code to \<open>buildView\<close>, the view
  machine; events of the document are located (\<open>webc/coordinates.js\<close>, \<open>webc/positioning.js\<close>) and
  passed to the engine with the generation of the view they were raised in. Pivots, cells,
  sources and files are dragged between the elements (\<open>webc/pivot-events.js\<close>,
  \<open>webc/notebook-body-events.js\<close>). Around this are the search panel (\<open>webc/search.js\<close>), the cards
  and lists of data sources (\<open>webc/datasource.js\<close>, \<open>webc/datasource-list.js\<close>,
  \<open>webc/datasource-replace.js\<close>, \<open>webc/notebook-datasources.js\<close>), the schedules
  (\<open>webc/schedule-form.js\<close>, \<open>webc/schedule-item.js\<close>), forms and notifications, and the helpers of
  \<open>utils/\<close>. The texts of a notebook and of its cells are edited in a structured document; that
  editor exists only in the bundle the server delivers (\<open>rx-browser/components.js\<close>), on top of a
  document library that is bundled with it.

  \<^bold>\<open>The theories.\<close>
    \<^item> \<open>Prelude\<close>: JSON values, requests, responses and the effects of a handler; the string and array
      functions of the standard library, with their laws (\<open>parseInt\<close> reads what \<open>toString\<close> writes).
    \<^item> \<open>Template\<close>: what a component renders, with the handlers of its elements.
    \<^item> \<open>Listeners\<close>: registration of event listeners; the interfaces \<open>registry\<close> and \<open>lifecycle\<close>.
    \<^item> \<open>Dom\<close>: the document as a forest of nodes, with the operations the view machine uses.
    \<^item> \<open>Xas\<close>: the view machine, \<open>buildView\<close>. An abstract view (a tree of elements, texts and kept
      nodes) is compiled to instructions and these to bytes; running them shows that view and
      nothing else, keeps every node once, and counts the generations.
    \<^item> \<open>Datacell\<close>: the state of a cell, one definition per handler (up to an \<open>await\<close>, and after it),
      and the step relation of its events, the engine and the scheduler, with its reachable states.
    \<^item> \<open>Wasm_Memory\<close>, \<open>Wasm_Refs\<close>, \<open>Wasm\<close>: the memory of the engine (interface \<open>word_memory\<close>), its
      table of references to JavaScript values (interface \<open>ref_table\<close>), and the imports, the
      command line, the timers and the exit of the class \<open>Go\<close>.
    \<^item> \<open>Positioning\<close>: places for floating blocks, the distance to a box, and the entity under the
      pointer.
    \<^item> \<open>Pivot_Events\<close>, \<open>Notebook_Events\<close>: what is dragged, and uploads.
    \<^item> \<open>Api\<close>, \<open>Notification\<close>: the two requests that are shared, and the notifications.
    \<^item> \<open>Notebook\<close>: the cells of a notebook and their layout, saving, snapshots, and the page.
    \<^item> \<open>Utils\<close>: class names and rate limiting (interface \<open>rate_limiter\<close>, interpreted by \<open>throttle\<close>
      and by \<open>debounce\<close>); \<open>Flags\<close>: the feature flags, as traces of calls and responses.
    \<^item> \<open>Forms\<close>: the inputs of a form (interface \<open>input_source\<close>), inline forms, submitters, alerts.
    \<^item> \<open>Schedules\<close>: the forms for schedules with the parser of the server (\<open>internal/iso8601\<close>) that
      reads them, and the choice of the action in \<open>hub/schedule.go\<close>.
    \<^item> \<open>Datasources\<close>, \<open>Datasource_List\<close>, \<open>Source_Lists\<close>: cards, tabs and pages of cards, duplicates,
      the searchable list of streams and the dialog that replaces sources.
    \<^item> \<open>Search\<close>: the search panel, with its delay and its answers in any order.
    \<^item> \<open>Prose\<close>: the document of the text editor, a tree with its schema and marks, and the operations
      on it; each is shown to be a list operation on the sequence of what the positions count.
    \<^item> \<open>Prose_Commands\<close>: the commands of the toolbar: colours, emphasis, headings, lists.
    \<^item> \<open>Markdown\<close>: the input rules, with their patterns as functions on the text before the cursor.
    \<^item> \<open>Pills\<close>: the entities inside a text: dragging, the search pill, refreshing, and the views of the
      nodes that have one of their own, the box of a task among them.
    \<^item> \<open>Clipboard\<close>: the elements of nodes and marks, and the rules that read them back.
    \<^item> \<open>Text_Editor\<close>: the element of the editor: mouse, focus and menu; reading and saving, as a step
      relation with a clock and timers that may run late; buttons and keys.
    \<^item> \<open>Prose_Schema\<close>: what may be inside what, the documents that conform, and reading a document
      back from its sequence; \<open>Prose_Steps\<close>: positions, the steps of a transaction and their maps, and
      what fits where; \<open>Prose_Lists\<close>: wrapping, joining and lifting of lists, and the list command.
    \<^item> \<open>Content_Match\<close>: the content expressions of the schema: tokens, parser, automaton and matching;
      what they accept is what \<open>Prose_Schema\<close> says.
    \<^item> \<open>Prose_Paths\<close>: the nodes around a position, seen on the sequence; \<open>Prose_Kept\<close>: the list command
      keeps what is written and the schema; \<open>Editor_Types\<close>: so does every other change, as a step
      relation of what a user does in the editor.
    \<^item> \<open>Smart_Cursor\<close>: the cursor that is drawn beside the text, with its hints, and the tooltip.
    \<^item> \<open>Old_Editors\<close>: the two older editors, over a library of documents that is an argument: menus,
      colours, reading and saving as a step relation, their schema as elements, and the tooltip.
    \<^item> \<open>Pivots\<close>: the elements that show and take pivots, with the registers of drags in progress
      (interface \<open>drag_state\<close>); \<open>Frameworks\<close>: audits and frameworks; \<open>Small_Elements\<close>: the remaining
      elements and helpers, and the streams of the engine.

  \<^bold>\<open>How the code is modelled.\<close> A class with its fields is a record; a method that runs to its end is
  a function from the record and the arguments to the record and the list of its effects, in order;
  a method that awaits is two functions, with the awaited value as an argument of the second. An
  exception is a value. What the browser or a library answers (the elements at a point, the values
  of \<open>Reflect\<close>, time zones, dates as text) is an argument. Strings are those of the ASCII range.
  Coordinates are real numbers. The numbers of the engine's memory are words of their width; the
  integers of \<open>getInt64\<close> are exact, as the code's are where a number can hold them.

  \<^bold>\<open>Loops.\<close> The view machine and the parsers recurse on what is left of their input, with measures;
  the search for wrappers around a node (\<open>computeWrapping\<close>) ends because it tries every type once;
  the loop of \<open>scheduleTimeoutEvent\<close>, which may run for ever, is a partial function, and it is shown to
  end when the engine takes its timer after finitely many resumptions; so are the searches through
  the automaton of a content expression, which end for the schema (\<open>parsed_schema_is_the_model\<close>).
  Only the parser of content expressions has fuel, three times the tokens and three, which is
  always enough (\<open>content_is_parsed\<close>).

  \<^bold>\<open>The properties\<close> C1 to C37 are in the theories of the components they are about, each under a text with its
  number: the view machine (C1 to C4), the data cell (C5 to C6), the bridge to the engine (C7 to
  C9), the notebook (C10 to C12), the text editor (C13 to C27), the old editors (C28), pivots
  (C29), frameworks (C30), small elements (C31), schedules (C32), search (C33), positions (C34 to
  C35), flags and rates (C36), data sources (C37). Some of them state what the code does where it
  is not what it means to do.

  \<^bold>\<open>Not modelled.\<close> The icons, the routes and the style sheets; the TypeScript sources, which are
  compiled to the files modelled here; the Go server, apart from what reads the schedules;
  third-party code, also the parts of the document library in the bundle \<open>components.js\<close> that the
  modelled commands do not call. Functions that a file imports and no file has
  (\<open>getPivotCreationData\<close>, \<open>hasDefinition\<close>, the schema of the oldest editor) are arguments.
\<close>

end
